(* ===== verification/Prelude.thy ===== *)
theory Prelude
  imports
    Complex_Main
    "HOL-Library.AList"
    "HOL-Library.Multiset"
    "HOL-Library.Product_Lexorder"
begin

section \<open>JavaScript building blocks shared by the component theories\<close>

text \<open>
  What the components use of the language and of its standard library.

  \<^item> A thrown exception is a value of \<open>js_error\<close>: the class of the error, its \<open>code\<close> property
    (empty for a plain \<open>Error\<close>) and its message. A function that may throw returns
    \<open>js_error + 'a\<close>; \<open>Inl\<close> is the throw.
  \<^item> A JavaScript \<open>Map\<close> keeps its keys in insertion order and an overwrite keeps the position of
    the key. \<open>AList.update\<close> and \<open>AList.delete\<close> have exactly this behaviour on an association list
    with distinct keys, so a \<open>Map\<close> is a \<open>('k, 'v) jmap\<close>.
  \<^item> A plain object used as a dictionary enumerates array-index keys first, in ascending order,
    and the other keys in insertion order: \<open>obj_entries\<close>.
  \<^item> \<open>Array.prototype.sort\<close> is stable: \<open>sort_key\<close> of HOL.
\<close>

subsection \<open>Exceptions\<close>

datatype error_class =
    PlainError
  | RangeErrorClass
  | OperationRejectedError
  | OperationCacheErrorClass
  | SessionControlErrorClass
  | SessionBindingErrorClass
  | InteractionResponseErrorClass
  | UnsupportedCapabilityError
  | AgentBusyErrorClass
  | TunnelErrorClass
  | SyntaxErrorClass
  | RuntimeErrorClass

datatype js_error = Thrown (err_class: error_class) (err_code: string) (err_message: string)

type_synonym 'a js_result = "js_error + 'a"

abbreviation throw_plain :: "string \<Rightarrow> 'a js_result" where
  "throw_plain m \<equiv> Inl (Thrown PlainError [] m)"

named_theorems js_simps \<open>rewrite rules for the JavaScript library functions\<close>

subsection \<open>Optional values\<close>

text \<open>\<open>new ?? old\<close>, and the truth value of an optional string.\<close>

definition or_else :: "'a option \<Rightarrow> 'a option \<Rightarrow> 'a option" where
  "or_else new old = (case new of None \<Rightarrow> old | Some v \<Rightarrow> Some v)"

definition truthy :: "string option \<Rightarrow> bool" where
  "truthy s \<longleftrightarrow> s \<noteq> None \<and> s \<noteq> Some []"

lemma or_else_simps [simp, js_simps]: "or_else None b = b" "or_else (Some a) b = Some a"
  by (simp_all add: or_else_def)

subsection \<open>Arrays\<close>

text \<open>\<open>xs.at(-1)\<close>, \<open>xs[0]\<close> and \<open>xs.slice(-n)\<close> for a positive \<open>n\<close>.\<close>

definition at_last :: "'a list \<Rightarrow> 'a option" where
  "at_last xs = (if xs = [] then None else Some (last xs))"

definition at_first :: "'a list \<Rightarrow> 'a option" where
  "at_first xs = (case xs of [] \<Rightarrow> None | x # _ \<Rightarrow> Some x)"

definition slice_last :: "nat \<Rightarrow> 'a list \<Rightarrow> 'a list" where
  "slice_last n xs = drop (length xs - n) xs"

lemma at_last_Nil [simp, js_simps]: "at_last [] = None"
  by (simp add: at_last_def)

lemma at_last_snoc [simp, js_simps]: "at_last (xs @ [x]) = Some x"
  by (simp add: at_last_def)

lemma at_last_None_iff [simp]: "at_last xs = None \<longleftrightarrow> xs = []"
  by (simp add: at_last_def)

lemma at_last_SomeE:
  assumes "at_last xs = Some x"
  obtains ys where "xs = ys @ [x]"
  using assms by (cases xs rule: rev_cases) auto

lemma at_first_Nil [simp, js_simps]: "at_first [] = None"
  by (simp add: at_first_def)

lemma at_first_Cons [simp, js_simps]: "at_first (x # xs) = Some x"
  by (simp add: at_first_def)

lemma slice_last_all [simp]: "length xs \<le> n \<Longrightarrow> slice_last n xs = xs"
  by (simp add: slice_last_def)

lemma length_slice_last: "length (slice_last n xs) = min n (length xs)"
  by (simp add: slice_last_def)

lemma slice_last_Nil: "1 \<le> n \<Longrightarrow> slice_last n xs = [] \<longleftrightarrow> xs = []"
  by (cases xs) (auto simp: slice_last_def)

lemma slice_last_suffix: "\<exists>ys. xs = ys @ slice_last n xs"
  by (metis append_take_drop_id slice_last_def)

text \<open>
  \<open>xs.findIndex(P)\<close> and the search from the end that the code writes as a descending loop.
\<close>

fun find_index :: "('a \<Rightarrow> bool) \<Rightarrow> 'a list \<Rightarrow> nat option" where
  "find_index P [] = None"
| "find_index P (x # xs) = (if P x then Some 0 else map_option Suc (find_index P xs))"

fun find_last_index :: "('a \<Rightarrow> bool) \<Rightarrow> 'a list \<Rightarrow> nat option" where
  "find_last_index P [] = None"
| "find_last_index P (x # xs) =
     (case find_last_index P xs of
        Some i \<Rightarrow> Some (Suc i)
      | None \<Rightarrow> if P x then Some 0 else None)"

lemma find_index_Some:
  "find_index P xs = Some i \<longleftrightarrow> i < length xs \<and> P (xs ! i) \<and> (\<forall>j < i. \<not> P (xs ! j))"
proof (induction xs arbitrary: i)
  case (Cons x xs)
  then show ?case by (cases i) (auto simp: less_Suc_eq_0_disj)
qed simp

lemma find_index_None: "find_index P xs = None \<longleftrightarrow> (\<forall>x \<in> set xs. \<not> P x)"
  by (induction xs) auto

lemma find_last_index_None: "find_last_index P xs = None \<longleftrightarrow> (\<forall>x \<in> set xs. \<not> P x)"
  by (induction xs) (auto split: option.splits)

lemma find_last_index_Some:
  "find_last_index P xs = Some i \<longleftrightarrow>
     i < length xs \<and> P (xs ! i) \<and> (\<forall>j. i < j \<and> j < length xs \<longrightarrow> \<not> P (xs ! j))"
proof (induction xs arbitrary: i)
  case (Cons x xs)
  show ?case
  proof (cases "find_last_index P xs")
    case None
    then have none: "\<forall>y \<in> set xs. \<not> P y" by (simp add: find_last_index_None)
    then have "\<forall>j < length xs. \<not> P (xs ! j)" by simp
    with None show ?thesis by (cases i) (auto simp: nth_Cons split: nat.splits)
  next
    case (Some k)
    then show ?thesis using Cons.IH [of k] Cons.IH [of "i - 1"]
      by (cases i) (auto simp: nth_Cons split: nat.splits)
  qed
qed simp

lemma find_index_drop:
  assumes "\<And>i. find_index P xs = Some i \<Longrightarrow> k \<le> i"
  shows "find_index P (drop k xs) = map_option (\<lambda>i. i - k) (find_index P xs)"
  using assms
proof (induction xs arbitrary: k)
  case (Cons x xs)
  show ?case
  proof (cases k)
    case (Suc j)
    with Cons.prems have "\<not> P x" by force
    with Suc Cons.prems have "find_index P xs = Some i \<Longrightarrow> j \<le> i" for i by force
    from Cons.IH [OF this] Suc \<open>\<not> P x\<close> show ?thesis by (simp add: option.map_comp comp_def)
  qed (simp add: option.map_ident)
qed simp

lemma find_last_index_drop:
  "find_last_index P (drop k xs) =
     (case find_last_index P xs of
        None \<Rightarrow> None | Some i \<Rightarrow> if k \<le> i then Some (i - k) else None)"
proof (induction xs arbitrary: k)
  case (Cons x xs)
  then show ?case by (cases k) (auto split: option.splits)
qed simp

text \<open>\<open>[...new Set(xs)]\<close>: the first occurrence of every value, in order.\<close>

fun js_unique_from :: "'a list \<Rightarrow> 'a list \<Rightarrow> 'a list" where
  "js_unique_from seen [] = []"
| "js_unique_from seen (x # xs) =
     (if x \<in> set seen then js_unique_from seen xs else x # js_unique_from (x # seen) xs)"

definition js_unique :: "'a list \<Rightarrow> 'a list" where
  "js_unique xs = js_unique_from [] xs"

lemma set_js_unique_from: "set (js_unique_from seen xs) = set xs - set seen"
  by (induction seen xs rule: js_unique_from.induct) auto

lemma set_js_unique [simp]: "set (js_unique xs) = set xs"
  by (simp add: js_unique_def set_js_unique_from)

lemma distinct_js_unique_from: "distinct (js_unique_from seen xs)"
  by (induction seen xs rule: js_unique_from.induct) (auto simp: set_js_unique_from)

lemma distinct_js_unique [simp]: "distinct (js_unique xs)"
  by (simp add: js_unique_def distinct_js_unique_from)

subsection \<open>Maps in insertion order\<close>

type_synonym ('k, 'v) jmap = "('k \<times> 'v) list"

abbreviation jget :: "('k, 'v) jmap \<Rightarrow> 'k \<Rightarrow> 'v option" where
  "jget \<equiv> map_of"

abbreviation jset :: "('k, 'v) jmap \<Rightarrow> 'k \<Rightarrow> 'v \<Rightarrow> ('k, 'v) jmap" where
  "jset m k v \<equiv> AList.update k v m"

abbreviation jdelete :: "('k, 'v) jmap \<Rightarrow> 'k \<Rightarrow> ('k, 'v) jmap" where
  "jdelete m k \<equiv> AList.delete k m"

abbreviation jhas :: "('k, 'v) jmap \<Rightarrow> 'k \<Rightarrow> bool" where
  "jhas m k \<equiv> map_of m k \<noteq> None"

abbreviation jvalues :: "('k, 'v) jmap \<Rightarrow> 'v list" where
  "jvalues m \<equiv> map snd m"

abbreviation jkeys :: "('k, 'v) jmap \<Rightarrow> 'k list" where
  "jkeys m \<equiv> map fst m"

definition wf_jmap :: "('k, 'v) jmap \<Rightarrow> bool" where
  "wf_jmap m \<longleftrightarrow> distinct (map fst m)"

lemma wf_jmap_Nil [simp, intro]: "wf_jmap []"
  by (simp add: wf_jmap_def)

lemma wf_jmap_set [simp, intro]: "wf_jmap m \<Longrightarrow> wf_jmap (jset m k v)"
  by (simp add: wf_jmap_def distinct_update)

lemma wf_jmap_delete [simp, intro]: "wf_jmap m \<Longrightarrow> wf_jmap (jdelete m k)"
  by (simp add: wf_jmap_def distinct_delete)

lemma jget_set [simp, js_simps]: "jget (jset m k v) = (jget m)(k \<mapsto> v)"
  by (rule update_conv')

lemma jget_delete [simp, js_simps]: "jget (jdelete m k) = (jget m)(k := None)"
  by (rule delete_conv')

lemma jset_fresh: "jget m k = None \<Longrightarrow> jset m k v = m @ [(k, v)]"
  by (induction m) (auto split: if_splits)

lemma length_jset: "length (jset m k v) = (if jhas m k then length m else Suc (length m))"
  by (induction m) auto

lemma jkeys_set: "jkeys (jset m k v) = (if jhas m k then jkeys m else jkeys m @ [k])"
  by (induction m) auto

lemma set_jset: "set (jset m k v) \<subseteq> insert (k, v) (set m)"
  by (induction m) auto

lemma jget_mem: "wf_jmap m \<Longrightarrow> (k, v) \<in> set m \<Longrightarrow> jget m k = Some v"
  by (simp add: wf_jmap_def)

text \<open>Totals over the values of a map, as the components keep them in a counter.\<close>

definition jsum :: "('v \<Rightarrow> int) \<Rightarrow> ('k, 'v) jmap \<Rightarrow> int" where
  "jsum f m = sum_list (map (\<lambda>e. f (snd e)) m)"

lemma jsum_Nil [simp]: "jsum f [] = 0"
  by (simp add: jsum_def)

lemma jsum_append [simp]: "jsum f (m @ n) = jsum f m + jsum f n"
  by (simp add: jsum_def)

lemma jsum_single [simp]: "jsum f [(k, v)] = f v"
  by (simp add: jsum_def)

lemma jsum_set_new: "jget m k = None \<Longrightarrow> jsum f (jset m k v) = jsum f m + f v"
  by (simp add: jset_fresh)

lemma jsum_set_old: "jget m k = Some w \<Longrightarrow> jsum f (jset m k v) = jsum f m - f w + f v"
  by (induction m) (auto simp: jsum_def)

lemma jget_None_delete: "jget m k = None \<Longrightarrow> jdelete m k = m"
  by (simp add: delete_id map_of_eq_None_iff image_iff)

lemma jsum_delete: "wf_jmap m \<Longrightarrow> jget m k = Some w \<Longrightarrow> jsum f (jdelete m k) = jsum f m - f w"
proof (induction m)
  case (Cons e m)
  show ?case
  proof (cases "fst e = k")
    case True
    with Cons.prems(1) have "jdelete m k = m"
      by (intro jget_None_delete) (auto simp: wf_jmap_def map_of_eq_None_iff)
    with True Cons.prems(2) show ?thesis by (cases e) (simp add: jsum_def)
  next
    case False
    with Cons show ?thesis by (cases e) (auto simp: jsum_def wf_jmap_def)
  qed
qed simp

lemma jsum_cong: "(\<And>k v. (k, v) \<in> set m \<Longrightarrow> f v = g v) \<Longrightarrow> jsum f m = jsum g m"
  unfolding jsum_def by (intro arg_cong [where f = sum_list] map_cong) auto

lemma jsum_nonneg: "(\<And>k v. (k, v) \<in> set m \<Longrightarrow> 0 \<le> f v) \<Longrightarrow> 0 \<le> jsum f m"
  unfolding jsum_def by (rule sum_list_nonneg) auto

lemma length_jdelete: "wf_jmap m \<Longrightarrow> jget m k = Some w \<Longrightarrow> Suc (length (jdelete m k)) = length m"
proof (induction m)
  case (Cons e m)
  show ?case
  proof (cases "fst e = k")
    case True
    with Cons.prems(1) have "jdelete m k = m"
      by (intro jget_None_delete) (auto simp: wf_jmap_def map_of_eq_None_iff)
    with True show ?thesis by (cases e) simp
  next
    case False
    with Cons show ?thesis by (cases e) (auto simp: wf_jmap_def)
  qed
qed simp

text \<open>
  \<open>[...new Map(xs.map(x => [key(x), x])).values()]\<close> and its update: lists of values indexed by a
  key function of the value itself.
\<close>

definition index_by :: "('v \<Rightarrow> 'k) \<Rightarrow> 'v list \<Rightarrow> ('k, 'v) jmap" where
  "index_by f xs = foldl (\<lambda>m x. jset m (f x) x) [] xs"

lemma index_by_Nil [simp]: "index_by f [] = []"
  by (simp add: index_by_def)

lemma index_by_snoc [simp]: "index_by f (xs @ [x]) = jset (index_by f xs) (f x) x"
  by (simp add: index_by_def)

lemma wf_index_by [simp, intro]: "wf_jmap (index_by f xs)"
  by (induction xs rule: rev_induct) auto

lemma index_by_distinct:
  "distinct (map f xs) \<Longrightarrow> index_by f xs = map (\<lambda>x. (f x, x)) xs"
proof (induction xs rule: rev_induct)
  case Nil
  then show ?case by simp
next
  case (snoc x xs)
  then have "jget (map (\<lambda>x. (f x, x)) xs) (f x) = None"
    by (simp add: map_of_eq_None_iff image_image)
  with snoc show ?case by (simp add: jset_fresh)
qed

lemma jvalues_index_by_distinct [simp]:
  "distinct (map f xs) \<Longrightarrow> jvalues (index_by f xs) = xs"
  by (simp add: index_by_distinct comp_def)

lemma jvalues_keyed:
  "\<forall>(k, v) \<in> set m. k = f v \<Longrightarrow> map f (jvalues m) = jkeys m"
  by (induction m) auto

subsection \<open>Dictionary objects\<close>

text \<open>
  \<open>Object.keys\<close> lists the array-index keys (canonical decimal numerals below \<open>2 ^ 32 - 1\<close>) in
  ascending order, then the other keys in insertion order.
\<close>

definition digit_value :: "char \<Rightarrow> nat option" where
  "digit_value c = (let n = of_char c in if 48 \<le> n \<and> n \<le> 57 then Some (n - 48) else None)"

fun numeral_value :: "nat \<Rightarrow> string \<Rightarrow> nat option" where
  "numeral_value acc [] = Some acc"
| "numeral_value acc (c # cs) =
     (case digit_value c of None \<Rightarrow> None | Some d \<Rightarrow> numeral_value (10 * acc + d) cs)"

definition array_index :: "string \<Rightarrow> nat option" where
  "array_index s =
     (if s = [] \<or> (hd s = CHR ''0'' \<and> tl s \<noteq> []) then None
      else case numeral_value 0 s of
        None \<Rightarrow> None
      | Some n \<Rightarrow> if n < 4294967295 then Some n else None)"

definition obj_entries :: "(string, 'v) jmap \<Rightarrow> (string \<times> 'v) list" where
  "obj_entries m =
     sort_key (\<lambda>e. the (array_index (fst e))) (filter (\<lambda>e. array_index (fst e) \<noteq> None) m)
     @ filter (\<lambda>e. array_index (fst e) = None) m"

definition obj_keys :: "(string, 'v) jmap \<Rightarrow> string list" where
  "obj_keys m = map fst (obj_entries m)"

lemma set_obj_entries [simp]: "set (obj_entries m) = set m"
  by (auto simp: obj_entries_def)

lemma set_obj_keys [simp]: "set (obj_keys m) = fst ` set m"
  by (simp add: obj_keys_def)

lemma length_obj_entries [simp]: "length (obj_entries m) = length m"
proof -
  have "length (filter (\<lambda>e. array_index (fst e) \<noteq> None) m)
      + length (filter (\<lambda>e. \<not> array_index (fst e) \<noteq> None) m) = length m"
    by (rule sum_length_filter_compl)
  then show ?thesis
    by (simp add: obj_entries_def)
qed

subsection \<open>Sorting\<close>

lemma sort_key_ident: "sorted (map f xs) \<Longrightarrow> sort_key f xs = xs"
  by (simp add: sorted_sort_id sort_key_id_if_sorted)

subsection \<open>Logs of keyed records\<close>

text \<open>\<open>run_adds\<close> performs a list of additions and stops at the first exception.\<close>

primrec run_adds :: "('s \<Rightarrow> 'i \<Rightarrow> ('a \<times> 's) js_result) \<Rightarrow> 's \<Rightarrow> 'i list \<Rightarrow> 's js_result" where
  "run_adds add s [] = Inr s"
| "run_adds add s (i # is) =
     (case add s i of Inl e \<Rightarrow> Inl e | Inr (_, s') \<Rightarrow> run_adds add s' is)"

text \<open>
  What a client of a deduplicating log relies on: adding a known key returns the state unchanged,
  adding a new key adds exactly one record under that key, and the invariant is kept.
\<close>

locale replay_log =
  fixes wf :: "'s \<Rightarrow> bool"
    and records :: "'s \<Rightarrow> 'r list"
    and record_key :: "'r \<Rightarrow> 'k"
    and key_of :: "'i \<Rightarrow> 'k"
    and add :: "'s \<Rightarrow> 'i \<Rightarrow> ('a \<times> 's) js_result"
  assumes add_known: "wf s \<Longrightarrow> key_of i \<in> record_key ` set (records s) \<Longrightarrow> \<exists>a. add s i = Inr (a, s)"
    and add_new: "wf s \<Longrightarrow> key_of i \<notin> record_key ` set (records s) \<Longrightarrow> add s i = Inr (a, s') \<Longrightarrow>
      \<exists>r. record_key r = key_of i \<and> mset (records s') = add_mset r (mset (records s))"
    and add_wf: "wf s \<Longrightarrow> add s i = Inr (a, s') \<Longrightarrow> wf s'"
    and keys_distinct: "wf s \<Longrightarrow> distinct (map record_key (records s))"
begin

lemma add_keys:
  assumes "wf s" and "add s i = Inr (a, s')"
  shows "record_key ` set (records s') = insert (key_of i) (record_key ` set (records s))"
proof (cases "key_of i \<in> record_key ` set (records s)")
  case True
  with add_known [OF assms(1)] assms(2) have "s' = s" by fastforce
  with True show ?thesis by auto
next
  case False
  from add_new [OF assms(1) False assms(2)] obtain r where
    "record_key r = key_of i" "mset (records s') = add_mset r (mset (records s))" by blast
  then show ?thesis by (metis (no_types, lifting) image_insert set_mset_add_mset_insert set_mset_mset)
qed

lemma run_wf_keys:
  "wf s \<Longrightarrow> run_adds add s is = Inr s' \<Longrightarrow>
   wf s' \<and> record_key ` set (records s') = record_key ` set (records s) \<union> key_of ` set is"
proof (induction "is" arbitrary: s)
  case (Cons i "is")
  from Cons.prems(2) obtain a t where add: "add s i = Inr (a, t)" and run: "run_adds add t is = Inr s'"
    by (auto split: sum.splits)
  from add_wf [OF Cons.prems(1) add] have "wf t" .
  from Cons.IH [OF this run] add_keys [OF Cons.prems(1) add] show ?case by auto
qed simp

lemma run_exactly_once:
  assumes "wf s" and "run_adds add s is = Inr s'" and "i \<in> set is"
  shows "\<exists>!r. r \<in> set (records s') \<and> record_key r = key_of i"
proof -
  from run_wf_keys [OF assms(1,2)] have wf': "wf s'"
    and keys: "record_key ` set (records s') = record_key ` set (records s) \<union> key_of ` set is"
    by simp_all
  from keys assms(3) obtain r where r: "r \<in> set (records s')" "record_key r = key_of i"
    by (metis (no_types, lifting) UnI2 imageE imageI)
  from keys_distinct [OF wf'] have "inj_on record_key (set (records s'))"
    by (simp add: distinct_map)
  with r show ?thesis by (metis inj_onD)
qed

lemma run_known:
  "wf s \<Longrightarrow> key_of ` set is \<subseteq> record_key ` set (records s) \<Longrightarrow> run_adds add s is = Inr s"
proof (induction "is")
  case (Cons i "is")
  from Cons.prems add_known [of s i] obtain a where "add s i = Inr (a, s)" by auto
  with Cons show ?case by simp
qed simp

lemma replay_unchanged:
  assumes "wf s" and "run_adds add s is = Inr s'" and "set js \<subseteq> set is"
  shows "run_adds add s' js = Inr s'"
  using run_wf_keys [OF assms(1,2)] run_known [of s' js] assms(3) by blast

end

subsection \<open>Simulation of runs\<close>

text \<open>\<open>run_ok ok step a xs\<close>: every input of the run is acceptable in the state it meets.\<close>

primrec run_ok :: "('a \<Rightarrow> 'i \<Rightarrow> bool) \<Rightarrow> ('a \<Rightarrow> 'i \<Rightarrow> 'a) \<Rightarrow> 'a \<Rightarrow> 'i list \<Rightarrow> bool" where
  "run_ok ok step a [] = True"
| "run_ok ok step a (x # xs) = (ok a x \<and> run_ok ok step (step a x) xs)"

lemma run_ok_append:
  "run_ok ok step a (xs @ ys) \<longleftrightarrow> run_ok ok step a xs \<and> run_ok ok step (foldl step a xs) ys"
  by (induction xs arbitrary: a) auto

text \<open>
  A machine whose every operation keeps an invariant; a relation between the states before and
  after that every operation satisfies holds for whole runs.
\<close>

locale machine =
  fixes inv :: "'s \<Rightarrow> bool"
    and step :: "'s \<Rightarrow> 'i \<Rightarrow> 's"
  assumes step_inv: "inv s \<Longrightarrow> inv (step s i)"
begin

lemma run_inv: "inv s \<Longrightarrow> inv (foldl step s is)"
  by (induction "is" arbitrary: s) (auto intro: step_inv)

lemma run_rel:
  assumes "\<And>s i. inv s \<Longrightarrow> R s (step s i)" and "reflp R" and "transp R" and "inv s"
  shows "R s (foldl step s is)"
  using assms(4)
proof (induction "is" arbitrary: s)
  case Nil
  with assms(2) show ?case by (simp add: reflpD)
next
  case (Cons i "is")
  from transpD [OF assms(3) assms(1) [OF Cons.prems] Cons.IH [OF step_inv [OF Cons.prems]]] show ?case
    by simp
qed

lemma run_keeps:
  assumes "\<And>s i. inv s \<Longrightarrow> P s \<Longrightarrow> ok i \<Longrightarrow> P (step s i)" and "inv s" and "P s" and "list_all ok is"
  shows "P (foldl step s is)"
  using assms(2-4) by (induction "is" arbitrary: s) (auto intro: step_inv assms(1))

end

text \<open>A concrete machine that keeps step with an abstract one.\<close>

locale simulation =
  fixes rel :: "'a \<Rightarrow> 'c \<Rightarrow> bool"
    and ok :: "'a \<Rightarrow> 'i \<Rightarrow> bool"
    and astep :: "'a \<Rightarrow> 'i \<Rightarrow> 'a"
    and cstep :: "'c \<Rightarrow> 'i \<Rightarrow> 'c"
  assumes step: "rel a c \<Longrightarrow> ok a i \<Longrightarrow> rel (astep a i) (cstep c i)"
begin

lemma run: "rel a c \<Longrightarrow> run_ok ok astep a is \<Longrightarrow> rel (foldl astep a is) (foldl cstep c is)"
  by (induction "is" arbitrary: a c) (auto intro: step)

lemma run_abstract:
  assumes "rel a c" and "run_ok ok astep a is" and "\<And>a c. rel a c \<Longrightarrow> P a \<Longrightarrow> Q c"
    and "P (foldl astep a is)"
  shows "Q (foldl cstep c is)"
  using run [OF assms(1,2)] assms(3,4) by blast

end

end
