(* ===== verification/Js_Text.thy ===== *)
theory Js_Text
  imports Prelude
begin

section \<open>Strings and dates\<close>

text \<open>
  Strings are lists of \<open>char\<close>, read as code points below 256; the components compare, concatenate
  and measure them. \<open>js_trim\<close> removes the white space of ECMAScript in that range,
  \<open>utf8_length\<close> is \<open>Buffer.byteLength\<close> and \<open>to_iso_string\<close> is \<open>new Date(ms).toISOString()\<close>,
  which throws a \<open>RangeError\<close> outside the time range of ECMAScript.
\<close>

subsection \<open>White space and case\<close>

definition js_space :: "char \<Rightarrow> bool" where
  "js_space c = (let n = (of_char c :: nat) in (9 \<le> n \<and> n \<le> 13) \<or> n = 32 \<or> n = 160)"

definition js_trim_start :: "string \<Rightarrow> string" where
  "js_trim_start s = dropWhile js_space s"

definition js_trim :: "string \<Rightarrow> string" where
  "js_trim s = rev (dropWhile js_space (rev (dropWhile js_space s)))"

definition is_ascii_letter :: "char \<Rightarrow> bool" where
  "is_ascii_letter c =
     (let n = (of_char c :: nat) in (65 \<le> n \<and> n \<le> 90) \<or> (97 \<le> n \<and> n \<le> 122))"

definition is_digit :: "char \<Rightarrow> bool" where
  "is_digit c = (let n = (of_char c :: nat) in 48 \<le> n \<and> n \<le> 57)"

definition lower_char :: "char \<Rightarrow> char" where
  "lower_char c =
     (let n = (of_char c :: nat) in if 65 \<le> n \<and> n \<le> 90 then char_of (n + 32) else c)"

definition ascii_lower :: "string \<Rightarrow> string" where
  "ascii_lower s = map lower_char s"

lemma js_trim_Nil [simp, js_simps]: "js_trim [] = []"
  by (simp add: js_trim_def)

lemma js_trim_ends:
  "js_trim s = [] \<or> (\<not> js_space (hd (js_trim s)) \<and> \<not> js_space (last (js_trim s)))"
proof -
  let ?a = "dropWhile js_space s"
  let ?b = "dropWhile js_space (rev ?a)"
  have last_ok: "?b \<noteq> [] \<Longrightarrow> \<not> js_space (hd ?b)"
    by (rule hd_dropWhile)
  have "?b \<noteq> [] \<Longrightarrow> \<not> js_space (last ?b)"
  proof -
    assume ne: "?b \<noteq> []"
    then have "?a \<noteq> []" by (metis dropWhile.simps(1) rev.simps(1))
    then have hd_a: "\<not> js_space (hd ?a)" by (rule hd_dropWhile)
    have "last ?b = last (rev ?a)"
      using ne by (metis last_appendR takeWhile_dropWhile_id)
    also have "\<dots> = hd ?a" using \<open>?a \<noteq> []\<close> by (simp add: last_rev)
    finally show ?thesis using hd_a by simp
  qed
  with last_ok show ?thesis by (auto simp: js_trim_def hd_rev last_rev)
qed

lemma js_trim_id: "s = [] \<or> (\<not> js_space (hd s) \<and> \<not> js_space (last s)) \<Longrightarrow> js_trim s = s"
proof -
  assume a: "s = [] \<or> (\<not> js_space (hd s) \<and> \<not> js_space (last s))"
  then have "dropWhile js_space s = s" by (auto simp: dropWhile_eq_self_iff)
  moreover from a have "dropWhile js_space (rev s) = rev s"
    by (auto simp: dropWhile_eq_self_iff hd_rev)
  ultimately show ?thesis by (simp add: js_trim_def)
qed

lemma js_trim_idem [simp]: "js_trim (js_trim s) = js_trim s"
  by (rule js_trim_id) (rule js_trim_ends)

subsection \<open>Encoded length\<close>

definition utf8_length :: "string \<Rightarrow> nat" where
  "utf8_length s = sum_list (map (\<lambda>c. if (of_char c :: nat) < 128 then 1 else 2) s)"

lemma utf8_length_Nil [simp, js_simps]: "utf8_length [] = 0"
  by (simp add: utf8_length_def)

lemma utf8_length_append [simp]: "utf8_length (s @ t) = utf8_length s + utf8_length t"
  by (simp add: utf8_length_def)

lemma utf8_length_bounds: "length s \<le> utf8_length s" "utf8_length s \<le> 2 * length s"
  by (induction s) (auto simp: utf8_length_def)

subsection \<open>Numbers in text\<close>

definition digit_char :: "nat \<Rightarrow> char" where
  "digit_char n = char_of (48 + n)"

fun decimal :: "nat \<Rightarrow> string" where
  "decimal n = (if n < 10 then [digit_char n] else decimal (n div 10) @ [digit_char (n mod 10)])"

declare decimal.simps [simp del]

definition pad_start :: "nat \<Rightarrow> string \<Rightarrow> string" where
  "pad_start w s = replicate (w - length s) (CHR ''0'') @ s"

subsection \<open>Numbers and JSON values\<close>

text \<open>
  A number is a finite rational (each finite double is one), an infinity or NaN. A JSON object
  keeps its members in enumeration order.
\<close>

datatype js_number = Finite rat | PosInfinity | NegInfinity | NotANumber

datatype json =
    JNull
  | JBool bool
  | JNumber js_number
  | JString string
  | JArray "json list"
  | JObject "(string \<times> json) list"

definition max_safe_integer :: int where
  "max_safe_integer = 9007199254740991"

definition is_safe_integer :: "int \<Rightarrow> bool" where
  "is_safe_integer i \<longleftrightarrow> \<bar>i\<bar> \<le> max_safe_integer"

subsection \<open>Dates\<close>

text \<open>
  The civil date of a day number (days since 1970-01-01) in the proleptic Gregorian calendar,
  by 400-year eras that start on a first of March.
\<close>

definition civil_from_days :: "int \<Rightarrow> int \<times> int \<times> int" where
  "civil_from_days days =
     (let z = days + 719468;
          era = z div 146097;
          doe = z mod 146097;
          yoe = (doe - doe div 1460 + doe div 36524 - doe div 146096) div 365;
          doy = doe - (365 * yoe + yoe div 4 - yoe div 100);
          mp = (5 * doy + 2) div 153;
          d = doy - (153 * mp + 2) div 5 + 1;
          m = (if mp < 10 then mp + 3 else mp - 9);
          y = yoe + era * 400 + (if m \<le> 2 then 1 else 0)
      in (y, m, d))"

definition pad_int :: "nat \<Rightarrow> int \<Rightarrow> string" where
  "pad_int w i = pad_start w (decimal (nat i))"

definition iso_year :: "int \<Rightarrow> string" where
  "iso_year y =
     (if 0 \<le> y \<and> y \<le> 9999 then pad_int 4 y
      else (if y < 0 then ''-'' else ''+'') @ pad_int 6 \<bar>y\<bar>)"

definition iso_text :: "int \<Rightarrow> string" where
  "iso_text ms =
     (let (y, m, d) = civil_from_days (ms div 86400000);
          t = ms mod 86400000
      in iso_year y @ ''-'' @ pad_int 2 m @ ''-'' @ pad_int 2 d @ ''T''
         @ pad_int 2 (t div 3600000) @ '':'' @ pad_int 2 (t div 60000 mod 60) @ '':''
         @ pad_int 2 (t div 1000 mod 60) @ ''.'' @ pad_int 3 (t mod 1000) @ ''Z'')"

definition valid_time :: "int \<Rightarrow> bool" where
  "valid_time ms \<longleftrightarrow> \<bar>ms\<bar> \<le> 8640000000000000"

definition to_iso_string :: "int \<Rightarrow> string js_result" where
  "to_iso_string ms =
     (if valid_time ms then Inr (iso_text ms)
      else Inl (Thrown RangeErrorClass [] ''Invalid time value''))"

lemma to_iso_string_ok [simp]: "valid_time ms \<Longrightarrow> to_iso_string ms = Inr (iso_text ms)"
  by (simp add: to_iso_string_def)

lemma to_iso_string_Inr: "to_iso_string ms = Inr s \<longleftrightarrow> valid_time ms \<and> s = iso_text ms"
  by (auto simp: to_iso_string_def)

lemma iso_text_epoch: "iso_text 0 = ''1970-01-01T00:00:00.000Z''"
  by code_simp

lemma iso_text_leap: "iso_text 1709251199999 = ''2024-02-29T23:59:59.999Z''"
  by code_simp

end
