(* ===== verification/Background.thy ===== *)
theory Background
  imports Js_Text
begin

section \<open>Background activity and usage snapshots\<close>

text \<open>
  Models \<open>agent-remote-protocol/src/background-activity.ts\<close> (a Host-owned annotation on timeline
  items whose terminal outcome may not regress) and \<open>usage-state.ts\<close> (usage measurements replaced
  group by group). The merge of background outcomes is shared by the relay's timeline store, the
  relay's projector and the web replica; what they rely on is the locale \<open>outcome_merge\<close>.
\<close>

subsection \<open>Background activity\<close>

datatype background_kind = Review

datatype background_status = BgPending | BgSilent | BgVisible | BgFailed

record background =
  bg_id :: string
  bg_kind :: background_kind
  bg_status :: background_status
  bg_summary :: "string option"

fun priority :: "background_status \<Rightarrow> nat" where
  "priority BgPending = 0"
| "priority BgSilent = 1"
| "priority BgVisible = 2"
| "priority BgFailed = 3"

lemma priority_inject [simp]: "priority a = priority b \<longleftrightarrow> a = b"
  by (cases a; cases b) auto

text \<open>The statuses in the order of their priority.\<close>

instantiation background_status :: linorder
begin

definition less_eq_background_status :: "background_status \<Rightarrow> background_status \<Rightarrow> bool" where
  "less_eq_background_status a b \<longleftrightarrow> priority a \<le> priority b"

definition less_background_status :: "background_status \<Rightarrow> background_status \<Rightarrow> bool" where
  "less_background_status a b \<longleftrightarrow> priority a < priority b"

instance
  by standard (auto simp: less_eq_background_status_def less_background_status_def)

end

lemmas background_status_order = less_eq_background_status_def less_background_status_def

definition mergeBackgroundActivity :: "background option \<Rightarrow> background \<Rightarrow> background" where
  "mergeBackgroundActivity previous incoming =
     (case previous of
        None \<Rightarrow> incoming
      | Some p \<Rightarrow>
          if bg_id p = bg_id incoming \<and> priority (bg_status p) > priority (bg_status incoming)
          then p else incoming)"

subsection \<open>What the clients of the merge rely on\<close>

text \<open>
  \<open>merge\<close> combines an earlier outcome with a later one of the same activity: it keeps the identity,
  returns one of the two and never lowers the rank.
\<close>

locale outcome_merge =
  fixes merge :: "'a option \<Rightarrow> 'a \<Rightarrow> 'a"
    and ident :: "'a \<Rightarrow> 'i"
    and rank :: "'a \<Rightarrow> 'r::linorder"
  assumes merge_None: "merge None x = x"
    and merge_choice: "merge (Some p) x = p \<or> merge (Some p) x = x"
    and merge_ident: "ident (merge pp x) = ident x"
    and merge_rank: "ident p = ident x \<Longrightarrow> rank (merge (Some p) x) = max (rank p) (rank x)"
begin

lemma merge_rank_ge: "rank x \<le> rank (merge p x)"
proof (cases p)
  case None
  then show ?thesis by (simp add: merge_None)
next
  case (Some q)
  then show ?thesis
    using merge_choice [of q x] merge_rank [of q x] merge_ident [of p x] by (metis max.cobounded2 order_refl)
qed

lemma merge_idem: "merge (Some x) x = x"
  using merge_choice [of x x] by simp

text \<open>The outcome retained after a list of reports of one activity has the highest rank reported.\<close>

lemma fold_merge_rank:
  assumes "\<forall>x \<in> set xs. ident x = ident a"
  shows "ident (fold (\<lambda>x p. merge (Some p) x) xs a) = ident a
    \<and> rank (fold (\<lambda>x p. merge (Some p) x) xs a) = Max (rank ` set (a # xs))"
  using assms
proof (induction xs arbitrary: a)
  case Nil
  then show ?case by simp
next
  case (Cons x xs)
  let ?b = "merge (Some a) x"
  have ident_b: "ident ?b = ident a" using Cons.prems by (simp add: merge_ident)
  have rank_b: "rank ?b = max (rank a) (rank x)" using Cons.prems by (simp add: merge_rank)
  from Cons.prems ident_b have "\<forall>y \<in> set xs. ident y = ident ?b" by simp
  from Cons.IH [OF this] ident_b rank_b show ?case
    by (cases "xs = []") (simp_all add: max.assoc max.left_commute)
qed

lemma fold_merge_mono:
  assumes "\<forall>x \<in> set xs. ident x = ident a"
  shows "rank a \<le> rank (fold (\<lambda>x p. merge (Some p) x) xs a)"
  using fold_merge_rank [OF assms] by simp

end

interpretation bg_merge: outcome_merge mergeBackgroundActivity bg_id bg_status
  by unfold_locales
    (auto simp: mergeBackgroundActivity_def background_status_order max_def split: option.splits)

lemma merge_bg_None [simp]: "mergeBackgroundActivity None b = b"
  by (rule bg_merge.merge_None)

lemma merge_bg_id [simp]: "bg_id (mergeBackgroundActivity p b) = bg_id b"
  by (rule bg_merge.merge_ident)

lemma merge_bg_idem [simp]: "mergeBackgroundActivity (Some b) b = b"
  by (rule bg_merge.merge_idem)

lemma merge_bg_assoc:
  "bg_id a = bg_id b \<Longrightarrow> bg_id b = bg_id c \<Longrightarrow>
   mergeBackgroundActivity (Some (mergeBackgroundActivity (Some a) b)) c
   = mergeBackgroundActivity (Some a) (mergeBackgroundActivity (Some b) c)"
  by (auto simp: mergeBackgroundActivity_def)

lemma merge_bg_failed:
  "bg_id p = bg_id b \<Longrightarrow> bg_status p = BgFailed \<Longrightarrow>
   bg_status (mergeBackgroundActivity (Some p) b) = BgFailed"
  by (cases "bg_status b") (auto simp: mergeBackgroundActivity_def)

subsection \<open>The bounded record of outcomes\<close>

text \<open>
  \<open>TimelineStore.updateBackground\<close> and the replica's \<open>applyBackgroundOutcome\<close> both keep the merged
  outcome of an activity in a dictionary and drop its first key once it holds more than 2048.
  The relay uses a \<open>Map\<close> (the first key is the oldest); the replica uses an object.
\<close>

definition max_background_outcomes :: nat where
  "max_background_outcomes = 2048"

lemma hd_delete_length:
  assumes "wf_jmap m" and "m \<noteq> []"
  shows "length (jdelete m (fst (hd m))) = length m - 1"
proof -
  from assms obtain k v m' where m: "m = (k, v) # m'" by (metis list.exhaust surj_pair)
  with assms have "k \<notin> fst ` set m'" by (simp add: wf_jmap_def)
  then have "jdelete m' k = m'" by (rule delete_id)
  with m show ?thesis by simp
qed

lemma delete_mem_length:
  assumes "wf_jmap m" and "k \<in> fst ` set m"
  shows "length (jdelete m k) = length m - 1"
  using assms
proof (induction m)
  case Nil
  then show ?case by simp
next
  case (Cons e m)
  show ?case
  proof (cases "fst e = k")
    case True
    with Cons.prems have "k \<notin> fst ` set m" by (auto simp: wf_jmap_def)
    then have "jdelete m k = m" by (rule delete_id)
    with True show ?thesis by (cases e) simp
  next
    case False
    with Cons have "length (jdelete m k) = length m - 1" "m \<noteq> []"
      by (auto simp: wf_jmap_def)
    with False show ?thesis by (cases e) (auto simp: Suc_diff_1)
  qed
qed

subsection \<open>Usage\<close>

datatype token_scope = ScopeSessionTokens | ScopeRuntimeTokens | ScopeTurnTokens | ScopeCallTokens

datatype context_scope = ContextCurrent

record usage =
  u_tokenScope :: "token_scope option"
  u_inputTokens :: "nat option"
  u_cachedInputTokens :: "nat option"
  u_cacheCreationInputTokens :: "nat option"
  u_outputTokens :: "nat option"
  u_totalTokens :: "nat option"
  u_totalCostUsd :: "rat option"
  u_contextScope :: "context_scope option"
  u_contextWindowMaxTokens :: "nat option"
  u_contextWindowUsedTokens :: "nat option"

definition empty_usage :: usage where
  "empty_usage = \<lparr>u_tokenScope = None, u_inputTokens = None, u_cachedInputTokens = None,
     u_cacheCreationInputTokens = None, u_outputTokens = None, u_totalTokens = None,
     u_totalCostUsd = None, u_contextScope = None, u_contextWindowMaxTokens = None,
     u_contextWindowUsedTokens = None\<rparr>"

text \<open>The three entries of \<open>snapshotGroups\<close>: whether the update reports the group, and the copy.\<close>

definition reports_tokens :: "usage \<Rightarrow> bool" where
  "reports_tokens u \<longleftrightarrow> u_tokenScope u \<noteq> None \<or> u_inputTokens u \<noteq> None
     \<or> u_cachedInputTokens u \<noteq> None \<or> u_cacheCreationInputTokens u \<noteq> None
     \<or> u_outputTokens u \<noteq> None \<or> u_totalTokens u \<noteq> None"

definition reports_context :: "usage \<Rightarrow> bool" where
  "reports_context u \<longleftrightarrow> u_contextScope u \<noteq> None \<or> u_contextWindowUsedTokens u \<noteq> None
     \<or> u_contextWindowMaxTokens u \<noteq> None"

definition reports_cost :: "usage \<Rightarrow> bool" where
  "reports_cost u \<longleftrightarrow> u_totalCostUsd u \<noteq> None"

definition copy_tokens :: "usage \<Rightarrow> usage \<Rightarrow> usage" where
  "copy_tokens u next = next\<lparr>u_tokenScope := u_tokenScope u, u_inputTokens := u_inputTokens u,
     u_cachedInputTokens := u_cachedInputTokens u,
     u_cacheCreationInputTokens := u_cacheCreationInputTokens u,
     u_outputTokens := u_outputTokens u, u_totalTokens := u_totalTokens u\<rparr>"

definition copy_context :: "usage \<Rightarrow> usage \<Rightarrow> usage" where
  "copy_context u next = next\<lparr>u_contextScope := u_contextScope u,
     u_contextWindowUsedTokens := u_contextWindowUsedTokens u,
     u_contextWindowMaxTokens := u_contextWindowMaxTokens u\<rparr>"

definition copy_cost :: "usage \<Rightarrow> usage \<Rightarrow> usage" where
  "copy_cost u next = next\<lparr>u_totalCostUsd := u_totalCostUsd u\<rparr>"

definition replace_group ::
  "bool \<Rightarrow> (usage \<Rightarrow> usage) \<Rightarrow> usage option \<Rightarrow> usage option" where
  "replace_group reported copy next =
     (if reported then Some (copy (case next of None \<Rightarrow> empty_usage | Some n \<Rightarrow> n)) else next)"

definition updateUsageSnapshot :: "usage option \<Rightarrow> usage \<Rightarrow> usage option" where
  "updateUsageSnapshot previous u =
     replace_group (reports_cost u) (copy_cost u)
       (replace_group (reports_context u) (copy_context u)
         (replace_group (reports_tokens u) (copy_tokens u) previous))"

lemmas usage_defs =
  updateUsageSnapshot_def replace_group_def reports_tokens_def reports_context_def reports_cost_def
  copy_tokens_def copy_context_def copy_cost_def empty_usage_def

text \<open>A repeated report changes nothing: usage is a snapshot, never a sum.\<close>

lemma updateUsageSnapshot_idem:
  "updateUsageSnapshot (updateUsageSnapshot previous u) u = updateUsageSnapshot previous u"
  by (cases previous) (auto simp: usage_defs)

text \<open>Each group of the result comes from the update when it reports the group, else from before.\<close>

lemma updateUsageSnapshot_groups:
  assumes "updateUsageSnapshot (Some p) u = Some n"
  shows "u_totalTokens n = (if reports_tokens u then u_totalTokens u else u_totalTokens p)"
    and "u_inputTokens n = (if reports_tokens u then u_inputTokens u else u_inputTokens p)"
    and "u_outputTokens n = (if reports_tokens u then u_outputTokens u else u_outputTokens p)"
    and "u_tokenScope n = (if reports_tokens u then u_tokenScope u else u_tokenScope p)"
    and "u_contextWindowUsedTokens n =
      (if reports_context u then u_contextWindowUsedTokens u else u_contextWindowUsedTokens p)"
    and "u_totalCostUsd n = (if reports_cost u then u_totalCostUsd u else u_totalCostUsd p)"
  using assms
  by (simp_all add: updateUsageSnapshot_def replace_group_def copy_tokens_def copy_context_def
      copy_cost_def split: if_splits) auto

end
