(* ===== verification/Interactions.thy ===== *)
theory Interactions
  imports Js_Text
begin

section \<open>Interaction requests and responses\<close>

text \<open>
  The interaction data model of \<open>agent-remote-protocol/src/interactions.ts\<close> and
  \<open>agent-provider-sdk/src/control.ts\<close>, and the functions of \<open>agent-provider-sdk/src/interactions.ts\<close>
  over it: \<open>validateInteractionResponse\<close> (a response must be one of the choices its pending request
  displays) and the two redactions applied before anything is published. Every failure of the
  validation throws the same error, so the checks are one boolean and the exported function turns it
  into the exception.

  A JavaScript number of a form is a finite rational, an infinity or NaN; each finite double is
  such a rational. A record of form values is a dictionary in insertion order.
\<close>

subsection \<open>Requests\<close>

record session_reference =
  sr_nativeSessionId :: string
  sr_title :: string

datatype tool_detail =
    ShellDetail string "string option"
  | ReadDetail string
  | EditDetail string
  | WriteDetail string
  | SearchDetail string
  | FetchDetail string
  | OtherDetail string "session_reference option" "session_reference list option"

record question_option =
  qo_value :: string
  qo_label :: string
  qo_description :: "string option"

datatype selection = SingleSelection | MultipleSelection

record question =
  q_questionId :: string
  q_header :: string
  q_prompt :: string
  q_description :: "string option"
  q_required :: bool
  q_selection :: selection
  q_options :: "question_option list"
  q_allowCustomText :: bool
  q_allowDismiss :: bool
  q_sensitive :: "bool option"

datatype plan_action = Approve | ApproveAndResume | Reject

datatype tool_decision = AllowTool | DenyTool | CancelTool

datatype approval_scope = ScopeOnce | ScopeSession | ScopePolicy

datatype text_format = EmailFormat | UriFormat | DateFormat | DateTimeFormat

record form_option =
  fo_value :: string
  fo_label :: string

datatype form_field_type =
    TextField (tf_minLength: "nat option") (tf_maxLength: "nat option")
      (tf_format: "text_format option") (tf_default: "string option")
  | NumberField (nf_integer: "bool option") (nf_minimum: "js_number option")
      (nf_maximum: "js_number option") (nf_default: "js_number option")
  | BooleanField (bf_default: "bool option")
  | SelectField (sf_options: "form_option list") (sf_default: "string option")
  | MultiSelectField (mf_options: "form_option list") (mf_minItems: "nat option")
      (mf_maxItems: "nat option") (mf_default: "string list option")

record form_field =
  ff_fieldId :: string
  ff_label :: string
  ff_required :: bool
  ff_description :: "string option"
  ff_sensitive :: "bool option"
  ff_type :: form_field_type

datatype permission_resource = FilesystemResource | NetworkResource

datatype permission_access = ReadAccess | WriteAccess | DenyAccess | ConnectAccess

record permission =
  p_resource :: permission_resource
  p_access :: permission_access
  p_target :: string

datatype permission_scope = TurnScope | SessionScope

record policy =
  pol_policyId :: string
  pol_description :: string

datatype request_body =
    QuestionRequest "question list"
  | PlanApprovalRequest string "plan_action list"
  | ToolApprovalRequest string string string tool_detail "tool_decision list"
      "approval_scope list" "policy list option" "(string \<times> string) list option"
  | FormRequest string string "form_field list"
  | PermissionApprovalRequest string "permission list" "permission_scope list"
  | ExternalActionRequest string string string

record request =
  rq_requestId :: string
  rq_body :: request_body

subsection \<open>Responses\<close>

datatype form_value = FormString string | FormNumber js_number | FormBool bool | FormList "string list"

record answer =
  an_questionId :: string
  an_selectedValues :: "string list"
  an_customText :: "string option"
  an_redacted :: "bool option"

datatype form_refusal = DeclineForm | CancelForm

datatype external_action = ExternalCompleted | ExternalDecline | ExternalCancel

text \<open>
  The constructors follow the union \<open>AgentInteractionResponse\<close>. \<open>PlanResponse\<close> carries the action and
  the feedback key, which only a rejection may have; \<open>ToolRefuse\<close> carries \<open>deny\<close> or \<open>cancel\<close>.
\<close>

datatype tool_refusal = RefuseDeny | RefuseCancel

fun refusal_decision :: "tool_refusal \<Rightarrow> tool_decision" where
  "refusal_decision RefuseDeny = DenyTool"
| "refusal_decision RefuseCancel = CancelTool"

datatype response =
    QuestionResponse "answer list" "bool option"
  | PlanResponse plan_action "string option"
  | ToolAllow approval_scope "string option"
  | ToolRefuse tool_refusal "string option"
  | FormSubmit "(string, form_value) jmap" "string list option"
  | FormRefuse form_refusal
  | PermissionAllow permission_scope
  | PermissionDeny
  | ExternalActionResponse external_action

datatype interaction_kind =
  QuestionKind | PlanKind | ToolKind | FormKind | PermissionKind | ExternalKind

fun request_kind :: "request_body \<Rightarrow> interaction_kind" where
  "request_kind (QuestionRequest _) = QuestionKind"
| "request_kind (PlanApprovalRequest _ _) = PlanKind"
| "request_kind (ToolApprovalRequest _ _ _ _ _ _ _ _) = ToolKind"
| "request_kind (FormRequest _ _ _) = FormKind"
| "request_kind (PermissionApprovalRequest _ _ _) = PermissionKind"
| "request_kind (ExternalActionRequest _ _ _) = ExternalKind"

fun response_kind :: "response \<Rightarrow> interaction_kind" where
  "response_kind (QuestionResponse _ _) = QuestionKind"
| "response_kind (PlanResponse _ _) = PlanKind"
| "response_kind (ToolAllow _ _) = ToolKind"
| "response_kind (ToolRefuse _ _) = ToolKind"
| "response_kind (FormSubmit _ _) = FormKind"
| "response_kind (FormRefuse _) = FormKind"
| "response_kind (PermissionAllow _) = PermissionKind"
| "response_kind PermissionDeny = PermissionKind"
| "response_kind (ExternalActionResponse _) = ExternalKind"

subsection \<open>Text formats\<close>

text \<open>\<open>/^[^\s@]+@[^\s@]+\.[^\s@]+$/u\<close>: one \<open>@\<close>, no white space, an inner dot after it.\<close>

definition not_space_at :: "char \<Rightarrow> bool" where
  "not_space_at c \<longleftrightarrow> \<not> js_space c \<and> c \<noteq> CHR ''@''"

definition inner_dot :: "string \<Rightarrow> bool" where
  "inner_dot d \<longleftrightarrow> list_ex (\<lambda>i. d ! i = CHR ''.'') [1..<length d - 1]"

definition email_format :: "string \<Rightarrow> bool" where
  "email_format s =
     (let l = takeWhile not_space_at s; r = dropWhile not_space_at s
      in l \<noteq> [] \<and> r \<noteq> [] \<and> hd r = CHR ''@'' \<and> list_all not_space_at (tl r) \<and> inner_dot (tl r))"

text \<open>\<open>/^[a-z][a-z\d+.-]*:(?:[a-z\d\-._~:/?#[\]@!$&'()*+,;=]|%[a-f\d]{2})*$/iu\<close>.\<close>

definition scheme_char :: "char \<Rightarrow> bool" where
  "scheme_char c \<longleftrightarrow> is_ascii_letter c \<or> is_digit c \<or> c \<in> set ''+.-''"

definition uri_char :: "char \<Rightarrow> bool" where
  "uri_char c \<longleftrightarrow> is_ascii_letter c \<or> is_digit c
     \<or> c \<in> set ''-._~:/?#[]@!$&()*+,;='' \<or> c = CHR 0x27"

definition hex_char :: "char \<Rightarrow> bool" where
  "hex_char c \<longleftrightarrow> is_digit c \<or> lower_char c \<in> set ''abcdef''"

fun uri_rest :: "string \<Rightarrow> bool" where
  "uri_rest [] = True"
| "uri_rest (c # cs) =
     (if c = CHR ''%'' then
        (case cs of a # b # ds \<Rightarrow> hex_char a \<and> hex_char b \<and> uri_rest ds | _ \<Rightarrow> False)
      else uri_char c \<and> uri_rest cs)"

definition uri_format :: "string \<Rightarrow> bool" where
  "uri_format s =
     (let l = takeWhile scheme_char s; r = dropWhile scheme_char s
      in l \<noteq> [] \<and> is_ascii_letter (hd l) \<and> r \<noteq> [] \<and> hd r = CHR '':'' \<and> uri_rest (tl r))"

text \<open>Dates: \<open>/^(\d{4})-(\d{2})-(\d{2})$/u\<close> on the first ten characters, then the calendar.\<close>

definition digits_value :: "string \<Rightarrow> nat" where
  "digits_value s = (case numeral_value 0 s of None \<Rightarrow> 0 | Some n \<Rightarrow> n)"

definition date_shape :: "string \<Rightarrow> bool" where
  "date_shape s \<longleftrightarrow> length s = 10 \<and> s ! 4 = CHR ''-'' \<and> s ! 7 = CHR ''-''
     \<and> list_all (\<lambda>i. is_digit (s ! i)) [0, 1, 2, 3, 5, 6, 8, 9]"

definition days_in_month :: "nat \<Rightarrow> nat \<Rightarrow> nat" where
  "days_in_month year month =
     (let leap = (year mod 4 = 0 \<and> (year mod 100 \<noteq> 0 \<or> year mod 400 = 0))
      in [31, if leap then 29 else 28, 31, 30, 31, 30, 31, 31, 30, 31, 30, 31] ! (month - 1))"

definition two_digit_below :: "nat \<Rightarrow> string \<Rightarrow> bool" where
  "two_digit_below n s \<longleftrightarrow> length s = 2 \<and> list_all is_digit s \<and> digits_value s < n"

definition offset_format :: "string \<Rightarrow> bool" where
  "offset_format s \<longleftrightarrow> s = ''z'' \<or> s = ''Z''
     \<or> (length s = 6 \<and> (hd s = CHR ''+'' \<or> hd s = CHR ''-'') \<and> s ! 3 = CHR '':''
        \<and> two_digit_below 24 (take 2 (drop 1 s)) \<and> two_digit_below 60 (drop 4 s))"

definition fraction_offset :: "string \<Rightarrow> bool" where
  "fraction_offset s =
     (case s of
        [] \<Rightarrow> False
      | c # cs \<Rightarrow>
          if c = CHR ''.'' then
            takeWhile is_digit cs \<noteq> [] \<and> offset_format (dropWhile is_digit cs)
          else offset_format s)"

definition date_time_shape :: "string \<Rightarrow> bool" where
  "date_time_shape s \<longleftrightarrow> 19 \<le> length s \<and> date_shape (take 10 s)
     \<and> (s ! 10 = CHR ''t'' \<or> s ! 10 = CHR ''T'')
     \<and> two_digit_below 24 (take 2 (drop 11 s)) \<and> s ! 13 = CHR '':''
     \<and> two_digit_below 60 (take 2 (drop 14 s)) \<and> s ! 16 = CHR '':''
     \<and> two_digit_below 60 (take 2 (drop 17 s)) \<and> fraction_offset (drop 19 s)"

definition validFormat :: "text_format \<Rightarrow> string \<Rightarrow> bool" where
  "validFormat format value =
     (case format of
        EmailFormat \<Rightarrow> email_format value
      | UriFormat \<Rightarrow> uri_format value
      | _ \<Rightarrow>
          (let date = take 10 value;
               year = digits_value (take 4 date);
               month = digits_value (take 2 (drop 5 date));
               day = digits_value (drop 8 date)
           in date_shape date \<and> 1 \<le> month \<and> month \<le> 12 \<and> 1 \<le> day
              \<and> day \<le> days_in_month year month
              \<and> (if format = DateFormat then length value = 10 else date_time_shape value)))"

subsection \<open>Validation of a response\<close>

fun js_ge :: "js_number \<Rightarrow> js_number \<Rightarrow> bool" where
  "js_ge (Finite a) (Finite b) = (b \<le> a)"
| "js_ge NotANumber _ = False"
| "js_ge _ NotANumber = False"
| "js_ge PosInfinity _ = True"
| "js_ge _ NegInfinity = True"
| "js_ge _ PosInfinity = False"
| "js_ge NegInfinity _ = False"

definition opt_holds :: "('a \<Rightarrow> bool) \<Rightarrow> 'a option \<Rightarrow> bool" where
  "opt_holds P x = (case x of None \<Rightarrow> True | Some v \<Rightarrow> P v)"

definition is_integer :: "rat \<Rightarrow> bool" where
  "is_integer r \<longleftrightarrow> snd (quotient_of r) = 1"

definition option_offers :: "form_option list \<Rightarrow> string \<Rightarrow> bool" where
  "option_offers opts v \<longleftrightarrow> list_ex (\<lambda>o'. fo_value o' = v) opts"

fun validateFormValue :: "form_field_type \<Rightarrow> form_value \<Rightarrow> bool" where
  "validateFormValue (TextField lo hi fmt _) (FormString v) =
     (opt_holds (\<lambda>n. n \<le> length v) lo \<and> opt_holds (\<lambda>n. length v \<le> n) hi
      \<and> opt_holds (\<lambda>f. validFormat f v) fmt)"
| "validateFormValue (NumberField i lo hi _) (FormNumber (Finite r)) =
     ((i = Some True \<longrightarrow> is_integer r) \<and> opt_holds (\<lambda>b. js_ge (Finite r) b) lo
      \<and> opt_holds (\<lambda>b. js_ge b (Finite r)) hi)"
| "validateFormValue (BooleanField _) (FormBool _) = True"
| "validateFormValue (SelectField opts _) (FormString v) = option_offers opts v"
| "validateFormValue (MultiSelectField opts lo hi _) (FormList vs) =
     (distinct vs \<and> list_all (option_offers opts) vs
      \<and> opt_holds (\<lambda>n. n \<le> length vs) lo \<and> opt_holds (\<lambda>n. length vs \<le> n) hi)"
| "validateFormValue _ _ = False"

definition find_question :: "question list \<Rightarrow> string \<Rightarrow> question option" where
  "find_question qs i = find (\<lambda>q. q_questionId q = i) qs"

definition answer_ok :: "bool \<Rightarrow> question \<Rightarrow> answer \<Rightarrow> bool" where
  "answer_ok dismissed q a \<longleftrightarrow>
     an_redacted a = None
     \<and> distinct (an_selectedValues a)
     \<and> (q_selection q = SingleSelection \<longrightarrow> length (an_selectedValues a) \<le> 1)
     \<and> list_all (\<lambda>v. list_ex (\<lambda>o'. qo_value o' = v) (q_options q)) (an_selectedValues a)
     \<and> (an_customText a \<noteq> None \<longrightarrow> q_allowCustomText q)
     \<and> (\<not> dismissed \<and> q_required q \<longrightarrow>
          an_selectedValues a \<noteq> []
          \<or> (case an_customText a of None \<Rightarrow> False | Some t \<Rightarrow> js_trim t \<noteq> []))"

text \<open>The loop over the answers; its result is the set \<open>seen\<close>, or \<open>None\<close> when a check fails.\<close>

fun check_answers :: "question list \<Rightarrow> bool \<Rightarrow> string list \<Rightarrow> answer list \<Rightarrow> string list option" where
  "check_answers qs dismissed seen [] = Some seen"
| "check_answers qs dismissed seen (a # as) =
     (case find_question qs (an_questionId a) of
        None \<Rightarrow> None
      | Some q \<Rightarrow>
          if an_questionId a \<notin> set seen \<and> answer_ok dismissed q a
          then check_answers qs dismissed (an_questionId a # seen) as
          else None)"

definition valid_question_response :: "question list \<Rightarrow> answer list \<Rightarrow> bool option \<Rightarrow> bool" where
  "valid_question_response qs as d =
     (let dismissed = (d = Some True)
      in case check_answers qs dismissed [] as of
           None \<Rightarrow> False
         | Some seen \<Rightarrow>
             if dismissed then list_all q_allowDismiss qs
             else list_all (\<lambda>q. q_required q \<longrightarrow> q_questionId q \<in> set seen) qs)"

definition valid_form_submit ::
  "form_field list \<Rightarrow> (string, form_value) jmap \<Rightarrow> string list option \<Rightarrow> bool" where
  "valid_form_submit flds vals redacted \<longleftrightarrow>
     redacted = None
     \<and> list_all (\<lambda>k. list_ex (\<lambda>f. ff_fieldId f = k) flds) (obj_keys vals)
     \<and> list_all (\<lambda>f. case jget vals (ff_fieldId f) of
           None \<Rightarrow> \<not> ff_required f
         | Some v \<Rightarrow> validateFormValue (ff_type f) v) flds"

fun valid_response :: "request_body \<Rightarrow> response \<Rightarrow> bool" where
  "valid_response (QuestionRequest qs) (QuestionResponse as d) = valid_question_response qs as d"
| "valid_response (PlanApprovalRequest _ actions) (PlanResponse a feedback) =
     ((a \<noteq> Reject \<longrightarrow> feedback = None) \<and> a \<in> set actions)"
| "valid_response (ToolApprovalRequest _ _ _ _ decisions scopes policies _) (ToolAllow sc pid) =
     (AllowTool \<in> set decisions
      \<and> (sc \<noteq> ScopePolicy \<longrightarrow> pid = None)
      \<and> sc \<in> set scopes
      \<and> (sc = ScopePolicy \<longrightarrow>
           (case policies of
              None \<Rightarrow> False
            | Some ps \<Rightarrow> list_ex (\<lambda>p. Some (pol_policyId p) = pid) ps)))"
| "valid_response (ToolApprovalRequest _ _ _ _ decisions _ _ _) (ToolRefuse d _) =
     (refusal_decision d \<in> set decisions)"
| "valid_response (FormRequest _ _ _) (FormRefuse _) = True"
| "valid_response (FormRequest _ _ flds) (FormSubmit vals redacted) =
     valid_form_submit flds vals redacted"
| "valid_response (PermissionApprovalRequest _ _ scopes) (PermissionAllow sc) = (sc \<in> set scopes)"
| "valid_response (PermissionApprovalRequest _ _ _) PermissionDeny = True"
| "valid_response (ExternalActionRequest _ _ _) (ExternalActionResponse _) = True"
| "valid_response _ _ = False"

definition invalid_response_error :: js_error where
  "invalid_response_error = Thrown OperationRejectedError ''invalid_operation''
     ''Interaction response does not satisfy the pending request.''"

definition validateInteractionResponse :: "request \<Rightarrow> response \<Rightarrow> unit js_result" where
  "validateInteractionResponse rq rs =
     (if valid_response (rq_body rq) rs then Inr () else Inl invalid_response_error)"

subsection \<open>Redaction\<close>

definition redact_field :: "form_field \<Rightarrow> form_field" where
  "redact_field f =
     (if ff_sensitive f = Some True then
        f\<lparr>ff_type := (case ff_type f of
            TextField lo hi fmt _ \<Rightarrow> TextField lo hi fmt None
          | NumberField i lo hi _ \<Rightarrow> NumberField i lo hi None
          | BooleanField _ \<Rightarrow> BooleanField None
          | SelectField opts _ \<Rightarrow> SelectField opts None
          | MultiSelectField opts lo hi _ \<Rightarrow> MultiSelectField opts lo hi None)\<rparr>
      else f)"

definition redactInteractionRequest :: "request \<Rightarrow> request" where
  "redactInteractionRequest rq =
     (case rq_body rq of
        FormRequest title msg flds \<Rightarrow> rq\<lparr>rq_body := FormRequest title msg (map redact_field flds)\<rparr>
      | _ \<Rightarrow> rq)"

definition hide_answer :: "request \<Rightarrow> answer \<Rightarrow> bool" where
  "hide_answer rq a =
     (case rq_body rq of
        QuestionRequest qs \<Rightarrow>
          (case find_question qs (an_questionId a) of
             None \<Rightarrow> True
           | Some q \<Rightarrow> q_sensitive q = Some True \<or> an_redacted a = Some True)
      | _ \<Rightarrow> True)"

definition redact_answer :: "request \<Rightarrow> answer \<Rightarrow> answer" where
  "redact_answer rq a =
     (if hide_answer rq a
      then \<lparr>an_questionId = an_questionId a, an_selectedValues = [], an_customText = None,
            an_redacted = Some True\<rparr>
      else a)"

definition find_field :: "request \<Rightarrow> string \<Rightarrow> form_field option" where
  "find_field rq k =
     (case rq_body rq of
        FormRequest _ _ flds \<Rightarrow> find (\<lambda>f. ff_fieldId f = k) flds
      | _ \<Rightarrow> None)"

definition hide_field :: "request \<Rightarrow> string list \<Rightarrow> string \<Rightarrow> bool" where
  "hide_field rq redacted k =
     (case find_field rq k of
        None \<Rightarrow> True
      | Some f \<Rightarrow> ff_sensitive f = Some True \<or> k \<in> set redacted)"

text \<open>The loop over the keys: the values that are left and the set \<open>redacted\<close> in insertion order.\<close>

fun redact_values ::
  "request \<Rightarrow> string list \<Rightarrow> (string, form_value) jmap \<Rightarrow> string list
   \<Rightarrow> (string, form_value) jmap \<times> string list" where
  "redact_values rq [] vals redacted = (vals, redacted)"
| "redact_values rq (k # ks) vals redacted =
     (if hide_field rq redacted k
      then redact_values rq ks (jdelete vals k)
             (if k \<in> set redacted then redacted else redacted @ [k])
      else redact_values rq ks vals redacted)"

definition redactInteractionResponse :: "request \<Rightarrow> response \<Rightarrow> response" where
  "redactInteractionResponse rq rs =
     (case rs of
        QuestionResponse as d \<Rightarrow> QuestionResponse (map (redact_answer rq) as) d
      | FormSubmit vals rf \<Rightarrow>
          (let (vals', redacted) =
             redact_values rq (obj_keys vals) vals
               (js_unique (case rf of None \<Rightarrow> [] | Some r \<Rightarrow> r))
           in FormSubmit vals' (if redacted = [] then rf else Some redacted))
      | _ \<Rightarrow> rs)"

subsection \<open>What validation guarantees\<close>

lemma find_question_SomeD: "find_question qs i = Some q \<Longrightarrow> q \<in> set qs \<and> q_questionId q = i"
  by (auto simp: find_question_def find_Some_iff)

lemma check_answers_SomeD:
  assumes "check_answers qs dismissed seen as = Some seen'"
  shows "set seen' = set seen \<union> an_questionId ` set as"
    and "distinct (map an_questionId as)"
    and "an_questionId ` set as \<inter> set seen = {}"
    and "\<forall>a \<in> set as. \<exists>q. find_question qs (an_questionId a) = Some q \<and> answer_ok dismissed q a"
  using assms
  by (induction qs dismissed seen as rule: check_answers.induct)
    (auto split: option.splits if_splits)

lemma validate_Inr_iff [simp]:
  "validateInteractionResponse rq rs = Inr () \<longleftrightarrow> valid_response (rq_body rq) rs"
  by (simp add: validateInteractionResponse_def)

lemma validate_Inl_iff:
  "validateInteractionResponse rq rs = Inl e
   \<longleftrightarrow> \<not> valid_response (rq_body rq) rs \<and> e = invalid_response_error"
  by (auto simp: validateInteractionResponse_def)

lemma valid_response_kind: "valid_response b rs \<Longrightarrow> request_kind b = response_kind rs"
  by (cases "(b, rs)" rule: valid_response.cases) auto

lemma answer_ok_choices:
  "answer_ok d q a \<Longrightarrow> set (an_selectedValues a) \<subseteq> qo_value ` set (q_options q)"
  by (auto simp: answer_ok_def list_all_iff list_ex_iff)

lemma valid_question_answers:
  assumes "valid_question_response qs as d" and "a \<in> set as"
  obtains q where "q \<in> set qs" and "q_questionId q = an_questionId a"
    and "answer_ok (d = Some True) q a"
proof -
  from assms(1) obtain seen where "check_answers qs (d = Some True) [] as = Some seen"
    by (auto simp: valid_question_response_def Let_def split: option.splits)
  from check_answers_SomeD(4) [OF this] assms(2)
  obtain q where "find_question qs (an_questionId a) = Some q" "answer_ok (d = Some True) q a"
    by blast
  with that show thesis by (auto dest: find_question_SomeD)
qed

lemma valid_question_required:
  assumes "valid_question_response qs as d" and "d \<noteq> Some True"
    and "q \<in> set qs" and "q_required q"
  shows "\<exists>a \<in> set as. an_questionId a = q_questionId q"
proof -
  from assms(1,2) obtain seen where seen: "check_answers qs False [] as = Some seen"
    and req: "list_all (\<lambda>q. q_required q \<longrightarrow> q_questionId q \<in> set seen) qs"
    by (auto simp: valid_question_response_def Let_def split: option.splits)
  from req assms(3,4) have "q_questionId q \<in> set seen" by (simp add: list_all_iff)
  with check_answers_SomeD(1) [OF seen] show ?thesis by auto
qed

lemma valid_question_distinct:
  "valid_question_response qs as d \<Longrightarrow> distinct (map an_questionId as)"
  by (auto simp: valid_question_response_def Let_def dest: check_answers_SomeD(2) split: option.splits)

subsection \<open>What redaction guarantees\<close>

lemma redact_field_id [simp]: "ff_fieldId (redact_field f) = ff_fieldId f"
  and redact_field_required [simp]: "ff_required (redact_field f) = ff_required f"
  and redact_field_sensitive [simp]: "ff_sensitive (redact_field f) = ff_sensitive f"
  by (simp_all add: redact_field_def)

lemma validateFormValue_redact [simp]:
  "validateFormValue (ff_type (redact_field f)) v = validateFormValue (ff_type f) v"
  by (cases "(ff_type f, v)" rule: validateFormValue.cases)
    (simp_all add: redact_field_def split: form_field_type.splits)

lemma valid_form_submit_redact [simp]:
  "valid_form_submit (map redact_field fs) vals r = valid_form_submit fs vals r"
  by (simp add: valid_form_submit_def list_all_iff list_ex_iff cong: option.case_cong)

lemma valid_response_redact:
  "valid_response (rq_body (redactInteractionRequest rq)) rs = valid_response (rq_body rq) rs"
proof (cases "rq_body rq")
  case (FormRequest title msg fs)
  then show ?thesis
    by (cases rs) (simp_all add: redactInteractionRequest_def)
qed (simp_all add: redactInteractionRequest_def)

lemma redact_request_id [simp]: "rq_requestId (redactInteractionRequest rq) = rq_requestId rq"
  by (simp add: redactInteractionRequest_def split: request_body.splits)

fun field_default :: "form_field_type \<Rightarrow> bool" where
  "field_default (TextField _ _ _ d) = (d \<noteq> None)"
| "field_default (NumberField _ _ _ d) = (d \<noteq> None)"
| "field_default (BooleanField d) = (d \<noteq> None)"
| "field_default (SelectField _ d) = (d \<noteq> None)"
| "field_default (MultiSelectField _ _ _ d) = (d \<noteq> None)"

lemma redact_field_default:
  "ff_sensitive f = Some True \<Longrightarrow> \<not> field_default (ff_type (redact_field f))"
  by (simp add: redact_field_def split: form_field_type.splits)

lemma redact_values_spec:
  assumes "redact_values rq ks vals redacted = (vals', redacted')"
    and "distinct ks" and "wf_jmap vals" and "distinct redacted"
  shows "wf_jmap vals' \<and> distinct redacted' \<and> set redacted \<subseteq> set redacted'
    \<and> set redacted' \<subseteq> set redacted \<union> set ks
    \<and> (\<forall>k \<in> set ks. jget vals' k \<noteq> None \<longrightarrow> \<not> hide_field rq redacted' k)
    \<and> (\<forall>k \<in> set redacted' - set redacted. jget vals' k = None)
    \<and> (\<forall>k. jget vals' k = jget vals k \<or> (k \<in> set ks \<and> jget vals' k = None \<and> k \<in> set redacted'))"
  using assms
proof (induction rq ks vals redacted rule: redact_values.induct)
  case (1 rq vals redacted)
  then show ?case by simp
next
  case (2 rq k ks vals redacted)
  show ?case
  proof (cases "hide_field rq redacted k")
    case True
    let ?r = "if k \<in> set redacted then redacted else redacted @ [k]"
    from True 2(3) have eq: "redact_values rq ks (jdelete vals k) ?r = (vals', redacted')"
      by simp
    from 2(4-) have pre: "distinct ks" "wf_jmap (jdelete vals k)" "distinct ?r" by auto
    have ih: "wf_jmap vals' \<and> distinct redacted' \<and> set ?r \<subseteq> set redacted'
      \<and> set redacted' \<subseteq> set ?r \<union> set ks
      \<and> (\<forall>j \<in> set ks. jget vals' j \<noteq> None \<longrightarrow> \<not> hide_field rq redacted' j)
      \<and> (\<forall>j \<in> set redacted' - set ?r. jget vals' j = None)
      \<and> (\<forall>j. jget vals' j = jget (jdelete vals k) j
           \<or> (j \<in> set ks \<and> jget vals' j = None \<and> j \<in> set redacted'))"
      by (rule "2.IH"(1) [OF True eq pre])
    have k_gone: "jget vals' k = None"
      using ih by (metis fun_upd_same jget_delete)
    show ?thesis
      using ih k_gone by (auto split: if_splits simp: fun_upd_apply)
  next
    case False
    with 2(3) have eq: "redact_values rq ks vals redacted = (vals', redacted')" by simp
    from 2(4-) have pre: "distinct ks" "wf_jmap vals" "distinct redacted" by auto
    note ih = "2.IH"(2) [OF False eq pre]
    from 2(4) have "k \<notin> set ks" by simp
    with ih have "k \<in> set redacted' \<longleftrightarrow> k \<in> set redacted" by blast
    then have "hide_field rq redacted' k = hide_field rq redacted k"
      by (simp add: hide_field_def split: option.splits)
    with False ih show ?thesis by auto
  qed
qed

end
