(* ===== verification/Timeline_Types.thy ===== *)
theory Timeline_Types
  imports Background Interactions
begin

section \<open>Timeline items and entries\<close>

text \<open>
  The data of \<open>agent-remote-protocol/src/timeline.ts\<close> with what it refers to: \<open>tool-result.ts\<close>,
  \<open>resources.ts\<close> (bindings), \<open>image-input.ts\<close> (the parts of a user message) and \<open>cursor.ts\<close>. The type of a timeline item is the
  union of the source with the common optional \<open>background\<close> annotation split off into the record
  \<open>item\<close>. An absent optional property is \<open>None\<close>.
\<close>

subsection \<open>Tool calls\<close>

datatype output_stream = Stdout | Stderr | Combined

datatype tool_result_content = TextContent string "output_stream option" | JsonContent json

record tool_result =
  tr_content :: "tool_result_content list"
  tr_exitCode :: "int option"
  tr_durationMs :: "rat option"
  tr_truncated :: "bool option"

text \<open>The four variants of \<open>AgentToolCallTimelineItem\<close>: only a failure carries an error text.\<close>

datatype tool_status = ToolRunning | ToolCompleted | ToolFailed string | ToolCanceled

subsection \<open>Items\<close>

datatype user_message_part =
    UserText string
  | UserResource (up_locator: string) (up_label: string) (up_name: string)
      (up_mediaType: string) (up_byteLength: nat) (up_sha256: string)
  | UserImage (up_locator: string) (up_label: string) (up_digest: "string option")

datatype task_status = TaskPending | TaskInProgress | TaskCompleted

record task_item =
  task_text :: string
  task_completed :: bool
  task_id :: "string option"
  task_status :: "task_status option"
  task_activeForm :: "string option"

datatype compaction_status = CompactionLoading | CompactionCompleted

datatype compaction_trigger = AutoTrigger | ManualTrigger

datatype item_body =
    UserMessage (um_text: string) (um_content: "user_message_part list option")
      (um_messageId: "string option") (um_clientMessageId: "string option") (um_withdrawn: bool)
  | AssistantMessage (am_text: string) (am_messageId: "string option")
  | AgentCommunication (ac_messageId: string) (ac_sender: string) (ac_recipient: string)
      (ac_text: string)
  | Reasoning (re_text: string)
  | ToolCall (tc_callId: string) (tc_name: string) (tc_detail: tool_detail)
      (tc_result: "tool_result option") (tc_status: tool_status)
  | Todo (td_items: "task_item list")
  | Interaction (ia_request: request) (ia_response: response)
  | ErrorItem (er_message: string)
  | Compaction (cp_status: compaction_status) (cp_trigger: "compaction_trigger option")
      (cp_preTokens: "nat option")

record item =
  it_body :: item_body
  it_background :: "background option"

text \<open>\<open>{ ...item, text: item.text + more }\<close> on the two kinds of item whose text accumulates.\<close>

fun append_text :: "item_body \<Rightarrow> item_body \<Rightarrow> item_body" where
  "append_text (AssistantMessage t m) (AssistantMessage t' _) = AssistantMessage (t @ t') m"
| "append_text (Reasoning t) (Reasoning t') = Reasoning (t @ t')"
| "append_text b _ = b"

text \<open>\<open>{ ...older, ...newer }\<close> on two compaction items: a property the newer one has replaces.\<close>

fun spread_compaction :: "item_body \<Rightarrow> item_body \<Rightarrow> item_body" where
  "spread_compaction (Compaction _ t p) (Compaction s' t' p') =
     Compaction s' (or_else t' t) (or_else p' p)"
| "spread_compaction _ newer = newer"

definition spread_item :: "item \<Rightarrow> item \<Rightarrow> item" where
  "spread_item older newer =
     \<lparr>it_body = spread_compaction (it_body older) (it_body newer),
      it_background = or_else (it_background newer) (it_background older)\<rparr>"

text \<open>The background of an item that takes over an earlier one of the same entry.\<close>

definition merged_background :: "background option \<Rightarrow> background option \<Rightarrow> background option" where
  "merged_background previous incoming =
     (case incoming of None \<Rightarrow> None | Some b \<Rightarrow> Some (mergeBackgroundActivity previous b))"

definition background_id :: "item \<Rightarrow> string option" where
  "background_id i = map_option bg_id (it_background i)"

subsection \<open>Cursors and resource bindings\<close>

record cursor =
  cu_epoch :: string
  cu_seq :: int

datatype resource_status = ResPending | ResAvailable | ResFailed | ResUnavailable

record resource_binding =
  rb_locator :: string
  rb_resourceId :: string
  rb_status :: resource_status

subsection \<open>Projected entries\<close>

type_synonym seq_range = "int \<times> int"

datatype timeline_collapse = AssistantMerge | ReasoningMerge | ToolLifecycle

record entry =
  en_providerId :: string
  en_item :: item
  en_turnId :: "string option"
  en_timestamp :: string
  en_seqStart :: int
  en_seqEnd :: int
  en_ranges :: "seq_range list"
  en_collapsed :: "timeline_collapse list"
  en_resources :: "resource_binding list"

text \<open>The sequence numbers an entry was projected from.\<close>

definition range_seqs :: "seq_range list \<Rightarrow> int set" where
  "range_seqs rs = (\<Union>(a, b) \<in> set rs. {a..b})"

definition entry_seqs :: "entry \<Rightarrow> int set" where
  "entry_seqs e = range_seqs (en_ranges e)"

lemma range_seqs_Nil [simp]: "range_seqs [] = {}"
  by (simp add: range_seqs_def)

lemma range_seqs_Cons [simp]: "range_seqs ((a, b) # rs) = {a..b} \<union> range_seqs rs"
  by (simp add: range_seqs_def)

lemma range_seqs_append [simp]: "range_seqs (rs @ ss) = range_seqs rs \<union> range_seqs ss"
  by (simp add: range_seqs_def)

text \<open>Ascending ranges that neither overlap nor touch: the normal form of \<open>sourceSeqRanges\<close>.\<close>

fun normal_ranges :: "seq_range list \<Rightarrow> bool" where
  "normal_ranges [] = True"
| "normal_ranges [(a, b)] = (a \<le> b)"
| "normal_ranges ((a, b) # (c, d) # rs) = (a \<le> b \<and> b + 1 < c \<and> normal_ranges ((c, d) # rs))"

end
