(* ===== verification/Timeline_Store.thy ===== *)
theory Timeline_Store
  imports Timeline_Types
begin

section \<open>The relay's timeline store\<close>

text \<open>
  Models \<open>agent-remote-relay/src/timeline-store.ts\<close>. The store keeps the canonical rows of one epoch
  in sequence order, an index from the source record and its native revision to the row, and the
  merged background outcomes. The index of the source holds references to the row objects; a row is
  identified here by its sequence number, so the index maps to that and a lookup reads the current
  row. Rows handed out are copies (\<open>structuredClone\<close>), as values are.
\<close>

subsection \<open>State\<close>

record row =
  ro_epoch :: string
  ro_seq :: int
  ro_providerId :: string
  ro_sourceKey :: string
  ro_nativeRevision :: "int option"
  ro_occurredAt :: int
  ro_timestamp :: string
  ro_turnId :: "string option"
  ro_item :: item
  ro_resources :: "resource_binding list"

record row_input =
  in_providerId :: string
  in_sourceKey :: string
  in_nativeRevision :: "int option"
  in_occurredAt :: int
  in_turnId :: "string option"
  in_item :: item
  in_resources :: "resource_binding list option"

datatype append_result = Appended (result_row: row) | DuplicateRow (result_row: row)

record timeline_store =
  ts_epoch :: string
  ts_rows :: "row list"
  ts_index :: "(string, (int option, int) jmap) jmap"
  ts_outcomes :: "(string, background) jmap"

definition new_store :: "string \<Rightarrow> timeline_store js_result" where
  "new_store epoch =
     (if epoch = [] then throw_plain ''Timeline epoch must be non-empty.''
      else Inr \<lparr>ts_epoch = epoch, ts_rows = [], ts_index = [], ts_outcomes = []\<rparr>)"

subsection \<open>Operations\<close>

definition last_seq :: "row list \<Rightarrow> int" where
  "last_seq rows = (case at_last rows of None \<Rightarrow> 0 | Some r \<Rightarrow> ro_seq r)"

definition store_cursor :: "timeline_store \<Rightarrow> cursor" where
  "store_cursor s = \<lparr>cu_epoch = ts_epoch s, cu_seq = last_seq (ts_rows s)\<rparr>"

definition index_lookup :: "timeline_store \<Rightarrow> string \<Rightarrow> int option \<Rightarrow> int option" where
  "index_lookup s source revision =
     (case jget (ts_index s) source of None \<Rightarrow> None | Some revs \<Rightarrow> jget revs revision)"

definition index_insert ::
  "(string, (int option, int) jmap) jmap \<Rightarrow> string \<Rightarrow> int option \<Rightarrow> int
   \<Rightarrow> (string, (int option, int) jmap) jmap" where
  "index_insert ix source revision seq =
     (case jget ix source of
        Some revs \<Rightarrow> jset ix source (jset revs revision seq)
      | None \<Rightarrow> jset ix source [(revision, seq)])"

definition find_row :: "timeline_store \<Rightarrow> int \<Rightarrow> row option" where
  "find_row s seq = find (\<lambda>r. ro_seq r = seq) (ts_rows s)"

definition existing_row :: "timeline_store \<Rightarrow> row_input \<Rightarrow> row option" where
  "existing_row s i =
     (case index_lookup s (in_sourceKey i) (in_nativeRevision i) of
        None \<Rightarrow> None | Some seq \<Rightarrow> find_row s seq)"

definition apply_outcome :: "(string, background) jmap \<Rightarrow> item \<Rightarrow> item" where
  "apply_outcome outcomes i =
     (case it_background i of
        None \<Rightarrow> i
      | Some b \<Rightarrow>
          (case jget outcomes (bg_id b) of
             None \<Rightarrow> i
           | Some out \<Rightarrow> i\<lparr>it_background := Some (mergeBackgroundActivity (Some b) out)\<rparr>))"

definition applyBackground :: "timeline_store \<Rightarrow> row \<Rightarrow> row" where
  "applyBackground s r = r\<lparr>ro_item := apply_outcome (ts_outcomes s) (ro_item r)\<rparr>"

definition make_row :: "timeline_store \<Rightarrow> row_input \<Rightarrow> int \<Rightarrow> string \<Rightarrow> row" where
  "make_row s i seq timestamp =
     applyBackground s
       \<lparr>ro_epoch = ts_epoch s, ro_seq = seq, ro_providerId = in_providerId i,
        ro_sourceKey = in_sourceKey i, ro_nativeRevision = in_nativeRevision i,
        ro_occurredAt = in_occurredAt i, ro_timestamp = timestamp, ro_turnId = in_turnId i,
        ro_item = in_item i, ro_resources = (case in_resources i of None \<Rightarrow> [] | Some r \<Rightarrow> r)\<rparr>"

definition append_row :: "timeline_store \<Rightarrow> row_input \<Rightarrow> (append_result \<times> timeline_store) js_result" where
  "append_row s i =
     (case existing_row s i of
        Some r \<Rightarrow> Inr (DuplicateRow r, s)
      | None \<Rightarrow>
          (case to_iso_string (in_occurredAt i) of
             Inl e \<Rightarrow> Inl e
           | Inr timestamp \<Rightarrow>
               (let r = make_row s i (last_seq (ts_rows s) + 1) timestamp
                in Inr (Appended r,
                        s\<lparr>ts_rows := ts_rows s @ [r],
                          ts_index := index_insert (ts_index s) (in_sourceKey i)
                                        (in_nativeRevision i) (ro_seq r)\<rparr>))))"

definition first_seq :: "row list \<Rightarrow> int" where
  "first_seq rows = (case rows of [] \<Rightarrow> 1 | r # _ \<Rightarrow> ro_seq r)"

definition prepend_row :: "timeline_store \<Rightarrow> row_input \<Rightarrow> (append_result \<times> timeline_store) js_result" where
  "prepend_row s i =
     (case existing_row s i of
        Some r \<Rightarrow> Inr (DuplicateRow r, s)
      | None \<Rightarrow>
          (let seq = first_seq (ts_rows s) - 1
           in if \<not> is_safe_integer seq then throw_plain ''Timeline history position exhausted''
              else (case to_iso_string (in_occurredAt i) of
                 Inl e \<Rightarrow> Inl e
               | Inr timestamp \<Rightarrow>
                   (let r = make_row s i seq timestamp
                    in Inr (Appended r,
                            s\<lparr>ts_rows := r # ts_rows s,
                              ts_index := index_insert (ts_index s) (in_sourceKey i)
                                            (in_nativeRevision i) seq\<rparr>)))))"

definition record_outcome ::
  "(string, background) jmap \<Rightarrow> background \<Rightarrow> (string, background) jmap" where
  "record_outcome outcomes b =
     (let m = jset outcomes (bg_id b) (mergeBackgroundActivity (jget outcomes (bg_id b)) b)
      in if length m > max_background_outcomes then jdelete m (fst (hd m)) else m)"

definition updateBackground :: "timeline_store \<Rightarrow> background \<Rightarrow> timeline_store" where
  "updateBackground s b =
     (let s' = s\<lparr>ts_outcomes := record_outcome (ts_outcomes s) b\<rparr>
      in s'\<lparr>ts_rows :=
             map (\<lambda>r. if background_id (ro_item r) = Some (bg_id b) then applyBackground s' r else r)
               (ts_rows s')\<rparr>)"

definition bindResources ::
  "timeline_store \<Rightarrow> int \<Rightarrow> resource_binding list \<Rightarrow> (row \<times> timeline_store) js_result" where
  "bindResources s seq resources =
     (case find_row s seq of
        None \<Rightarrow> throw_plain ''Timeline row was not found.''
      | Some r \<Rightarrow>
          (let r' = r\<lparr>ro_resources := resources\<rparr>
           in Inr (r', s\<lparr>ts_rows := map (\<lambda>x. if x = r then r' else x) (ts_rows s)\<rparr>)))"

subsection \<open>Well-formed stores\<close>

definition row_key :: "row \<Rightarrow> string \<times> int option" where
  "row_key r = (ro_sourceKey r, ro_nativeRevision r)"

definition input_key :: "row_input \<Rightarrow> string \<times> int option" where
  "input_key i = (in_sourceKey i, in_nativeRevision i)"

text \<open>
  The rows carry the store's epoch and consecutive sequence numbers; the index knows exactly the
  rows; one record (source and revision) is stored once; outcomes are keyed by their identity,
  bounded, and never above what the rows of the activity show.
\<close>

definition consecutive :: "row list \<Rightarrow> bool" where
  "consecutive rows \<longleftrightarrow> map ro_seq rows = [first_seq rows .. last_seq rows]"

definition index_exact :: "timeline_store \<Rightarrow> bool" where
  "index_exact s \<longleftrightarrow> (\<forall>source rev seq. index_lookup s source rev = Some seq
     \<longleftrightarrow> (\<exists>r \<in> set (ts_rows s). row_key r = (source, rev) \<and> ro_seq r = seq))"

definition outcomes_wf :: "(string, background) jmap \<Rightarrow> bool" where
  "outcomes_wf m \<longleftrightarrow> wf_jmap m \<and> length m \<le> max_background_outcomes
     \<and> (\<forall>i b. jget m i = Some b \<longrightarrow> bg_id b = i)"

definition shows_outcome :: "(string, background) jmap \<Rightarrow> item \<Rightarrow> bool" where
  "shows_outcome m i \<longleftrightarrow> (\<forall>b out. it_background i = Some b \<longrightarrow> jget m (bg_id b) = Some out
     \<longrightarrow> bg_status out \<le> bg_status b)"

definition wf_store :: "timeline_store \<Rightarrow> bool" where
  "wf_store s \<longleftrightarrow>
     ts_epoch s \<noteq> [] \<and> (\<forall>r \<in> set (ts_rows s). ro_epoch r = ts_epoch s)
     \<and> consecutive (ts_rows s) \<and> index_exact s \<and> outcomes_wf (ts_outcomes s)
     \<and> (\<forall>r \<in> set (ts_rows s). shows_outcome (ts_outcomes s) (ro_item r))"

lemma wf_storeI:
  "ts_epoch s \<noteq> [] \<Longrightarrow> (\<And>r. r \<in> set (ts_rows s) \<Longrightarrow> ro_epoch r = ts_epoch s) \<Longrightarrow>
   consecutive (ts_rows s) \<Longrightarrow> index_exact s \<Longrightarrow> outcomes_wf (ts_outcomes s) \<Longrightarrow>
   (\<And>r. r \<in> set (ts_rows s) \<Longrightarrow> shows_outcome (ts_outcomes s) (ro_item r)) \<Longrightarrow> wf_store s"
  by (simp add: wf_store_def)

lemma first_seq_simps [simp]: "first_seq [] = 1" "first_seq (r # rs) = ro_seq r"
  by (simp_all add: first_seq_def)

lemma last_seq_simps [simp]:
  "last_seq [] = 0" "last_seq (rs @ [r]) = ro_seq r"
  "rs \<noteq> [] \<Longrightarrow> last_seq (r # rs) = last_seq rs" "last_seq [r] = ro_seq r"
  by (simp_all add: last_seq_def at_last_def)

lemma last_seq_last: "rs \<noteq> [] \<Longrightarrow> last_seq rs = ro_seq (last rs)"
  by (simp add: last_seq_def at_last_def)

lemma first_seq_hd: "rs \<noteq> [] \<Longrightarrow> first_seq rs = ro_seq (hd rs)"
  by (cases rs) simp_all

lemma consecutive_bounds:
  assumes "consecutive rows" and "r \<in> set rows"
  shows "first_seq rows \<le> ro_seq r \<and> ro_seq r \<le> last_seq rows"
proof -
  from assms(2) have "ro_seq r \<in> set (map ro_seq rows)" by simp
  with assms(1) show ?thesis by (simp add: consecutive_def)
qed

lemma consecutive_distinct: "consecutive rows \<Longrightarrow> distinct (map ro_seq rows)"
  by (simp add: consecutive_def)

lemma consecutive_le: "consecutive rows \<Longrightarrow> first_seq rows \<le> last_seq rows + 1"
  using consecutive_bounds [of rows "hd rows"] by (cases rows) auto

lemma consecutive_snoc:
  assumes "consecutive rows" and "ro_seq r = last_seq rows + 1"
  shows "consecutive (rows @ [r])"
proof (cases "rows = []")
  case True
  with assms show ?thesis by (simp add: consecutive_def)
next
  case False
  then have "first_seq (rows @ [r]) = first_seq rows" by (cases rows) simp_all
  with assms consecutive_le [OF assms(1)] show ?thesis
    using upto_rec2 [of "first_seq rows" "last_seq rows + 1"] by (simp add: consecutive_def)
qed

lemma consecutive_Cons:
  assumes "consecutive rows" and "ro_seq r = first_seq rows - 1"
  shows "consecutive (r # rows)"
proof (cases "rows = []")
  case True
  with assms show ?thesis by (simp add: consecutive_def)
next
  case False
  with assms consecutive_le [OF assms(1)] show ?thesis
    using upto_rec1 [of "first_seq rows - 1" "last_seq rows"] by (simp add: consecutive_def)
qed

lemma find_row_Some:
  "find_row s seq = Some r \<Longrightarrow> r \<in> set (ts_rows s) \<and> ro_seq r = seq"
  by (auto simp: find_row_def find_Some_iff)

lemma find_row_mem:
  assumes "consecutive (ts_rows s)" and "r \<in> set (ts_rows s)"
  shows "find_row s (ro_seq r) = Some r"
proof -
  from assms(2) obtain r' where r': "find_row s (ro_seq r) = Some r'"
    by (cases "find_row s (ro_seq r)") (auto simp: find_row_def find_None_iff)
  with find_row_Some [OF r'] consecutive_distinct [OF assms(1)] assms(2) show ?thesis
    by (auto dest: inj_onD simp: distinct_map)
qed

lemma existing_row_iff:
  assumes "wf_store s"
  shows "existing_row s i = Some r \<longleftrightarrow> r \<in> set (ts_rows s) \<and> row_key r = input_key i"
proof -
  from assms have c: "consecutive (ts_rows s)" and ix: "index_exact s" by (simp_all add: wf_store_def)
  note look = ix [unfolded index_exact_def, rule_format, of "in_sourceKey i" "in_nativeRevision i"]
  show ?thesis
  proof
    assume "existing_row s i = Some r"
    then obtain seq where l: "index_lookup s (in_sourceKey i) (in_nativeRevision i) = Some seq"
      and f: "find_row s seq = Some r"
      by (auto simp: existing_row_def split: option.splits)
    from look l obtain r' where r': "r' \<in> set (ts_rows s)" "row_key r' = input_key i" "ro_seq r' = seq"
      by (auto simp: input_key_def)
    with find_row_mem [OF c, of r'] f show "r \<in> set (ts_rows s) \<and> row_key r = input_key i" by simp
  next
    assume a: "r \<in> set (ts_rows s) \<and> row_key r = input_key i"
    with look have "index_lookup s (in_sourceKey i) (in_nativeRevision i) = Some (ro_seq r)"
      by (auto simp: input_key_def)
    with a find_row_mem [OF c, of r] show "existing_row s i = Some r"
      by (simp add: existing_row_def)
  qed
qed

lemma existing_row_None_iff:
  "wf_store s \<Longrightarrow> existing_row s i = None \<longleftrightarrow> input_key i \<notin> row_key ` set (ts_rows s)"
  using existing_row_iff [of s i] by (cases "existing_row s i") force+

lemma wf_store_distinct_keys: "wf_store s \<Longrightarrow> distinct (map row_key (ts_rows s))"
proof -
  assume wf: "wf_store s"
  have "inj_on row_key (set (ts_rows s))"
  proof (rule inj_onI)
    fix r r' assume a: "r \<in> set (ts_rows s)" "r' \<in> set (ts_rows s)" "row_key r = row_key r'"
    from wf have ix: "index_exact s" and c: "consecutive (ts_rows s)" by (simp_all add: wf_store_def)
    from a ix have "Some (ro_seq r) = Some (ro_seq r')"
      by (metis index_exact_def prod.collapse)
    with a consecutive_distinct [OF c] show "r = r'" by (auto simp: distinct_map dest: inj_onD)
  qed
  moreover from wf have "distinct (ts_rows s)"
    using consecutive_distinct [of "ts_rows s"] by (simp add: wf_store_def distinct_map)
  ultimately show ?thesis by (simp add: distinct_map)
qed

lemma index_insert_lookup:
  assumes "index_lookup s src rv = None"
    and "ts_index s' = index_insert (ts_index s) src rv seq"
  shows "index_lookup s' a b = (if a = src \<and> b = rv then Some seq else index_lookup s a b)"
  using assms by (auto simp: index_lookup_def index_insert_def split: option.splits)


subsection \<open>Every operation keeps the store well-formed\<close>

lemma new_store_wf: "new_store epoch = Inr s \<Longrightarrow> wf_store s"
  by (auto simp: new_store_def wf_store_def consecutive_def index_exact_def index_lookup_def
      outcomes_wf_def max_background_outcomes_def split: if_splits)

lemma outcomes_keyed: "outcomes_wf m \<Longrightarrow> jget m i = Some b \<Longrightarrow> bg_id b = i"
  by (simp add: outcomes_wf_def)

lemma apply_outcome_id [simp]:
  "outcomes_wf m \<Longrightarrow> background_id (apply_outcome m i) = background_id i"
  by (auto simp: apply_outcome_def background_id_def dest: outcomes_keyed split: option.splits)

lemma apply_outcome_body [simp]: "it_body (apply_outcome m i) = it_body i"
  by (simp add: apply_outcome_def split: option.splits)

lemma apply_outcome_shows: "outcomes_wf m \<Longrightarrow> shows_outcome m (apply_outcome m i)"
  by (auto simp: apply_outcome_def shows_outcome_def bg_merge.merge_rank_ge
      dest: outcomes_keyed split: option.splits)

lemma apply_outcome_mono:
  "it_background i = Some b \<Longrightarrow> outcomes_wf m \<Longrightarrow>
   \<exists>b'. it_background (apply_outcome m i) = Some b' \<and> bg_id b' = bg_id b \<and> bg_status b \<le> bg_status b'"
  by (auto simp: apply_outcome_def outcomes_wf_def bg_merge.merge_rank split: option.splits)

lemma applyBackground_simps [simp]:
  "ro_seq (applyBackground s r) = ro_seq r" "ro_epoch (applyBackground s r) = ro_epoch r"
  "row_key (applyBackground s r) = row_key r" "ro_turnId (applyBackground s r) = ro_turnId r"
  "ro_providerId (applyBackground s r) = ro_providerId r"
  "ro_item (applyBackground s r) = apply_outcome (ts_outcomes s) (ro_item r)"
  "ro_resources (applyBackground s r) = ro_resources r"
  by (simp_all add: applyBackground_def row_key_def)

lemma make_row_simps [simp]:
  "ro_seq (make_row s i seq t) = seq" "ro_epoch (make_row s i seq t) = ts_epoch s"
  "row_key (make_row s i seq t) = input_key i"
  "ro_item (make_row s i seq t) = apply_outcome (ts_outcomes s) (in_item i)"
  by (simp_all add: make_row_def) (simp add: row_key_def input_key_def)

text \<open>A row under a new key, put at either end, keeps the store well-formed.\<close>

lemma insert_row_wf:
  assumes wf: "wf_store s" and fresh: "existing_row s i = None"
    and r: "r = make_row s i seq t"
    and rows: "set (ts_rows s') = insert r (set (ts_rows s))" and "consecutive (ts_rows s')"
    and ix: "ts_index s' = index_insert (ts_index s) (in_sourceKey i) (in_nativeRevision i) seq"
    and same: "ts_epoch s' = ts_epoch s" "ts_outcomes s' = ts_outcomes s"
  shows "wf_store s'"
proof (rule wf_storeI)
  have look: "index_lookup s (in_sourceKey i) (in_nativeRevision i) = None"
  proof (rule ccontr)
    assume "index_lookup s (in_sourceKey i) (in_nativeRevision i) \<noteq> None"
    with wf obtain r' where "r' \<in> set (ts_rows s)" "row_key r' = input_key i"
      by (auto simp: wf_store_def index_exact_def input_key_def)
    with existing_row_None_iff [OF wf, of i] fresh show False by force
  qed
  from wf have "index_exact s" by (simp add: wf_store_def)
  then show "index_exact s'"
    using index_insert_lookup [OF look ix] existing_row_None_iff [OF wf, of i] fresh rows
    by (auto simp: index_exact_def r input_key_def) (metis image_eqI)
  fix x assume "x \<in> set (ts_rows s')"
  with rows wf r same show "ro_epoch x = ts_epoch s'" "shows_outcome (ts_outcomes s') (ro_item x)"
    using apply_outcome_shows [of "ts_outcomes s" "in_item i"] by (auto simp: wf_store_def)
qed (use wf same assms(5) in \<open>simp_all add: wf_store_def\<close>)

lemma append_row_cases:
  assumes "append_row s i = Inr (res, s')"
  obtains (duplicate) r where "existing_row s i = Some r" "res = DuplicateRow r" "s' = s"
  | (appended) r where "existing_row s i = None" "valid_time (in_occurredAt i)"
      "r = make_row s i (last_seq (ts_rows s) + 1) (iso_text (in_occurredAt i))"
      "res = Appended r"
      "s' = s\<lparr>ts_rows := ts_rows s @ [r],
              ts_index := index_insert (ts_index s) (in_sourceKey i) (in_nativeRevision i)
                            (last_seq (ts_rows s) + 1)\<rparr>"
  using assms
  by (auto simp: append_row_def to_iso_string_Inr Let_def split: option.splits sum.splits)

lemma prepend_row_cases:
  assumes "prepend_row s i = Inr (res, s')"
  obtains (duplicate) r where "existing_row s i = Some r" "res = DuplicateRow r" "s' = s"
  | (appended) r where "existing_row s i = None" "valid_time (in_occurredAt i)"
      "r = make_row s i (first_seq (ts_rows s) - 1) (iso_text (in_occurredAt i))"
      "res = Appended r"
      "s' = s\<lparr>ts_rows := r # ts_rows s,
              ts_index := index_insert (ts_index s) (in_sourceKey i) (in_nativeRevision i)
                            (first_seq (ts_rows s) - 1)\<rparr>"
  using assms
  by (auto simp: prepend_row_def to_iso_string_Inr Let_def split: option.splits sum.splits if_splits)

lemma append_row_wf: "wf_store s \<Longrightarrow> append_row s i = Inr (res, s') \<Longrightarrow> wf_store s'"
  by (erule append_row_cases, simp, rule insert_row_wf)
    (auto simp: wf_store_def consecutive_snoc)

lemma prepend_row_wf: "wf_store s \<Longrightarrow> prepend_row s i = Inr (res, s') \<Longrightarrow> wf_store s'"
  by (erule prepend_row_cases, simp, rule insert_row_wf)
    (auto simp: wf_store_def consecutive_Cons)

lemma drop_first_lookup:
  "jget (if length m > n then jdelete m (fst (hd m)) else m) i =
     (if length m > n \<and> i = fst (hd m) then None else jget m i)"
  by simp

lemma record_outcome_lookup:
  obtains k where "jget (record_outcome m b) i =
     (if k = Some i then None
      else if i = bg_id b then Some (mergeBackgroundActivity (jget m (bg_id b)) b) else jget m i)"
proof -
  let ?m = "jset m (bg_id b) (mergeBackgroundActivity (jget m (bg_id b)) b)"
  let ?k = "if length ?m > max_background_outcomes then Some (fst (hd ?m)) else None"
  have "jget (record_outcome m b) i = (if ?k = Some i then None else jget ?m i)"
    unfolding record_outcome_def Let_def drop_first_lookup by (auto simp del: jget_set)
  then show thesis using that [of ?k] by (simp only: jget_set fun_upd_apply)
qed

lemma outcomes_wf_set:
  assumes "outcomes_wf m" and "bg_id b = i"
  shows "wf_jmap (jset m i b)" and "jget (jset m i b) j = Some v \<Longrightarrow> bg_id v = j"
proof -
  from assms(1) have "wf_jmap m" by (simp add: outcomes_wf_def)
  then show "wf_jmap (jset m i b)" by simp
  show "bg_id v = j" if "jget (jset m i b) j = Some v"
  proof (cases "j = i")
    case True
    with that assms(2) show ?thesis by auto
  next
    case False
    with that have "jget m j = Some v" by simp
    with assms(1) show ?thesis by (rule outcomes_keyed)
  qed
qed

lemma record_outcome_wf:
  assumes "outcomes_wf m"
  shows "outcomes_wf (record_outcome m b)"
proof -
  let ?m = "jset m (bg_id b) (mergeBackgroundActivity (jget m (bg_id b)) b)"
  note wf = outcomes_wf_set(1) [OF assms merge_bg_id]
  note keyed = outcomes_wf_set(2) [OF assms merge_bg_id]
  have len: "length ?m \<le> Suc max_background_outcomes"
    using assms unfolding length_jset outcomes_wf_def by (simp split: if_splits)
  show ?thesis
  proof (cases "length ?m > max_background_outcomes")
    case True
    then have "?m \<noteq> []" by auto
    from hd_delete_length [OF wf this] len
    have "length (jdelete ?m (fst (hd ?m))) \<le> max_background_outcomes" by simp
    moreover have "record_outcome m b = jdelete ?m (fst (hd ?m))"
      using True by (simp add: record_outcome_def Let_def)
    moreover have "jget (jdelete ?m k) i = Some v \<Longrightarrow> bg_id v = i" for k i v
      by (rule keyed) (simp del: jget_set split: if_splits)
    ultimately show ?thesis
      unfolding outcomes_wf_def using wf by (metis wf_jmap_delete)
  next
    case False
    then have "record_outcome m b = ?m" by (simp add: record_outcome_def Let_def)
    with False wf keyed show ?thesis unfolding outcomes_wf_def by (metis not_less)
  qed
qed

lemma record_outcome_other:
  "i \<noteq> bg_id b \<Longrightarrow> jget (record_outcome m b) i = Some out \<Longrightarrow> jget m i = Some out"
  by (rule record_outcome_lookup [of m b i]) (simp split: if_splits)

lemma record_outcome_rank:
  assumes "outcomes_wf m" and "jget m i = Some old" and "jget (record_outcome m b) i = Some out"
  shows "bg_status old \<le> bg_status out"
proof (rule record_outcome_lookup [of m b i])
  fix k
  assume "jget (record_outcome m b) i = (if k = Some i then None
    else if i = bg_id b then Some (mergeBackgroundActivity (jget m (bg_id b)) b) else jget m i)"
  with assms outcomes_keyed [OF assms(1,2)] bg_merge.merge_rank [of old b] show ?thesis
    by (auto split: if_splits)
qed

lemma updateBackground_rows:
  "ts_rows (updateBackground s b) =
     map (\<lambda>r. if background_id (ro_item r) = Some (bg_id b)
              then r\<lparr>ro_item := apply_outcome (record_outcome (ts_outcomes s) b) (ro_item r)\<rparr> else r)
       (ts_rows s)"
  by (simp add: updateBackground_def Let_def applyBackground_def)

lemma updateBackground_other [simp]:
  "ts_epoch (updateBackground s b) = ts_epoch s" "ts_index (updateBackground s b) = ts_index s"
  "ts_outcomes (updateBackground s b) = record_outcome (ts_outcomes s) b"
  by (simp_all add: updateBackground_def Let_def)

text \<open>Changing what the rows hold, but not where and under which key, keeps the index exact.\<close>

lemma same_places:
  assumes "ts_rows s' = map f (ts_rows s)" and "ts_index s' = ts_index s"
    and f: "\<And>r. ro_seq (f r) = ro_seq r \<and> row_key (f r) = row_key r"
  shows "consecutive (ts_rows s') = consecutive (ts_rows s)"
    and "index_exact s' = index_exact s"
proof -
  have first_map: "first_seq (map f rs) = first_seq rs" for rs by (cases rs) (simp_all add: f)
  have last_map: "last_seq (map f rs) = last_seq rs" for rs
    by (cases rs rule: rev_cases) (simp_all add: f)
  have seqs: "map ro_seq (map f rs) = map ro_seq rs" for rs
    by (simp add: f)
  show "consecutive (ts_rows s') = consecutive (ts_rows s)"
    using assms(1) by (simp add: consecutive_def first_map last_map f comp_def)
  show "index_exact s' = index_exact s"
    using assms(1,2) by (simp add: index_exact_def index_lookup_def f)
qed

lemma updateBackground_wf: "wf_store s \<Longrightarrow> wf_store (updateBackground s b)"
proof (rule wf_storeI)
  assume wf: "wf_store s"
  let ?m = "record_outcome (ts_outcomes s) b"
  from wf have m: "outcomes_wf (ts_outcomes s)" by (simp add: wf_store_def)
  then have m': "outcomes_wf ?m" by (rule record_outcome_wf)
  note places = same_places [OF updateBackground_rows, of s b, OF updateBackground_other(2)]
  show "consecutive (ts_rows (updateBackground s b))" "index_exact (updateBackground s b)"
    using wf by (subst places; simp add: wf_store_def row_key_def)+
  show "outcomes_wf (ts_outcomes (updateBackground s b))" using m' by simp
  fix r assume "r \<in> set (ts_rows (updateBackground s b))"
  then obtain x where x: "x \<in> set (ts_rows s)" and r: "r = (if background_id (ro_item x) = Some (bg_id b)
              then x\<lparr>ro_item := apply_outcome ?m (ro_item x)\<rparr> else x)"
    by (auto simp: updateBackground_rows)
  from x wf have "shows_outcome (ts_outcomes s) (ro_item x)" by (simp add: wf_store_def)
  then have "background_id (ro_item x) \<noteq> Some (bg_id b) \<Longrightarrow> shows_outcome ?m (ro_item x)"
    by (auto simp: shows_outcome_def background_id_def dest: record_outcome_other)
  with r show "shows_outcome (ts_outcomes (updateBackground s b)) (ro_item r)"
    using apply_outcome_shows [OF m'] by simp
  show "ro_epoch r = ts_epoch (updateBackground s b)" using r x wf by (auto simp: wf_store_def)
qed (simp_all add: wf_store_def)

lemma bindResources_cases:
  assumes "wf_store s" and "bindResources s seq rs = Inr (r', s')"
  obtains r where "r \<in> set (ts_rows s)" "ro_seq r = seq" "r' = r\<lparr>ro_resources := rs\<rparr>"
    "s' = s\<lparr>ts_rows := map (\<lambda>x. if ro_seq x = seq then x\<lparr>ro_resources := rs\<rparr> else x) (ts_rows s)\<rparr>"
proof -
  from assms(2) obtain r where f: "find_row s seq = Some r" and r': "r' = r\<lparr>ro_resources := rs\<rparr>"
    and s': "s' = s\<lparr>ts_rows := map (\<lambda>x. if x = r then r' else x) (ts_rows s)\<rparr>"
    by (auto simp: bindResources_def Let_def split: option.splits)
  from find_row_Some [OF f] have r: "r \<in> set (ts_rows s)" "ro_seq r = seq" by simp_all
  have "distinct (map ro_seq (ts_rows s))"
    using assms(1) by (simp add: wf_store_def consecutive_distinct)
  with r have "x \<in> set (ts_rows s) \<Longrightarrow> x = r \<longleftrightarrow> ro_seq x = seq" for x
    by (auto simp: distinct_map dest: inj_onD)
  then have "map (\<lambda>x. if x = r then r' else x) (ts_rows s)
    = map (\<lambda>x. if ro_seq x = seq then x\<lparr>ro_resources := rs\<rparr> else x) (ts_rows s)"
    using r' by (intro map_cong) auto
  with that r r' s' show thesis by simp
qed

lemma bindResources_wf:
  assumes "wf_store s" and "bindResources s seq rs = Inr (r', s')"
  shows "wf_store s'"
proof -
  from assms obtain r where s': "s' = s\<lparr>ts_rows :=
      map (\<lambda>x. if ro_seq x = seq then x\<lparr>ro_resources := rs\<rparr> else x) (ts_rows s)\<rparr>"
    by (rule bindResources_cases)
  show ?thesis
  proof (rule wf_storeI)
    show "consecutive (ts_rows s')" "index_exact s'"
      using assms(1) same_places [of s' "\<lambda>x. if ro_seq x = seq then x\<lparr>ro_resources := rs\<rparr> else x" s] s'
      by (simp_all add: wf_store_def row_key_def)
  qed (use assms(1) s' in \<open>auto simp: wf_store_def\<close>)
qed

subsection \<open>Replayed records\<close>

text \<open>Both ends of the store are deduplicating logs in the sense of \<open>replay_log\<close>.\<close>

interpretation append_log: replay_log wf_store ts_rows row_key input_key append_row
proof unfold_locales
  show "wf_store s \<Longrightarrow> input_key i \<in> row_key ` set (ts_rows s) \<Longrightarrow> \<exists>a. append_row s i = Inr (a, s)"
    for s i using existing_row_None_iff [of s i] by (auto simp: append_row_def split: option.splits)
  show "wf_store s \<Longrightarrow> input_key i \<notin> row_key ` set (ts_rows s) \<Longrightarrow> append_row s i = Inr (a, s') \<Longrightarrow>
      \<exists>r. row_key r = input_key i \<and> mset (ts_rows s') = add_mset r (mset (ts_rows s))" for s i a s'
    using existing_row_None_iff [of s i] make_row_simps(3) by (elim append_row_cases) auto
qed (auto intro: append_row_wf simp: wf_store_distinct_keys)

interpretation prepend_log: replay_log wf_store ts_rows row_key input_key prepend_row
proof unfold_locales
  show "wf_store s \<Longrightarrow> input_key i \<in> row_key ` set (ts_rows s) \<Longrightarrow> \<exists>a. prepend_row s i = Inr (a, s)"
    for s i using existing_row_None_iff [of s i] by (auto simp: prepend_row_def split: option.splits)
  show "wf_store s \<Longrightarrow> input_key i \<notin> row_key ` set (ts_rows s) \<Longrightarrow> prepend_row s i = Inr (a, s') \<Longrightarrow>
      \<exists>r. row_key r = input_key i \<and> mset (ts_rows s') = add_mset r (mset (ts_rows s))" for s i a s'
    using existing_row_None_iff [of s i] make_row_simps(3) by (elim prepend_row_cases) auto
qed (auto intro: prepend_row_wf simp: wf_store_distinct_keys)

subsection \<open>Reachable stores\<close>

text \<open>The steps a store can take, and what none of them does to the rows already there.\<close>

inductive store_step :: "timeline_store \<Rightarrow> timeline_store \<Rightarrow> bool" where
  step_append: "append_row s i = Inr (res, s') \<Longrightarrow> store_step s s'"
| step_prepend: "prepend_row s i = Inr (res, s') \<Longrightarrow> store_step s s'"
| step_background: "store_step s (updateBackground s b)"
| step_bind: "bindResources s seq rs = Inr (r, s') \<Longrightarrow> store_step s s'"

inductive_cases store_stepE: "store_step s s'"

lemma store_step_wf: "store_step s s' \<Longrightarrow> wf_store s \<Longrightarrow> wf_store s'"
  by (induction rule: store_step.induct)
    (auto intro: append_row_wf prepend_row_wf updateBackground_wf bindResources_wf)

lemma store_reachable_wf: "store_step\<^sup>*\<^sup>* s s' \<Longrightarrow> wf_store s \<Longrightarrow> wf_store s'"
  by (induction rule: rtranclp_induct) (auto intro: store_step_wf)

text \<open>What stays of a row: its place, its key, the content, and the background may only rise.\<close>

definition row_kept :: "row \<Rightarrow> row \<Rightarrow> bool" where
  "row_kept r r' \<longleftrightarrow> ro_seq r' = ro_seq r \<and> row_key r' = row_key r \<and> ro_epoch r' = ro_epoch r
     \<and> ro_turnId r' = ro_turnId r \<and> ro_timestamp r' = ro_timestamp r
     \<and> it_body (ro_item r') = it_body (ro_item r)
     \<and> background_id (ro_item r') = background_id (ro_item r)
     \<and> (\<forall>b. it_background (ro_item r) = Some b \<longrightarrow>
          (\<exists>b'. it_background (ro_item r') = Some b' \<and> bg_status b \<le> bg_status b'))"

lemma row_kept_refl [simp]: "row_kept r r"
  by (simp add: row_kept_def)

lemma row_kept_trans: "row_kept a b \<Longrightarrow> row_kept b c \<Longrightarrow> row_kept a c"
  unfolding row_kept_def by (metis order_trans)

lemma store_step_keeps:
  assumes "store_step s s'" and "wf_store s" and "r \<in> set (ts_rows s)"
  shows "\<exists>r' \<in> set (ts_rows s'). row_kept r r'"
  using assms(1)
proof (cases rule: store_step.cases)
  case (step_append i res)
  then show ?thesis using assms(3) by (elim append_row_cases) (auto intro!: bexI [of _ r])
next
  case (step_prepend i res)
  then show ?thesis using assms(3) by (elim prepend_row_cases) (auto intro!: bexI [of _ r])
next
  case (step_background b)
  let ?m = "record_outcome (ts_outcomes s) b"
  let ?f = "\<lambda>r. if background_id (ro_item r) = Some (bg_id b)
              then r\<lparr>ro_item := apply_outcome ?m (ro_item r)\<rparr> else r"
  have m: "outcomes_wf ?m" using assms(2) by (simp add: wf_store_def record_outcome_wf)
  have "row_kept r (?f r)"
    using apply_outcome_mono [OF _ m, of "ro_item r"] m by (auto simp: row_kept_def row_key_def)
  moreover have "?f r \<in> set (ts_rows s')"
    using assms(3) imageI [of r "set (ts_rows s)" ?f] step_background
    by (simp only: updateBackground_rows set_map)
  ultimately show ?thesis by blast
next
  case (step_bind seq rs x)
  let ?f = "\<lambda>x. if ro_seq x = seq then x\<lparr>ro_resources := rs\<rparr> else x"
  have rows: "ts_rows s' = map ?f (ts_rows s)"
    by (rule bindResources_cases [OF assms(2) step_bind]) simp
  have "?f r \<in> set (ts_rows s')"
    unfolding rows set_map using assms(3) by (rule imageI)
  moreover have "row_kept r (?f r)" by (simp add: row_kept_def row_key_def)
  ultimately show ?thesis by blast
qed

lemma store_reachable_keeps:
  assumes "store_step\<^sup>*\<^sup>* s s'" and "wf_store s" and "r \<in> set (ts_rows s)"
  shows "\<exists>r' \<in> set (ts_rows s'). row_kept r r'"
  using assms(1)
proof (induction rule: rtranclp_induct)
  case base
  with assms(3) show ?case by (auto intro!: bexI [of _ r])
next
  case (step t u)
  then obtain r' where "r' \<in> set (ts_rows t)" "row_kept r r'" by blast
  moreover from step(1) assms(2) have "wf_store t" by (rule store_reachable_wf)
  ultimately show ?case using store_step_keeps [OF step(2)] row_kept_trans by blast
qed

subsection \<open>A concrete store\<close>

text \<open>A store built by the operations, for the examples: two chunks of text and a tool call.\<close>

definition sample_input :: "string \<Rightarrow> int \<Rightarrow> item_body \<Rightarrow> row_input" where
  "sample_input key t b =
     \<lparr>in_providerId = ''p'', in_sourceKey = key, in_nativeRevision = Some 1, in_occurredAt = t,
      in_turnId = Some ''t1'', in_item = \<lparr>it_body = b, it_background = None\<rparr>, in_resources = None\<rparr>"

definition sample_inputs :: "row_input list" where
  "sample_inputs =
     [sample_input ''k1'' 0 (ToolCall ''c1'' ''sh'' (ReadDetail ''f'') None ToolRunning),
      sample_input ''k2'' 1 (AssistantMessage ''ab'' None),
      sample_input ''k3'' 2 (AssistantMessage ''cd'' None)]"

definition sample_store :: timeline_store where
  "sample_store = projr (run_adds append_row (projr (new_store ''e1'')) sample_inputs)"

lemma sample_new: "new_store ''e1'' = Inr (projr (new_store ''e1''))"
  by (simp add: new_store_def)

lemmas sample_defs =
  sample_inputs_def sample_input_def new_store_def append_row_def prepend_row_def existing_row_def
  index_lookup_def index_insert_def find_row_def make_row_def applyBackground_def apply_outcome_def
  to_iso_string_def valid_time_def Let_def is_safe_integer_def max_safe_integer_def at_last_def
  last_seq_def first_seq_def

lemma sample_run: "run_adds append_row (projr (new_store ''e1'')) sample_inputs = Inr sample_store"
  unfolding sample_store_def by (simp add: sample_defs)

lemma sample_rows:
  "ts_rows sample_store =
     map (\<lambda>(i, q). make_row (projr (new_store ''e1'')) i q (iso_text (in_occurredAt i)))
       (zip sample_inputs [1, 2, 3])"
  unfolding sample_store_def by (simp add: sample_defs)

text \<open>The same store after one older record was put in front.\<close>

definition sample_older :: row_input where
  "sample_older = sample_input ''k0'' 0 (ErrorItem ''x'')"

definition sample_store_older :: timeline_store where
  "sample_store_older = projr (run_adds prepend_row sample_store [sample_older])"

lemma sample_run_older: "run_adds prepend_row sample_store [sample_older] = Inr sample_store_older"
  unfolding sample_store_older_def sample_store_def by (simp add: sample_defs sample_older_def)

lemma sample_store_wf: "wf_store sample_store"
  using append_log.run_wf_keys [OF new_store_wf [OF sample_new] sample_run] by simp

subsection \<open>The cursor\<close>

lemma last_seq_map: "(\<And>r. ro_seq (f r) = ro_seq r) \<Longrightarrow> last_seq (map f rows) = last_seq rows"
  by (cases rows rule: rev_cases) simp_all

lemma last_seq_Cons: "ro_seq r = first_seq rows - 1 \<Longrightarrow> last_seq rows \<le> last_seq (r # rows)"
  by (cases "rows = []") simp_all

lemma store_step_cursor: "store_step s s' \<Longrightarrow> wf_store s \<Longrightarrow> last_seq (ts_rows s) \<le> last_seq (ts_rows s')"
proof (induction rule: store_step.induct)
  case (step_append s i res s')
  from step_append(1) show ?case by (rule append_row_cases) simp_all
next
  case (step_prepend s i res s')
  from step_prepend(1) show ?case by (rule prepend_row_cases) (simp_all add: last_seq_Cons)
next
  case (step_background s b)
  have "last_seq (ts_rows (updateBackground s b)) = last_seq (ts_rows s)"
    unfolding updateBackground_rows by (rule last_seq_map) simp
  then show ?case by simp
next
  case (step_bind s seq rs r s')
  have rows: "ts_rows s' = map (\<lambda>x. if ro_seq x = seq then x\<lparr>ro_resources := rs\<rparr> else x) (ts_rows s)"
    by (rule bindResources_cases [OF step_bind(2,1)]) simp
  have "last_seq (ts_rows s') = last_seq (ts_rows s)"
    unfolding rows by (rule last_seq_map) simp
  then show ?case by simp
qed

lemma store_reachable_cursor:
  "store_step\<^sup>*\<^sup>* s s' \<Longrightarrow> wf_store s \<Longrightarrow> last_seq (ts_rows s) \<le> last_seq (ts_rows s')"
  by (induction rule: rtranclp_induct) (auto intro: order_trans store_step_cursor store_reachable_wf)

subsection \<open>Properties\<close>

text \<open>C16: A store made from a non-empty epoch and changed by any sequence of operations stays
  well-formed: its rows carry its epoch and consecutive sequence numbers, the index holds exactly the
  rows, at most 2048 background outcomes are retained, and no row shows less than the retained outcome
  of its activity. No source record (key and revision) has two rows.\<close>

theorem store_invariant:
  assumes "new_store epoch = Inr s0" and "store_step\<^sup>*\<^sup>* s0 s"
  shows "wf_store s \<and> distinct (map row_key (ts_rows s))"
  using store_reachable_wf [OF assms(2) new_store_wf [OF assms(1)]] wf_store_distinct_keys by blast

theorem store_invariant_witness:
  "wf_store (updateBackground (projr (new_store ''e1''))
     \<lparr>bg_id = ''b'', bg_kind = Review, bg_status = BgFailed, bg_summary = None\<rparr>)"
  by (rule store_invariant [OF sample_new, THEN conjunct1]) (rule r_into_rtranclp, rule step_background)

text \<open>C5: Adding a batch of provider records, live or as older history, stores every record of the
  batch exactly once, and presenting any of them again changes nothing.\<close>

theorem store_exactly_once:
  assumes "wf_store s" and "run_adds append_row s is = Inr s'" and "run_adds prepend_row s' js = Inr s''"
    and "i \<in> set is \<union> set js" and "set ks \<subseteq> set is" and "set ls \<subseteq> set js"
  shows "(\<exists>!r. r \<in> set (ts_rows s'') \<and> row_key r = input_key i)
    \<and> run_adds append_row s'' ks = Inr s'' \<and> run_adds prepend_row s'' ls = Inr s''"
proof -
  note one = append_log.run_wf_keys [OF assms(1,2)]
  note two = prepend_log.run_wf_keys [OF conjunct1 [OF one] assms(3)]
  have "input_key i \<in> row_key ` set (ts_rows s'')" using one two assms(4) by auto
  moreover have "inj_on row_key (set (ts_rows s''))"
    using wf_store_distinct_keys [OF conjunct1 [OF two]] by (simp add: distinct_map)
  ultimately have "\<exists>!r. r \<in> set (ts_rows s'') \<and> row_key r = input_key i"
    by (metis (no_types, opaque_lifting) imageE inj_onD)
  moreover have "run_adds append_row s'' ks = Inr s''"
    by (rule append_log.run_known) (use one two assms(5) in auto)
  moreover have "run_adds prepend_row s'' ls = Inr s''"
    by (rule prepend_log.replay_unchanged [OF conjunct1 [OF one] assms(3,6)])
  ultimately show ?thesis by blast
qed

theorem store_exactly_once_witness:
  "(\<exists>!r. r \<in> set (ts_rows sample_store_older) \<and> row_key r = (''k0'', Some 1))
   \<and> run_adds append_row sample_store_older sample_inputs = Inr sample_store_older"
  using store_exactly_once [OF new_store_wf [OF sample_new] sample_run sample_run_older,
      of sample_older sample_inputs "[]"]
  by (simp add: sample_older_def sample_input_def input_key_def)

text \<open>C21: Whatever happens to a store, a row that was added stays in it under its key and sequence
  number with its content, turn and timestamp; its background status never goes back; and the cursor
  of the store never goes back.\<close>

theorem store_never_loses_rows:
  assumes "wf_store s" and "store_step\<^sup>*\<^sup>* s s'" and "r \<in> set (ts_rows s)"
  shows "(\<exists>r' \<in> set (ts_rows s'). row_kept r r') \<and> cu_seq (store_cursor s) \<le> cu_seq (store_cursor s')"
  using store_reachable_keeps [OF assms(2,1,3)] store_reachable_cursor [OF assms(2,1)]
  by (simp add: store_cursor_def)

theorem store_never_loses_rows_witness:
  "\<exists>r' \<in> set (ts_rows (updateBackground sample_store
      \<lparr>bg_id = ''b'', bg_kind = Review, bg_status = BgFailed, bg_summary = None\<rparr>)).
     row_kept (hd (ts_rows sample_store)) r'"
  by (rule store_never_loses_rows [OF sample_store_wf, THEN conjunct1], rule r_into_rtranclp,
      rule step_background) (simp add: sample_rows sample_inputs_def)

end
