(* ===== verification/Timeline_Projector.thy ===== *)
theory Timeline_Projector
  imports Timeline_Store
begin

section \<open>The relay's timeline projection\<close>

text \<open>
  Models \<open>agent-remote-relay/src/timeline-projector.ts\<close>: the canonical rows of a store are folded
  into the entries a client shows (text chunks joined, the rows of one tool call and of one todo
  list collapsed), and a page of entries is cut out of the projection for a history request.
\<close>

subsection \<open>Folding rows into entries\<close>

definition entryFromRow :: "row \<Rightarrow> entry" where
  "entryFromRow r =
     \<lparr>en_providerId = ro_providerId r, en_item = ro_item r, en_turnId = ro_turnId r,
      en_timestamp = ro_timestamp r, en_seqStart = ro_seq r, en_seqEnd = ro_seq r,
      en_ranges = [(ro_seq r, ro_seq r)], en_collapsed = [], en_resources = ro_resources r\<rparr>"

definition row_context :: "entry \<Rightarrow> row \<Rightarrow> bool" where
  "row_context e r \<longleftrightarrow> en_providerId e = ro_providerId r \<and> en_turnId e = ro_turnId r
     \<and> background_id (en_item e) = background_id (ro_item r)"

abbreviation en_body :: "entry \<Rightarrow> item_body" where
  "en_body e \<equiv> it_body (en_item e)"

abbreviation ro_body :: "row \<Rightarrow> item_body" where
  "ro_body r \<equiv> it_body (ro_item r)"

definition findProjection :: "entry list \<Rightarrow> row \<Rightarrow> nat option" where
  "findProjection entries r =
     (if is_AssistantMessage (ro_body r) then
        (case at_last entries of
           None \<Rightarrow> None
         | Some p \<Rightarrow>
             if is_AssistantMessage (en_body p) \<and> row_context p r
                \<and> am_messageId (en_body p) = am_messageId (ro_body r)
             then Some (length entries - 1) else None)
      else if is_Reasoning (ro_body r) then
        (case at_last entries of
           None \<Rightarrow> None
         | Some p \<Rightarrow>
             if is_Reasoning (en_body p) \<and> row_context p r
             then Some (length entries - 1) else None)
      else if is_ToolCall (ro_body r) then
        find_index (\<lambda>e. en_providerId e = ro_providerId r \<and> is_ToolCall (en_body e)
                        \<and> tc_callId (en_body e) = tc_callId (ro_body r)) entries
      else if is_Compaction (ro_body r) \<and> cp_status (ro_body r) = CompactionCompleted then
        (case find_last_index (\<lambda>e. is_Compaction (en_body e) \<and> row_context e r) entries of
           None \<Rightarrow> None
         | Some i \<Rightarrow> if cp_status (en_body (entries ! i)) = CompactionLoading then Some i else None)
      else if is_Todo (ro_body r) then
        find_last_index (\<lambda>e. is_Todo (en_body e) \<and> row_context e r) entries
      else None)"

definition includeSequence :: "seq_range list \<Rightarrow> int \<Rightarrow> seq_range list" where
  "includeSequence ranges seq =
     (case at_last ranges of
        None \<Rightarrow> ranges @ [(seq, seq)]
      | Some (a, b) \<Rightarrow> if b + 1 = seq then butlast ranges @ [(a, seq)] else ranges @ [(seq, seq)])"

definition includeCollapse :: "timeline_collapse list \<Rightarrow> timeline_collapse \<Rightarrow> timeline_collapse list" where
  "includeCollapse collapsed c = (if c \<in> set collapsed then collapsed else collapsed @ [c])"

fun includeResources :: "resource_binding list \<Rightarrow> resource_binding list \<Rightarrow> resource_binding list" where
  "includeResources resources [] = resources"
| "includeResources resources (a # as) =
     (if list_ex (\<lambda>x. rb_locator x = rb_locator a \<and> rb_resourceId x = rb_resourceId a) resources
      then includeResources resources as
      else includeResources (resources @ [a]) as)"

text \<open>
  The body of the loop for a matching entry. The first assignment merges the background in place;
  the branches for tool calls and todo lists then replace the item and merge with the background
  remembered from before, the compaction branch spreads the row's item over the entry's.
\<close>

definition merge_row :: "entry \<Rightarrow> row \<Rightarrow> entry" where
  "merge_row e r =
     (let previous = it_background (en_item e);
          item1 = (case it_background (ro_item r) of
                     None \<Rightarrow> en_item e
                   | Some b \<Rightarrow> (en_item e)\<lparr>it_background := Some (mergeBackgroundActivity previous b)\<rparr>);
          e1 = e\<lparr>en_seqEnd := ro_seq r, en_ranges := includeSequence (en_ranges e) (ro_seq r),
                 en_resources := includeResources (en_resources e) (ro_resources r),
                 en_item := item1\<rparr>;
          replaced = (ro_item r)\<lparr>it_background := merged_background previous (it_background (ro_item r))\<rparr>
      in if is_AssistantMessage (ro_body r) \<and> is_AssistantMessage (it_body item1) then
           e1\<lparr>en_item := item1\<lparr>it_body := append_text (it_body item1) (ro_body r)\<rparr>,
              en_collapsed := includeCollapse (en_collapsed e) AssistantMerge\<rparr>
         else if is_Reasoning (ro_body r) \<and> is_Reasoning (it_body item1) then
           e1\<lparr>en_item := item1\<lparr>it_body := append_text (it_body item1) (ro_body r)\<rparr>,
              en_collapsed := includeCollapse (en_collapsed e) ReasoningMerge\<rparr>
         else if is_ToolCall (ro_body r) then
           e1\<lparr>en_item := replaced, en_collapsed := includeCollapse (en_collapsed e) ToolLifecycle\<rparr>
         else if is_Compaction (ro_body r) \<and> is_Compaction (it_body item1) then
           e1\<lparr>en_item := spread_item item1 (ro_item r)\<rparr>
         else if is_Todo (ro_body r) then e1\<lparr>en_item := replaced\<rparr>
         else e1)"

definition project_step :: "entry list \<Rightarrow> row \<Rightarrow> entry list" where
  "project_step entries r =
     (case findProjection entries r of
        None \<Rightarrow> entries @ [entryFromRow r]
      | Some i \<Rightarrow> entries[i := merge_row (entries ! i) r])"

definition projectTimelineRows :: "row list \<Rightarrow> entry list" where
  "projectTimelineRows rows = foldl project_step [] rows"

subsection \<open>History pages\<close>

datatype direction = Tail | Before | After

fun direction_name :: "direction \<Rightarrow> string" where
  "direction_name Tail = ''tail''"
| "direction_name Before = ''before''"
| "direction_name After = ''after''"

record page_request =
  pr_requestId :: string
  pr_agentId :: string
  pr_direction :: direction
  pr_cursor :: "cursor option"
  pr_limit :: js_number

record page_flags =
  fl_reset :: bool
  fl_staleCursor :: bool
  fl_gap :: bool
  fl_error :: "string option"

record page_window =
  wi_minSeq :: int
  wi_maxSeq :: int
  wi_nextSeq :: int

record history_page =
  hp_requestId :: string
  hp_agentId :: string
  hp_direction :: direction
  hp_epoch :: string
  hp_flags :: page_flags
  hp_window :: page_window
  hp_startCursor :: "cursor option"
  hp_endCursor :: "cursor option"
  hp_hasOlder :: bool
  hp_hasNewer :: bool
  hp_entries :: "entry list"

definition history_page_of ::
  "timeline_store \<Rightarrow> page_request \<Rightarrow> entry list \<Rightarrow> page_flags \<Rightarrow> (int \<times> int) option \<Rightarrow> history_page" where
  "history_page_of s q entries fl win =
     (let rows = ts_rows s;
          startSeq = or_else (map_option fst win) (map_option en_seqStart (at_first entries));
          endSeq = or_else (map_option snd win) (map_option en_seqEnd (at_last entries));
          minSeq = (case rows of [] \<Rightarrow> 0 | r # _ \<Rightarrow> ro_seq r)
      in \<lparr>hp_requestId = pr_requestId q, hp_agentId = pr_agentId q, hp_direction = pr_direction q,
          hp_epoch = ts_epoch s, hp_flags = fl,
          hp_window = \<lparr>wi_minSeq = minSeq, wi_maxSeq = last_seq rows, wi_nextSeq = last_seq rows + 1\<rparr>,
          hp_startCursor = map_option (\<lambda>x. \<lparr>cu_epoch = ts_epoch s, cu_seq = x\<rparr>) startSeq,
          hp_endCursor = map_option (\<lambda>x. \<lparr>cu_epoch = ts_epoch s, cu_seq = x\<rparr>) endSeq,
          hp_hasOlder = (case startSeq of None \<Rightarrow> False | Some a \<Rightarrow> list_ex (\<lambda>r. ro_seq r < a) rows),
          hp_hasNewer = (case endSeq of None \<Rightarrow> False | Some b \<Rightarrow> list_ex (\<lambda>r. ro_seq r > b) rows),
          hp_entries = entries\<rparr>)"

definition no_flags :: page_flags where
  "no_flags = \<lparr>fl_reset = False, fl_staleCursor = False, fl_gap = False, fl_error = None\<rparr>"

definition page_limit :: "js_number \<Rightarrow> nat option" where
  "page_limit l =
     (case l of
        Finite q \<Rightarrow>
          if of_int \<lfloor>q\<rfloor> = q \<and> is_safe_integer \<lfloor>q\<rfloor> \<and> q \<ge> 1 then Some (nat \<lfloor>q\<rfloor>) else None
      | _ \<Rightarrow> None)"

definition after_entries :: "row list \<Rightarrow> int \<Rightarrow> nat \<Rightarrow> entry list \<times> (int \<times> int) option" where
  "after_entries rows cursorSeq limit =
     (let win = take limit (filter (\<lambda>r. ro_seq r > cursorSeq) rows)
      in case (at_first win, at_last win) of
           (Some f, Some l) \<Rightarrow>
             (filter (\<lambda>e. en_seqEnd e > cursorSeq)
                (projectTimelineRows (filter (\<lambda>r. ro_seq r \<le> ro_seq l) rows)),
              Some (ro_seq f, ro_seq l))
         | _ \<Rightarrow> ([], None))"

definition projectTimelinePage :: "timeline_store \<Rightarrow> page_request \<Rightarrow> history_page js_result" where
  "projectTimelinePage s q =
     (case page_limit (pr_limit q) of
        None \<Rightarrow> throw_plain ''Timeline page limit must be a positive integer.''
      | Some limit \<Rightarrow>
          if pr_direction q \<noteq> Tail \<and> pr_cursor q = None
          then throw_plain (direction_name (pr_direction q) @ '' Timeline requests require a cursor.'')
          else if (case pr_cursor q of None \<Rightarrow> False | Some c \<Rightarrow> cu_epoch c \<noteq> ts_epoch s)
          then Inr (history_page_of s q []
                      \<lparr>fl_reset = True, fl_staleCursor = True, fl_gap = False,
                       fl_error = Some ''Timeline cursor epoch was replaced.''\<rparr> None)
          else
            (let rows = ts_rows s;
                 c = (case pr_cursor q of None \<Rightarrow> 0 | Some c \<Rightarrow> cu_seq c)
             in case pr_direction q of
                  Tail \<Rightarrow> Inr (history_page_of s q (slice_last limit (projectTimelineRows rows)) no_flags None)
                | Before \<Rightarrow>
                    Inr (history_page_of s q
                           (slice_last limit (filter (\<lambda>e. en_seqStart e < c) (projectTimelineRows rows)))
                           no_flags None)
                | After \<Rightarrow>
                    if c > last_seq rows
                    then Inr (history_page_of s q []
                                \<lparr>fl_reset = False, fl_staleCursor = False, fl_gap = True,
                                 fl_error = Some ''Timeline cursor is ahead of recoverable history.''\<rparr> None)
                    else (let (selected, win) = after_entries rows c limit
                          in Inr (history_page_of s q selected no_flags win))))"

subsection \<open>Ranges\<close>

lemma normal_ranges_snoc:
  "normal_ranges (rs @ [(a, b)]) \<longleftrightarrow>
     normal_ranges rs \<and> a \<le> b \<and> (rs \<noteq> [] \<longrightarrow> snd (last rs) + 1 < a)"
  by (induction rs rule: normal_ranges.induct) auto

lemma normal_ranges_last:
  "normal_ranges rs \<Longrightarrow> x \<in> range_seqs rs \<Longrightarrow> x \<le> snd (last rs)"
proof (induction rs rule: rev_induct)
  case (snoc r rs)
  obtain a b where r: "r = (a, b)" by (cases r)
  from snoc.prems r have n: "normal_ranges rs" "a \<le> b" "rs \<noteq> [] \<longrightarrow> snd (last rs) + 1 < a"
    by (simp_all add: normal_ranges_snoc)
  show ?case
  proof (cases "x \<in> range_seqs rs")
    case True
    then have "rs \<noteq> []" by auto
    with snoc.IH [OF n(1) True] n r show ?thesis by simp
  next
    case False
    with snoc.prems r show ?thesis by simp
  qed
qed simp

lemma includeSequence_snoc:
  "includeSequence (rs @ [(a, b)]) seq =
     (if b + 1 = seq then rs @ [(a, seq)] else rs @ [(a, b), (seq, seq)])"
  by (simp add: includeSequence_def)

lemma includeSequence_spec:
  assumes "normal_ranges rs" and "rs \<noteq> []" and "snd (last rs) < seq"
  shows "normal_ranges (includeSequence rs seq)" and "includeSequence rs seq \<noteq> []"
    and "snd (last (includeSequence rs seq)) = seq"
    and "fst (hd (includeSequence rs seq)) = fst (hd rs)"
    and "range_seqs (includeSequence rs seq) = insert seq (range_seqs rs)"
proof -
  from assms(2) obtain qs a b where rs: "rs = qs @ [(a, b)]"
    by (metis rev_exhaust surj_pair)
  from assms rs have n: "normal_ranges qs" "a \<le> b" "qs \<noteq> [] \<longrightarrow> snd (last qs) + 1 < a" "b < seq"
    by (simp_all add: normal_ranges_snoc)
  show "normal_ranges (includeSequence rs seq)"
    using n normal_ranges_snoc [of "qs @ [(a, b)]" seq seq]
    by (auto simp: rs includeSequence_snoc normal_ranges_snoc)
  show "includeSequence rs seq \<noteq> []" "snd (last (includeSequence rs seq)) = seq"
    by (simp_all add: rs includeSequence_snoc)
  show "fst (hd (includeSequence rs seq)) = fst (hd rs)"
    using includeSequence_snoc [of qs a b seq] by (cases qs) (simp_all add: rs)
  show "range_seqs (includeSequence rs seq) = insert seq (range_seqs rs)"
    using n by (auto simp: rs includeSequence_snoc)
qed

subsection \<open>What a projection looks like\<close>

definition ok_entry :: "entry \<Rightarrow> bool" where
  "ok_entry e \<longleftrightarrow> normal_ranges (en_ranges e) \<and> en_ranges e \<noteq> []
     \<and> fst (hd (en_ranges e)) = en_seqStart e \<and> snd (last (en_ranges e)) = en_seqEnd e"

text \<open>
  Entries in the order of their first row, each with normal ranges, their rows disjoint and
  together exactly the rows projected.
\<close>

definition projection_inv :: "entry list \<Rightarrow> int set \<Rightarrow> bool" where
  "projection_inv es seqs \<longleftrightarrow>
     list_all ok_entry es \<and> sorted_wrt (<) (map en_seqStart es)
     \<and> (\<Union>e \<in> set es. entry_seqs e) = seqs
     \<and> (\<forall>i j. i < j \<longrightarrow> j < length es \<longrightarrow> entry_seqs (es ! i) \<inter> entry_seqs (es ! j) = {})"

lemma normal_ranges_hd: "normal_ranges rs \<Longrightarrow> x \<in> range_seqs rs \<Longrightarrow> fst (hd rs) \<le> x"
  by (induction rs rule: normal_ranges.induct) fastforce+

lemma ok_entry_seqs:
  assumes "ok_entry e"
  shows "en_seqStart e \<in> entry_seqs e" and "en_seqEnd e \<in> entry_seqs e"
    and "x \<in> entry_seqs e \<Longrightarrow> en_seqStart e \<le> x" and "x \<in> entry_seqs e \<Longrightarrow> x \<le> en_seqEnd e"
proof -
  from assms obtain a b rs where e: "en_ranges e = (a, b) # rs" "a = en_seqStart e" "a \<le> b"
    by (cases "(en_ranges e)" rule: normal_ranges.cases) (auto simp: ok_entry_def)
  then show "en_seqStart e \<in> entry_seqs e" by (simp add: entry_seqs_def)
  from assms obtain c d qs where q: "en_ranges e = qs @ [(c, d)]" "d = en_seqEnd e"
    by (metis ok_entry_def rev_exhaust last_snoc surj_pair snd_conv)
  with assms have "c \<le> d" by (simp add: ok_entry_def normal_ranges_snoc)
  with q show "en_seqEnd e \<in> entry_seqs e" by (simp add: entry_seqs_def)
  show "x \<in> entry_seqs e \<Longrightarrow> en_seqStart e \<le> x" "x \<in> entry_seqs e \<Longrightarrow> x \<le> en_seqEnd e"
    using assms normal_ranges_hd [of "en_ranges e" x] normal_ranges_last [of "en_ranges e" x]
    by (simp_all add: ok_entry_def entry_seqs_def)
qed

lemma ok_entry_le: "ok_entry e \<Longrightarrow> en_seqStart e \<le> en_seqEnd e"
  using ok_entry_seqs(1,4) by blast

lemma ok_entryFromRow [simp]:
  "ok_entry (entryFromRow r)" "entry_seqs (entryFromRow r) = {ro_seq r}"
  "en_seqStart (entryFromRow r) = ro_seq r" "en_seqEnd (entryFromRow r) = ro_seq r"
  by (simp_all add: ok_entry_def entryFromRow_def entry_seqs_def)

lemma merge_row_simps [simp]:
  "en_seqStart (merge_row e r) = en_seqStart e" "en_seqEnd (merge_row e r) = ro_seq r"
  "en_ranges (merge_row e r) = includeSequence (en_ranges e) (ro_seq r)"
  "en_resources (merge_row e r) = includeResources (en_resources e) (ro_resources r)"
  "en_providerId (merge_row e r) = en_providerId e" "en_turnId (merge_row e r) = en_turnId e"
  "en_timestamp (merge_row e r) = en_timestamp e"
  by (simp_all add: merge_row_def Let_def)

lemma merge_row_ok:
  assumes "ok_entry e" and "en_seqEnd e < ro_seq r"
  shows "ok_entry (merge_row e r)" and "entry_seqs (merge_row e r) = insert (ro_seq r) (entry_seqs e)"
  using assms includeSequence_spec [of "en_ranges e" "ro_seq r"]
  by (simp_all add: ok_entry_def entry_seqs_def)

lemma findProjection_bound: "findProjection es r = Some i \<Longrightarrow> i < length es"
  by (auto simp: findProjection_def find_index_Some find_last_index_Some at_last_def
      split: if_splits option.splits)

lemma project_step_inv:
  assumes inv: "projection_inv es seqs" and new: "\<And>x. x \<in> seqs \<Longrightarrow> x < ro_seq r"
  shows "projection_inv (project_step es r) (insert (ro_seq r) seqs)"
proof -
  from inv have ok: "\<And>e. e \<in> set es \<Longrightarrow> ok_entry e" and srt: "sorted_wrt (<) (map en_seqStart es)"
    and cover: "(\<Union>e \<in> set es. entry_seqs e) = seqs"
    and disj: "\<And>i j. i < j \<Longrightarrow> j < length es \<Longrightarrow> entry_seqs (es ! i) \<inter> entry_seqs (es ! j) = {}"
    by (auto simp: projection_inv_def list_all_iff)
  have below: "x < ro_seq r" if "e \<in> set es" "x \<in> entry_seqs e" for e x
    using new cover that by blast
  have ends: "en_seqStart e < ro_seq r" "en_seqEnd e < ro_seq r" if "e \<in> set es" for e
    using below [OF that] ok_entry_seqs(1,2) [OF ok [OF that]] by blast+
  show ?thesis
  proof (cases "findProjection es r")
    case None
    have "entry_seqs (es ! i) \<inter> {ro_seq r} = {}" if "i < length es" for i
      using below [OF nth_mem [OF that]] by force
    with None ok srt cover disj ends show ?thesis
      by (auto simp: projection_inv_def project_step_def list_all_iff sorted_wrt_append nth_append
          less_Suc_eq)
  next
    case (Some i)
    then have i: "i < length es" by (rule findProjection_bound)
    let ?e = "merge_row (es ! i) r"
    have ei: "es ! i \<in> set es" using i by simp
    have e: "ok_entry ?e" "entry_seqs ?e = insert (ro_seq r) (entry_seqs (es ! i))"
      using merge_row_ok [OF ok [OF ei] ends(2) [OF ei]] by simp_all
    have seqs': "entry_seqs (es[i := ?e] ! k) =
        (if k = i then insert (ro_seq r) (entry_seqs (es ! k)) else entry_seqs (es ! k))"
      if "k < length es" for k using that e(2) by simp
    have starts: "map en_seqStart (es[i := ?e]) = map en_seqStart es"
      by (simp add: map_update i list_update_same_conv)
    have "(\<Union>e \<in> set (es[i := ?e]). entry_seqs e) = (\<Union>k < length es. entry_seqs (es[i := ?e] ! k))"
      by (force simp: in_set_conv_nth)
    also have "\<dots> = insert (ro_seq r) (\<Union>k < length es. entry_seqs (es ! k))"
      using i seqs' by auto
    also have "(\<Union>k < length es. entry_seqs (es ! k)) = seqs"
      using cover by (force simp: in_set_conv_nth)
    finally have cover': "(\<Union>e \<in> set (es[i := ?e]). entry_seqs e) = insert (ro_seq r) seqs" .
    have "ro_seq r \<notin> entry_seqs (es ! k)" if "k < length es" for k
      using below [OF nth_mem [OF that]] by blast
    then have disj': "entry_seqs (es[i := ?e] ! k) \<inter> entry_seqs (es[i := ?e] ! j) = {}"
      if "k < j" "j < length es" for k j
      using that disj [OF that] seqs' [of k] seqs' [of j] by auto
    have "list_all ok_entry (es[i := ?e])"
      using ok e(1) i by (auto simp: list_all_iff dest: subsetD [OF set_update_subset_insert])
    with cover' starts srt disj' Some show ?thesis
      by (simp add: projection_inv_def project_step_def)
  qed
qed

text \<open>Rows come in the order of their sequence numbers.\<close>

definition ascending :: "row list \<Rightarrow> bool" where
  "ascending rows \<longleftrightarrow> sorted_wrt (<) (map ro_seq rows)"

lemma ascending_snoc: "ascending (rows @ [r]) \<longleftrightarrow> ascending rows \<and> (\<forall>x \<in> set rows. ro_seq x < ro_seq r)"
  by (simp add: ascending_def sorted_wrt_append)

lemma ascending_append:
  "ascending (xs @ ys) \<longleftrightarrow> ascending xs \<and> ascending ys \<and> (\<forall>x \<in> set xs. \<forall>y \<in> set ys. ro_seq x < ro_seq y)"
  by (auto simp: ascending_def sorted_wrt_append)

lemma consecutive_ascending: "consecutive rows \<Longrightarrow> ascending rows"
  by (simp add: consecutive_def ascending_def)

lemma project_rows_Nil [simp]: "projectTimelineRows [] = []"
  by (simp add: projectTimelineRows_def)

lemma project_rows_snoc: "projectTimelineRows (rows @ [r]) = project_step (projectTimelineRows rows) r"
  by (simp add: projectTimelineRows_def)

lemma project_rows_append: "projectTimelineRows (xs @ ys) = foldl project_step (projectTimelineRows xs) ys"
  by (simp add: projectTimelineRows_def)

lemma project_rows_inv: "ascending rows \<Longrightarrow> projection_inv (projectTimelineRows rows) (ro_seq ` set rows)"
proof (induction rows rule: rev_induct)
  case Nil
  then show ?case by (simp add: projection_inv_def)
next
  case (snoc r rows)
  then have "projection_inv (projectTimelineRows rows) (ro_seq ` set rows)"
    by (simp add: ascending_snoc)
  from project_step_inv [OF this, of r] snoc.prems show ?case
    by (auto simp: project_rows_snoc ascending_snoc)
qed

lemma projection_invD:
  assumes "projection_inv es seqs" and "e \<in> set es"
  shows "ok_entry e" "entry_seqs e \<subseteq> seqs" "en_seqStart e \<in> seqs" "en_seqEnd e \<in> seqs"
  using assms ok_entry_seqs(1,2) by (auto simp: projection_inv_def list_all_iff)

subsection \<open>What entries say\<close>

text \<open>No chunk of assistant text is lost, repeated or reordered by the projection.\<close>

fun assistant_text :: "item_body \<Rightarrow> string" where
  "assistant_text (AssistantMessage t _) = t"
| "assistant_text _ = []"

fun reasoning_text :: "item_body \<Rightarrow> string" where
  "reasoning_text (Reasoning t) = t"
| "reasoning_text _ = []"

definition same_kind :: "item_body \<Rightarrow> item_body \<Rightarrow> bool" where
  "same_kind a b \<longleftrightarrow> is_AssistantMessage a = is_AssistantMessage b \<and> is_Reasoning a = is_Reasoning b
     \<and> is_ToolCall a = is_ToolCall b \<and> is_Compaction a = is_Compaction b \<and> is_Todo a = is_Todo b"

lemma findProjection_kind:
  "findProjection es r = Some i \<Longrightarrow> same_kind (en_body (es ! i)) (ro_body r)
     \<and> (is_AssistantMessage (ro_body r) \<or> is_Reasoning (ro_body r) \<or> is_ToolCall (ro_body r)
        \<or> is_Compaction (ro_body r) \<or> is_Todo (ro_body r))"
  by (cases "ro_body r"; cases "en_body (es ! i)")
    (auto simp: findProjection_def same_kind_def find_index_Some find_last_index_Some at_last_def
      last_conv_nth split: if_splits option.splits)

lemma findProjection_last:
  "findProjection es r = Some i \<Longrightarrow> is_AssistantMessage (ro_body r) \<or> is_Reasoning (ro_body r) \<Longrightarrow>
   es \<noteq> [] \<and> i = length es - 1"
  by (auto simp: findProjection_def split: if_splits option.splits)

lemma merge_row_body:
  assumes "same_kind (en_body e) (ro_body r)"
  shows "en_body (merge_row e r) =
    (case ro_body r of
       AssistantMessage _ _ \<Rightarrow> append_text (en_body e) (ro_body r)
     | Reasoning _ \<Rightarrow> append_text (en_body e) (ro_body r)
     | ToolCall _ _ _ _ _ \<Rightarrow> ro_body r
     | Compaction _ _ _ \<Rightarrow> spread_compaction (en_body e) (ro_body r)
     | Todo _ \<Rightarrow> ro_body r
     | _ \<Rightarrow> en_body e)"
  using assms
  by (cases "ro_body r"; cases "en_body e")
    (simp_all add: merge_row_def Let_def same_kind_def spread_item_def split: option.splits)

lemma concat_map_update:
  assumes "i < length es" and "\<And>j. i < j \<Longrightarrow> j < length es \<Longrightarrow> f (es ! j) = []"
    and "f e = f (es ! i) @ t"
  shows "concat (map f (es[i := e])) = concat (map f es) @ t"
proof -
  have "map f (drop (Suc i) es) = map (\<lambda>_. []) (drop (Suc i) es)"
    using assms(2) by (auto simp: in_set_conv_nth)
  then have tail: "concat (map f (drop (Suc i) es)) = []" by (simp only: concat_eq_Nil_conv) simp
  have split: "es = take i es @ es ! i # drop (Suc i) es"
    using assms(1) by (rule id_take_nth_drop)
  have "concat (map f es) = concat (map f (take i es)) @ f (es ! i)"
    by (subst split) (simp only: map_append concat_append list.map concat.simps tail append_Nil2)
  then show ?thesis
    using assms(1,3)
    by (simp only: upd_conv_take_nth_drop map_append concat_append list.map concat.simps tail
        append_Nil2 append_assoc)
qed

lemma project_step_texts:
  "concat (map (assistant_text \<circ> en_body) (project_step es r)) =
     concat (map (assistant_text \<circ> en_body) es) @ assistant_text (ro_body r)"
  "concat (map (reasoning_text \<circ> en_body) (project_step es r)) =
     concat (map (reasoning_text \<circ> en_body) es) @ reasoning_text (ro_body r)"
proof -
  have "concat (map (f \<circ> en_body) (project_step es r)) = concat (map (f \<circ> en_body) es) @ f (ro_body r)"
    if f: "f = assistant_text \<or> f = reasoning_text" for f
  proof (cases "findProjection es r")
    case None
    then show ?thesis by (simp add: project_step_def entryFromRow_def)
  next
    case (Some i)
    note kind = findProjection_kind [OF Some]
    have upd: "project_step es r = es[i := merge_row (es ! i) r]"
      using Some by (simp add: project_step_def)
    have joined: "f (en_body (merge_row (es ! i) r)) = f (en_body (es ! i)) @ f (ro_body r)"
      using kind f merge_row_body [of "es ! i" r]
      by (cases "ro_body r"; cases "en_body (es ! i)") (auto simp: same_kind_def)
    show ?thesis
    proof (cases "is_AssistantMessage (ro_body r) \<or> is_Reasoning (ro_body r)")
      case True
      from findProjection_last [OF Some this] show ?thesis
        using concat_map_update [of i es "f \<circ> en_body" "merge_row (es ! i) r" "f (ro_body r)"] joined
        by (simp add: upd)
    next
      case False
      then have "f (ro_body r) = []" using f by (cases "ro_body r") auto
      moreover from this joined have "map (f \<circ> en_body) (es[i := merge_row (es ! i) r]) = map (f \<circ> en_body) es"
        using findProjection_bound [OF Some] by (simp add: map_update list_update_same_conv)
      ultimately show ?thesis by (simp add: upd)
    qed
  qed
  then show "concat (map (assistant_text \<circ> en_body) (project_step es r)) =
     concat (map (assistant_text \<circ> en_body) es) @ assistant_text (ro_body r)"
    and "concat (map (reasoning_text \<circ> en_body) (project_step es r)) =
     concat (map (reasoning_text \<circ> en_body) es) @ reasoning_text (ro_body r)" by blast+
qed

lemma project_rows_texts:
  "concat (map (assistant_text \<circ> en_body) (projectTimelineRows rows)) =
     concat (map (assistant_text \<circ> ro_body) rows)"
  "concat (map (reasoning_text \<circ> en_body) (projectTimelineRows rows)) =
     concat (map (reasoning_text \<circ> ro_body) rows)"
  by (induction rows rule: rev_induct) (simp_all add: project_rows_snoc project_step_texts)

text \<open>A tool call has one entry, and the entry shows the latest row of the call.\<close>

definition tool_entry :: "string \<Rightarrow> string \<Rightarrow> entry \<Rightarrow> bool" where
  "tool_entry p c e \<longleftrightarrow> en_providerId e = p \<and> is_ToolCall (en_body e) \<and> tc_callId (en_body e) = c"

definition tool_row :: "string \<Rightarrow> string \<Rightarrow> row \<Rightarrow> bool" where
  "tool_row p c r \<longleftrightarrow> ro_providerId r = p \<and> is_ToolCall (ro_body r) \<and> tc_callId (ro_body r) = c"

lemma filter_update_out:
  "i < length es \<Longrightarrow> \<not> P (es ! i) \<Longrightarrow> \<not> P e \<Longrightarrow> filter P (es[i := e]) = filter P es"
  by (induction es arbitrary: i) (auto simp: nth_Cons split: nat.splits)

lemma filter_update_first:
  "find_index P es = Some i \<Longrightarrow> filter P es = [x] \<Longrightarrow> P e \<Longrightarrow> filter P (es[i := e]) = [e]"
  by (induction es arbitrary: i) (auto split: if_splits)

lemma findProjection_tool:
  "is_ToolCall (ro_body r) \<Longrightarrow>
   findProjection es r = find_index (tool_entry (ro_providerId r) (tc_callId (ro_body r))) es"
  by (cases "ro_body r") (simp_all add: findProjection_def tool_entry_def [abs_def] conj_ac)

lemma tool_entry_other:
  assumes "findProjection es r = Some i" and "\<not> tool_row p c r"
  shows "\<not> tool_entry p c (es ! i) \<and> \<not> tool_entry p c (merge_row (es ! i) r)"
proof (cases "is_ToolCall (ro_body r)")
  case True
  with assms(1) have "tool_entry (ro_providerId r) (tc_callId (ro_body r)) (es ! i)"
    by (simp add: findProjection_tool find_index_Some)
  with True assms(2) merge_row_body [of "es ! i" r] findProjection_kind [OF assms(1)] show ?thesis
    by (cases "ro_body r") (auto simp: tool_entry_def tool_row_def)
next
  case False
  with findProjection_kind [OF assms(1)] merge_row_body [of "es ! i" r] show ?thesis
    by (cases "ro_body r"; cases "en_body (es ! i)") (auto simp: tool_entry_def same_kind_def)
qed

lemma project_rows_tool:
  "map en_body (filter (tool_entry p c) (projectTimelineRows rows)) =
     (case at_last (filter (tool_row p c) rows) of None \<Rightarrow> [] | Some r \<Rightarrow> [ro_body r])"
proof (induction rows rule: rev_induct)
  case (snoc r rows)
  let ?es = "projectTimelineRows rows"
  show ?case
  proof (cases "findProjection ?es r")
    case None
    have "tool_entry p c (entryFromRow r) = tool_row p c r"
      by (simp add: tool_entry_def tool_row_def entryFromRow_def)
    moreover have "tool_row p c r \<Longrightarrow> filter (tool_entry p c) ?es = []"
      using None by (auto simp: tool_row_def findProjection_tool find_index_None filter_empty_conv)
    ultimately show ?thesis
      using None snoc.IH by (auto simp: project_rows_snoc project_step_def entryFromRow_def)
  next
    case (Some i)
    show ?thesis
    proof (cases "tool_row p c r")
      case True
      then have fi: "find_index (tool_entry p c) ?es = Some i"
        using Some by (auto simp: tool_row_def findProjection_tool)
      then have "filter (tool_entry p c) ?es \<noteq> []"
        by (auto simp: find_index_Some filter_empty_conv)
      with snoc.IH obtain x where x: "filter (tool_entry p c) ?es = [x]"
        by (auto split: option.splits)
      have body: "en_body (merge_row (?es ! i) r) = ro_body r"
        using True merge_row_body [of "?es ! i" r] findProjection_kind [OF Some]
        by (cases "ro_body r") (auto simp: tool_row_def)
      moreover from body True fi have "tool_entry p c (merge_row (?es ! i) r)"
        by (auto simp: tool_entry_def tool_row_def find_index_Some)
      ultimately show ?thesis
        using filter_update_first [OF fi x] True Some
        by (simp add: project_rows_snoc project_step_def)
    next
      case False
      from tool_entry_other [OF Some False] findProjection_bound [OF Some] False Some snoc.IH
      show ?thesis by (simp add: project_rows_snoc project_step_def filter_update_out)
    qed
  qed
qed simp

subsection \<open>Pages\<close>

lemma projection_starts:
  "projection_inv es seqs \<Longrightarrow> sorted_wrt (<) (map en_seqStart es)"
  by (simp add: projection_inv_def)

lemma starts_before:
  assumes "projection_inv (ys @ xs) seqs" and "xs \<noteq> []"
  shows "filter (\<lambda>e. en_seqStart e < en_seqStart (hd xs)) (ys @ xs) = ys"
proof -
  from assms have srt: "sorted_wrt (<) (map en_seqStart (ys @ xs))" by (simp add: projection_inv_def)
  from srt assms(2) have "\<forall>y \<in> set ys. en_seqStart y < en_seqStart (hd xs)"
    by (auto simp: sorted_wrt_append)
  then have "filter (\<lambda>e. en_seqStart e < en_seqStart (hd xs)) ys = ys" by simp
  moreover from srt assms(2) have "\<forall>x \<in> set xs. \<not> en_seqStart x < en_seqStart (hd xs)"
    by (cases xs) (auto simp: sorted_wrt_append)
  then have "filter (\<lambda>e. en_seqStart e < en_seqStart (hd xs)) xs = []" by (simp add: filter_empty_conv)
  ultimately show ?thesis by simp
qed

lemma rows_older:
  assumes "projection_inv (ys @ xs) (ro_seq ` set rows)" and "xs \<noteq> []"
  shows "list_ex (\<lambda>r. ro_seq r < en_seqStart (hd xs)) rows \<longleftrightarrow> ys \<noteq> []"
proof
  assume "ys \<noteq> []"
  then have y: "hd ys \<in> set (ys @ xs)" by simp
  from projection_starts [OF assms(1)] assms(2) \<open>ys \<noteq> []\<close>
  have "en_seqStart (hd ys) < en_seqStart (hd xs)" by (auto simp: sorted_wrt_append)
  moreover from projection_invD(3) [OF assms(1) y] have "en_seqStart (hd ys) \<in> ro_seq ` set rows" .
  ultimately show "list_ex (\<lambda>r. ro_seq r < en_seqStart (hd xs)) rows" by (auto simp: list_ex_iff)
next
  assume "list_ex (\<lambda>r. ro_seq r < en_seqStart (hd xs)) rows"
  then obtain r where r: "r \<in> set rows" "ro_seq r < en_seqStart (hd xs)" by (auto simp: list_ex_iff)
  from assms(1) have "(\<Union>e \<in> set (ys @ xs). entry_seqs e) = ro_seq ` set rows"
    by (simp only: projection_inv_def)
  with r(1) obtain e where e: "e \<in> set (ys @ xs)" "ro_seq r \<in> entry_seqs e" by blast
  from ok_entry_seqs(3) [OF projection_invD(1) [OF assms(1) e(1)] e(2)] r(2)
  have lt: "en_seqStart e < en_seqStart (hd xs)" by simp
  from projection_starts [OF assms(1)] assms(2) have "\<forall>x \<in> set xs. en_seqStart (hd xs) \<le> en_seqStart x"
    by (cases xs) (auto simp: sorted_wrt_append less_imp_le)
  with lt e(1) have "e \<in> set ys" by force
  then show "ys \<noteq> []" by auto
qed

lemma page_limit_nat:
  "1 \<le> n \<Longrightarrow> int n \<le> max_safe_integer \<Longrightarrow> page_limit (Finite (of_nat n)) = Some n"
proof -
  assume a: "1 \<le> n" "int n \<le> max_safe_integer"
  have fl: "\<lfloor>of_nat n :: rat\<rfloor> = int n" by simp
  show ?thesis using a by (simp add: page_limit_def fl is_safe_integer_def)
qed

lemma page_limit_pos: "page_limit l = Some n \<Longrightarrow> 1 \<le> n"
  by (auto simp: page_limit_def nat_le_iff le_nat_iff le_floor_iff split: js_number.splits if_splits)

lemma wf_store_projection: "wf_store s \<Longrightarrow> projection_inv (projectTimelineRows (ts_rows s)) (ro_seq ` set (ts_rows s))"
  by (rule project_rows_inv) (simp add: wf_store_def consecutive_ascending)

lemma tail_page:
  assumes "wf_store s" and "page_limit (pr_limit q) = Some n" and "pr_direction q = Tail"
    and "pr_cursor q = None \<or> (\<exists>c. pr_cursor q = Some c \<and> cu_epoch c = ts_epoch s)"
    and "projectTimelinePage s q = Inr p"
  shows "hp_entries p = slice_last n (projectTimelineRows (ts_rows s))"
    and "hp_hasOlder p \<longleftrightarrow> n < length (projectTimelineRows (ts_rows s))"
    and "hp_startCursor p = map_option (\<lambda>e. \<lparr>cu_epoch = ts_epoch s, cu_seq = en_seqStart e\<rparr>)
           (at_first (hp_entries p))"
proof -
  let ?es = "projectTimelineRows (ts_rows s)"
  have p: "p = history_page_of s q (slice_last n ?es) no_flags None"
    using assms(2-5) by (auto simp: projectTimelinePage_def)
  then show entries: "hp_entries p = slice_last n ?es"
    by (simp add: history_page_of_def Let_def)
  show "hp_startCursor p = map_option (\<lambda>e. \<lparr>cu_epoch = ts_epoch s, cu_seq = en_seqStart e\<rparr>)
           (at_first (hp_entries p))"
    by (simp add: p history_page_of_def Let_def or_else_def option.map_comp comp_def)
  show "hp_hasOlder p \<longleftrightarrow> n < length ?es"
  proof (cases "slice_last n ?es")
    case Nil
    with page_limit_pos [OF assms(2)] have "?es = []" by (simp add: slice_last_Nil)
    with Nil p show ?thesis by (simp add: history_page_of_def Let_def or_else_def)
  next
    case (Cons e es)
    have split: "?es = take (length ?es - n) ?es @ slice_last n ?es" by (simp add: slice_last_def)
    have "hp_hasOlder p \<longleftrightarrow> list_ex (\<lambda>r. ro_seq r < en_seqStart e) (ts_rows s)"
      using p Cons by (simp add: history_page_of_def Let_def or_else_def)
    also have "\<dots> \<longleftrightarrow> take (length ?es - n) ?es \<noteq> []"
      using rows_older [of "take (length ?es - n) ?es" "slice_last n ?es" "ts_rows s"]
        wf_store_projection [OF assms(1)] split Cons by simp
    finally show ?thesis using Cons by (auto simp: slice_last_def)
  qed
qed

lemma before_page:
  assumes "wf_store s" and "page_limit (pr_limit q) = Some n" and "pr_direction q = Before"
    and "projectTimelineRows (ts_rows s) = ys @ xs" and "xs \<noteq> []"
    and "pr_cursor q = Some \<lparr>cu_epoch = ts_epoch s, cu_seq = en_seqStart (hd xs)\<rparr>"
    and "projectTimelinePage s q = Inr p"
  shows "hp_entries p = slice_last n ys"
    and "hp_hasOlder p \<longleftrightarrow> n < length ys"
proof -
  have inv: "projection_inv (ys @ xs) (ro_seq ` set (ts_rows s))"
    using wf_store_projection [OF assms(1)] assms(4) by simp
  have p: "p = history_page_of s q (slice_last n ys) no_flags None"
    using assms(2-7) starts_before [OF inv assms(5)] by (auto simp: projectTimelinePage_def)
  then show "hp_entries p = slice_last n ys"
    by (simp add: history_page_of_def Let_def)
  show "hp_hasOlder p \<longleftrightarrow> n < length ys"
  proof (cases "slice_last n ys")
    case Nil
    with page_limit_pos [OF assms(2)] have "ys = []" by (simp add: slice_last_Nil)
    with Nil p show ?thesis by (simp add: history_page_of_def Let_def or_else_def)
  next
    case (Cons e es)
    have split: "ys @ xs = take (length ys - n) ys @ (slice_last n ys @ xs)" by (simp add: slice_last_def)
    have "hp_hasOlder p \<longleftrightarrow> list_ex (\<lambda>r. ro_seq r < en_seqStart e) (ts_rows s)"
      using p Cons by (simp add: history_page_of_def Let_def or_else_def)
    also have "\<dots> \<longleftrightarrow> take (length ys - n) ys \<noteq> []"
      using rows_older [of "take (length ys - n) ys" "slice_last n ys @ xs" "ts_rows s"] inv split Cons
      by simp
    finally show ?thesis using Cons by (auto simp: slice_last_def)
  qed
qed

end
