(* ===== verification/Session_State.thy ===== *)
theory Session_State
  imports Timeline_Types
begin

section \<open>Session snapshots and their transitions\<close>

text \<open>
  Models \<open>agent-remote-protocol/src/snapshot.ts\<close> and \<open>session-settings.ts\<close> (the data) and
  \<open>session-state.ts\<close>: \<open>withSessionInteractions\<close>, \<open>reduceSessionState\<close> and
  \<open>sessionOperationAvailability\<close>. The same reducer runs in the relay (on native events) and in the
  web replica (on wire events).
\<close>

subsection \<open>Data\<close>

datatype agent_status = Starting | Idle | Running | Waiting | Failed | Closed

datatype control_sharing = SharedControl | ExclusiveControl

record interaction_capabilities =
  ic_question :: bool
  ic_planApproval :: bool
  ic_toolApproval :: bool
  ic_form :: "bool option"
  ic_permissionApproval :: "bool option"
  ic_externalAction :: "bool option"

record image_input_capabilities =
  ii_mediaTypes :: "string list"
  ii_maxImages :: nat
  ii_maxImageBytes :: nat
  ii_maxMessageBytes :: nat

record resource_input_capabilities =
  rc_maxResources :: nat
  rc_maxResourceBytes :: nat
  rc_maxMessageBytes :: nat

record capabilities =
  ca_sessionControl :: "control_sharing option"
  ca_resourceInput :: "resource_input_capabilities option"
  ca_imageInput :: "image_input_capabilities option"
  ca_history :: bool
  ca_sendMessage :: bool
  ca_queueMessage :: "bool option"
  ca_steer :: bool
  ca_cancel :: bool
  ca_readResource :: bool
  ca_planning :: "bool option"
  ca_sessionSettings :: "bool option"
  ca_commands :: "bool option"
  ca_interactions :: interaction_capabilities

record persistence_handle =
  ph_providerId :: string
  ph_sessionId :: string
  ph_opaque :: string

record planning_state =
  pl_active :: bool
  pl_requested :: "bool option"

datatype connection_state = Connected | Reconnecting | Restoring | Unavailable

record runtime_connection =
  rn_state :: connection_state
  rn_reason :: "string option"
  rn_attempt :: "nat option"
  rn_nextRetryAt :: "rat option"

datatype child_observation = LiveObservation | SavedHistory

record child_session =
  cs_nativeSessionId :: string
  cs_title :: string
  cs_role :: "string option"
  cs_description :: "string option"
  cs_createdAt :: string
  cs_parentTurnId :: "string option"
  cs_parentCallId :: "string option"
  cs_status :: agent_status
  cs_observation :: child_observation

datatype setting_category = ModelCategory | PermissionsCategory

datatype setting_scope = SettingSession | SettingSessionAndDefault

record setting_option =
  so_value :: string
  so_label :: string
  so_description :: "string option"

record session_setting =
  ss_id :: string
  ss_category :: setting_category
  ss_label :: string
  ss_value :: "string option"
  ss_options :: "setting_option list"
  ss_mutable :: bool
  ss_scope :: setting_scope
  ss_description :: "string option"

datatype change_status = ChangePending | ChangeFailed | ChangeTimedOut

record setting_change =
  ch_category :: setting_category
  ch_label :: string
  ch_settingId :: string
  ch_requestId :: string
  ch_targetValue :: string
  ch_confirmedValue :: "string option"
  ch_status :: change_status
  ch_requestedAt :: string
  ch_deadlineAt :: string
  ch_message :: "string option"
  ch_code :: "string option"

text \<open>An optional property that may also be \<open>null\<close> is an \<open>option option\<close>: absent, null or a value.\<close>

record runtime_info =
  ri_providerId :: string
  ri_sessionId :: "string option"
  ri_status :: agent_status
  ri_failure :: "(string \<times> string option) option"
  ri_cwd :: "string option"
  ri_model :: "string option option"
  ri_mode :: "string option option"
  ri_planning :: "planning_state option"
  ri_connection :: "runtime_connection option"
  ri_settings :: "session_setting list option"
  ri_childSessions :: "child_session list option"
  ri_persistence :: "persistence_handle option"

record active_turn =
  at_turnId :: string
  at_startedAt :: "string option option"

record attention =
  att_cursor :: cursor
  att_background :: "background option"

record session_state =
  st_attention :: "attention option"
  st_settingChanges :: "setting_change list option"
  st_id :: string
  st_providerId :: string
  st_cwd :: "string option"
  st_model :: "string option option"
  st_createdAt :: string
  st_updatedAt :: string
  st_status :: agent_status
  st_activeTurn :: "active_turn option"
  st_capabilities :: capabilities
  st_pendingInteractions :: "request list"
  st_runtimeInfo :: runtime_info
  st_persistence :: "persistence_handle option"
  st_lastUsage :: "usage option"
  st_lastError :: "string option"

text \<open>
  The non-timeline events of \<open>envelope.ts\<close> without their provider (\<open>SessionStateEvent\<close>) and the
  interaction events (\<open>SessionInteractionEvent\<close>).
\<close>

datatype state_event =
    BackgroundActivityUpdated background "string option"
  | ThreadStarted string
  | TurnStarted "string option"
  | TurnCompleted "string option" "usage option"
  | TurnFailed "string option" string "string option" "string option"
  | TurnCanceled "string option" string
  | UsageUpdated "string option" usage
  | RuntimeUpdated runtime_info "string option option"
  | InteractionRequested request
  | InteractionResolved string
  | InteractionInvalidated string

subsection \<open>The reducer\<close>

definition effective_status :: "agent_status \<Rightarrow> request list \<Rightarrow> agent_status" where
  "effective_status native pending =
     (if native = Failed \<or> native = Closed then native
      else if pending \<noteq> [] then Waiting else native)"

definition withSessionInteractions :: "session_state \<Rightarrow> request list \<Rightarrow> session_state" where
  "withSessionInteractions s pending =
     s\<lparr>st_status := effective_status (ri_status (st_runtimeInfo s)) pending,
       st_pendingInteractions := pending\<rparr>"

definition finishesCurrentTurn :: "session_state \<Rightarrow> string option \<Rightarrow> bool" where
  "finishesCurrentTurn s turnId \<longleftrightarrow>
     (case st_activeTurn s of None \<Rightarrow> True | Some t \<Rightarrow> turnId = Some (at_turnId t))"

definition start_turn :: "active_turn option \<Rightarrow> string option \<Rightarrow> string \<Rightarrow> active_turn option" where
  "start_turn current turnId timestamp =
     (case turnId of
        None \<Rightarrow> None
      | Some t \<Rightarrow>
          if t = [] then None
          else (case current of
             Some a \<Rightarrow>
               if at_turnId a = t then Some a
               else Some \<lparr>at_turnId = t, at_startedAt = Some (Some timestamp)\<rparr>
           | None \<Rightarrow> Some \<lparr>at_turnId = t, at_startedAt = Some (Some timestamp)\<rparr>))"

definition runtime_turn ::
  "active_turn option \<Rightarrow> string option option \<Rightarrow> string \<Rightarrow> active_turn option" where
  "runtime_turn current turnId timestamp =
     (case turnId of
        None \<Rightarrow> current
      | Some None \<Rightarrow> None
      | Some (Some t) \<Rightarrow>
          if map_option at_turnId current = Some t then current
          else Some \<lparr>at_turnId = t, at_startedAt = Some (Some timestamp)\<rparr>)"

definition apply_runtime ::
  "session_state \<Rightarrow> runtime_info \<Rightarrow> string option option \<Rightarrow> string \<Rightarrow> session_state" where
  "apply_runtime s ri turnId timestamp =
     s\<lparr>st_runtimeInfo := ri, st_status := ri_status ri,
       st_activeTurn := runtime_turn (st_activeTurn s) turnId timestamp,
       st_cwd := or_else (ri_cwd ri) (st_cwd s),
       st_model := or_else (ri_model ri) (st_model s),
       st_persistence := or_else (ri_persistence ri) (st_persistence s)\<rparr>"

definition upsert_request :: "request \<Rightarrow> request list \<Rightarrow> request list" where
  "upsert_request rq pending = jvalues (jset (index_by rq_requestId pending) (rq_requestId rq) rq)"

definition drop_request :: "string \<Rightarrow> request list \<Rightarrow> request list" where
  "drop_request i pending = filter (\<lambda>rq. rq_requestId rq \<noteq> i) pending"

text \<open>The \<open>switch\<close> of the reducer, on the state with the new \<open>updatedAt\<close>.\<close>

fun state_transition :: "session_state \<Rightarrow> state_event \<Rightarrow> string \<Rightarrow> session_state" where
  "state_transition s (BackgroundActivityUpdated _ _) ts = s"
| "state_transition s (ThreadStarted _) ts = s"
| "state_transition s (TurnStarted turnId) ts =
     s\<lparr>st_activeTurn := start_turn (st_activeTurn s) turnId ts\<rparr>"
| "state_transition s (TurnCompleted turnId u) ts =
     (if \<not> finishesCurrentTurn s turnId then s
      else s\<lparr>st_activeTurn := None,
             st_lastUsage := (case u of None \<Rightarrow> st_lastUsage s
                              | Some u' \<Rightarrow> updateUsageSnapshot (st_lastUsage s) u')\<rparr>)"
| "state_transition s (TurnFailed turnId err _ _) ts =
     (if \<not> finishesCurrentTurn s turnId then s
      else s\<lparr>st_activeTurn := None, st_lastError := Some err\<rparr>)"
| "state_transition s (TurnCanceled turnId _) ts =
     (if \<not> finishesCurrentTurn s turnId then s else s\<lparr>st_activeTurn := None\<rparr>)"
| "state_transition s (UsageUpdated _ u) ts =
     s\<lparr>st_lastUsage := updateUsageSnapshot (st_lastUsage s) u\<rparr>"
| "state_transition s (RuntimeUpdated ri turnId) ts = apply_runtime s ri turnId ts"
| "state_transition s (InteractionRequested rq) ts =
     s\<lparr>st_pendingInteractions := upsert_request rq (st_pendingInteractions s)\<rparr>"
| "state_transition s (InteractionResolved i) ts =
     s\<lparr>st_pendingInteractions := drop_request i (st_pendingInteractions s)\<rparr>"
| "state_transition s (InteractionInvalidated i) ts =
     s\<lparr>st_pendingInteractions := drop_request i (st_pendingInteractions s)\<rparr>"

definition reduceSessionState :: "session_state \<Rightarrow> state_event \<Rightarrow> string \<Rightarrow> session_state" where
  "reduceSessionState previous event timestamp =
     (let state = state_transition (previous\<lparr>st_updatedAt := timestamp\<rparr>) event timestamp
      in withSessionInteractions
           (state\<lparr>st_pendingInteractions := st_pendingInteractions previous\<rparr>)
           (st_pendingInteractions state))"

subsection \<open>Admission of operations\<close>

datatype operation_kind =
    OpSendMessage | OpQueueMessage | OpSteer | OpCancel
  | OpSetPlanning | OpSetSessionSetting | OpExecuteCommand | OpInteractionResponse

datatype control_access = ControlGranted | ReadOnlyAccess | CheckingAccess | UnsupportedAccess

record operation_context =
  oc_synchronized :: "bool option"
  oc_closed :: "bool option"
  oc_control :: "control_access option"
  oc_interactionId :: "string option"

datatype availability = Allowed | Refused (refusal_code: string) (refusal_reason: string)

fun operation_name :: "operation_kind \<Rightarrow> string" where
  "operation_name OpSendMessage = ''send_message''"
| "operation_name OpQueueMessage = ''queue_message''"
| "operation_name OpSteer = ''steer''"
| "operation_name OpCancel = ''cancel''"
| "operation_name OpSetPlanning = ''set_planning''"
| "operation_name OpSetSessionSetting = ''set_session_setting''"
| "operation_name OpExecuteCommand = ''execute_command''"
| "operation_name OpInteractionResponse = ''interaction_response''"

fun connection_name :: "connection_state \<Rightarrow> string" where
  "connection_name Connected = ''connected''"
| "connection_name Reconnecting = ''reconnecting''"
| "connection_name Restoring = ''restoring''"
| "connection_name Unavailable = ''unavailable''"

fun operation_supported :: "capabilities \<Rightarrow> operation_kind \<Rightarrow> bool" where
  "operation_supported c OpInteractionResponse = True"
| "operation_supported c OpSendMessage = ca_sendMessage c"
| "operation_supported c OpQueueMessage = (ca_sendMessage c \<and> ca_queueMessage c = Some True)"
| "operation_supported c OpSteer = ca_steer c"
| "operation_supported c OpCancel = ca_cancel c"
| "operation_supported c OpSetPlanning = (ca_planning c = Some True)"
| "operation_supported c OpSetSessionSetting = (ca_sessionSettings c = Some True)"
| "operation_supported c OpExecuteCommand = (ca_commands c = Some True)"

definition connected :: "session_state \<Rightarrow> bool" where
  "connected s \<longleftrightarrow> (case ri_connection (st_runtimeInfo s) of
     None \<Rightarrow> True | Some c \<Rightarrow> rn_state c = Connected)"

definition connection_refusal :: "runtime_connection \<Rightarrow> availability" where
  "connection_refusal c =
     Refused (''native_runtime_'' @ connection_name (rn_state c))
       (case rn_reason c of
          Some r \<Rightarrow> r
        | None \<Rightarrow> ''The native runtime is '' @ connection_name (rn_state c) @ ''.'')"

definition sessionOperationAvailability ::
  "session_state option \<Rightarrow> operation_kind \<Rightarrow> operation_context \<Rightarrow> availability" where
  "sessionOperationAvailability state operation ctx =
     (case state of
        None \<Rightarrow> Refused ''session_not_ready'' ''The session has not finished synchronizing.''
      | Some s \<Rightarrow>
          if oc_synchronized ctx = Some False
          then Refused ''session_not_ready'' ''The session has not finished synchronizing.''
          else if oc_closed ctx = Some True \<or> st_status s = Closed
          then Refused ''session_closed'' ''The session is closed.''
          else if oc_control ctx \<noteq> None \<and> oc_control ctx \<noteq> Some ControlGranted
          then Refused ''session_read_only'' ''This session does not currently grant control.''
          else if \<not> connected s
          then connection_refusal (the (ri_connection (st_runtimeInfo s)))
          else if \<not> operation_supported (st_capabilities s) operation
          then Refused ''unsupported_command''
                 (''Provider does not support '' @ operation_name operation @ ''.'')
          else if operation = OpSetPlanning
               \<and> (st_status s \<noteq> Idle \<or> st_activeTurn s \<noteq> None \<or> st_pendingInteractions s \<noteq> [])
          then Refused ''agent_busy''
                 ''Session settings can change only while idle with no pending interactions.''
          else if operation = OpInteractionResponse
               \<and> (case oc_interactionId ctx of
                     None \<Rightarrow> False
                   | Some i \<Rightarrow> \<not> list_ex (\<lambda>rq. rq_requestId rq = i) (st_pendingInteractions s))
          then Refused ''stale_interaction'' ''This interaction is no longer pending.''
          else Allowed)"

subsection \<open>Well-formed states\<close>

text \<open>
  The status shown is the native status overlaid with the pending interactions, and no two pending
  interactions share an identity.
\<close>

definition wf_session :: "session_state \<Rightarrow> bool" where
  "wf_session s \<longleftrightarrow>
     st_status s = effective_status (ri_status (st_runtimeInfo s)) (st_pendingInteractions s)
     \<and> distinct (map rq_requestId (st_pendingInteractions s))"

lemma upsert_request_ids:
  assumes "distinct (map rq_requestId pending)"
  shows "map rq_requestId (upsert_request rq pending) =
    (if rq_requestId rq \<in> rq_requestId ` set pending then map rq_requestId pending
     else map rq_requestId pending @ [rq_requestId rq])"
proof -
  let ?m = "map (\<lambda>r. (rq_requestId r, r)) pending"
  have "map rq_requestId (jvalues (jset ?m (rq_requestId rq) rq)) = jkeys (jset ?m (rq_requestId rq) rq)"
    by (rule jvalues_keyed) (auto dest!: subsetD [OF set_jset])
  also have "\<dots> = (if jhas ?m (rq_requestId rq) then jkeys ?m else jkeys ?m @ [rq_requestId rq])"
    by (rule jkeys_set)
  finally show ?thesis
    using assms by (auto simp: upsert_request_def index_by_distinct comp_def map_of_eq_None_iff
        image_image)
qed

lemma upsert_request_distinct [simp]:
  "distinct (map rq_requestId pending) \<Longrightarrow> distinct (map rq_requestId (upsert_request rq pending))"
  by (auto simp: upsert_request_ids)

lemma drop_request_distinct [simp]:
  "distinct (map rq_requestId pending) \<Longrightarrow> distinct (map rq_requestId (drop_request i pending))"
  by (simp add: drop_request_def distinct_map_filter)

lemma jset_values_mem:
  "v' \<in> set (jvalues (jset m k v)) \<longleftrightarrow> v' = v \<or> (\<exists>k'. k' \<noteq> k \<and> (k', v') \<in> set m)"
  if "distinct (map fst m)"
  using that
proof (induction m)
  case (Cons e m)
  obtain a b where e: "e = (a, b)" by (cases e)
  from Cons.prems e have "a \<notin> fst ` set m" "distinct (map fst m)" by auto
  then show ?case
    using Cons.IH e by (cases "a = k") (auto simp: image_iff, force+)
qed simp

lemma upsert_request_mem:
  assumes "distinct (map rq_requestId pending)"
  shows "r \<in> set (upsert_request rq pending)
    \<longleftrightarrow> r = rq \<or> (r \<in> set pending \<and> rq_requestId r \<noteq> rq_requestId rq)"
  using jset_values_mem [of "index_by rq_requestId pending" r "rq_requestId rq" rq] assms
  by (auto simp: upsert_request_def index_by_distinct comp_def)

lemma drop_request_mem [simp]:
  "r \<in> set (drop_request i pending) \<longleftrightarrow> r \<in> set pending \<and> rq_requestId r \<noteq> i"
  by (auto simp: drop_request_def)

text \<open>What an event does to the pending interactions.\<close>

fun pending_after :: "request list \<Rightarrow> state_event \<Rightarrow> request list" where
  "pending_after pending (InteractionRequested rq) = upsert_request rq pending"
| "pending_after pending (InteractionResolved i) = drop_request i pending"
| "pending_after pending (InteractionInvalidated i) = drop_request i pending"
| "pending_after pending _ = pending"

lemma state_transition_pending [simp]:
  "st_pendingInteractions (state_transition s ev ts) = pending_after (st_pendingInteractions s) ev"
  by (cases ev) (simp_all add: apply_runtime_def)

lemma reduce_pending [simp]:
  "st_pendingInteractions (reduceSessionState s ev ts) = pending_after (st_pendingInteractions s) ev"
  by (simp add: reduceSessionState_def withSessionInteractions_def Let_def)

lemma reduce_status:
  "st_status (reduceSessionState s ev ts) =
     effective_status (ri_status (st_runtimeInfo (reduceSessionState s ev ts)))
       (st_pendingInteractions (reduceSessionState s ev ts))"
  by (simp add: reduceSessionState_def withSessionInteractions_def Let_def)

lemma reduce_runtime [simp]:
  "st_runtimeInfo (reduceSessionState s ev ts) =
     (case ev of RuntimeUpdated ri _ \<Rightarrow> ri | _ \<Rightarrow> st_runtimeInfo s)"
  by (cases ev) (simp_all add: reduceSessionState_def withSessionInteractions_def Let_def
      apply_runtime_def)

lemma pending_after_distinct:
  "distinct (map rq_requestId pending) \<Longrightarrow> distinct (map rq_requestId (pending_after pending ev))"
  by (cases ev) simp_all

lemma reduce_wf: "wf_session s \<Longrightarrow> wf_session (reduceSessionState s ev ts)"
  using reduce_status [of s ev ts] by (simp add: wf_session_def pending_after_distinct)

definition reduce_all :: "session_state \<Rightarrow> (state_event \<times> string) list \<Rightarrow> session_state" where
  "reduce_all s evs = fold (\<lambda>(ev, ts) s. reduceSessionState s ev ts) evs s"

lemma reduce_all_Nil [simp]: "reduce_all s [] = s"
  by (simp add: reduce_all_def)

lemma reduce_all_Cons [simp]:
  "reduce_all s ((ev, ts) # evs) = reduce_all (reduceSessionState s ev ts) evs"
  by (simp add: reduce_all_def)

lemma reduce_all_wf: "wf_session s \<Longrightarrow> wf_session (reduce_all s evs)"
proof (induction evs arbitrary: s)
  case (Cons e evs)
  then show ?case by (cases e) (simp add: reduce_wf)
qed simp

text \<open>The events that settle or replace a pending request.\<close>

fun touches_request :: "string \<Rightarrow> state_event \<Rightarrow> bool" where
  "touches_request i (InteractionRequested rq) = (rq_requestId rq = i)"
| "touches_request i (InteractionResolved j) = (j = i)"
| "touches_request i (InteractionInvalidated j) = (j = i)"
| "touches_request i _ = False"

lemma pending_after_keeps:
  "distinct (map rq_requestId pending) \<Longrightarrow> rq \<in> set pending \<Longrightarrow>
   \<not> touches_request (rq_requestId rq) ev \<Longrightarrow> rq \<in> set (pending_after pending ev)"
  by (cases ev) (auto simp: upsert_request_mem)

lemma pending_survives:
  assumes "wf_session s" and "rq \<in> set (st_pendingInteractions s)"
    and "\<forall>(ev, ts) \<in> set evs. \<not> touches_request (rq_requestId rq) ev"
  shows "rq \<in> set (st_pendingInteractions (reduce_all s evs))"
  using assms
proof (induction evs arbitrary: s)
  case (Cons e evs)
  obtain ev ts where e: "e = (ev, ts)" by (cases e)
  from Cons.prems e have "rq \<in> set (st_pendingInteractions (reduceSessionState s ev ts))"
    by (simp add: pending_after_keeps wf_session_def)
  moreover have "wf_session (reduceSessionState s ev ts)"
    using Cons.prems(1) by (rule reduce_wf)
  ultimately show ?case using Cons.IH Cons.prems(3) e by simp
qed simp

lemma effective_status_waiting:
  "pending \<noteq> [] \<Longrightarrow> effective_status native pending \<in> {Waiting, Failed, Closed}"
  by (auto simp: effective_status_def)

subsection \<open>Turns\<close>

text \<open>The end of a turn other than the active one leaves the turn, the usage and the error alone.\<close>

fun ends_turn :: "state_event \<Rightarrow> string option \<Rightarrow> bool" where
  "ends_turn (TurnCompleted t _) u = (t = u)"
| "ends_turn (TurnFailed t _ _ _) u = (t = u)"
| "ends_turn (TurnCanceled t _) u = (t = u)"
| "ends_turn _ _ = False"

lemma reduce_other_turn:
  assumes "ends_turn ev t" and "st_activeTurn s = Some a" and "t \<noteq> Some (at_turnId a)"
    and "wf_session s"
  shows "reduceSessionState s ev ts = s\<lparr>st_updatedAt := ts\<rparr>"
  using assms
  by (cases ev) (auto simp: reduceSessionState_def withSessionInteractions_def Let_def
      finishesCurrentTurn_def wf_session_def)

lemma reduce_ends_turn:
  assumes "ends_turn ev t" and "finishesCurrentTurn s t"
  shows "st_activeTurn (reduceSessionState s ev ts) = None"
  using assms
  by (cases ev) (auto simp: reduceSessionState_def withSessionInteractions_def Let_def
      finishesCurrentTurn_def split: option.splits)

subsection \<open>Admission\<close>

lemma availability_Allowed_iff:
  "sessionOperationAvailability st k ctx = Allowed \<longleftrightarrow>
     (\<exists>s. st = Some s \<and> oc_synchronized ctx \<noteq> Some False
        \<and> oc_closed ctx \<noteq> Some True \<and> st_status s \<noteq> Closed
        \<and> oc_control ctx \<in> {None, Some ControlGranted}
        \<and> connected s \<and> operation_supported (st_capabilities s) k
        \<and> (k = OpSetPlanning \<longrightarrow>
             st_status s = Idle \<and> st_activeTurn s = None \<and> st_pendingInteractions s = [])
        \<and> (k = OpInteractionResponse \<longrightarrow>
             (\<forall>i. oc_interactionId ctx = Some i
                \<longrightarrow> i \<in> rq_requestId ` set (st_pendingInteractions s))))"
  by (cases st)
    (auto simp: sessionOperationAvailability_def connection_refusal_def list_ex_iff
      split: option.splits if_splits)

lemmas session_simps = reduce_pending reduce_runtime reduce_all_Nil reduce_all_Cons

end
