(* ===== verification/Session_Control.thy ===== *)
theory Session_Control
  imports Prelude
begin

text \<open>
  \<open>agent-remote-relay/src/session-control.ts\<close>: which connections may operate a session. A native
  client that owns the session revokes every grant; grants are local to a connection.

  Sessions are shared objects: the leases handed out by \<open>attach\<close> keep a reference, so they live in
  a heap (\<open>rg_heap\<close>) and the registry maps an agent to one of them. \<open>randomUUID\<close> is a supply of
  distinct numbers (\<open>rg_next\<close>). The listeners are outputs: the numbers of the notified leases.
\<close>

section \<open>Data\<close>

datatype client_kind = WebClient | HeadlessClient | UnknownClient
datatype native_owner_kind = NativeCli | NativeController

record native_owner =
  no_kind :: native_owner_kind
  no_generation :: string

record control_connection =
  cn_agent :: string
  cn_session :: nat
  cn_revision :: nat
  cn_token :: "nat option"
  cn_closed :: bool

record control_session =
  cs_owner :: "native_owner option"
  cs_connections :: "nat list"

record control_registry =
  rg_sessions :: "(string, nat) jmap"
  rg_heap :: "nat \<Rightarrow> control_session"
  rg_leases :: "nat \<Rightarrow> control_connection option"
  rg_next :: nat
  rg_closed :: bool

record control_state =
  sc_agentId :: string
  sc_revision :: nat
  sc_available :: bool
  sc_control :: bool
  sc_nativeOwner :: "native_owner option"
  sc_token :: "nat option"

definition denied :: "string \<Rightarrow> string \<Rightarrow> js_error" where
  "denied c m = Thrown SessionControlErrorClass c m"

definition new_registry :: control_registry where
  "new_registry = \<lparr>rg_sessions = [], rg_heap = \<lambda>_. \<lparr>cs_owner = None, cs_connections = []\<rparr>,
     rg_leases = \<lambda>_. None, rg_next = 0, rg_closed = False\<rparr>"

section \<open>Operations\<close>

definition set_session :: "nat \<Rightarrow> control_session \<Rightarrow> control_registry \<Rightarrow> control_registry" where
  "set_session i x g = g\<lparr>rg_heap := (rg_heap g)(i := x)\<rparr>"

definition set_lease :: "nat \<Rightarrow> control_connection \<Rightarrow> control_registry \<Rightarrow> control_registry" where
  "set_lease i x g = g\<lparr>rg_leases := (rg_leases g)(i := Some x)\<rparr>"

text \<open>\<open>connection.token = undefined; connection.revision = randomUUID()\<close>.\<close>

definition revoke :: "control_registry \<Rightarrow> nat \<Rightarrow> control_registry" where
  "revoke g i =
     (case rg_leases g i of None \<Rightarrow> g
      | Some c \<Rightarrow> (set_lease i (c\<lparr>cn_token := None, cn_revision := rg_next g\<rparr>) g)\<lparr>rg_next := Suc (rg_next g)\<rparr>)"

definition drop_if_unused :: "string \<Rightarrow> control_session \<Rightarrow> control_registry \<Rightarrow> control_registry" where
  "drop_if_unused agent x g =
     (if cs_owner x = None \<and> cs_connections x = [] then g\<lparr>rg_sessions := jdelete (rg_sessions g) agent\<rparr> else g)"

definition change_owner :: "string \<Rightarrow> nat \<Rightarrow> native_owner option \<Rightarrow> control_registry \<Rightarrow> nat list \<times> control_registry" where
  "change_owner agent i owner g =
     (let x = rg_heap g i in
      if cs_owner x = owner then ([], g)
      else
        let x' = x\<lparr>cs_owner := owner\<rparr>;
            g1 = foldl revoke (set_session i x' g) (cs_connections x')
        in (cs_connections x', drop_if_unused agent x' g1))"

definition setNativeOwner :: "string \<Rightarrow> native_owner option \<Rightarrow> control_registry \<Rightarrow> nat list \<times> control_registry" where
  "setNativeOwner agent owner g =
     (if rg_closed g then ([], g)
      else case jget (rg_sessions g) agent of
        Some i \<Rightarrow> change_owner agent i owner g
      | None \<Rightarrow>
          if owner = None then ([], g)
          else
            let i = rg_next g in
            change_owner agent i owner
              ((set_session i \<lparr>cs_owner = None, cs_connections = []\<rparr> g)
                 \<lparr>rg_sessions := jset (rg_sessions g) agent i, rg_next := Suc i\<rparr>))"

definition attach_session :: "string \<Rightarrow> control_registry \<Rightarrow> nat \<times> control_registry" where
  "attach_session agent g =
     (case jget (rg_sessions g) agent of
        Some i \<Rightarrow> (i, g)
      | None \<Rightarrow>
          (rg_next g, (set_session (rg_next g) \<lparr>cs_owner = None, cs_connections = []\<rparr> g)
             \<lparr>rg_sessions := jset (rg_sessions g) agent (rg_next g), rg_next := Suc (rg_next g)\<rparr>))"

definition attach :: "string \<Rightarrow> control_registry \<Rightarrow> (nat \<times> control_registry) js_result" where
  "attach agent g =
     (if rg_closed g
      then Inl (denied ''session_read_only'' ''Session access is closed. Reconnect before operating this session.'')
      else
        let (i, g1) = attach_session agent g;
            lease = Suc (rg_next g1);
            x = rg_heap g1 i;
            c = \<lparr>cn_agent = agent, cn_session = i, cn_revision = rg_next g1, cn_token = None, cn_closed = False\<rparr>
        in Inr (lease,
          (set_session i (x\<lparr>cs_connections := cs_connections x @ [lease]\<rparr>) (set_lease lease c g1))
            \<lparr>rg_next := Suc lease\<rparr>))"

definition lease_available :: "control_registry \<Rightarrow> control_connection \<Rightarrow> bool" where
  "lease_available g c \<longleftrightarrow> \<not> cn_closed c \<and> \<not> rg_closed g \<and> cs_owner (rg_heap g (cn_session c)) = None"

definition lease_state :: "control_registry \<Rightarrow> control_connection \<Rightarrow> control_state" where
  "lease_state g c =
     \<lparr>sc_agentId = cn_agent c, sc_revision = cn_revision c, sc_available = lease_available g c,
      sc_control = (lease_available g c \<and> cn_token c \<noteq> None),
      sc_nativeOwner = cs_owner (rg_heap g (cn_session c)),
      sc_token = (if lease_available g c then cn_token c else None)\<rparr>"

definition lease_request :: "nat \<Rightarrow> control_connection \<Rightarrow> nat \<Rightarrow> control_registry \<Rightarrow> (control_state \<times> control_registry) js_result" where
  "lease_request l c revision g =
     (if cn_closed c \<or> rg_closed g
      then Inl (denied ''session_read_only'' ''This connection is closed. Reconnect before operating this session.'')
      else if cs_owner (rg_heap g (cn_session c)) \<noteq> None
      then Inl (denied ''native_session_owned'' ''The native client owns this session. Explicitly interrupt it before taking control.'')
      else if revision \<noteq> cn_revision c
      then Inl (denied ''session_control_changed'' ''Session access changed. Review its current state and retry.'')
      else case cn_token c of
        Some t \<Rightarrow> Inr (lease_state g c, g)
      | None \<Rightarrow>
          let c' = c\<lparr>cn_token := Some (rg_next g)\<rparr>;
              g' = (set_lease l c' g)\<lparr>rg_next := Suc (rg_next g)\<rparr>
          in Inr (lease_state g' c', g'))"

definition lease_assert :: "control_connection \<Rightarrow> nat option \<Rightarrow> control_registry \<Rightarrow> unit js_result" where
  "lease_assert c token g =
     (if \<not> lease_available g c \<or> cn_token c = None \<or> token \<noteq> cn_token c
      then Inl (denied ''session_read_only'' ''This connection is read-only. Reconnect before operating this session.'')
      else Inr ())"

definition lease_close :: "nat \<Rightarrow> control_connection \<Rightarrow> control_registry \<Rightarrow> control_registry" where
  "lease_close l c g =
     (if cn_closed c then g
      else
        let x = rg_heap g (cn_session c);
            x' = x\<lparr>cs_connections := removeAll l (cs_connections x)\<rparr>
        in drop_if_unused (cn_agent c) x'
             (set_session (cn_session c) x' (set_lease l (c\<lparr>cn_closed := True, cn_token := None\<rparr>) g)))"

definition clear_connection :: "control_registry \<Rightarrow> nat \<Rightarrow> control_registry" where
  "clear_connection g i =
     (case rg_leases g i of None \<Rightarrow> g | Some c \<Rightarrow> set_lease i (c\<lparr>cn_token := None\<rparr>) g)"

definition close_session :: "control_registry \<Rightarrow> nat \<Rightarrow> control_registry" where
  "close_session g i =
     (let x = rg_heap g i in set_session i (x\<lparr>cs_connections := []\<rparr>) (foldl clear_connection g (cs_connections x)))"

definition close_registry :: "control_registry \<Rightarrow> control_registry" where
  "close_registry g =
     (foldl close_session (g\<lparr>rg_closed := True\<rparr>) (jvalues (rg_sessions g)))\<lparr>rg_sessions := []\<rparr>"

section \<open>Events\<close>

datatype control_event =
    SetOwner string "native_owner option"
  | Attach string
  | RequestControl nat nat
  | CloseLease nat
  | CloseRegistry

fun control_step :: "control_registry \<Rightarrow> control_event \<Rightarrow> control_registry" where
  "control_step g (SetOwner agent owner) = snd (setNativeOwner agent owner g)"
| "control_step g (Attach agent) = (case attach agent g of Inl _ \<Rightarrow> g | Inr (_, g') \<Rightarrow> g')"
| "control_step g (RequestControl l revision) =
     (case rg_leases g l of None \<Rightarrow> g | Some c \<Rightarrow>
        (case lease_request l c revision g of Inl _ \<Rightarrow> g | Inr (_, g') \<Rightarrow> g'))"
| "control_step g (CloseLease l) =
     (case rg_leases g l of None \<Rightarrow> g | Some c \<Rightarrow> lease_close l c g)"
| "control_step g CloseRegistry = close_registry g"

end
