(* ===== verification/Replica.thy ===== *)
theory Replica
  imports Timeline_Projector Session_State Session_Control
begin

section \<open>The web client's replica\<close>

text \<open>
  Models \<open>agent-remote-web/src/replica/types.ts\<close> and \<open>reducer.ts\<close>: the state a browser keeps of one
  session and the pure functions that fold snapshots, live stream messages, history pages,
  interactions and resource changes into it. Where the code compares object identities to avoid a
  copy, the values are equal and the model returns the value. The optional dictionary of background
  outcomes is \<open>[]\<close> while it is absent: no lookup succeeds in either.
\<close>

subsection \<open>State and messages\<close>

record timeline_message =
  tm_agentId :: string
  tm_providerId :: string
  tm_item :: item
  tm_turnId :: "string option"
  tm_resources :: "resource_binding list"
  tm_timestamp :: string
  tm_seq :: int
  tm_epoch :: string

datatype stream_message =
    TimelineStream timeline_message
  | EventStream (es_agentId: string) (es_event: state_event) (es_timestamp: string)

record replica_diagnostic =
  di_code :: string
  di_message :: string
  di_recoverable :: bool

record interaction_change =
  icg_revision :: nat
  icg_request :: "request option"

datatype resource_state =
    RsPending nat
  | RsAvailable (rs_mediaType: string) (rs_byteLength: nat) (rs_sha256: string)
      (rs_dimensions: "(nat \<times> nat) option") (rs_content: "string option")
  | RsFailed string bool
  | RsUnavailable string

fun state_status :: "resource_state \<Rightarrow> resource_status" where
  "state_status (RsPending _) = ResPending"
| "state_status (RsAvailable _ _ _ _ _) = ResAvailable"
| "state_status (RsFailed _ _) = ResFailed"
| "state_status (RsUnavailable _) = ResUnavailable"

record timeline_replica =
  tl_background :: "(string, background) jmap"
  tl_epoch :: "string option"
  tl_initialized :: bool
  tl_entries :: "entry list"
  tl_nextSeq :: int
  tl_hasOlder :: bool
  tl_pendingLive :: "timeline_message list"

datatype delivery = ImmediateDelivery | NextTurnDelivery

datatype outgoing_status = Sending | AwaitingEcho | Unconfirmed | SendFailed

datatype message_part =
    PartText (mp_text: string)
  | PartResource (mp_resourceId: string) (mp_resourceLabel: string)
  | PartImage (mp_attachmentId: string) (mp_imageLabel: string)

record outgoing_message =
  om_operationId :: "string option"
  om_retryRequiresNewOperation :: "bool option"
  om_id :: string
  om_agentId :: string
  om_text :: string
  om_content :: "message_part list option"
  om_imageDigests :: "(string, string) jmap option"
  om_submittedTextSha256 :: "string option"
  om_consumedEchoSeqs :: "int list option"
  om_delivery :: "delivery option"
  om_status :: outgoing_status
  om_error :: "string option"
  om_epoch :: "string option"
  om_afterSeq :: int

record session_control_view =
  scv_access :: control_access
  scv_available :: bool
  scv_revision :: "string option"
  scv_ownerKind :: "client_kind option"
  scv_nativeOwner :: "native_owner option"

record replica_state =
  rp_sessionControl :: "session_control_view option"
  rp_agent :: "session_state option"
  rp_timeline :: timeline_replica
  rp_pendingInteractions :: "request list"
  rp_interactionRevision :: nat
  rp_interactionChanges :: "(string, interaction_change) jmap"
  rp_resources :: "(string, resource_state) jmap"
  rp_diagnostics :: "replica_diagnostic list"
  rp_retiredEpochs :: "string list"
  rp_outgoingMessages :: "outgoing_message list option"

datatype reduction =
    Applied (red_state: replica_state)
  | Buffered (red_state: replica_state)
  | DuplicateLive (red_state: replica_state)
  | Gap (red_state: replica_state) (red_expected: int)
  | EpochChanged (red_state: replica_state) (red_epoch: string)
  | StaleEpoch (red_state: replica_state)
  | ResetRequired (red_state: replica_state) (red_epoch: string)

definition empty_timeline :: "string option \<Rightarrow> timeline_replica" where
  "empty_timeline epoch =
     \<lparr>tl_background = [], tl_epoch = epoch, tl_initialized = False, tl_entries = [],
      tl_nextSeq = 1, tl_hasOlder = False, tl_pendingLive = []\<rparr>"

definition createReplicaState :: replica_state where
  "createReplicaState =
     \<lparr>rp_sessionControl = None, rp_agent = None, rp_timeline = empty_timeline None,
      rp_pendingInteractions = [], rp_interactionRevision = 0, rp_interactionChanges = [],
      rp_resources = [], rp_diagnostics = [], rp_retiredEpochs = [], rp_outgoingMessages = None\<rparr>"

subsection \<open>Coalescing entries\<close>

definition liveEntry :: "timeline_message \<Rightarrow> entry" where
  "liveEntry m =
     \<lparr>en_providerId = tm_providerId m, en_item = tm_item m, en_turnId = tm_turnId m,
      en_timestamp = tm_timestamp m, en_seqStart = tm_seq m, en_seqEnd = tm_seq m,
      en_ranges = [(tm_seq m, tm_seq m)], en_collapsed = [], en_resources = tm_resources m\<rparr>"

definition sameContext :: "entry \<Rightarrow> entry \<Rightarrow> bool" where
  "sameContext l r \<longleftrightarrow> en_providerId l = en_providerId r \<and> en_turnId l = en_turnId r
     \<and> background_id (en_item l) = background_id (en_item r)"

fun merge_sorted :: "seq_range list \<Rightarrow> seq_range list \<Rightarrow> seq_range list" where
  "merge_sorted merged [] = merged"
| "merge_sorted merged ((a, b) # rs) =
     (case at_last merged of
        None \<Rightarrow> merge_sorted (merged @ [(a, b)]) rs
      | Some (c, d) \<Rightarrow>
          if a \<le> d + 1 then merge_sorted (butlast merged @ [(c, max d b)]) rs
          else merge_sorted (merged @ [(a, b)]) rs)"

definition mergeRanges :: "seq_range list \<Rightarrow> seq_range list" where
  "mergeRanges ranges = merge_sorted [] (sort_key fst ranges)"

definition mergeResources :: "resource_binding list \<Rightarrow> resource_binding list \<Rightarrow> resource_binding list" where
  "mergeResources existing incoming =
     jvalues (foldl (\<lambda>m r. jset m (rb_resourceId r) r) (index_by rb_resourceId existing) incoming)"

definition rangesOverlap :: "seq_range list \<Rightarrow> seq_range list \<Rightarrow> bool" where
  "rangesOverlap l r \<longleftrightarrow> list_ex (\<lambda>a. list_ex (\<lambda>b. fst a \<le> snd b \<and> fst b \<le> snd a) r) l"

definition sortEntries :: "entry list \<Rightarrow> entry list" where
  "sortEntries es = sort_key (\<lambda>e. (en_seqStart e, en_seqEnd e)) es"

definition extendEntry :: "entry \<Rightarrow> entry \<Rightarrow> timeline_collapse option \<Rightarrow> entry" where
  "extendEntry target incoming collapse =
     target\<lparr>en_seqEnd := max (en_seqEnd target) (en_seqEnd incoming),
            en_ranges := mergeRanges (en_ranges target @ en_ranges incoming),
            en_resources := mergeResources (en_resources target) (en_resources incoming),
            en_collapsed :=
              (case collapse of
                 None \<Rightarrow> en_collapsed target
               | Some c \<Rightarrow> if c \<in> set (en_collapsed target) then en_collapsed target
                           else en_collapsed target @ [c])\<rparr>"

text \<open>
  The two shapes of an updated item: text appended to the previous item with the background merged
  in when the incoming item has one, and the incoming item with its background merged over the
  existing one.
\<close>

definition joined_item :: "item \<Rightarrow> item \<Rightarrow> item" where
  "joined_item previous incoming =
     \<lparr>it_body = append_text (it_body previous) (it_body incoming),
      it_background = (case it_background incoming of
                         None \<Rightarrow> it_background previous
                       | Some b \<Rightarrow> Some (mergeBackgroundActivity (it_background previous) b))\<rparr>"

definition superseding_item :: "item \<Rightarrow> item \<Rightarrow> item" where
  "superseding_item existing incoming =
     incoming\<lparr>it_background := merged_background (it_background existing) (it_background incoming)\<rparr>"

definition coalesceEntry :: "entry list \<Rightarrow> entry \<Rightarrow> entry list" where
  "coalesceEntry entries incoming =
     (let item = en_item incoming;
          push = sortEntries (entries @ [incoming])
      in if is_AssistantMessage (it_body item) then
           (case at_last entries of
              None \<Rightarrow> push
            | Some p \<Rightarrow>
                if is_AssistantMessage (en_body p) \<and> sameContext p incoming
                   \<and> am_messageId (en_body p) = am_messageId (it_body item)
                then butlast entries
                     @ [extendEntry (p\<lparr>en_item := joined_item (en_item p) item\<rparr>) incoming (Some AssistantMerge)]
                else push)
         else if is_Reasoning (it_body item) then
           (case at_last entries of
              None \<Rightarrow> push
            | Some p \<Rightarrow>
                if is_Reasoning (en_body p) \<and> sameContext p incoming
                then butlast entries
                     @ [extendEntry (p\<lparr>en_item := joined_item (en_item p) item\<rparr>) incoming (Some ReasoningMerge)]
                else push)
         else if is_ToolCall (it_body item) then
           (case find_index (\<lambda>e. en_providerId e = en_providerId incoming \<and> is_ToolCall (en_body e)
                                 \<and> tc_callId (en_body e) = tc_callId (it_body item)) entries of
              None \<Rightarrow> push
            | Some i \<Rightarrow>
                sortEntries (entries[i := extendEntry
                  ((entries ! i)\<lparr>en_item := superseding_item (en_item (entries ! i)) item\<rparr>)
                  incoming (Some ToolLifecycle)]))
         else if is_Compaction (it_body item) \<and> cp_status (it_body item) = CompactionCompleted then
           (case find_last_index (\<lambda>e. is_Compaction (en_body e) \<and> sameContext e incoming) entries of
              None \<Rightarrow> push
            | Some i \<Rightarrow>
                if cp_status (en_body (entries ! i)) \<noteq> CompactionLoading then push
                else sortEntries (entries[i := extendEntry
                  ((entries ! i)\<lparr>en_item := spread_item (en_item (entries ! i)) item\<rparr>) incoming None]))
         else if is_Todo (it_body item) then
           (case find_last_index (\<lambda>e. is_Todo (en_body e) \<and> sameContext e incoming) entries of
              None \<Rightarrow> push
            | Some i \<Rightarrow>
                sortEntries (entries[i := extendEntry
                  ((entries ! i)\<lparr>en_item := superseding_item (en_item (entries ! i)) item\<rparr>)
                  incoming None]))
         else push)"

definition mergeAuthoritative :: "entry list \<Rightarrow> entry list \<Rightarrow> entry list" where
  "mergeAuthoritative existing authoritative =
     sortEntries
       (filter (\<lambda>e. \<not> list_ex (\<lambda>c. rangesOverlap (en_ranges e) (en_ranges c)) authoritative) existing
        @ authoritative)"

subsection \<open>Background outcomes\<close>

definition apply_entry_background :: "(string, background) jmap \<Rightarrow> entry \<Rightarrow> entry" where
  "apply_entry_background outcomes e = e\<lparr>en_item := apply_outcome outcomes (en_item e)\<rparr>"

definition applyBackgroundEntries :: "(string, background) jmap \<Rightarrow> entry list \<Rightarrow> entry list" where
  "applyBackgroundEntries outcomes es = map (apply_entry_background outcomes) es"

definition applyBackgroundOutcome :: "replica_state \<Rightarrow> background \<Rightarrow> replica_state" where
  "applyBackgroundOutcome s b =
     (let tr = rp_timeline s;
          previous = jget (tl_background tr) (bg_id b);
          merged = mergeBackgroundActivity previous b
      in if (case previous of
               None \<Rightarrow> False
             | Some p \<Rightarrow> bg_status p = bg_status merged \<and> bg_summary p = bg_summary merged)
         then s
         else (let outcomes = jset (tl_background tr) (bg_id b) merged;
                   kept = (if length (obj_keys outcomes) > max_background_outcomes
                           then jdelete outcomes (hd (obj_keys outcomes)) else outcomes)
               in s\<lparr>rp_timeline := tr\<lparr>tl_background := kept,
                                      tl_entries := applyBackgroundEntries kept (tl_entries tr)\<rparr>\<rparr>))"

subsection \<open>Live messages\<close>

definition bufferLive :: "replica_state \<Rightarrow> timeline_message \<Rightarrow> replica_state" where
  "bufferLive s m =
     (if list_ex (\<lambda>c. tm_seq c = tm_seq m \<and> tm_epoch c = tm_epoch m) (tl_pendingLive (rp_timeline s))
      then s
      else s\<lparr>rp_timeline := (rp_timeline s)\<lparr>tl_pendingLive := tl_pendingLive (rp_timeline s) @ [m]\<rparr>\<rparr>)"

definition append_live :: "timeline_replica \<Rightarrow> timeline_message \<Rightarrow> timeline_replica" where
  "append_live tr m =
     tr\<lparr>tl_entries := coalesceEntry (tl_entries tr) (apply_entry_background (tl_background tr) (liveEntry m)),
        tl_nextSeq := tm_seq m + 1,
        tl_pendingLive := filter (\<lambda>c. tm_seq c \<noteq> tm_seq m) (tl_pendingLive tr)\<rparr>"

definition appendLive :: "replica_state \<Rightarrow> timeline_message \<Rightarrow> replica_state" where
  "appendLive s m = s\<lparr>rp_timeline := append_live (rp_timeline s) m\<rparr>"

function drain_loop :: "timeline_replica \<Rightarrow> timeline_replica" where
  "drain_loop tr =
     (case find (\<lambda>m. tm_seq m = tl_nextSeq tr) (tl_pendingLive tr) of
        None \<Rightarrow> tr
      | Some m \<Rightarrow> drain_loop (append_live tr m))"
  by pat_completeness auto

termination
proof (relation "measure (\<lambda>tr. length (tl_pendingLive tr))")
  fix tr :: timeline_replica and m
  assume "find (\<lambda>m. tm_seq m = tl_nextSeq tr) (tl_pendingLive tr) = Some m"
  then have "m \<in> set (tl_pendingLive tr)" by (auto simp: find_Some_iff)
  then have "length (filter (\<lambda>c. tm_seq c \<noteq> tm_seq m) (tl_pendingLive tr)) < length (tl_pendingLive tr)"
    by (intro length_filter_less) auto
  then show "(append_live tr m, tr) \<in> measure (\<lambda>tr. length (tl_pendingLive tr))"
    by (simp add: append_live_def)
qed simp

declare drain_loop.simps [simp del]

definition drainPending :: "replica_state \<Rightarrow> reduction" where
  "drainPending s =
     (let tr = drain_loop (rp_timeline s);
          applied = (find (\<lambda>m. tm_seq m = tl_nextSeq (rp_timeline s)) (tl_pendingLive (rp_timeline s)) \<noteq> None);
          pending = filter (\<lambda>m. tm_seq m \<ge> tl_nextSeq tr) (tl_pendingLive tr);
          current = s\<lparr>rp_timeline := tr\<lparr>tl_pendingLive := pending\<rparr>\<rparr>
      in case at_first pending of
           Some next \<Rightarrow>
             if tm_seq next > tl_nextSeq tr then Gap current (tl_nextSeq tr)
             else if applied \<or> tl_initialized (rp_timeline s) then Applied current else Buffered current
         | None \<Rightarrow>
             if applied \<or> tl_initialized (rp_timeline s) then Applied current else Buffered current)"

subsection \<open>Replacing the timeline and applying pages\<close>

definition applyTimelineReplacement :: "replica_state \<Rightarrow> string \<Rightarrow> replica_state" where
  "applyTimelineReplacement s epoch =
     (let tr = rp_timeline s
      in if tl_epoch tr = Some epoch \<and> \<not> tl_initialized tr then s
         else s\<lparr>rp_retiredEpochs :=
                  (if truthy (tl_epoch tr) \<and> tl_epoch tr \<noteq> Some epoch
                   then js_unique (rp_retiredEpochs s @ [the (tl_epoch tr)])
                   else rp_retiredEpochs s),
                rp_timeline := empty_timeline (Some epoch)\<rparr>)"

definition nextSequenceForPage :: "replica_state \<Rightarrow> history_page \<Rightarrow> int" where
  "nextSequenceForPage s p =
     (if hp_direction p = Before then tl_nextSeq (rp_timeline s)
      else case hp_endCursor p of
             Some c \<Rightarrow> if hp_hasNewer p then cu_seq c + 1 else wi_nextSeq (hp_window p)
           | None \<Rightarrow> wi_nextSeq (hp_window p))"

definition replaced_epoch :: "replica_state \<Rightarrow> history_page \<Rightarrow> bool" where
  "replaced_epoch s p \<longleftrightarrow>
     truthy (tl_epoch (rp_timeline s)) \<and> tl_epoch (rp_timeline s) \<noteq> Some (hp_epoch p)"

text \<open>The state prepared from an accepted page, before pending live messages are drained.\<close>

definition prepare_page :: "replica_state \<Rightarrow> history_page \<Rightarrow> bool \<Rightarrow> replica_state" where
  "prepare_page authority p preserveLive =
     (let tr = rp_timeline authority;
          base = (if \<not> tl_initialized tr \<or> hp_direction p = Tail then [] else tl_entries tr);
          incoming =
            (if preserveLive
             then filter (\<lambda>c. \<not> list_ex (\<lambda>e. en_seqEnd e > en_seqEnd c
                                         \<and> rangesOverlap (en_ranges e) (en_ranges c)) base) (hp_entries p)
             else hp_entries p);
          entries = mergeAuthoritative base incoming;
          nextSeq = (if preserveLive then max (tl_nextSeq tr) (nextSequenceForPage authority p)
                     else nextSequenceForPage authority p)
      in authority\<lparr>rp_timeline :=
           \<lparr>tl_background = tl_background tr, tl_epoch = Some (hp_epoch p), tl_initialized = True,
            tl_entries = applyBackgroundEntries (tl_background tr) entries, tl_nextSeq = nextSeq,
            tl_hasOlder = (if hp_direction p = Before then hp_hasOlder p
                           else hp_hasOlder p \<or> tl_hasOlder tr),
            tl_pendingLive = sort_key tm_seq (filter (\<lambda>m. tm_epoch m = hp_epoch p) (tl_pendingLive tr))\<rparr>\<rparr>)"

definition applyHistoryPage :: "replica_state \<Rightarrow> history_page \<Rightarrow> bool \<Rightarrow> reduction" where
  "applyHistoryPage s p preserveLive =
     (if fl_reset (hp_flags p) \<or> fl_staleCursor (hp_flags p) \<or> fl_gap (hp_flags p)
      then ResetRequired (applyTimelineReplacement s (hp_epoch p)) (hp_epoch p)
      else if replaced_epoch s p \<and> hp_epoch p \<in> set (rp_retiredEpochs s) then StaleEpoch s
      else if replaced_epoch s p \<and> hp_direction p \<noteq> Tail
      then EpochChanged (applyTimelineReplacement s (hp_epoch p)) (hp_epoch p)
      else drainPending
             (prepare_page (if replaced_epoch s p then applyTimelineReplacement s (hp_epoch p) else s)
                p preserveLive))"

definition applyNonTimelineEvent :: "replica_state \<Rightarrow> state_event \<Rightarrow> string \<Rightarrow> replica_state" where
  "applyNonTimelineEvent s ev timestamp =
     (case ev of
        BackgroundActivityUpdated b _ \<Rightarrow> applyBackgroundOutcome s b
      | _ \<Rightarrow> (case rp_agent s of
                None \<Rightarrow> s
              | Some a \<Rightarrow> s\<lparr>rp_agent := Some (reduceSessionState a ev timestamp)\<rparr>))"

definition reduce_timeline_message :: "replica_state \<Rightarrow> timeline_message \<Rightarrow> reduction" where
  "reduce_timeline_message s m =
     (let tr = rp_timeline s; epoch = tm_epoch m
      in if epoch \<in> set (rp_retiredEpochs s) then StaleEpoch s
         else if truthy (tl_epoch tr) \<and> tl_epoch tr \<noteq> Some epoch
         then EpochChanged (bufferLive (applyTimelineReplacement s epoch) m) epoch
         else if \<not> tl_initialized tr
         then Buffered (bufferLive
                (if tl_epoch tr = None then s\<lparr>rp_timeline := tr\<lparr>tl_epoch := Some epoch\<rparr>\<rparr> else s) m)
         else if tm_seq m < tl_nextSeq tr then DuplicateLive s
         else if tm_seq m > tl_nextSeq tr then Gap (bufferLive s m) (tl_nextSeq tr)
         else Applied (appendLive s m))"

fun reduceTimelineEvent :: "replica_state \<Rightarrow> stream_message \<Rightarrow> reduction" where
  "reduceTimelineEvent s (EventStream _ ev timestamp) = Applied (applyNonTimelineEvent s ev timestamp)"
| "reduceTimelineEvent s (TimelineStream m) = reduce_timeline_message s m"

subsection \<open>Snapshots and interactions\<close>

definition overlay_changes ::
  "(string, request) jmap \<Rightarrow> nat \<Rightarrow> (string \<times> interaction_change) list \<Rightarrow> (string, request) jmap" where
  "overlay_changes requests baseline changes =
     foldl (\<lambda>m (i, c).
              if icg_revision c \<le> baseline then m
              else case icg_request c of Some rq \<Rightarrow> jset m i rq | None \<Rightarrow> jdelete m i)
       requests changes"

definition record_snapshot_requests ::
  "(string, interaction_change) jmap \<Rightarrow> nat \<Rightarrow> request list \<Rightarrow> (string, interaction_change) jmap" where
  "record_snapshot_requests changes baseline requests =
     foldl (\<lambda>m rq.
              if (case jget m (rq_requestId rq) of None \<Rightarrow> True | Some c \<Rightarrow> icg_revision c \<le> baseline)
              then jset m (rq_requestId rq) \<lparr>icg_revision = baseline, icg_request = Some rq\<rparr>
              else m)
       changes requests"

definition snapshot_outcome :: "replica_state \<Rightarrow> session_state \<Rightarrow> replica_state" where
  "snapshot_outcome state payload =
     (case st_attention payload of
        None \<Rightarrow> state
      | Some a \<Rightarrow> (case att_background a of
                     None \<Rightarrow> state | Some b \<Rightarrow> applyBackgroundOutcome state b))"

definition applyAgentSnapshot :: "replica_state \<Rightarrow> session_state \<Rightarrow> nat option \<Rightarrow> replica_state" where
  "applyAgentSnapshot state payload interactionBaseline =
     (let s = snapshot_outcome state payload;
          baseline = (case interactionBaseline of None \<Rightarrow> rp_interactionRevision s | Some b \<Rightarrow> b);
          requests = jvalues (overlay_changes (index_by rq_requestId (st_pendingInteractions payload))
                                baseline (obj_entries (rp_interactionChanges s)))
      in s\<lparr>rp_agent := Some (withSessionInteractions payload requests),
           rp_pendingInteractions := requests,
           rp_interactionChanges :=
             record_snapshot_requests (rp_interactionChanges s) baseline (st_pendingInteractions payload)\<rparr>)"

definition reduce_agent :: "replica_state \<Rightarrow> state_event \<Rightarrow> session_state option" where
  "reduce_agent s ev = map_option (\<lambda>a. reduceSessionState a ev (st_updatedAt a)) (rp_agent s)"

definition applyInteractionRequested :: "replica_state \<Rightarrow> request \<Rightarrow> replica_state" where
  "applyInteractionRequested s rq =
     s\<lparr>rp_agent := reduce_agent s (InteractionRequested rq),
       rp_pendingInteractions := upsert_request rq (rp_pendingInteractions s),
       rp_interactionRevision := rp_interactionRevision s + 1,
       rp_interactionChanges := jset (rp_interactionChanges s) (rq_requestId rq)
         \<lparr>icg_revision = rp_interactionRevision s + 1, icg_request = Some rq\<rparr>\<rparr>"

definition applyInteractionResolved :: "replica_state \<Rightarrow> string \<Rightarrow> replica_state" where
  "applyInteractionResolved s i =
     s\<lparr>rp_agent := reduce_agent s (InteractionResolved i),
       rp_pendingInteractions := drop_request i (rp_pendingInteractions s),
       rp_interactionRevision := rp_interactionRevision s + 1,
       rp_interactionChanges := jset (rp_interactionChanges s) i
         \<lparr>icg_revision = rp_interactionRevision s + 1, icg_request = None\<rparr>\<rparr>"

definition applyInteractionInvalidated :: "replica_state \<Rightarrow> string \<Rightarrow> replica_state" where
  "applyInteractionInvalidated s i = applyInteractionResolved s i"

subsection \<open>Resources\<close>

definition mapTimelineResources ::
  "timeline_replica \<Rightarrow> (resource_binding list \<Rightarrow> resource_binding list) \<Rightarrow> timeline_replica" where
  "mapTimelineResources tr f =
     tr\<lparr>tl_entries := map (\<lambda>e. e\<lparr>en_resources := f (en_resources e)\<rparr>) (tl_entries tr),
        tl_pendingLive := map (\<lambda>m. m\<lparr>tm_resources := f (tm_resources m)\<rparr>) (tl_pendingLive tr)\<rparr>"

definition updateResourceStatus ::
  "resource_binding list \<Rightarrow> string \<Rightarrow> resource_status \<Rightarrow> resource_binding list" where
  "updateResourceStatus resources resourceId status =
     map (\<lambda>r. if rb_resourceId r \<noteq> resourceId \<or> rb_status r = status then r else r\<lparr>rb_status := status\<rparr>)
       resources"

definition replaceResourceBinding ::
  "resource_binding list \<Rightarrow> resource_binding \<Rightarrow> resource_binding \<Rightarrow> resource_binding list" where
  "replaceResourceBinding resources previous replacement =
     map (\<lambda>r. if rb_locator r \<noteq> rb_locator previous \<or> rb_resourceId r \<noteq> rb_resourceId previous
              then r else replacement) resources"

definition applyResourceResponse :: "replica_state \<Rightarrow> string \<Rightarrow> resource_state \<Rightarrow> replica_state" where
  "applyResourceResponse s resourceId st = s\<lparr>rp_resources := jset (rp_resources s) resourceId st\<rparr>"

definition keep_content :: "resource_state option \<Rightarrow> resource_state \<Rightarrow> resource_state" where
  "keep_content previous metadata =
     (case (metadata, previous) of
        (RsAvailable mt len sha dims _, Some (RsAvailable _ _ sha' _ (Some content))) \<Rightarrow>
          if sha = sha' then RsAvailable mt len sha dims (Some content) else metadata
      | _ \<Rightarrow> metadata)"

definition applyResourceUpdate :: "replica_state \<Rightarrow> string \<Rightarrow> resource_state \<Rightarrow> replica_state" where
  "applyResourceUpdate s resourceId st =
     s\<lparr>rp_resources := jset (rp_resources s) resourceId (keep_content (jget (rp_resources s) resourceId) st),
       rp_timeline := mapTimelineResources (rp_timeline s)
         (\<lambda>rs. updateResourceStatus rs resourceId (state_status st))\<rparr>"

record binding_replacement =
  br_agentId :: string
  br_epoch :: string
  br_seq :: int
  br_previous :: resource_binding
  br_replacement :: resource_binding

definition applyTimelineResourceBindingReplacement ::
  "replica_state \<Rightarrow> binding_replacement \<Rightarrow> replica_state" where
  "applyTimelineResourceBindingReplacement s m =
     (let tr = rp_timeline s; f = (\<lambda>rs. replaceResourceBinding rs (br_previous m) (br_replacement m))
      in if tl_epoch tr \<noteq> Some (br_epoch m) then s
         else s\<lparr>rp_timeline := tr\<lparr>
           tl_entries := map (\<lambda>e. if list_ex (\<lambda>(a, b). a \<le> br_seq m \<and> br_seq m \<le> b) (en_ranges e)
                                  then e\<lparr>en_resources := f (en_resources e)\<rparr> else e) (tl_entries tr),
           tl_pendingLive := map (\<lambda>p. if tm_epoch p \<noteq> br_epoch m \<or> tm_seq p \<noteq> br_seq m then p
                                      else p\<lparr>tm_resources := f (tm_resources p)\<rparr>) (tl_pendingLive tr)\<rparr>\<rparr>)"

end
