(* ===== verification/Convergence.thy ===== *)
theory Convergence
  imports Replica
begin

section \<open>The replica follows the relay\<close>

text \<open>
  The relay projects the rows of its store from scratch (\<open>projectTimelineRows\<close>); the replica folds
  live messages and pages into the entries it has (\<open>coalesceEntry\<close>, \<open>mergeAuthoritative\<close>). The lemmas
  show that the two agree: on one row, on a run of live messages, on a page fetched to close a gap,
  and on the live messages buffered meanwhile.
\<close>

subsection \<open>One row\<close>

lemma sortEntries_id:
  "sorted_wrt (<) (map en_seqStart es) \<Longrightarrow> sortEntries es = es"
  unfolding sortEntries_def
proof (rule sort_key_ident)
  assume "sorted_wrt (<) (map en_seqStart es)"
  then have "sorted_wrt (\<lambda>x y. en_seqStart x < en_seqStart y) es" by (simp add: sorted_wrt_map)
  then have "sorted_wrt (\<lambda>x y. (en_seqStart x, en_seqEnd x) \<le> (en_seqStart y, en_seqEnd y)) es"
    by (rule sorted_wrt_mono_rel [rotated]) (auto simp: less_eq_prod_def)
  then show "sorted (map (\<lambda>e. (en_seqStart e, en_seqEnd e)) es)"
    by (simp add: sorted_wrt_map)
qed

lemma merge_sorted_normal:
  "normal_ranges (ms @ rs) \<Longrightarrow> merge_sorted ms rs = ms @ rs"
proof (induction ms rs rule: merge_sorted.induct)
  case (2 ms a b rs)
  show ?case
  proof (cases ms rule: rev_cases)
    case Nil
    with 2 show ?thesis by simp
  next
    case (snoc qs q)
    obtain c d where q: "q = (c, d)" by (cases q)
    have "normal_ranges ((qs @ [(c, d), (a, b)]) @ rs)" using 2(4) snoc q by simp
    then have "d + 1 < a"
    proof (induction qs rule: normal_ranges.induct)
      case 1
      then show ?case by (cases rs) auto
    qed (auto split: list.splits)
    with snoc q 2 show ?thesis by simp
  qed
qed simp

lemma normal_ranges_sorted: "normal_ranges rs \<Longrightarrow> sorted_wrt (<) (map fst rs)"
proof (induction rs rule: rev_induct)
  case (snoc r rs)
  obtain a b where r: "r = (a, b)" by (cases r)
  from snoc.prems r have n: "normal_ranges rs" "rs \<noteq> [] \<longrightarrow> snd (last rs) + 1 < a"
    by (simp_all add: normal_ranges_snoc)
  have "fst x < a" if "x \<in> set rs" for x
  proof -
    have "fst x \<le> snd x" using n(1) that by (induction rs rule: normal_ranges.induct) auto
    then have "snd x \<in> range_seqs rs" using that by (force simp: range_seqs_def)
    from normal_ranges_last [OF n(1) this] n(2) that \<open>fst x \<le> snd x\<close> show ?thesis by force
  qed
  with snoc.IH [OF n(1)] r show ?case by (auto simp: sorted_wrt_append)
qed simp

lemma mergeRanges_snoc:
  assumes "normal_ranges rs" and "rs \<noteq> []" and "snd (last rs) < x"
  shows "mergeRanges (rs @ [(x, x)]) = includeSequence rs x"
proof -
  from assms(2) obtain qs a b where rs: "rs = qs @ [(a, b)]" by (metis rev_exhaust surj_pair)
  have "sorted (map fst (rs @ [(x, x)]))"
  proof -
    have "\<forall>y \<in> set rs. fst y \<le> x"
    proof
      fix y assume y: "y \<in> set rs"
      then have "fst y \<le> snd y" using assms(1) by (induction rs rule: normal_ranges.induct) auto
      then have "snd y \<in> range_seqs rs" using y by (force simp: range_seqs_def)
      from normal_ranges_last [OF assms(1) this] assms(3) \<open>fst y \<le> snd y\<close> show "fst y \<le> x" by simp
    qed
    with normal_ranges_sorted [OF assms(1)] show ?thesis
      by (auto simp: sorted_append strict_sorted_imp_sorted)
  qed
  then have "mergeRanges (rs @ [(x, x)]) = merge_sorted [] (rs @ [(x, x)])"
    by (simp add: mergeRanges_def sort_key_ident)
  also have "\<dots> = merge_sorted rs [(x, x)]"
  proof -
    have "merge_sorted ms (ps @ qs) = merge_sorted (merge_sorted ms ps) qs" for ms ps qs
      by (induction ms ps rule: merge_sorted.induct) (auto split: option.splits)
    then show ?thesis using merge_sorted_normal [of "[]" rs] assms(1) by simp
  qed
  also have "\<dots> = includeSequence rs x"
    using assms(3) by (auto simp: rs includeSequence_snoc max_def)
  finally show ?thesis .
qed

subsection \<open>Bindings\<close>

text \<open>A resource identity stands for one binding, and a row does not list it twice.\<close>

definition one_binding :: "resource_binding set \<Rightarrow> bool" where
  "one_binding B \<longleftrightarrow> (\<forall>a \<in> B. \<forall>b \<in> B. rb_resourceId a = rb_resourceId b \<longrightarrow> a = b)"

definition row_bindings :: "row list \<Rightarrow> resource_binding set" where
  "row_bindings rows = (\<Union>r \<in> set rows. set (ro_resources r))"

definition bindings_ok :: "row list \<Rightarrow> bool" where
  "bindings_ok rows \<longleftrightarrow> one_binding (row_bindings rows)
     \<and> (\<forall>r \<in> set rows. distinct (map rb_resourceId (ro_resources r)))"

lemma jset_same: "jget m k = Some v \<Longrightarrow> jset m k v = m"
  by (induction m) (auto split: if_splits)

lemma includeResources_set: "set (includeResources rs as) \<subseteq> set rs \<union> set as"
  by (induction rs as rule: includeResources.induct) auto

lemma includeResources_known:
  assumes "one_binding (set rs \<union> set (a # as))" and "a \<in> set rs"
  shows "includeResources rs (a # as) = includeResources rs as"
  using assms(2) by (auto simp: list_ex_iff)

lemma includeResources_new:
  assumes "one_binding (set rs \<union> set (a # as))" and "a \<notin> set rs"
  shows "includeResources rs (a # as) = includeResources (rs @ [a]) as"
    and "rb_resourceId a \<notin> rb_resourceId ` set rs"
  using assms by (auto simp: list_ex_iff one_binding_def)

lemma includeResources_distinct:
  "one_binding (set rs \<union> set as) \<Longrightarrow> distinct (map rb_resourceId rs) \<Longrightarrow>
   distinct (map rb_resourceId (includeResources rs as))"
proof (induction as arbitrary: rs)
  case (Cons a as)
  show ?case
  proof (cases "a \<in> set rs")
    case True
    have "one_binding (set rs \<union> set as)" using Cons.prems(1) by (auto simp: one_binding_def)
    with Cons includeResources_known [OF Cons.prems(1) True] show ?thesis by simp
  next
    case False
    note new = includeResources_new [OF Cons.prems(1) False]
    have "one_binding (set (rs @ [a]) \<union> set as)" using Cons.prems(1) by (auto simp: one_binding_def)
    moreover have "distinct (map rb_resourceId (rs @ [a]))" using Cons.prems(2) new(2) by simp
    ultimately show ?thesis using Cons.IH new(1) by simp
  qed
qed simp

lemma foldl_jset_include:
  "one_binding (set rs \<union> set as) \<Longrightarrow> distinct (map rb_resourceId rs) \<Longrightarrow>
   jvalues (foldl (\<lambda>m r. jset m (rb_resourceId r) r) (map (\<lambda>r. (rb_resourceId r, r)) rs) as)
   = includeResources rs as"
proof (induction as arbitrary: rs)
  case Nil
  then show ?case by (simp add: comp_def)
next
  case (Cons a as)
  let ?m = "map (\<lambda>r. (rb_resourceId r, r)) rs"
  show ?case
  proof (cases "a \<in> set rs")
    case True
    have "wf_jmap ?m" using Cons.prems(2) by (simp add: wf_jmap_def comp_def)
    from jget_mem [OF this, of "rb_resourceId a" a] True have "jset ?m (rb_resourceId a) a = ?m"
      by (intro jset_same) auto
    moreover have "one_binding (set rs \<union> set as)" using Cons.prems(1) by (auto simp: one_binding_def)
    ultimately show ?thesis
      using Cons includeResources_known [OF Cons.prems(1) True] by simp
  next
    case False
    note new = includeResources_new [OF Cons.prems(1) False]
    have "jget ?m (rb_resourceId a) = None" using new(2) by (auto simp: map_of_eq_None_iff)
    then have "jset ?m (rb_resourceId a) a = map (\<lambda>r. (rb_resourceId r, r)) (rs @ [a])"
      by (simp add: jset_fresh)
    moreover have "one_binding (set (rs @ [a]) \<union> set as)"
      using Cons.prems(1) by (auto simp: one_binding_def)
    moreover have "distinct (map rb_resourceId (rs @ [a]))" using Cons.prems(2) new(2) by simp
    ultimately show ?thesis using Cons.IH [of "rs @ [a]"] new(1) by simp
  qed
qed

lemma mergeResources_include:
  "one_binding (set rs \<union> set as) \<Longrightarrow> distinct (map rb_resourceId rs) \<Longrightarrow>
   mergeResources rs as = includeResources rs as"
  by (simp add: mergeResources_def index_by_distinct foldl_jset_include)

subsection \<open>Coalescing is the projection step\<close>

lemma sameContext_row: "sameContext e (entryFromRow r) = row_context e r"
  by (simp add: sameContext_def row_context_def entryFromRow_def)

lemma entryFromRow_item [simp]: "en_item (entryFromRow r) = ro_item r"
  by (simp add: entryFromRow_def)

lemma merge_row_item:
  assumes "same_kind (en_body e) (ro_body r)"
  shows "is_AssistantMessage (ro_body r) \<or> is_Reasoning (ro_body r) \<Longrightarrow>
      en_item (merge_row e r) = joined_item (en_item e) (ro_item r)"
    and "is_ToolCall (ro_body r) \<or> is_Todo (ro_body r) \<Longrightarrow>
      en_item (merge_row e r) = superseding_item (en_item e) (ro_item r)"
    and "is_Compaction (ro_body r) \<Longrightarrow>
      en_item (merge_row e r) = spread_item (en_item e) (ro_item r)"
proof -
  show "is_AssistantMessage (ro_body r) \<or> is_Reasoning (ro_body r) \<Longrightarrow>
      en_item (merge_row e r) = joined_item (en_item e) (ro_item r)"
    using assms
    by (cases "it_background (ro_item r)"; cases "ro_body r")
      (simp_all add: merge_row_def Let_def joined_item_def same_kind_def)
  show "is_ToolCall (ro_body r) \<or> is_Todo (ro_body r) \<Longrightarrow>
      en_item (merge_row e r) = superseding_item (en_item e) (ro_item r)"
    by (cases "ro_body r") (simp_all add: merge_row_def Let_def superseding_item_def)
  show "is_Compaction (ro_body r) \<Longrightarrow>
      en_item (merge_row e r) = spread_item (en_item e) (ro_item r)"
    using assms
    by (cases "it_background (ro_item r)"; cases "ro_body r")
      (simp_all add: merge_row_def Let_def spread_item_def same_kind_def)
qed

lemma merge_row_collapsed:
  assumes "same_kind (en_body e) (ro_body r)"
  shows "en_collapsed (merge_row e r) =
    (if is_AssistantMessage (ro_body r) then includeCollapse (en_collapsed e) AssistantMerge
     else if is_Reasoning (ro_body r) then includeCollapse (en_collapsed e) ReasoningMerge
     else if is_ToolCall (ro_body r) then includeCollapse (en_collapsed e) ToolLifecycle
     else en_collapsed e)"
  using assms
  by (cases "it_background (ro_item r)"; cases "ro_body r")
    (simp_all add: merge_row_def Let_def same_kind_def)

definition row_collapse :: "item_body \<Rightarrow> timeline_collapse option" where
  "row_collapse b = (if is_AssistantMessage b then Some AssistantMerge
     else if is_Reasoning b then Some ReasoningMerge
     else if is_ToolCall b then Some ToolLifecycle else None)"

lemma extend_merge:
  assumes ok: "ok_entry e" and lt: "en_seqEnd e < ro_seq r"
    and res: "mergeResources (en_resources e) (ro_resources r) = includeResources (en_resources e) (ro_resources r)"
    and kind: "same_kind (en_body e) (ro_body r)"
    and item: "it = en_item (merge_row e r)" and coll: "c = row_collapse (ro_body r)"
  shows "extendEntry (e\<lparr>en_item := it\<rparr>) (entryFromRow r) c = merge_row e r"
proof -
  have ranges: "mergeRanges (en_ranges e @ [(ro_seq r, ro_seq r)]) = includeSequence (en_ranges e) (ro_seq r)"
    using ok lt by (intro mergeRanges_snoc) (auto simp: ok_entry_def)
  have row: "en_ranges (entryFromRow r) = [(ro_seq r, ro_seq r)]" "en_resources (entryFromRow r) = ro_resources r"
    by (simp_all add: entryFromRow_def)
  show ?thesis
  proof (rule entry.equality)
    show "en_collapsed (extendEntry (e\<lparr>en_item := it\<rparr>) (entryFromRow r) c) = en_collapsed (merge_row e r)"
      by (simp add: extendEntry_def merge_row_collapsed [OF kind] coll row_collapse_def includeCollapse_def)
  qed (use lt in \<open>simp_all add: extendEntry_def ranges row res item\<close>)
qed

lemma drop_starts_sorted:
  "projection_inv es S \<Longrightarrow> sorted_wrt (<) (map en_seqStart (drop k es))"
  by (metis append_take_drop_id map_append projection_starts sorted_wrt_append)

lemma coalesce_push:
  assumes inv: "projection_inv es S" and new: "\<And>x. x \<in> S \<Longrightarrow> x < ro_seq r"
  shows "sortEntries (drop k es @ [entryFromRow r]) = drop k es @ [entryFromRow r]"
proof (rule sortEntries_id)
  have "en_seqStart e < ro_seq r" if "e \<in> set (drop k es)" for e
    using new projection_invD(3) [OF inv] that by (meson in_set_dropD)
  with drop_starts_sorted [OF inv, of k] show "sorted_wrt (<) (map en_seqStart (drop k es @ [entryFromRow r]))"
    by (simp add: sorted_wrt_append)
qed

lemma coalesce_update:
  assumes "projection_inv es S" and "en_seqStart e = en_seqStart (drop k es ! j)"
  shows "sortEntries ((drop k es)[j := e]) = (drop k es)[j := e]"
proof (rule sortEntries_id)
  have "map en_seqStart ((drop k es)[j := e]) = map en_seqStart (drop k es)"
    using assms(2)
    by (cases "j < length (drop k es)")
      (simp_all only: map_update list_update_same_conv nth_map length_map list_update_beyond not_less)
  with drop_starts_sorted [OF assms(1), of k]
  show "sorted_wrt (<) (map en_seqStart ((drop k es)[j := e]))" by simp
qed

text \<open>
  \<open>in_window es k r\<close>: the replica holds the entries from index \<open>k\<close> on, and the row does not belong
  to an entry before them.
\<close>

definition in_window :: "entry list \<Rightarrow> nat \<Rightarrow> row \<Rightarrow> bool" where
  "in_window es k r \<longleftrightarrow> (\<forall>i. findProjection es r = Some i \<longrightarrow> k \<le> i)"

lemma at_last_drop:
  "at_last (drop k xs) = (if k < length xs then at_last xs else None)"
  by (simp add: at_last_def)

lemma find_last_index_drop':
  assumes "\<And>i. find_last_index P xs = Some i \<Longrightarrow> k \<le> i"
  shows "find_last_index P (drop k xs) = map_option (\<lambda>i. i - k) (find_last_index P xs)"
  using assms by (simp add: find_last_index_drop split: option.split)

lemma findProjection_drop:
  assumes "k < length es" and "in_window es k r"
  shows "findProjection (drop k es) r = map_option (\<lambda>i. i - k) (findProjection es r)"
proof (cases "ro_body r")
  case (AssistantMessage t m)
  with assms(1) show ?thesis by (simp add: findProjection_def at_last_drop split: option.split)
next
  case (Reasoning t)
  with assms(1) show ?thesis by (simp add: findProjection_def at_last_drop split: option.split)
next
  case (ToolCall c n d res st)
  have fp: "findProjection xs r = find_index (tool_entry (ro_providerId r) (tc_callId (ro_body r))) xs" for xs
    using ToolCall by (intro findProjection_tool) simp
  show ?thesis
    unfolding fp by (rule find_index_drop) (use assms(2) in \<open>simp add: in_window_def fp\<close>)
next
  case (Compaction st t p)
  let ?P = "\<lambda>e. is_Compaction (en_body e) \<and> row_context e r"
  show ?thesis
  proof (cases "find_last_index ?P es")
    case None
    then have "find_last_index ?P (drop k es) = None" by (simp add: find_last_index_drop)
    with None Compaction show ?thesis by (simp add: findProjection_def)
  next
    case (Some i)
    then have "i < length es" by (simp add: find_last_index_Some)
    with Some Compaction assms(2) show ?thesis
      by (cases "k \<le> i"; cases st)
        (simp_all add: findProjection_def find_last_index_drop in_window_def split: if_splits)
  qed
next
  case (Todo ts)
  have fp: "findProjection xs r = find_last_index (\<lambda>e. is_Todo (en_body e) \<and> row_context e r) xs" for xs
    using Todo by (simp add: findProjection_def)
  show ?thesis
    unfolding fp by (rule find_last_index_drop') (use assms(2) in \<open>simp add: in_window_def fp\<close>)
qed (simp_all add: findProjection_def)

lemma findProjection_drop_all:
  "in_window es (length es) r \<Longrightarrow> findProjection es r = None"
  using findProjection_bound [of es r] by (cases "findProjection es r") (auto simp: in_window_def)

text \<open>The replica's coalescing, written with the relay's search.\<close>

lemma coalesceEntry_row:
  "coalesceEntry es (entryFromRow r) =
     (case findProjection es r of
        None \<Rightarrow> sortEntries (es @ [entryFromRow r])
      | Some i \<Rightarrow>
          (let e = es ! i;
               it = (if is_AssistantMessage (ro_body r) \<or> is_Reasoning (ro_body r)
                     then joined_item (en_item e) (ro_item r)
                     else if is_Compaction (ro_body r) then spread_item (en_item e) (ro_item r)
                     else superseding_item (en_item e) (ro_item r));
               es' = es[i := extendEntry (e\<lparr>en_item := it\<rparr>) (entryFromRow r) (row_collapse (ro_body r))]
           in if is_AssistantMessage (ro_body r) \<or> is_Reasoning (ro_body r) then es' else sortEntries es'))"
proof -
  have prov: "en_providerId (entryFromRow r) = ro_providerId r" by (simp add: entryFromRow_def)
  have snoc: "butlast es @ [x] = es[length es - 1 := x]" if "es \<noteq> []" for x
    using that by (metis append_butlast_last_id length_butlast list_update_length)
  show ?thesis
    by (cases "ro_body r")
      (auto simp: coalesceEntry_def findProjection_def Let_def sameContext_row prov row_collapse_def
        at_last_def snoc last_conv_nth split: option.splits)
qed

lemma coalesce_project:
  assumes inv: "projection_inv es S" and new: "\<And>x. x \<in> S \<Longrightarrow> x < ro_seq r"
    and res: "\<And>e. e \<in> set (drop k es) \<Longrightarrow> mergeResources (en_resources e) (ro_resources r)
                     = includeResources (en_resources e) (ro_resources r)"
  shows "coalesceEntry (drop k es) (entryFromRow r) = project_step (drop k es) r"
proof (cases "findProjection (drop k es) r")
  case None
  with coalesce_push [OF inv new, of k] show ?thesis
    by (simp add: coalesceEntry_row project_step_def)
next
  case (Some j)
  have j: "j < length (drop k es)" using Some by (rule findProjection_bound)
  let ?e = "drop k es ! j"
  have e_mem: "?e \<in> set (drop k es)" using j by (rule nth_mem)
  then have e_in: "?e \<in> set es" by (rule in_set_dropD)
  have ok: "ok_entry ?e" by (rule projection_invD(1) [OF inv e_in])
  have lt: "en_seqEnd ?e < ro_seq r" using projection_invD(4) [OF inv e_in] by (rule new)
  note kind = findProjection_kind [OF Some]
  have item: "(if is_AssistantMessage (ro_body r) \<or> is_Reasoning (ro_body r)
                     then joined_item (en_item ?e) (ro_item r)
                     else if is_Compaction (ro_body r) then spread_item (en_item ?e) (ro_item r)
                     else superseding_item (en_item ?e) (ro_item r)) = en_item (merge_row ?e r)"
    using kind merge_row_item [of ?e r] by auto
  have upd: "sortEntries ((drop k es)[j := merge_row ?e r]) = (drop k es)[j := merge_row ?e r]"
    by (rule coalesce_update [OF inv]) simp
  show ?thesis
    using Some upd extend_merge [OF ok lt res [OF e_mem] _ refl refl] kind
    by (simp only: coalesceEntry_row project_step_def option.case Let_def item if_cancel)
qed

text \<open>One row: what the replica does to its window is what the relay does to the projection.\<close>

lemma coalesce_step:
  assumes inv: "projection_inv es S" and new: "\<And>x. x \<in> S \<Longrightarrow> x < ro_seq r"
    and res: "\<And>e. e \<in> set es \<Longrightarrow> mergeResources (en_resources e) (ro_resources r)
                     = includeResources (en_resources e) (ro_resources r)"
    and win: "in_window es k r" and k: "k \<le> length es"
  shows "coalesceEntry (drop k es) (entryFromRow r) = drop k (project_step es r)"
proof -
  have "coalesceEntry (drop k es) (entryFromRow r) = project_step (drop k es) r"
    by (rule coalesce_project [OF inv new]) (auto intro: res dest: in_set_dropD)
  also have "\<dots> = drop k (project_step es r)"
  proof (cases "k < length es")
    case True
    have "findProjection es r = Some i \<Longrightarrow> k \<le> i" for i using win by (simp add: in_window_def)
    then show ?thesis
      using True findProjection_drop [OF True win] findProjection_bound [of es r]
      by (auto simp: project_step_def drop_update_swap split: option.split)
  next
    case False
    with k have k_all: "k = length es" by simp
    with win have "findProjection es r = None" by (auto intro: findProjection_drop_all)
    moreover have "findProjection [] r = None" by (simp add: findProjection_def)
    ultimately show ?thesis unfolding k_all by (simp add: project_step_def)
  qed
  finally show ?thesis .
qed

lemma project_step_resources:
  assumes "e \<in> set (project_step es r)"
  obtains "e \<in> set es" | "en_resources e = ro_resources r"
  | e' where "e' \<in> set es" "en_resources e = includeResources (en_resources e') (ro_resources r)"
proof (cases "findProjection es r")
  case None
  with assms that show thesis by (auto simp: project_step_def entryFromRow_def)
next
  case (Some i)
  with findProjection_bound [OF Some] have "es ! i \<in> set es" by simp
  moreover from Some assms have "e = merge_row (es ! i) r \<or> e \<in> set es"
    by (auto simp: project_step_def dest: subsetD [OF set_update_subset_insert])
  ultimately show thesis using that by auto
qed

lemma row_bindings_snoc: "row_bindings (rows @ [r]) = row_bindings rows \<union> set (ro_resources r)"
  by (auto simp: row_bindings_def)

lemma one_binding_mono: "one_binding B \<Longrightarrow> A \<subseteq> B \<Longrightarrow> one_binding A"
  unfolding one_binding_def by blast

lemma bindings_ok_butlast: "bindings_ok (rows @ [r]) \<Longrightarrow> bindings_ok rows"
  by (auto simp: bindings_ok_def row_bindings_snoc intro: one_binding_mono)

lemma bindings_ok_append: "bindings_ok (xs @ ys) \<Longrightarrow> bindings_ok xs"
  by (induction ys rule: rev_induct) (auto simp flip: append_assoc dest: bindings_ok_butlast)

lemma entry_bindings:
  "bindings_ok rows \<Longrightarrow> e \<in> set (projectTimelineRows rows) \<Longrightarrow>
   set (en_resources e) \<subseteq> row_bindings rows \<and> distinct (map rb_resourceId (en_resources e))"
proof (induction rows arbitrary: e rule: rev_induct)
  case (snoc r rows)
  note ok = bindings_ok_butlast [OF snoc.prems(1)]
  have r_ok: "distinct (map rb_resourceId (ro_resources r))"
    and one: "one_binding (row_bindings rows \<union> set (ro_resources r))"
    using snoc.prems(1) by (simp_all add: bindings_ok_def row_bindings_snoc)
  from snoc.prems(2) have "e \<in> set (project_step (projectTimelineRows rows) r)"
    by (simp add: project_rows_snoc)
  then show ?case
  proof (cases rule: project_step_resources)
    case 1
    from snoc.IH [OF ok this] show ?thesis by (auto simp: row_bindings_snoc)
  next
    case 2
    with r_ok show ?thesis by (simp add: row_bindings_snoc)
  next
    case (3 e')
    from snoc.IH [OF ok 3(1)] have e': "set (en_resources e') \<subseteq> row_bindings rows"
      "distinct (map rb_resourceId (en_resources e'))" by simp_all
    have "one_binding (set (en_resources e') \<union> set (ro_resources r))"
      by (rule one_binding_mono [OF one]) (use e'(1) in auto)
    from includeResources_distinct [OF this e'(2)] includeResources_set [of "en_resources e'" "ro_resources r"]
      e'(1) 3(2) show ?thesis by (auto simp: row_bindings_snoc)
  qed
qed simp

lemma entry_merge_resources:
  assumes "bindings_ok (rows @ [r])" and "e \<in> set (projectTimelineRows rows)"
  shows "mergeResources (en_resources e) (ro_resources r) = includeResources (en_resources e) (ro_resources r)"
proof (rule mergeResources_include)
  from assms(1) have one: "one_binding (row_bindings rows \<union> set (ro_resources r))"
    by (simp add: bindings_ok_def row_bindings_snoc)
  from entry_bindings [OF bindings_ok_butlast [OF assms(1)] assms(2)]
  show "distinct (map rb_resourceId (en_resources e))" by simp
  from entry_bindings [OF bindings_ok_butlast [OF assms(1)] assms(2)]
  show "one_binding (set (en_resources e) \<union> set (ro_resources r))"
    by (intro one_binding_mono [OF one]) auto
qed

subsection \<open>Live messages\<close>

text \<open>
  A live message carries a row: its fields, and an item that becomes the row's once the outcomes
  the replica has retained are applied to it (the relay sends the item as the provider reported it).
\<close>

definition carries :: "(string, background) jmap \<Rightarrow> timeline_message \<Rightarrow> row \<Rightarrow> bool" where
  "carries outcomes m r \<longleftrightarrow>
     tm_providerId m = ro_providerId r \<and> apply_outcome outcomes (tm_item m) = ro_item r
     \<and> tm_turnId m = ro_turnId r \<and> tm_timestamp m = ro_timestamp r \<and> tm_seq m = ro_seq r
     \<and> tm_resources m = ro_resources r \<and> tm_epoch m = ro_epoch r"

lemma carries_entry:
  "carries outcomes m r \<Longrightarrow> apply_entry_background outcomes (liveEntry m) = entryFromRow r"
  by (simp add: carries_def apply_entry_background_def liveEntry_def entryFromRow_def)

text \<open>The replica's timeline shows the projection of the rows from entry \<open>k\<close> on and is at their end.\<close>

definition follows :: "nat \<Rightarrow> string \<Rightarrow> row list \<Rightarrow> timeline_replica \<Rightarrow> bool" where
  "follows k epoch rows tr \<longleftrightarrow>
     tl_initialized tr \<and> tl_epoch tr = Some epoch
     \<and> k \<le> length (projectTimelineRows rows)
     \<and> tl_entries tr = drop k (projectTimelineRows rows)
     \<and> tl_nextSeq tr = last_seq rows + 1"

text \<open>The rows after \<open>rows\<close> that the replica can take from where it is.\<close>

definition next_row_ok :: "nat \<Rightarrow> string \<Rightarrow> row list \<Rightarrow> row \<Rightarrow> bool" where
  "next_row_ok k epoch rows r \<longleftrightarrow>
     consecutive rows \<and> ro_seq r = last_seq rows + 1 \<and> bindings_ok (rows @ [r]) \<and> ro_epoch r = epoch
     \<and> in_window (projectTimelineRows rows) k r"

lemma append_live_follows:
  assumes f: "follows k epoch rows tr" and r: "next_row_ok k epoch rows r"
    and c: "carries (tl_background tr) m r"
  shows "follows k epoch (rows @ [r]) (append_live tr m)"
proof -
  let ?es = "projectTimelineRows rows"
  from r have con: "consecutive (rows @ [r])" and bind: "bindings_ok (rows @ [r])"
    and win: "in_window ?es k r" by (simp_all add: next_row_ok_def consecutive_snoc)
  from consecutive_ascending [OF con] have asc: "ascending rows" "\<And>x. x \<in> set rows \<Longrightarrow> ro_seq x < ro_seq r"
    by (simp_all add: ascending_snoc)
  have k: "k \<le> length ?es" using f by (simp add: follows_def)
  have "coalesceEntry (drop k ?es) (entryFromRow r) = drop k (project_step ?es r)"
    by (rule coalesce_step [OF project_rows_inv [OF asc(1)]])
      (use asc(2) entry_merge_resources [OF bind] win k in auto)
  moreover have "length ?es \<le> length (project_step ?es r)"
    by (simp add: project_step_def split: option.split)
  ultimately show ?thesis
    using f c k carries_entry [OF c]
    by (simp add: follows_def append_live_def project_rows_snoc carries_def)
qed

lemma append_live_background [simp]:
  "tl_background (append_live tr m) = tl_background tr" "tl_epoch (append_live tr m) = tl_epoch tr"
  "tl_initialized (append_live tr m) = tl_initialized tr"
  by (simp_all add: append_live_def)

lemma reduce_live_follows:
  assumes "follows k epoch rows (rp_timeline s)" and "next_row_ok k epoch rows r"
    and "carries (tl_background (rp_timeline s)) m r" and "epoch \<notin> set (rp_retiredEpochs s)"
  shows "reduceTimelineEvent s (TimelineStream m) = Applied (appendLive s m)"
    and "follows k epoch (rows @ [r]) (rp_timeline (appendLive s m))"
proof -
  from assms show "reduceTimelineEvent s (TimelineStream m) = Applied (appendLive s m)"
    by (simp add: reduce_timeline_message_def Let_def follows_def next_row_ok_def carries_def)
  from append_live_follows [OF assms(1-3)] show "follows k epoch (rows @ [r]) (rp_timeline (appendLive s m))"
    by (simp add: appendLive_def)
qed

text \<open>
  A run of live messages. The abstract machine is the relay: it appends rows. The concrete one is
  the replica reducing the messages that carry them; the inputs pair a row with its message. What the
  replica retains of background outcomes and retired epochs does not change on the way.
\<close>

definition live_rel ::
  "nat \<Rightarrow> string \<Rightarrow> (string, background) jmap \<Rightarrow> row list \<Rightarrow> replica_state \<Rightarrow> bool" where
  "live_rel k epoch outcomes rows s \<longleftrightarrow>
     follows k epoch rows (rp_timeline s) \<and> tl_background (rp_timeline s) = outcomes
     \<and> epoch \<notin> set (rp_retiredEpochs s)"

definition live_ok ::
  "nat \<Rightarrow> string \<Rightarrow> (string, background) jmap \<Rightarrow> row list \<Rightarrow> row \<times> timeline_message \<Rightarrow> bool" where
  "live_ok k epoch outcomes rows rm \<longleftrightarrow>
     next_row_ok k epoch rows (fst rm) \<and> carries outcomes (snd rm) (fst rm)"

definition add_row :: "row list \<Rightarrow> row \<times> timeline_message \<Rightarrow> row list" where
  "add_row rows rm = rows @ [fst rm]"

definition receive :: "replica_state \<Rightarrow> row \<times> timeline_message \<Rightarrow> replica_state" where
  "receive s rm = red_state (reduceTimelineEvent s (TimelineStream (snd rm)))"

interpretation live: simulation "live_rel k epoch outcomes" "live_ok k epoch outcomes" add_row receive
  for k epoch outcomes
proof
  fix rows s rm
  assume "live_rel k epoch outcomes rows s" "live_ok k epoch outcomes rows rm"
  then show "live_rel k epoch outcomes (add_row rows rm) (receive s rm)"
    using reduce_live_follows [of k epoch rows s "fst rm" "snd rm"]
    by (simp add: live_rel_def live_ok_def add_row_def receive_def appendLive_def)
qed

lemma foldl_add_row [simp]: "foldl add_row rows rms = rows @ map fst rms"
  by (induction rms arbitrary: rows) (simp_all add: add_row_def)

lemma foldl_receive:
  "foldl receive s (zip rows ms) =
     foldl (\<lambda>s m. red_state (reduceTimelineEvent s (TimelineStream m))) s ms"
  if "length rows = length ms"
  using that by (induction rows ms arbitrary: s rule: list_induct2) (simp_all add: receive_def)

lemma in_window_0 [simp]: "in_window es 0 r"
  by (simp add: in_window_def)

lemma consecutive_split:
  assumes "consecutive (xs @ r # ys)" and "xs \<noteq> []"
  shows "consecutive xs \<and> ro_seq r = last_seq xs + 1"
proof -
  let ?a = "first_seq xs"
  have fs: "first_seq (xs @ r # ys) = ?a" using assms(2) by (cases xs) simp_all
  have eq: "map ro_seq xs @ ro_seq r # map ro_seq ys = [?a..last_seq (xs @ r # ys)]"
    using assms(1) fs by (simp add: consecutive_def)
  have nth: "(map ro_seq xs @ ro_seq r # map ro_seq ys) ! i = ?a + int i" if "i \<le> length xs" for i
    unfolding eq using that arg_cong [OF eq, of length] by (intro nth_upto) simp
  have xs_nth: "ro_seq (xs ! i) = ?a + int i" if "i < length xs" for i
    using nth [of i] that by (simp add: nth_append)
  have last: "last_seq xs = ?a + int (length xs) - 1"
    using xs_nth [of "length xs - 1"] assms(2)
    by (cases xs rule: rev_cases) (simp_all add: nth_append)
  have "map ro_seq xs = [?a..last_seq xs]"
    by (rule nth_equalityI) (use assms(2) in \<open>auto simp: last xs_nth\<close>)
  with nth [of "length xs"] last show ?thesis by (simp add: consecutive_def nth_append)
qed

lemma live_run_ok:
  assumes "rows \<noteq> []" and "consecutive (rows @ map fst rms)" and "bindings_ok (rows @ map fst rms)"
    and "\<forall>rm \<in> set rms. ro_epoch (fst rm) = epoch \<and> carries outcomes (snd rm) (fst rm)"
    and "\<forall>i < length rms. in_window (projectTimelineRows (rows @ take i (map fst rms))) k (fst (rms ! i))"
  shows "run_ok (live_ok k epoch outcomes) add_row rows rms"
  using assms
proof (induction rms arbitrary: rows)
  case (Cons rm rms)
  have "bindings_ok ((rows @ [fst rm]) @ map fst rms)" using Cons.prems(3) by simp
  then have "bindings_ok (rows @ [fst rm])" by (rule bindings_ok_append)
  moreover have "in_window (projectTimelineRows rows) k (fst rm)"
    using Cons.prems(5) by fastforce
  ultimately have "live_ok k epoch outcomes rows rm"
    using Cons.prems consecutive_split [of rows "fst rm" "map fst rms"]
    by (simp add: live_ok_def next_row_ok_def)
  moreover have "\<forall>i < length rms.
      in_window (projectTimelineRows ((rows @ [fst rm]) @ take i (map fst rms))) k (fst (rms ! i))"
  proof (intro allI impI)
    fix i assume "i < length rms"
    with Cons.prems(5) have "in_window (projectTimelineRows (rows @ take (Suc i) (map fst (rm # rms)))) k
        (fst ((rm # rms) ! Suc i))" by (metis Suc_less_eq length_Cons)
    then show "in_window (projectTimelineRows ((rows @ [fst rm]) @ take i (map fst rms))) k (fst (rms ! i))"
      by simp
  qed
  then have "run_ok (live_ok k epoch outcomes) add_row (rows @ [fst rm]) rms"
    using Cons.prems by (intro Cons.IH) auto
  ultimately show ?case by (simp add: add_row_def [of rows rm])
qed simp

subsection \<open>Catching up with a page\<close>

text \<open>
  What later rows do to the projection: an entry is either untouched or now ends in a later row,
  and the entries added start in a later row.
\<close>

definition evolved :: "entry list \<Rightarrow> entry list \<Rightarrow> int set \<Rightarrow> bool" where
  "evolved old new later \<longleftrightarrow>
     length old \<le> length new
     \<and> (\<forall>i < length old. new ! i = old ! i
          \<or> (en_seqEnd (new ! i) \<in> later \<and> entry_seqs (old ! i) \<subseteq> entry_seqs (new ! i)))
     \<and> (\<forall>i. length old \<le> i \<longrightarrow> i < length new \<longrightarrow> en_seqStart (new ! i) \<in> later)"

lemma evolved_step:
  assumes ev: "evolved old new later" and inv: "projection_inv new S" and lt: "\<And>x. x \<in> S \<Longrightarrow> x < ro_seq r"
  shows "evolved old (project_step new r) (insert (ro_seq r) later)"
proof (cases "findProjection new r")
  case None
  with ev show ?thesis
    by (auto simp: evolved_def project_step_def nth_append)
next
  case (Some j)
  then have j: "j < length new" by (rule findProjection_bound)
  then have mem: "new ! j \<in> set new" by simp
  have "en_seqEnd (new ! j) < ro_seq r" using projection_invD(4) [OF inv mem] by (rule lt)
  from merge_row_ok(2) [OF projection_invD(1) [OF inv mem] this]
  have "entry_seqs (new ! j) \<subseteq> entry_seqs (merge_row (new ! j) r)" by auto
  with ev j Some show ?thesis
    unfolding evolved_def project_step_def
    by (auto simp: nth_list_update) (metis subset_iff)+
qed

lemma evolved_rows:
  "ascending (xs @ ys) \<Longrightarrow>
   evolved (projectTimelineRows xs) (projectTimelineRows (xs @ ys)) (ro_seq ` set ys)"
proof (induction ys rule: rev_induct)
  case Nil
  then show ?case by (simp add: evolved_def)
next
  case (snoc r ys)
  have asc: "ascending (xs @ ys)" and lt: "\<And>x. x \<in> ro_seq ` set (xs @ ys) \<Longrightarrow> x < ro_seq r"
    using snoc.prems ascending_snoc [of "xs @ ys" r] by auto
  from evolved_step [OF snoc.IH [OF asc] project_rows_inv [OF asc] lt] show ?case
    by (simp add: project_rows_snoc flip: append_assoc)
qed

lemma rangesOverlap_iff:
  "normal_ranges l \<Longrightarrow> normal_ranges r \<Longrightarrow>
   rangesOverlap l r \<longleftrightarrow> range_seqs l \<inter> range_seqs r \<noteq> {}"
proof -
  assume l: "normal_ranges l" and r: "normal_ranges r"
  have le: "fst x \<le> snd x" if "normal_ranges rs" "x \<in> set rs" for rs :: "seq_range list" and x
    using that by (induction rs rule: normal_ranges.induct) auto
  show ?thesis
  proof
    assume "rangesOverlap l r"
    then obtain a b where ab: "a \<in> set l" "b \<in> set r" "fst a \<le> snd b" "fst b \<le> snd a"
      by (auto simp: rangesOverlap_def list_ex_iff)
    let ?x = "max (fst a) (fst b)"
    have "?x \<in> {fst a..snd a}" "?x \<in> {fst b..snd b}"
      using ab le [OF l ab(1)] le [OF r ab(2)] by auto
    with ab(1,2) have "?x \<in> range_seqs l" "?x \<in> range_seqs r"
      unfolding range_seqs_def case_prod_beta by blast+
    then show "range_seqs l \<inter> range_seqs r \<noteq> {}" by blast
  next
    assume "range_seqs l \<inter> range_seqs r \<noteq> {}"
    then show "rangesOverlap l r"
      by (fastforce simp: range_seqs_def rangesOverlap_def list_ex_iff)
  qed
qed

lemma filter_list_all2:
  "list_all2 (\<lambda>a b. P a = Q b \<and> (Q b \<longrightarrow> a = b)) xs ys \<Longrightarrow> filter P xs = filter Q ys"
  by (induction rule: list_all2_induct) auto

lemma sortEntries_partition:
  assumes "sorted_wrt (<) (map en_seqStart es)"
  shows "sortEntries (filter P es @ filter (\<lambda>e. \<not> P e) es) = es"
  unfolding sortEntries_def
proof (rule sort_key_inj_key_eq)
  show "mset (filter P es @ filter (\<lambda>e. \<not> P e) es) = mset es" by simp
  have "inj_on en_seqStart (set es)"
    using assms by (metis distinct_map strict_sorted_iff)
  then show "inj_on (\<lambda>e. (en_seqStart e, en_seqEnd e)) (set (filter P es @ filter (\<lambda>e. \<not> P e) es))"
    by (auto simp: inj_on_def)
  have "sorted_wrt (\<lambda>x y. en_seqStart x < en_seqStart y) es" using assms by (simp add: sorted_wrt_map)
  then have "sorted_wrt (\<lambda>x y. (en_seqStart x, en_seqEnd x) \<le> (en_seqStart y, en_seqEnd y)) es"
    by (rule sorted_wrt_mono_rel [rotated]) (auto simp: less_eq_prod_def)
  then show "sorted (map (\<lambda>e. (en_seqStart e, en_seqEnd e)) es)"
    by (simp add: sorted_wrt_map)
qed

lemma projection_disjoint:
  "projection_inv es S \<Longrightarrow> i < j \<Longrightarrow> j < length es \<Longrightarrow> entry_seqs (es ! i) \<inter> entry_seqs (es ! j) = {}"
  by (simp add: projection_inv_def)

lemma catch_up:
  assumes asc: "ascending (xs @ ys)" and c: "\<And>y. y \<in> set ys \<Longrightarrow> c < ro_seq y"
  shows "mergeAuthoritative (projectTimelineRows xs)
           (filter (\<lambda>e. en_seqEnd e > c) (projectTimelineRows (xs @ ys)))
         = projectTimelineRows (xs @ ys)"
proof -
  let ?old = "projectTimelineRows xs" and ?new = "projectTimelineRows (xs @ ys)"
  let ?late = "\<lambda>e. en_seqEnd e > c"
  let ?hit = "\<lambda>e. list_ex (\<lambda>d. rangesOverlap (en_ranges e) (en_ranges d)) (filter ?late ?new)"
  have asc_x: "ascending xs" using asc by (simp add: ascending_append)
  note inv = project_rows_inv [OF asc] and inv_x = project_rows_inv [OF asc_x]
  have ev: "evolved ?old ?new (ro_seq ` set ys)" by (rule evolved_rows [OF asc])
  have disj: "entry_seqs (?new ! i) \<inter> entry_seqs (?new ! j) = {}" if "i \<noteq> j" "i < length ?new" "j < length ?new" for i j
    using projection_disjoint [OF inv, of i j] projection_disjoint [OF inv, of j i] that by fastforce
  have cell: "(\<not> ?hit (?old ! i)) = (\<not> ?late (?new ! i)) \<and> (\<not> ?late (?new ! i) \<longrightarrow> ?old ! i = ?new ! i)"
    if i: "i < length ?old" for i
  proof -
    have in_new: "i < length ?new" using ev i by (simp add: evolved_def)
    have same: "?new ! i = ?old ! i \<or> (?late (?new ! i) \<and> entry_seqs (?old ! i) \<subseteq> entry_seqs (?new ! i))"
      using ev i c by (auto simp: evolved_def)
    have ok: "ok_entry (?old ! i)" by (rule projection_invD(1) [OF inv_x]) (use i in simp)
    have okj: "ok_entry (?new ! j)" if "j < length ?new" for j
      by (rule projection_invD(1) [OF inv]) (use that in simp)
    have overlap: "rangesOverlap (en_ranges (?old ! i)) (en_ranges (?new ! j)) \<longleftrightarrow> j = i"
      if j: "j < length ?new" for j
    proof -
      have "rangesOverlap (en_ranges (?old ! i)) (en_ranges (?new ! j))
          \<longleftrightarrow> entry_seqs (?old ! i) \<inter> entry_seqs (?new ! j) \<noteq> {}"
        using ok okj [OF j] by (simp add: rangesOverlap_iff ok_entry_def entry_seqs_def)
      moreover have "entry_seqs (?old ! i) \<subseteq> entry_seqs (?new ! i)" using same by auto
      moreover have "entry_seqs (?old ! i) \<noteq> {}" using ok_entry_seqs(1) [OF ok] by blast
      ultimately show ?thesis using disj [OF _ j in_new] by blast
    qed
    have "?hit (?old ! i) \<longleftrightarrow> ?late (?new ! i)"
    proof
      assume "?hit (?old ! i)"
      then obtain j where "j < length ?new" "?late (?new ! j)"
        "rangesOverlap (en_ranges (?old ! i)) (en_ranges (?new ! j))"
        by (auto simp: list_ex_iff in_set_conv_nth)
      with overlap show "?late (?new ! i)" by auto
    next
      assume "?late (?new ! i)"
      with overlap [OF in_new] in_new show "?hit (?old ! i)"
        by (auto simp: list_ex_iff intro!: exI [of _ "?new ! i"])
    qed
    with same show ?thesis by auto
  qed
  have len: "length ?old \<le> length ?new" using ev by (simp add: evolved_def)
  have "filter (\<lambda>e. \<not> ?hit e) ?old = filter (\<lambda>e. \<not> ?late e) (take (length ?old) ?new)"
    by (rule filter_list_all2) (use cell len in \<open>auto simp: list_all2_conv_all_nth\<close>)
  moreover have "filter (\<lambda>e. \<not> ?late e) (drop (length ?old) ?new) = []"
  proof -
    have "?late e" if "e \<in> set (drop (length ?old) ?new)" for e
    proof -
      from that obtain i where i: "i < length ?new - length ?old" "e = ?new ! (length ?old + i)"
        by (auto simp: in_set_conv_nth)
      then have "e \<in> set ?new" using len by (metis add.commute less_diff_conv nth_mem)
      from ok_entry_le [OF projection_invD(1) [OF inv this]] have "en_seqStart e \<le> en_seqEnd e" .
      moreover have "en_seqStart e \<in> ro_seq ` set ys" using ev i unfolding evolved_def by simp
      ultimately show ?thesis using c by fastforce
    qed
    then show ?thesis by (simp add: filter_empty_conv)
  qed
  ultimately have kept: "filter (\<lambda>e. \<not> ?hit e) ?old = filter (\<lambda>e. \<not> ?late e) ?new"
    by (metis append_Nil2 append_take_drop_id filter_append)
  show ?thesis
    using sortEntries_partition [OF projection_starts [OF inv], of "\<lambda>e. \<not> ?late e"]
    by (simp add: mergeAuthoritative_def kept)
qed

subsection \<open>Pages from the relay\<close>

text \<open>A page of \<open>projectTimelinePage\<close> after a cursor that is not past the rows the replica has.\<close>

lemma ascending_filter_split:
  assumes "ascending rows"
  shows "filter (\<lambda>r. ro_seq r \<le> c) rows @ filter (\<lambda>r. ro_seq r > c) rows = rows"
  using assms
proof (induction rows)
  case (Cons r rows)
  then have asc: "ascending rows" and lt: "\<forall>x \<in> set rows. ro_seq r < ro_seq x"
    by (auto simp: ascending_def)
  show ?case
  proof (cases "ro_seq r \<le> c")
    case False
    with lt have "filter (\<lambda>r. ro_seq r \<le> c) rows = []" "filter (\<lambda>r. ro_seq r > c) rows = rows"
      by (auto simp: filter_empty_conv filter_id_conv)
    with False show ?thesis by simp
  qed (use Cons.IH [OF asc] in simp)
qed simp

lemma filter_upto_prefix:
  assumes "ascending (xs @ r # ys)"
  shows "filter (\<lambda>x. ro_seq x \<le> ro_seq r) (xs @ r # ys) = xs @ [r]"
proof -
  have "\<forall>x \<in> set xs. ro_seq x \<le> ro_seq r" "\<forall>y \<in> set ys. \<not> ro_seq y \<le> ro_seq r"
    using assms by (fastforce simp: ascending_def sorted_wrt_append sorted_wrt_map)+
  then show ?thesis by (simp add: filter_id_conv filter_empty_conv)
qed

text \<open>
  \<open>after_entries\<close> is what the relay selects: with \<open>done\<close> the rows up to the cursor and \<open>win\<close> the
  next rows up to the limit, the page holds the entries of the projection of both that end after the
  cursor.
\<close>

lemma after_entries_split:
  assumes asc: "ascending rows" and n: "1 \<le> n"
    and old: "old = filter (\<lambda>r. ro_seq r \<le> c) rows" and later: "filter (\<lambda>r. ro_seq r > c) rows \<noteq> []"
    and win: "win = take n (filter (\<lambda>r. ro_seq r > c) rows)"
  shows "win \<noteq> []"
    and "after_entries rows c n =
      (filter (\<lambda>e. en_seqEnd e > c) (projectTimelineRows (old @ win)),
       Some (ro_seq (hd win), ro_seq (last win)))"
    and "\<exists>rest. rows = old @ win @ rest"
proof -
  let ?later = "filter (\<lambda>r. ro_seq r > c) rows"
  show ne: "win \<noteq> []" using later n by (simp add: win)
  have rows: "rows = old @ win @ drop n ?later"
    using ascending_filter_split [OF asc, of c] by (simp add: old win)
  then show "\<exists>rest. rows = old @ win @ rest" by blast
  have win_split: "win = butlast win @ [last win]" using ne by simp
  have "rows = (old @ butlast win) @ last win # drop n ?later"
    by (subst rows, subst win_split) simp
  from filter_upto_prefix [of "old @ butlast win" "last win" "drop n ?later"] this asc
  have upto: "filter (\<lambda>r. ro_seq r \<le> ro_seq (last win)) rows = old @ win"
    using win_split by (metis append.assoc)
  have first: "at_first win = Some (hd win)" "at_last win = Some (last win)"
    using ne by (cases win; simp add: at_last_def)+
  show "after_entries rows c n =
      (filter (\<lambda>e. en_seqEnd e > c) (projectTimelineRows (old @ win)),
       Some (ro_seq (hd win), ro_seq (last win)))"
    using upto first by (simp add: after_entries_def win [symmetric] Let_def)
qed

lemma longer_prefix:
  assumes "ascending rows" and "rows = ws @ r1" and "rows = xs @ r2" and "ws \<noteq> []"
    and "ro_seq (last xs) \<le> ro_seq (last ws)"
  obtains us where "ws = xs @ us"
proof -
  from assms(2,3) have "ws @ r1 = xs @ r2" by simp
  then consider us where "ws = xs @ us" | us where "ws @ us = xs"
    unfolding append_eq_append_conv2 by blast
  then show thesis
  proof cases
    case (2 us)
    have "us = []"
    proof (rule ccontr)
      assume us: "us \<noteq> []"
      have "ascending (ws @ us)" using assms(1,3) 2 by (simp add: ascending_append)
      with us assms(4) have "ro_seq (last ws) < ro_seq (last us)" by (simp add: ascending_append)
      moreover have "last xs = last us" using 2 us by (metis last_appendR)
      ultimately show False using assms(5) by simp
    qed
    with 2 that [of "[]"] show thesis by simp
  qed (rule that)
qed

lemma after_page_merge:
  assumes asc: "ascending rows" and n: "1 \<le> n" and later: "filter (\<lambda>r. ro_seq r > c) rows \<noteq> []"
    and have_rows: "rows = xs @ rest" and c: "c \<le> last_seq xs" and ne: "xs \<noteq> []"
    and reach: "last_seq xs \<le> ro_seq (last (take n (filter (\<lambda>r. ro_seq r > c) rows)))"
  shows "mergeAuthoritative (projectTimelineRows xs) (fst (after_entries rows c n)) =
    projectTimelineRows (filter (\<lambda>r. ro_seq r \<le> c) rows @ take n (filter (\<lambda>r. ro_seq r > c) rows))"
proof -
  let ?old = "filter (\<lambda>r. ro_seq r \<le> c) rows"
  let ?win = "take n (filter (\<lambda>r. ro_seq r > c) rows)"
  note split = after_entries_split [OF asc n refl later refl]
  obtain tail where tail: "rows = (?old @ ?win) @ tail" using split(3) by auto
  have xs_last: "last_seq xs = ro_seq (last xs)" by (rule last_seq_last [OF ne])
  have "last (?old @ ?win) = last ?win" using split(1) by simp
  with reach xs_last have "ro_seq (last xs) \<le> ro_seq (last (?old @ ?win))" by metis
  from longer_prefix [OF asc tail have_rows _ this] split(1) obtain ys where ys: "?old @ ?win = xs @ ys"
    by blast
  have asc_w: "ascending (xs @ ys)" using asc tail ys by (metis ascending_append)
  have "c < ro_seq y" if "y \<in> set ys" for y
  proof -
    from asc_w that ne have "ro_seq (last xs) < ro_seq y" by (simp add: ascending_append)
    with c xs_last show ?thesis by simp
  qed
  from catch_up [OF asc_w this] ys split(2) show ?thesis by simp
qed

subsection \<open>Draining what arrived early\<close>

text \<open>
  Every buffered message carries one of the rows that come next. Draining takes them for as long as
  the next row is there: the replica then follows a longer prefix of the relay's rows, and the next
  row is not buffered.
\<close>

definition pending_ok :: "string \<Rightarrow> (string, background) jmap \<Rightarrow> row list \<Rightarrow> timeline_message list \<Rightarrow> bool" where
  "pending_ok epoch outcomes rows ms \<longleftrightarrow> (\<forall>m \<in> set ms. \<exists>r \<in> set rows. carries outcomes m r)"

lemma row_by_seq:
  assumes "consecutive (xs @ ys)" and "xs \<noteq> []" and "r \<in> set (xs @ ys)" and "ro_seq r = last_seq xs + 1"
  obtains zs where "ys = r # zs"
proof -
  have asc: "ascending (xs @ ys)" using assms(1) by (rule consecutive_ascending)
  then have "ascending xs" by (simp add: ascending_append)
  have "x \<in> set xs \<Longrightarrow> ro_seq x \<le> last_seq xs" for x
    using \<open>ascending xs\<close> assms(2)
    by (cases xs rule: rev_cases) (auto simp: ascending_snoc less_imp_le)
  with assms(3,4) have "r \<in> set ys" by force
  then obtain z zs where ys: "ys = z # zs" by (cases ys) auto
  with consecutive_split assms(1,2) have z: "ro_seq z = last_seq xs + 1" by blast
  from consecutive_distinct [OF assms(1)] have "inj_on ro_seq (set (xs @ ys))"
    by (simp only: distinct_map)
  moreover have "r \<in> set (xs @ ys)" "z \<in> set (xs @ ys)" "ro_seq r = ro_seq z"
    using assms(3,4) z ys by simp_all
  ultimately have "r = z" by (meson inj_onD)
  with ys that show thesis by blast
qed

lemma drain_follows:
  assumes "follows 0 epoch xs tr" and "xs \<noteq> []" and "consecutive (xs @ ys)" and "bindings_ok (xs @ ys)"
    and "\<forall>r \<in> set (xs @ ys). ro_epoch r = epoch"
    and "pending_ok epoch (tl_background tr) (xs @ ys) (tl_pendingLive tr)"
  shows "\<exists>as bs. ys = as @ bs \<and> follows 0 epoch (xs @ as) (drain_loop tr)
    \<and> (\<forall>m \<in> set (tl_pendingLive (drain_loop tr)). tm_seq m \<noteq> tl_nextSeq (drain_loop tr))
    \<and> tl_background (drain_loop tr) = tl_background tr"
  using assms
proof (induction tr arbitrary: xs ys rule: drain_loop.induct)
  case (1 tr)
  show ?case
  proof (cases "find (\<lambda>m. tm_seq m = tl_nextSeq tr) (tl_pendingLive tr)")
    case None
    then have "drain_loop tr = tr" by (simp add: drain_loop.simps)
    moreover from None have "\<forall>m \<in> set (tl_pendingLive tr). tm_seq m \<noteq> tl_nextSeq tr"
      by (auto simp: find_None_iff)
    ultimately show ?thesis using "1.prems" by (intro exI [of _ "[]"] exI [of _ ys]) simp
  next
    case (Some m)
    then have m: "m \<in> set (tl_pendingLive tr)" "tm_seq m = tl_nextSeq tr"
      by (auto simp: find_Some_iff)
    from "1.prems"(6) m(1) obtain r where r: "r \<in> set (xs @ ys)" "carries (tl_background tr) m r"
      by (auto simp: pending_ok_def)
    with m(2) "1.prems"(1) have seq: "ro_seq r = last_seq xs + 1" by (simp add: carries_def follows_def)
    from row_by_seq [OF "1.prems"(3,2) r(1) this] obtain zs where ys: "ys = r # zs" .
    have "bindings_ok ((xs @ [r]) @ zs)" using "1.prems"(4) ys by simp
    then have "bindings_ok (xs @ [r])" by (rule bindings_ok_append)
    then have ok: "next_row_ok 0 epoch xs r"
      using consecutive_split [of xs r zs] "1.prems" ys by (simp add: next_row_ok_def)
    have step: "follows 0 epoch (xs @ [r]) (append_live tr m)"
      by (rule append_live_follows [OF "1.prems"(1) ok r(2)])
    have "pending_ok epoch (tl_background (append_live tr m)) ((xs @ [r]) @ zs) (tl_pendingLive (append_live tr m))"
      using "1.prems"(6) ys by (auto simp: pending_ok_def append_live_def)
    with "1.IH" [OF Some step, of zs] "1.prems" ys obtain as bs where
      "zs = as @ bs" "follows 0 epoch ((xs @ [r]) @ as) (drain_loop (append_live tr m))"
      "\<forall>m' \<in> set (tl_pendingLive (drain_loop (append_live tr m))).
         tm_seq m' \<noteq> tl_nextSeq (drain_loop (append_live tr m))"
      "tl_background (drain_loop (append_live tr m)) = tl_background tr"
      by auto
    moreover have "drain_loop tr = drain_loop (append_live tr m)"
      using Some by (simp add: drain_loop.simps [of tr])
    ultimately show ?thesis using ys by (intro exI [of _ "r # as"] exI [of _ bs]) simp
  qed
qed

subsection \<open>Recovering from a gap\<close>

text \<open>The outcomes the replica has retained are already shown by the entries.\<close>

definition settled :: "(string, background) jmap \<Rightarrow> entry list \<Rightarrow> bool" where
  "settled outcomes es \<longleftrightarrow> applyBackgroundEntries outcomes es = es"

lemma settled_Nil [simp]: "settled [] es"
proof -
  have "apply_outcome [] i = i" for i by (simp add: apply_outcome_def split: option.split)
  then have "apply_entry_background [] e = e" for e by (simp add: apply_entry_background_def)
  then show ?thesis unfolding settled_def applyBackgroundEntries_def by (intro map_idI)
qed

lemma drainPending_state:
  "tl_entries (rp_timeline (red_state (drainPending s))) = tl_entries (drain_loop (rp_timeline s))"
  "tl_nextSeq (rp_timeline (red_state (drainPending s))) = tl_nextSeq (drain_loop (rp_timeline s))"
  "tl_epoch (rp_timeline (red_state (drainPending s))) = tl_epoch (drain_loop (rp_timeline s))"
  "tl_initialized (rp_timeline (red_state (drainPending s))) = tl_initialized (drain_loop (rp_timeline s))"
  "tl_background (rp_timeline (red_state (drainPending s))) = tl_background (drain_loop (rp_timeline s))"
  "set (tl_pendingLive (rp_timeline (red_state (drainPending s)))) =
     {m \<in> set (tl_pendingLive (drain_loop (rp_timeline s))). tl_nextSeq (drain_loop (rp_timeline s)) \<le> tm_seq m}"
  by (auto simp: drainPending_def Let_def split: option.split if_split)

lemma follows_drained:
  "follows k epoch rows (drain_loop (rp_timeline s)) \<Longrightarrow>
   follows k epoch rows (rp_timeline (red_state (drainPending s)))"
  by (simp add: follows_def drainPending_state)

lemma after_page:
  assumes "page_limit (pr_limit q) = Some n" and "pr_direction q = After"
    and "pr_cursor q = Some \<lparr>cu_epoch = ts_epoch s, cu_seq = c\<rparr>" and "c \<le> last_seq (ts_rows s)"
    and "after_entries (ts_rows s) c n = (es, Some (a, b))"
    and "projectTimelinePage s q = Inr p"
  shows "hp_entries p = es" and "hp_flags p = no_flags" and "hp_direction p = After"
    and "hp_epoch p = ts_epoch s" and "hp_endCursor p = Some \<lparr>cu_epoch = ts_epoch s, cu_seq = b\<rparr>"
    and "hp_hasNewer p \<longleftrightarrow> (\<exists>r \<in> set (ts_rows s). b < ro_seq r)"
    and "wi_nextSeq (hp_window p) = last_seq (ts_rows s) + 1"
proof -
  have p: "p = history_page_of s q es no_flags (Some (a, b))"
    using assms by (simp add: projectTimelinePage_def)
  show "hp_entries p = es" "hp_flags p = no_flags" "hp_direction p = After" "hp_epoch p = ts_epoch s"
    "hp_endCursor p = Some \<lparr>cu_epoch = ts_epoch s, cu_seq = b\<rparr>"
    "hp_hasNewer p \<longleftrightarrow> (\<exists>r \<in> set (ts_rows s). b < ro_seq r)"
    "wi_nextSeq (hp_window p) = last_seq (ts_rows s) + 1"
    using assms(2) by (simp_all add: p history_page_of_def Let_def list_ex_iff)
qed

lemma next_after_page:
  assumes "consecutive rows" and "rows = xs @ rest" and "xs \<noteq> []"
  shows "(if \<exists>r \<in> set rows. ro_seq (last xs) < ro_seq r then ro_seq (last xs) + 1 else last_seq rows + 1)
    = last_seq xs + 1"
proof (cases "rest = []")
  case True
  with assms have "ro_seq r \<le> ro_seq (last xs)" if "r \<in> set rows" for r
    using consecutive_bounds [OF assms(1) that] by (simp add: last_seq_last)
  with True assms show ?thesis by (auto simp: last_seq_last not_less)
next
  case False
  have "ascending (xs @ rest)" using assms(1,2) by (simp add: consecutive_ascending)
  with False assms(3) have "ro_seq (last xs) < ro_seq (hd rest)" by (simp add: ascending_append)
  with False assms(2,3) show ?thesis by (auto simp: last_seq_last intro!: bexI [of _ "hd rest"])
qed

text \<open>
  The replica follows the rows \<open>xs\<close> and the relay has more. A page after a cursor within \<open>xs\<close> that
  reaches at least as far as \<open>xs\<close> makes the replica follow a longer prefix: the rows of the page and
  then every buffered message for as long as the next row is buffered.
\<close>

lemma gap_recovery:
  assumes wf: "wf_store s" and bind: "bindings_ok (ts_rows s)" and have_rows: "ts_rows s = xs @ rest"
    and ne: "xs \<noteq> []" and rest: "rest \<noteq> []"
    and fol: "follows 0 (ts_epoch s) xs (rp_timeline st)" and epoch: "ts_epoch s \<noteq> []"
    and q: "page_limit (pr_limit q) = Some n" "pr_direction q = After"
      "pr_cursor q = Some \<lparr>cu_epoch = ts_epoch s, cu_seq = c\<rparr>" and c: "c \<le> last_seq xs"
    and reach: "last_seq xs \<le> ro_seq (last (take n (filter (\<lambda>r. ro_seq r > c) (ts_rows s))))"
    and p: "projectTimelinePage s q = Inr p"
    and bg: "\<And>ys. settled (tl_background (rp_timeline st)) (projectTimelineRows ys)"
    and pend: "pending_ok (ts_epoch s) (tl_background (rp_timeline st)) (ts_rows s)
                 (tl_pendingLive (rp_timeline st))"
  shows "\<exists>as bs. ts_rows s = as @ bs \<and> length xs \<le> length as
    \<and> length (filter (\<lambda>r. ro_seq r \<le> c) (ts_rows s) @ take n (filter (\<lambda>r. ro_seq r > c) (ts_rows s))) \<le> length as
    \<and> follows 0 (ts_epoch s) as (rp_timeline (red_state (applyHistoryPage st p False)))
    \<and> (\<forall>m \<in> set (tl_pendingLive (rp_timeline (red_state (applyHistoryPage st p False)))).
         last_seq as + 1 < tm_seq m)"
proof -
  let ?rows = "ts_rows s"
  let ?old = "filter (\<lambda>r. ro_seq r \<le> c) ?rows" and ?win = "take n (filter (\<lambda>r. ro_seq r > c) ?rows)"
  let ?to = "?old @ ?win"
  have con: "consecutive ?rows" and eps: "\<forall>r \<in> set ?rows. ro_epoch r = ts_epoch s"
    using wf by (simp_all add: wf_store_def)
  note asc = consecutive_ascending [OF con]
  have last_le: "last_seq xs \<le> last_seq ?rows"
    using consecutive_bounds [OF con, of "last xs"] ne have_rows by (simp add: last_seq_last)
  have later: "filter (\<lambda>r. ro_seq r > c) ?rows \<noteq> []"
  proof -
    from asc have_rows ne rest have "ro_seq (last xs) < ro_seq (hd rest)" by (simp add: ascending_append)
    with c ne have "c < ro_seq (hd rest)" by (simp add: last_seq_last)
    moreover have "hd rest \<in> set ?rows" using have_rows rest by simp
    ultimately show ?thesis unfolding filter_empty_conv by blast
  qed
  note split = after_entries_split [OF asc page_limit_pos [OF q(1)] refl later refl]
  obtain rest' where rest': "?rows = ?to @ rest'" using split(3) by auto
  have to_ne: "?to \<noteq> []" and last_to: "last ?to = last ?win" using split(1) by simp_all
  have cl: "c \<le> last_seq ?rows" using c last_le by simp
  note page = after_page [OF q cl split(2) p]
  have merged: "mergeAuthoritative (projectTimelineRows xs) (hp_entries p) = projectTimelineRows ?to"
    using after_page_merge [OF asc page_limit_pos [OF q(1)] later have_rows c ne reach] split(2) page(1)
    by simp
  have next_seq: "nextSequenceForPage st p = last_seq ?to + 1"
    using next_after_page [OF con rest' to_ne, unfolded last_to] page(3,5,6,7)
    by (cases "hp_hasNewer p") (simp_all only: nextSequenceForPage_def direction.distinct if_True if_False
        option.case cursor.select_convs)
  let ?prep = "prepare_page st p False"
  have prep_bg: "tl_background (rp_timeline ?prep) = tl_background (rp_timeline st)"
    and prep_pend: "set (tl_pendingLive (rp_timeline ?prep)) \<subseteq> set (tl_pendingLive (rp_timeline st))"
    by (auto simp: prepare_page_def Let_def)
  have prep: "follows 0 (ts_epoch s) ?to (rp_timeline ?prep)"
    using fol bg [of ?to] merged next_seq page(3,4)
    by (simp add: follows_def prepare_page_def Let_def settled_def)
  have accepted: "applyHistoryPage st p False = drainPending ?prep"
    using fol page(2,4) by (simp add: applyHistoryPage_def no_flags_def replaced_epoch_def follows_def)
  have pend': "pending_ok (ts_epoch s) (tl_background (rp_timeline ?prep)) (?to @ rest')
      (tl_pendingLive (rp_timeline ?prep))"
    using pend prep_bg prep_pend rest' by (auto simp: pending_ok_def)
  from drain_follows [OF prep to_ne, of rest'] con bind eps rest' pend' obtain as bs where
    as: "rest' = as @ bs" "follows 0 (ts_epoch s) (?to @ as) (drain_loop (rp_timeline ?prep))"
      "\<forall>m \<in> set (tl_pendingLive (drain_loop (rp_timeline ?prep))).
         tm_seq m \<noteq> tl_nextSeq (drain_loop (rp_timeline ?prep))"
    by metis
  have next_as: "tl_nextSeq (drain_loop (rp_timeline ?prep)) = last_seq (?to @ as) + 1"
    using as(2) by (simp add: follows_def)
  have "\<forall>m \<in> set (tl_pendingLive (rp_timeline (red_state (drainPending ?prep)))).
      last_seq (?to @ as) + 1 < tm_seq m"
    using as(3) next_as by (force simp: drainPending_state)
  moreover have "length xs \<le> length (?to @ as)"
  proof -
    have "ro_seq (last xs) \<le> ro_seq (last ?to)"
      using reach last_to last_seq_last [OF ne] by metis
    from longer_prefix [OF asc rest' have_rows to_ne this] obtain us where "?to = xs @ us" .
    then show ?thesis by (metis append.assoc length_append le_add1)
  qed
  moreover have "follows 0 (ts_epoch s) (?to @ as) (rp_timeline (red_state (drainPending ?prep)))"
    by (rule follows_drained [OF as(2)])
  ultimately show ?thesis
    using rest' as(1) accepted by (intro exI [of _ "?to @ as"] exI [of _ bs]) simp
qed

subsection \<open>Opening a session\<close>

lemma drain_loop_empty: "tl_pendingLive tr = [] \<Longrightarrow> drain_loop tr = tr"
  by (simp add: drain_loop.simps)

text \<open>The first page: a tail page that reports nothing newer makes the replica follow all rows.\<close>

lemma tail_page_follows:
  assumes wf: "wf_store s" and q: "page_limit (pr_limit q) = Some n" "pr_direction q = Tail" "pr_cursor q = None"
    and p: "projectTimelinePage s q = Inr p" and newer: "\<not> hp_hasNewer p"
    and epoch: "\<not> replaced_epoch st p" and quiet: "tl_pendingLive (rp_timeline st) = []"
    and bg: "settled (tl_background (rp_timeline st)) (slice_last n (projectTimelineRows (ts_rows s)))"
  shows "follows (length (projectTimelineRows (ts_rows s)) - n) (ts_epoch s) (ts_rows s)
           (rp_timeline (red_state (applyHistoryPage st p False)))"
proof -
  let ?es = "projectTimelineRows (ts_rows s)"
  let ?prep = "prepare_page st p False"
  have page: "p = history_page_of s q (slice_last n ?es) no_flags None"
    using q p by (simp add: projectTimelinePage_def)
  have fields: "hp_entries p = slice_last n ?es" "hp_flags p = no_flags" "hp_direction p = Tail"
    "hp_epoch p = ts_epoch s" "wi_nextSeq (hp_window p) = last_seq (ts_rows s) + 1"
    using q(2) by (simp_all add: page history_page_of_def Let_def)
  have nextSeq: "nextSequenceForPage st p = last_seq (ts_rows s) + 1"
    using newer fields by (simp add: nextSequenceForPage_def split: option.split)
  have sorted: "sortEntries (slice_last n ?es) = slice_last n ?es"
    unfolding slice_last_def
    by (rule sortEntries_id, rule drop_starts_sorted, rule wf_store_projection [OF wf])
  have prep: "follows (length ?es - n) (ts_epoch s) (ts_rows s) (rp_timeline ?prep)"
    using bg fields nextSeq sorted
    by (simp add: follows_def prepare_page_def Let_def settled_def mergeAuthoritative_def slice_last_def)
  have "tl_pendingLive (rp_timeline ?prep) = []"
    using quiet by (simp add: prepare_page_def Let_def)
  from drain_loop_empty [OF this] prep have "follows (length ?es - n) (ts_epoch s) (ts_rows s) (drain_loop (rp_timeline ?prep))"
    by simp
  moreover have "applyHistoryPage st p False = drainPending ?prep"
    using epoch fields by (simp add: applyHistoryPage_def no_flags_def)
  ultimately show ?thesis using follows_drained by simp
qed

end
