(* ===== verification/Timeline_Properties.thy ===== *)
theory Timeline_Properties
  imports Convergence
begin

section \<open>Properties of the timeline, from the relay's rows to the replica\<close>

text \<open>
  The statements about the projector, the pages and the replica that hold across the component
  theories, each with a concrete instance on the store of \<open>Timeline_Store\<close>.
\<close>

subsection \<open>A concrete replica\<close>

definition sample_request :: page_request where
  "sample_request = \<lparr>pr_requestId = ''r'', pr_agentId = ''a'', pr_direction = Tail, pr_cursor = None,
     pr_limit = Finite 10\<rparr>"

definition sample_page :: history_page where
  "sample_page = projr (projectTimelinePage sample_store sample_request)"

definition sample_message :: "row \<Rightarrow> timeline_message" where
  "sample_message r = \<lparr>tm_agentId = ''a'', tm_providerId = ro_providerId r, tm_item = ro_item r,
     tm_turnId = ro_turnId r, tm_resources = ro_resources r, tm_timestamp = ro_timestamp r,
     tm_seq = ro_seq r, tm_epoch = ro_epoch r\<rparr>"

definition sample_later :: row where
  "sample_later = make_row (projr (new_store ''e1'')) (sample_input ''k4'' 3 (AssistantMessage ''ef'' None)) 4 ''t''"

lemma apply_outcome_Nil [simp]: "apply_outcome [] i = i"
  by (simp add: apply_outcome_def split: option.split)

lemma sample_carries [simp]: "carries [] (sample_message r) r"
  by (simp add: carries_def sample_message_def)

lemma page_limit_10 [simp]: "page_limit (Finite 10) = Some 10"
  by code_simp

lemma sample_page_ok: "projectTimelinePage sample_store sample_request = Inr sample_page"
  by (simp add: sample_page_def projectTimelinePage_def sample_request_def)

lemmas projection_defs =
  projectTimelineRows_def project_step_def findProjection_def entryFromRow_def merge_row_def
  row_context_def background_id_def includeSequence_def includeCollapse_def make_row_def
  applyBackground_def Let_def at_last_def

lemma sample_projection:
  "map (\<lambda>e. (en_seqStart e, en_seqEnd e, en_body e)) (projectTimelineRows (ts_rows sample_store)) =
     [(1, 1, ToolCall ''c1'' ''sh'' (ReadDetail ''f'') None ToolRunning), (2, 3, AssistantMessage ''abcd'' None)]"
  by (simp add: sample_rows sample_inputs_def sample_input_def new_store_def projection_defs)

lemma sample_projection_length: "length (projectTimelineRows (ts_rows sample_store)) = 2"
  using arg_cong [OF sample_projection, of length] by simp

lemma sample_seqs: "map ro_seq (ts_rows sample_store) = [1, 2, 3]"
  by (simp add: sample_rows sample_inputs_def)

lemma sample_last_seq: "last_seq (ts_rows sample_store) = 3"
  by (simp add: sample_rows sample_inputs_def last_seq_def at_last_def)

lemma sample_no_row_above: "\<not> list_ex (\<lambda>r. 3 < ro_seq r) (ts_rows sample_store)"
  by (simp add: sample_rows sample_inputs_def)

lemma sample_last_entry:
  "map_option en_seqEnd (at_last (projectTimelineRows (ts_rows sample_store))) = Some 3"
proof -
  have "map en_seqEnd (projectTimelineRows (ts_rows sample_store)) = [1, 3]"
    using arg_cong [OF sample_projection, of "map (fst \<circ> snd)"] by (simp add: comp_def)
  then have "last (map en_seqEnd (projectTimelineRows (ts_rows sample_store))) = 3" by simp
  moreover have "projectTimelineRows (ts_rows sample_store) \<noteq> []"
    using sample_projection_length by auto
  ultimately show ?thesis by (simp add: at_last_def last_map)
qed

lemma sample_hasNewer: "\<not> hp_hasNewer sample_page"
  using sample_no_row_above sample_last_entry
  by (auto simp: sample_page_def projectTimelinePage_def sample_request_def history_page_of_def Let_def
      or_else_def sample_projection_length split: option.splits)

subsection \<open>Properties\<close>




definition sample_prefix :: "row list" where
  "sample_prefix = butlast (ts_rows sample_store)"

definition sample_behind :: replica_state where
  "sample_behind = createReplicaState\<lparr>rp_timeline :=
     (empty_timeline (Some ''e1''))\<lparr>tl_initialized := True, tl_entries := projectTimelineRows sample_prefix,
        tl_nextSeq := 3\<rparr>\<rparr>"

definition sample_after :: page_request where
  "sample_after = sample_request\<lparr>pr_direction := After,
     pr_cursor := Some \<lparr>cu_epoch = ''e1'', cu_seq = 2\<rparr>\<rparr>"

lemma sample_epoch: "ts_epoch sample_store = ''e1''"
  by (simp add: sample_store_def sample_defs)

lemma sample_prefix_split: "ts_rows sample_store = sample_prefix @ [last (ts_rows sample_store)]"
  by (simp add: sample_prefix_def sample_rows sample_inputs_def)


text \<open>C9: The projection of rows in sequence order partitions them: every entry covers a normal list of
  ranges from its first to its last row, the entries are in the order of their first rows, no row belongs
  to two entries, and together they cover exactly the rows.\<close>

theorem projection_partitions_rows:
  assumes "ascending rows"
  shows "(\<forall>e \<in> set (projectTimelineRows rows). normal_ranges (en_ranges e) \<and> en_ranges e \<noteq> []
        \<and> fst (hd (en_ranges e)) = en_seqStart e \<and> snd (last (en_ranges e)) = en_seqEnd e)
    \<and> sorted_wrt (<) (map en_seqStart (projectTimelineRows rows))
    \<and> (\<forall>i j. i < j \<and> j < length (projectTimelineRows rows) \<longrightarrow>
          entry_seqs (projectTimelineRows rows ! i) \<inter> entry_seqs (projectTimelineRows rows ! j) = {})
    \<and> (\<Union>e \<in> set (projectTimelineRows rows). entry_seqs e) = ro_seq ` set rows"
  using project_rows_inv [OF assms]
  by (simp add: projection_inv_def ok_entry_def list_all_iff)

theorem projection_partitions_rows_witness:
  "(\<Union>e \<in> set (projectTimelineRows (ts_rows sample_store)). entry_seqs e) = {1, 2, 3}"
proof -
  have "ascending (ts_rows sample_store)"
    using sample_store_wf by (simp add: wf_store_def consecutive_ascending)
  from projection_partitions_rows [OF this]
  have "(\<Union>e \<in> set (projectTimelineRows (ts_rows sample_store)). entry_seqs e) = set (map ro_seq (ts_rows sample_store))"
    by simp
  then show ?thesis by (simp only: sample_seqs) simp
qed

text \<open>C17: The projection keeps what was said: the assistant text of the entries, read in order, is the
  assistant text of the rows, read in order, and likewise for reasoning; and a tool call has exactly one
  entry, which shows the latest row of the call.\<close>

theorem projection_keeps_content:
  "concat (map (assistant_text \<circ> en_body) (projectTimelineRows rows)) = concat (map (assistant_text \<circ> ro_body) rows)
   \<and> concat (map (reasoning_text \<circ> en_body) (projectTimelineRows rows)) = concat (map (reasoning_text \<circ> ro_body) rows)
   \<and> map en_body (filter (tool_entry provider call) (projectTimelineRows rows)) =
       (case at_last (filter (tool_row provider call) rows) of None \<Rightarrow> [] | Some r \<Rightarrow> [ro_body r])"
  by (simp add: project_rows_texts project_rows_tool)

text \<open>C22: A history page before the first entry a client holds returns exactly the entries that come
  before it, at most the limit and ending next to it, and reports older history exactly when some entry
  before the page is left out.\<close>

theorem older_page_tiles:
  assumes "wf_store s" and "page_limit (pr_limit q) = Some n" and "pr_direction q = Before"
    and "projectTimelineRows (ts_rows s) = ys @ xs" and "xs \<noteq> []"
    and "pr_cursor q = Some \<lparr>cu_epoch = ts_epoch s, cu_seq = en_seqStart (hd xs)\<rparr>"
    and "projectTimelinePage s q = Inr p"
  shows "hp_entries p = drop (length ys - n) ys \<and> length (hp_entries p) \<le> n
    \<and> (hp_hasOlder p \<longleftrightarrow> n < length ys)
    \<and> take (length ys - n) ys @ hp_entries p @ xs = projectTimelineRows (ts_rows s)"
  using before_page [OF assms] assms(4) by (simp add: slice_last_def)

definition sample_before :: page_request where
  "sample_before = sample_request\<lparr>pr_direction := Before,
     pr_cursor := Some \<lparr>cu_epoch = ''e1'', cu_seq = 2\<rparr>\<rparr>"

theorem older_page_tiles_witness:
  "length (hp_entries (projr (projectTimelinePage sample_store sample_before))) = 1
   \<and> \<not> hp_hasOlder (projr (projectTimelinePage sample_store sample_before))"
proof -
  let ?es = "projectTimelineRows (ts_rows sample_store)"
  have split: "?es = take 1 ?es @ drop 1 ?es" by simp
  have ne: "drop 1 ?es \<noteq> []" using sample_projection_length by simp
  have "map en_seqStart ?es = [1, 2]"
    using arg_cong [OF sample_projection, of "map fst"] by (simp add: comp_def)
  then have "en_seqStart (?es ! 1) = 2"
    by (metis One_nat_def nth_Cons_0 nth_Cons_Suc nth_map sample_projection_length lessI numeral_2_eq_2)
  moreover have "hd (drop 1 ?es) = ?es ! 1" using sample_projection_length by (simp add: hd_drop_conv_nth)
  ultimately have first: "en_seqStart (hd (drop 1 ?es)) = 2" by simp
  have page: "projectTimelinePage sample_store sample_before = Inr (projr (projectTimelinePage sample_store sample_before))"
    by (simp add: projectTimelinePage_def sample_before_def sample_request_def sample_epoch)
  from older_page_tiles [OF sample_store_wf _ _ split ne _ page, of 10] first show ?thesis
    by (simp add: sample_before_def sample_request_def sample_epoch sample_projection_length)
qed

end
