(* ===== verification/Session_Properties.thy ===== *)
theory Session_Properties
  imports Session_State
begin

section \<open>Properties of session data: background outcomes, usage, interactions and admission\<close>

text \<open>
  The statements about \<open>Background\<close>, \<open>Interactions\<close> and \<open>Session_State\<close>, each with a concrete
  instance on a small session.
\<close>

subsection \<open>A concrete session\<close>

definition sample_capabilities :: capabilities where
  "sample_capabilities =
     \<lparr>ca_sessionControl = None, ca_resourceInput = None, ca_imageInput = None, ca_history = True,
      ca_sendMessage = True, ca_queueMessage = None, ca_steer = False, ca_cancel = True,
      ca_readResource = False, ca_planning = None, ca_sessionSettings = None, ca_commands = None,
      ca_interactions = \<lparr>ic_question = True, ic_planApproval = True, ic_toolApproval = True,
        ic_form = None, ic_permissionApproval = None, ic_externalAction = None\<rparr>\<rparr>"

definition sample_runtime :: runtime_info where
  "sample_runtime =
     \<lparr>ri_providerId = ''p'', ri_sessionId = Some ''n'', ri_status = Running, ri_failure = None,
      ri_cwd = None, ri_model = None, ri_mode = None, ri_planning = None, ri_connection = None,
      ri_settings = None, ri_childSessions = None, ri_persistence = None\<rparr>"

definition sample_question :: request where
  "sample_question = \<lparr>rq_requestId = ''q1'', rq_body = QuestionRequest
     [\<lparr>q_questionId = ''a'', q_header = ''h'', q_prompt = ''p'', q_description = None, q_required = True,
       q_selection = SingleSelection,
       q_options = [\<lparr>qo_value = ''y'', qo_label = ''Yes'', qo_description = None\<rparr>],
       q_allowCustomText = False, q_allowDismiss = False, q_sensitive = Some True\<rparr>]\<rparr>"

definition sample_session :: session_state where
  "sample_session =
     \<lparr>st_attention = None, st_settingChanges = None, st_id = ''s'', st_providerId = ''p'', st_cwd = None,
      st_model = None, st_createdAt = ''c'', st_updatedAt = ''u'', st_status = Waiting,
      st_activeTurn = Some \<lparr>at_turnId = ''t2'', at_startedAt = None\<rparr>,
      st_capabilities = sample_capabilities, st_pendingInteractions = [sample_question],
      st_runtimeInfo = sample_runtime, st_persistence = None, st_lastUsage = None, st_lastError = None\<rparr>"

lemma sample_session_wf [simp]: "wf_session sample_session"
  by (simp add: wf_session_def sample_session_def sample_runtime_def effective_status_def)

subsection \<open>Background outcomes and usage\<close>

text \<open>The outcome kept after any number of reports about one background activity, in whatever order
  they arrive, has the highest status reported: a late report of an earlier phase never hides a result.\<close>

theorem background_outcome_is_highest:
  assumes "\<forall>x \<in> set reports. bg_id x = bg_id first"
  shows "bg_status (fold (\<lambda>x p. mergeBackgroundActivity (Some p) x) reports first)
      = Max (bg_status ` set (first # reports))
    \<and> bg_id (fold (\<lambda>x p. mergeBackgroundActivity (Some p) x) reports first) = bg_id first"
  using bg_merge.fold_merge_rank [OF assms] by simp

definition sample_background :: "background_status \<Rightarrow> background" where
  "sample_background st = \<lparr>bg_id = ''b'', bg_kind = Review, bg_status = st, bg_summary = None\<rparr>"

theorem background_outcome_is_highest_witness:
  "bg_status (fold (\<lambda>x p. mergeBackgroundActivity (Some p) x)
     [sample_background BgVisible, sample_background BgPending] (sample_background BgSilent)) = BgVisible"
proof -
  have "BgSilent \<le> BgVisible" "BgPending \<le> BgVisible" by (simp_all add: background_status_order)
  with background_outcome_is_highest
    [of "[sample_background BgVisible, sample_background BgPending]" "sample_background BgSilent"]
  show ?thesis by (auto simp: sample_background_def max_def)
qed

text \<open>A usage report is a snapshot, never an increment: reporting it again changes nothing, and
  each group of figures (tokens, context window, cost) of the result comes whole from the report when the
  report mentions the group and is otherwise what it was.\<close>

theorem usage_is_a_snapshot:
  assumes "updateUsageSnapshot (Some old) report = Some new"
  shows "updateUsageSnapshot (Some new) report = Some new
    \<and> (u_tokenScope new, u_inputTokens new, u_outputTokens new, u_totalTokens new) =
        (if reports_tokens report
         then (u_tokenScope report, u_inputTokens report, u_outputTokens report, u_totalTokens report)
         else (u_tokenScope old, u_inputTokens old, u_outputTokens old, u_totalTokens old))
    \<and> u_contextWindowUsedTokens new =
        (if reports_context report then u_contextWindowUsedTokens report else u_contextWindowUsedTokens old)
    \<and> u_totalCostUsd new = (if reports_cost report then u_totalCostUsd report else u_totalCostUsd old)"
proof -
  have "updateUsageSnapshot (Some new) report = Some new"
    using updateUsageSnapshot_idem [of "Some old" report] assms by simp
  then show ?thesis using updateUsageSnapshot_groups [OF assms] by simp
qed

theorem usage_is_a_snapshot_witness:
  "u_inputTokens (the (updateUsageSnapshot (Some (empty_usage\<lparr>u_inputTokens := Some 5\<rparr>))
      (empty_usage\<lparr>u_inputTokens := Some 7, u_totalCostUsd := Some 1\<rparr>))) = Some 7"
proof -
  let ?old = "empty_usage\<lparr>u_inputTokens := Some 5\<rparr>"
  let ?report = "empty_usage\<lparr>u_inputTokens := Some 7, u_totalCostUsd := Some 1\<rparr>"
  obtain new where new: "updateUsageSnapshot (Some ?old) ?report = Some new"
    by (simp add: usage_defs)
  from usage_is_a_snapshot [OF new] have "u_inputTokens new = Some 7"
    by (simp add: reports_tokens_def empty_usage_def)
  with new show ?thesis by simp
qed

subsection \<open>Interactions\<close>




definition sample_form :: request where
  "sample_form = \<lparr>rq_requestId = ''f1'', rq_body = FormRequest ''t'' ''m''
     [\<lparr>ff_fieldId = ''pin'', ff_label = ''PIN'', ff_required = True, ff_description = None,
       ff_sensitive = Some True, ff_type = TextField None None None (Some ''0000'')\<rparr>,
      \<lparr>ff_fieldId = ''name'', ff_label = ''Name'', ff_required = True, ff_description = None,
       ff_sensitive = None, ff_type = TextField None None None None\<rparr>]\<rparr>"


text \<open>Redacting a request before it is published changes no verdict: a response is valid for the
  published request exactly when it is valid for the original, and no sensitive field publishes a default.\<close>

theorem published_request_validates_alike:
  "validateInteractionResponse (redactInteractionRequest rq) rs = validateInteractionResponse rq rs
   \<and> (\<forall>t m flds f. rq_body (redactInteractionRequest rq) = FormRequest t m flds \<and> f \<in> set flds
        \<and> ff_sensitive f = Some True \<longrightarrow> \<not> field_default (ff_type f))"
proof -
  have "\<not> field_default (ff_type f)"
    if "rq_body (redactInteractionRequest rq) = FormRequest t m flds" "f \<in> set flds" "ff_sensitive f = Some True"
    for t m flds f
    using that redact_field_default
    by (auto simp: redactInteractionRequest_def split: request_body.splits)
  then show ?thesis
    by (simp add: validateInteractionResponse_def valid_response_redact)
qed

theorem published_request_validates_alike_witness:
  "\<not> field_default (ff_type (hd (case rq_body (redactInteractionRequest sample_form) of
      FormRequest _ _ flds \<Rightarrow> flds | _ \<Rightarrow> [])))"
proof -
  have "rq_body (redactInteractionRequest sample_form) = FormRequest ''t'' ''m''
      (map redact_field (case rq_body sample_form of FormRequest _ _ flds \<Rightarrow> flds | _ \<Rightarrow> []))"
    by (simp add: redactInteractionRequest_def sample_form_def)
  with published_request_validates_alike [of sample_form] show ?thesis
    by (simp add: sample_form_def)
qed

subsection \<open>The session snapshot\<close>

text \<open>A pending interaction of a well-formed session stays pending through any events that do not
  name it, and as long as it is pending the session shows \<open>waiting\<close> unless the runtime has failed or
  closed.\<close>

theorem pending_interaction_survives:
  assumes "wf_session s" and "rq \<in> set (st_pendingInteractions s)"
    and "\<forall>(ev, ts) \<in> set evs. \<not> touches_request (rq_requestId rq) ev"
  shows "rq \<in> set (st_pendingInteractions (reduce_all s evs))
    \<and> st_status (reduce_all s evs) \<in> {Waiting, Failed, Closed}"
proof -
  have in_pending: "rq \<in> set (st_pendingInteractions (reduce_all s evs))" by (rule pending_survives [OF assms])
  then have "st_pendingInteractions (reduce_all s evs) \<noteq> []" by auto
  with reduce_all_wf [OF assms(1), of evs] effective_status_waiting in_pending show ?thesis
    by (simp add: wf_session_def)
qed

theorem pending_interaction_survives_witness:
  "sample_question \<in> set (st_pendingInteractions
     (reduce_all sample_session [(TurnCompleted (Some ''t2'') None, ''x''), (InteractionResolved ''q9'', ''y'')]))"
  by (rule pending_interaction_survives [THEN conjunct1])
    (simp_all add: sample_session_wf, simp_all add: sample_session_def sample_question_def)

text \<open>The end of a turn that is not the active one changes nothing but the time of the update; the
  end of the active turn clears it.\<close>

theorem only_the_active_turn_ends:
  assumes "wf_session s" and "st_activeTurn s = Some a" and "ends_turn ev t"
  shows "(if t = Some (at_turnId a) then st_activeTurn (reduceSessionState s ev ts) = None
          else reduceSessionState s ev ts = s\<lparr>st_updatedAt := ts\<rparr>)"
  using reduce_other_turn [OF assms(3,2) _ assms(1)] reduce_ends_turn [OF assms(3), of s ts] assms(2)
  by (simp add: finishesCurrentTurn_def)

theorem only_the_active_turn_ends_witness:
  "reduceSessionState sample_session (TurnFailed (Some ''t1'') ''late'' None None) ''x''
     = sample_session\<lparr>st_updatedAt := ''x''\<rparr>"
  using only_the_active_turn_ends [of sample_session "\<lparr>at_turnId = ''t2'', at_startedAt = None\<rparr>"
      "TurnFailed (Some ''t1'') ''late'' None None" "Some ''t1''" "''x''"]
  by (simp add: sample_session_def [THEN arg_cong, of st_activeTurn])

text \<open>An operation is admitted exactly when the session is synchronized, open, controlled or not
  under control, connected and capable of it; planning also needs an idle session without a turn or a
  pending interaction, and a response needs its interaction to be pending.\<close>

theorem operation_admitted_iff:
  "sessionOperationAvailability st k ctx = Allowed \<longleftrightarrow>
     (\<exists>s. st = Some s \<and> oc_synchronized ctx \<noteq> Some False
        \<and> oc_closed ctx \<noteq> Some True \<and> st_status s \<noteq> Closed
        \<and> oc_control ctx \<in> {None, Some ControlGranted}
        \<and> connected s \<and> operation_supported (st_capabilities s) k
        \<and> \<not> (k = OpSetPlanning \<and>
             \<not> (st_status s = Idle \<and> st_activeTurn s = None \<and> st_pendingInteractions s = []))
        \<and> \<not> (k = OpInteractionResponse \<and>
             (\<exists>i. oc_interactionId ctx = Some i \<and> i \<notin> rq_requestId ` set (st_pendingInteractions s))))"
  unfolding availability_Allowed_iff by blast

end
