(* ===== verification/Replica_Interactions.thy ===== *)
theory Replica_Interactions
  imports Replica Session_Properties
begin

section \<open>Interactions in the replica\<close>

text \<open>
  The replica keeps the pending interactions twice (of its own and inside the session snapshot) and a
  journal of the changes it has seen, so that a snapshot taken before a change cannot undo it. The
  lemmas show that the copies agree through every operation and what a snapshot does to the journal.
\<close>

subsection \<open>Steps\<close>

text \<open>A stream message never carries an interaction event (the wire union has none).\<close>

fun stream_event :: "state_event \<Rightarrow> bool" where
  "stream_event (InteractionRequested _) = False"
| "stream_event (InteractionResolved _) = False"
| "stream_event (InteractionInvalidated _) = False"
| "stream_event _ = True"

inductive replica_step :: "replica_state \<Rightarrow> replica_state \<Rightarrow> bool" where
  rs_snapshot: "b \<le> rp_interactionRevision s \<Longrightarrow> wf_session p \<Longrightarrow>
     replica_step s (applyAgentSnapshot s p (Some b))"
| rs_snapshot_now: "wf_session p \<Longrightarrow> replica_step s (applyAgentSnapshot s p None)"
| rs_requested: "replica_step s (applyInteractionRequested s rq)"
| rs_resolved: "replica_step s (applyInteractionResolved s i)"
| rs_invalidated: "replica_step s (applyInteractionInvalidated s i)"
| rs_page: "replica_step s (red_state (applyHistoryPage s page live))"
| rs_live: "replica_step s (red_state (reduceTimelineEvent s (TimelineStream m)))"
| rs_event: "stream_event ev \<Longrightarrow>
     replica_step s (red_state (reduceTimelineEvent s (EventStream a ev t)))"
| rs_resource: "replica_step s (applyResourceResponse s i st)"
| rs_resource_update: "replica_step s (applyResourceUpdate s i st)"
| rs_binding: "replica_step s (applyTimelineResourceBindingReplacement s br)"
| rs_replace: "replica_step s (applyTimelineReplacement s e)"

inductive_cases replica_stepE: "replica_step s s'"

subsection \<open>The invariant\<close>

definition journal_ok :: "(string, interaction_change) jmap \<Rightarrow> nat \<Rightarrow> bool" where
  "journal_ok changes revision \<longleftrightarrow> wf_jmap changes
     \<and> (\<forall>i c. jget changes i = Some c \<longrightarrow> icg_revision c \<le> revision
          \<and> (\<forall>rq. icg_request c = Some rq \<longrightarrow> rq_requestId rq = i))"

definition interactions_ok :: "replica_state \<Rightarrow> bool" where
  "interactions_ok s \<longleftrightarrow>
     distinct (map rq_requestId (rp_pendingInteractions s))
     \<and> journal_ok (rp_interactionChanges s) (rp_interactionRevision s)
     \<and> (\<forall>a. rp_agent s = Some a \<longrightarrow>
          wf_session a \<and> st_pendingInteractions a = rp_pendingInteractions s)"

lemma interactions_ok_create: "interactions_ok createReplicaState"
  by (simp add: interactions_ok_def createReplicaState_def journal_ok_def)

text \<open>Operations on the timeline and the resources leave all of this alone.\<close>

definition same_interactions :: "replica_state \<Rightarrow> replica_state \<Rightarrow> bool" where
  "same_interactions s s' \<longleftrightarrow> rp_pendingInteractions s' = rp_pendingInteractions s
     \<and> rp_interactionChanges s' = rp_interactionChanges s
     \<and> rp_interactionRevision s' = rp_interactionRevision s \<and> rp_agent s' = rp_agent s"

lemma same_interactions_ok: "same_interactions s s' \<Longrightarrow> interactions_ok s \<Longrightarrow> interactions_ok s'"
  by (simp add: same_interactions_def interactions_ok_def)

lemma same_interactions_trans:
  "same_interactions s t \<Longrightarrow> same_interactions t u \<Longrightarrow> same_interactions s u"
  by (simp add: same_interactions_def)

lemma same_buffer: "same_interactions s (bufferLive s m)"
  and same_append: "same_interactions s (appendLive s m)"
  and same_replace: "same_interactions s (applyTimelineReplacement s e)"
  and same_outcome: "same_interactions s (applyBackgroundOutcome s b)"
  and same_drain: "same_interactions s (red_state (drainPending s))"
  and same_prepare: "same_interactions s (prepare_page s p live)"
  and same_resource: "same_interactions s (applyResourceResponse s i st)"
  and same_update: "same_interactions s (applyResourceUpdate s i st)"
  and same_binding: "same_interactions s (applyTimelineResourceBindingReplacement s br)"
  by (simp_all add: same_interactions_def bufferLive_def appendLive_def applyTimelineReplacement_def
      applyBackgroundOutcome_def drainPending_def prepare_page_def applyResourceResponse_def
      applyResourceUpdate_def applyTimelineResourceBindingReplacement_def Let_def split: option.split)

lemma same_page: "same_interactions s (red_state (applyHistoryPage s p live))"
  using same_replace [of s "hp_epoch p"] same_drain same_prepare same_interactions_trans
  by (auto simp: applyHistoryPage_def same_interactions_def)

lemma same_live: "same_interactions s (red_state (reduce_timeline_message s m))"
  using same_buffer same_append same_replace
  by (auto simp: reduce_timeline_message_def Let_def same_interactions_def)

subsection \<open>Preservation\<close>

lemma reduce_agent_ok:
  assumes "rp_agent s = Some a" and "interactions_ok s"
  shows "wf_session (reduceSessionState a ev ts)"
    and "st_pendingInteractions (reduceSessionState a ev ts) = pending_after (rp_pendingInteractions s) ev"
  using assms by (simp_all add: interactions_ok_def reduce_wf)

lemma journal_set:
  "journal_ok changes r \<Longrightarrow> r \<le> r' \<Longrightarrow> icg_revision c \<le> r' \<Longrightarrow>
   (\<forall>rq. icg_request c = Some rq \<longrightarrow> rq_requestId rq = i) \<Longrightarrow> journal_ok (jset changes i c) r'"
  unfolding journal_ok_def by (auto split: if_splits intro: order_trans)

lemma requested_ok: "interactions_ok s \<Longrightarrow> interactions_ok (applyInteractionRequested s rq)"
  using reduce_agent_ok [of s _ "InteractionRequested rq"]
  by (auto simp: interactions_ok_def applyInteractionRequested_def reduce_agent_def
      intro!: journal_set [of _ "rp_interactionRevision s"])

lemma resolved_ok: "interactions_ok s \<Longrightarrow> interactions_ok (applyInteractionResolved s i)"
  using reduce_agent_ok [of s _ "InteractionResolved i"]
  by (auto simp: interactions_ok_def applyInteractionResolved_def reduce_agent_def
      intro!: journal_set [of _ "rp_interactionRevision s"])

lemma event_cases:
  assumes "stream_event ev"
  obtains b u where "applyNonTimelineEvent s ev t = applyBackgroundOutcome s b"
  | "applyNonTimelineEvent s ev t = s"
  | a where "rp_agent s = Some a"
      "applyNonTimelineEvent s ev t = s\<lparr>rp_agent := Some (reduceSessionState a ev t)\<rparr>"
  by (cases ev; cases "rp_agent s") (use that in \<open>auto simp: applyNonTimelineEvent_def\<close>)

lemma event_ok:
  assumes ok: "interactions_ok s" and ev: "stream_event ev"
  shows "interactions_ok (applyNonTimelineEvent s ev t)"
proof (rule event_cases [OF ev, of s t])
  fix b assume "applyNonTimelineEvent s ev t = applyBackgroundOutcome s b"
  with same_interactions_ok [OF same_outcome ok] show ?thesis by simp
next
  assume "applyNonTimelineEvent s ev t = s"
  with ok show ?thesis by simp
next
  fix a assume a: "rp_agent s = Some a"
    and eq: "applyNonTimelineEvent s ev t = s\<lparr>rp_agent := Some (reduceSessionState a ev t)\<rparr>"
  have "pending_after xs ev = xs" for xs using ev by (cases ev) simp_all
  with reduce_agent_ok [OF a ok, of ev t] ok show ?thesis
    by (simp add: eq interactions_ok_def)
qed

text \<open>The overlay of the journal over the requests of a snapshot.\<close>

lemma overlay_get:
  "distinct (map fst changes) \<Longrightarrow>
   jget (overlay_changes m b changes) i =
     (case map_of changes i of
        Some c \<Rightarrow> if icg_revision c \<le> b then jget m i else icg_request c
      | None \<Rightarrow> jget m i)"
proof (induction changes arbitrary: m)
  case (Cons e changes)
  obtain j c where e: "e = (j, c)" by (cases e)
  have step: "overlay_changes m b (e # changes) = overlay_changes
      (if icg_revision c \<le> b then m
       else case icg_request c of Some rq \<Rightarrow> jset m j rq | None \<Rightarrow> jdelete m j) b changes"
    by (simp add: overlay_changes_def e)
  have none: "map_of changes j = None" and dist: "distinct (map fst changes)"
    using Cons.prems e by (simp_all add: map_of_eq_None_iff)
  show ?case
    unfolding step Cons.IH [OF dist]
    by (cases "i = j"; cases "icg_request c") (simp_all add: e none split: option.split)
qed (simp add: overlay_changes_def)

lemma overlay_wf: "wf_jmap m \<Longrightarrow> wf_jmap (overlay_changes m b changes)"
  by (induction changes arbitrary: m)
    (auto simp: overlay_changes_def split: option.split)

lemma obj_entries_distinct: "wf_jmap m \<Longrightarrow> distinct (map fst (obj_entries m))"
proof -
  assume wf: "wf_jmap m"
  have "distinct (obj_entries m)"
    using wf by (simp add: card_distinct distinct_card wf_jmap_def distinct_map)
  moreover have "inj_on fst (set (obj_entries m))" using wf by (simp add: wf_jmap_def distinct_map)
  ultimately show ?thesis by (simp add: distinct_map)
qed

lemma obj_entries_get:
  assumes "wf_jmap m"
  shows "map_of (obj_entries m) i = map_of m i"
proof (cases "map_of m i")
  case None
  then have "i \<notin> fst ` set (obj_entries m)" by (simp add: map_of_eq_None_iff)
  then have "map_of (obj_entries m) i = None" by (simp only: map_of_eq_None_iff not_False_eq_True)
  with None show ?thesis by simp
next
  case (Some v)
  then have "(i, v) \<in> set (obj_entries m)" by (simp add: map_of_SomeD)
  with obj_entries_distinct [OF assms] Some show ?thesis by simp
qed

lemma index_by_keyed: "jget (index_by f xs) i = Some x \<Longrightarrow> f x = i"
  by (induction xs rule: rev_induct) (auto split: if_splits)

text \<open>The requests of an applied snapshot, by identity.\<close>

definition snapshot_requests ::
  "replica_state \<Rightarrow> session_state \<Rightarrow> nat \<Rightarrow> (string, request) jmap" where
  "snapshot_requests s p b =
     overlay_changes (index_by rq_requestId (st_pendingInteractions p)) b (obj_entries (rp_interactionChanges s))"

lemma snapshot_requests_ok:
  assumes "journal_ok (rp_interactionChanges s) r"
  shows "wf_jmap (snapshot_requests s p b)"
    and "jget (snapshot_requests s p b) i = Some rq \<Longrightarrow> rq_requestId rq = i"
    and "distinct (map rq_requestId (jvalues (snapshot_requests s p b)))"
proof -
  have wfj: "wf_jmap (rp_interactionChanges s)" using assms by (simp add: journal_ok_def)
  show wf: "wf_jmap (snapshot_requests s p b)"
    by (simp add: snapshot_requests_def overlay_wf)
  have keyed: "rq_requestId rq = i" if "jget (snapshot_requests s p b) i = Some rq" for i rq
    using that assms index_by_keyed [of rq_requestId "st_pendingInteractions p" i rq]
    by (auto simp: snapshot_requests_def overlay_get obj_entries_distinct obj_entries_get wfj journal_ok_def
        split: option.splits if_splits)
  show "jget (snapshot_requests s p b) i = Some rq \<Longrightarrow> rq_requestId rq = i" by (rule keyed)
  have "map rq_requestId (jvalues (snapshot_requests s p b)) = jkeys (snapshot_requests s p b)"
    by (rule jvalues_keyed) (use keyed jget_mem [OF wf] in fastforce)
  then show "distinct (map rq_requestId (jvalues (snapshot_requests s p b)))"
    using wf by (simp only: wf_jmap_def)
qed

lemma record_snapshot_journal:
  "journal_ok changes r \<Longrightarrow> b \<le> r \<Longrightarrow> journal_ok (record_snapshot_requests changes b requests) r"
proof (induction requests arbitrary: changes)
  case (Cons rq requests)
  have "record_snapshot_requests changes b (rq # requests) = record_snapshot_requests
      (if (case jget changes (rq_requestId rq) of None \<Rightarrow> True | Some c \<Rightarrow> icg_revision c \<le> b)
       then jset changes (rq_requestId rq) \<lparr>icg_revision = b, icg_request = Some rq\<rparr> else changes) b requests"
    by (simp add: record_snapshot_requests_def)
  moreover have "journal_ok (if (case jget changes (rq_requestId rq) of None \<Rightarrow> True | Some c \<Rightarrow> icg_revision c \<le> b)
       then jset changes (rq_requestId rq) \<lparr>icg_revision = b, icg_request = Some rq\<rparr> else changes) r"
    using Cons.prems by (simp add: journal_set [of changes r r])
  ultimately show ?case using Cons.IH Cons.prems(2) by simp
qed (simp add: record_snapshot_requests_def)

lemma snapshot_form:
  obtains s1 where "same_interactions s s1"
    and "applyAgentSnapshot s p bo = s1\<lparr>
      rp_agent := Some (withSessionInteractions p
        (jvalues (snapshot_requests s p (case bo of None \<Rightarrow> rp_interactionRevision s | Some b \<Rightarrow> b)))),
      rp_pendingInteractions :=
        jvalues (snapshot_requests s p (case bo of None \<Rightarrow> rp_interactionRevision s | Some b \<Rightarrow> b)),
      rp_interactionChanges := record_snapshot_requests (rp_interactionChanges s)
        (case bo of None \<Rightarrow> rp_interactionRevision s | Some b \<Rightarrow> b) (st_pendingInteractions p)\<rparr>"
proof -
  have same: "same_interactions s (snapshot_outcome s p)"
    using same_outcome by (simp add: snapshot_outcome_def same_interactions_def split: option.split)
  then have "rp_interactionChanges (snapshot_outcome s p) = rp_interactionChanges s"
    "rp_interactionRevision (snapshot_outcome s p) = rp_interactionRevision s"
    by (simp_all add: same_interactions_def)
  then show thesis
    using same by (intro that) (simp_all add: applyAgentSnapshot_def Let_def snapshot_requests_def
      cong: option.case_cong)
qed

lemma snapshot_ok:
  assumes ok: "interactions_ok s" and b: "(case bo of None \<Rightarrow> rp_interactionRevision s | Some b \<Rightarrow> b) \<le> rp_interactionRevision s"
  shows "interactions_ok (applyAgentSnapshot s p bo)"
proof (rule snapshot_form [of s p bo])
  let ?b = "case bo of None \<Rightarrow> rp_interactionRevision s | Some b \<Rightarrow> b"
  fix s1
  assume same: "same_interactions s s1" and eq: "applyAgentSnapshot s p bo = s1\<lparr>
      rp_agent := Some (withSessionInteractions p (jvalues (snapshot_requests s p ?b))),
      rp_pendingInteractions := jvalues (snapshot_requests s p ?b),
      rp_interactionChanges := record_snapshot_requests (rp_interactionChanges s) ?b (st_pendingInteractions p)\<rparr>"
  from ok have j: "journal_ok (rp_interactionChanges s) (rp_interactionRevision s)"
    by (simp add: interactions_ok_def)
  from snapshot_requests_ok(3) [OF j] record_snapshot_journal [OF j b] same show ?thesis
    by (simp add: eq interactions_ok_def same_interactions_def wf_session_def withSessionInteractions_def)
qed

lemma replica_step_ok: "replica_step s s' \<Longrightarrow> interactions_ok s \<Longrightarrow> interactions_ok s'"
proof (induction rule: replica_step.induct)
  case (rs_snapshot b s p)
  then show ?case by (intro snapshot_ok) simp_all
next
  case (rs_snapshot_now p s)
  then show ?case by (intro snapshot_ok) simp_all
next
  case (rs_event ev s a t)
  then show ?case by (simp add: event_ok)
qed (auto intro: requested_ok resolved_ok same_interactions_ok [OF same_page]
    same_interactions_ok [OF same_live] same_interactions_ok [OF same_resource]
    same_interactions_ok [OF same_update] same_interactions_ok [OF same_binding]
    same_interactions_ok [OF same_replace] simp: applyInteractionInvalidated_def)

lemma replica_reachable_ok: "replica_step\<^sup>*\<^sup>* s s' \<Longrightarrow> interactions_ok s \<Longrightarrow> interactions_ok s'"
  by (induction rule: rtranclp_induct) (auto intro: replica_step_ok)

subsection \<open>Properties\<close>

text \<open>C19: Through every operation of the replica (snapshots, interactions, live messages, pages, events
  and resources, in any order) the pending interactions it shows and those inside its session snapshot
  are the same list, no request is listed twice, and the snapshot's status is the native status overlaid
  with them.\<close>

theorem replica_interactions_agree:
  assumes "replica_step\<^sup>*\<^sup>* createReplicaState s" and "rp_agent s = Some a"
  shows "st_pendingInteractions a = rp_pendingInteractions s
    \<and> distinct (map rq_requestId (rp_pendingInteractions s))
    \<and> st_status a = effective_status (ri_status (st_runtimeInfo a)) (rp_pendingInteractions s)"
  using replica_reachable_ok [OF assms(1) interactions_ok_create] assms(2)
  by (simp add: interactions_ok_def wf_session_def)

definition sample_open :: replica_state where
  "sample_open = applyInteractionResolved (applyAgentSnapshot createReplicaState sample_session None) ''q1''"

lemma sample_open_reachable: "replica_step\<^sup>*\<^sup>* createReplicaState sample_open"
proof -
  have "replica_step createReplicaState (applyAgentSnapshot createReplicaState sample_session None)"
    by (rule rs_snapshot_now) simp
  moreover have "replica_step (applyAgentSnapshot createReplicaState sample_session None) sample_open"
    unfolding sample_open_def by (rule rs_resolved)
  ultimately show ?thesis by (meson r_into_rtranclp rtranclp_trans)
qed

theorem replica_interactions_agree_witness:
  "st_pendingInteractions (the (rp_agent sample_open)) = rp_pendingInteractions sample_open"
proof -
  obtain a where a: "rp_agent sample_open = Some a"
    by (simp add: sample_open_def applyInteractionResolved_def reduce_agent_def applyAgentSnapshot_def Let_def)
  from replica_interactions_agree [OF sample_open_reachable a] a show ?thesis by simp
qed

text \<open>C20: A snapshot that was requested before an interaction changed does not undo the change: a
  request settled since is not shown again, and a request opened since stays, whatever the snapshot
  lists.\<close>

theorem snapshot_keeps_newer_changes:
  assumes "replica_step\<^sup>*\<^sup>* createReplicaState s" and "jget (rp_interactionChanges s) i = Some c"
    and "b < icg_revision c"
  shows "(\<forall>rq. rq \<in> set (rp_pendingInteractions (applyAgentSnapshot s p (Some b))) \<and> rq_requestId rq = i
      \<longleftrightarrow> icg_request c = Some rq)"
proof -
  from replica_reachable_ok [OF assms(1) interactions_ok_create]
  have j: "journal_ok (rp_interactionChanges s) (rp_interactionRevision s)" by (simp add: interactions_ok_def)
  then have wfj: "wf_jmap (rp_interactionChanges s)" by (simp add: journal_ok_def)
  let ?m = "snapshot_requests s p b"
  have pend: "rp_pendingInteractions (applyAgentSnapshot s p (Some b)) = jvalues ?m"
    by (rule snapshot_form [of s p "Some b"]) simp
  have get: "jget ?m i = icg_request c"
    using assms(2,3) by (simp add: snapshot_requests_def overlay_get obj_entries_distinct obj_entries_get wfj)
  note m = snapshot_requests_ok(1,2) [OF j, of p b]
  have "rq \<in> set (jvalues ?m) \<and> rq_requestId rq = i \<longleftrightarrow> jget ?m i = Some rq" for rq
  proof
    assume "rq \<in> set (jvalues ?m) \<and> rq_requestId rq = i"
    then obtain k where "(k, rq) \<in> set ?m" "rq_requestId rq = i" by auto
    with m(2) [of k rq] jget_mem [OF m(1), of k rq] show "jget ?m i = Some rq" by simp
  next
    assume "jget ?m i = Some rq"
    with m(2) show "rq \<in> set (jvalues ?m) \<and> rq_requestId rq = i"
      by (force dest: map_of_SomeD)
  qed
  with pend get show ?thesis by simp
qed

theorem snapshot_keeps_newer_changes_witness:
  "\<not> (\<exists>rq \<in> set (rp_pendingInteractions (applyAgentSnapshot sample_open sample_session (Some 0))).
        rq_requestId rq = ''q1'')"
proof -
  have c: "jget (rp_interactionChanges sample_open) ''q1'' = Some \<lparr>icg_revision = 1, icg_request = None\<rparr>"
    by (simp add: sample_open_def applyInteractionResolved_def applyAgentSnapshot_def Let_def
        snapshot_outcome_def sample_session_def createReplicaState_def)
  from snapshot_keeps_newer_changes [OF sample_open_reachable c, of 0 sample_session] show ?thesis by auto
qed

end
