(* ===== verification/Json_Text.thy ===== *)
theory Json_Text
  imports Js_Text
begin

text \<open>
  JavaScript values as the relay hands them to \<open>JSON.stringify\<close> and \<open>JSON.parse\<close>, and the text
  these functions produce. Numbers are the integers (the doubles with a fraction have no place in
  what the components encode) and the non-finite ones; a value without JSON form (a function, a
  symbol, a big integer) is \<open>JsOpaque\<close>. Objects are trees: a cyclic object has no value here.
\<close>

section \<open>Values and their JSON text\<close>

datatype js_value =
    JsUndefined
  | JsNull
  | JsBool bool
  | JsInt int
  | JsNonFinite
  | JsString string
  | JsArray "js_value list"
  | JsObject "(string \<times> js_value) list"
  | JsOpaque

definition hex_digit :: "nat \<Rightarrow> char" where
  "hex_digit n = (if n < 10 then char_of (48 + n) else char_of (87 + n))"

definition short_escape :: "char \<Rightarrow> char option" where
  "short_escape c =
     (if c = CHR 0x22 then Some (CHR 0x22)
      else if c = CHR 0x5C then Some (CHR 0x5C)
      else if c = CHR 0x08 then Some (CHR ''b'')
      else if c = CHR 0x09 then Some (CHR ''t'')
      else if c = CHR 0x0A then Some (CHR ''n'')
      else if c = CHR 0x0C then Some (CHR ''f'')
      else if c = CHR 0x0D then Some (CHR ''r'')
      else None)"

definition escape_char :: "char \<Rightarrow> string" where
  "escape_char c =
     (case short_escape c of
        Some e \<Rightarrow> [CHR 0x5C, e]
      | None \<Rightarrow>
          let n = (of_char c :: nat) in
          if n < 32 then [CHR 0x5C, CHR ''u'', CHR ''0'', CHR ''0'', hex_digit (n div 16), hex_digit (n mod 16)]
          else [c])"

definition quote :: "string \<Rightarrow> string" where
  "quote s = CHR 0x22 # concat (map escape_char s) @ [CHR 0x22]"

definition int_text :: "int \<Rightarrow> string" where
  "int_text i = (if i < 0 then CHR ''-'' # decimal (nat (- i)) else decimal (nat i))"

fun comma_join :: "string list \<Rightarrow> string" where
  "comma_join [] = []"
| "comma_join [s] = s"
| "comma_join (s # t # ts) = s @ CHR '','' # comma_join (t # ts)"

text \<open>
  \<open>JSON.stringify\<close>: \<open>None\<close> is the result \<open>undefined\<close>. A member without JSON form is left out of an
  object and becomes \<open>null\<close> in an array; members appear in enumeration order.
\<close>

primrec stringify :: "js_value \<Rightarrow> string option" where
  "stringify JsUndefined = None"
| "stringify JsNull = Some ''null''"
| "stringify (JsBool b) = Some (if b then ''true'' else ''false'')"
| "stringify (JsInt i) = Some (int_text i)"
| "stringify JsNonFinite = Some ''null''"
| "stringify (JsString s) = Some (quote s)"
| "stringify (JsArray xs) =
     Some (CHR ''['' # comma_join (map (\<lambda>t. case t of None \<Rightarrow> ''null'' | Some s \<Rightarrow> s) (map stringify xs)) @ '']'')"
| "stringify (JsObject ms) =
     Some (CHR ''{'' # comma_join (concat (map (\<lambda>(k, t). case t of None \<Rightarrow> [] | Some s \<Rightarrow> [quote k @ CHR '':'' # s])
       (obj_entries (map (map_prod id stringify) ms)))) @ ''}'')"
| "stringify JsOpaque = None"

text \<open>\<open>JSON.parse(JSON.stringify(v))\<close>: what survives a round trip through text.\<close>

primrec json_copy :: "js_value \<Rightarrow> js_value option" where
  "json_copy JsUndefined = None"
| "json_copy JsNull = Some JsNull"
| "json_copy (JsBool b) = Some (JsBool b)"
| "json_copy (JsInt i) = Some (JsInt i)"
| "json_copy JsNonFinite = Some JsNull"
| "json_copy (JsString s) = Some (JsString s)"
| "json_copy (JsArray xs) =
     Some (JsArray (map (\<lambda>t. case t of None \<Rightarrow> JsNull | Some v \<Rightarrow> v) (map json_copy xs)))"
| "json_copy (JsObject ms) =
     Some (JsObject (concat (map (\<lambda>(k, t). case t of None \<Rightarrow> [] | Some v \<Rightarrow> [(k, v)])
       (obj_entries (map (map_prod id json_copy) ms)))))"
| "json_copy JsOpaque = None"

lemma json_copy_None: "json_copy v = None \<longleftrightarrow> stringify v = None"
  by (cases v) auto

text \<open>A value that JSON represents as it is.\<close>

fun plain_json :: "js_value \<Rightarrow> bool" where
  "plain_json JsNull = True"
| "plain_json (JsBool b) = True"
| "plain_json (JsInt i) = True"
| "plain_json (JsString s) = True"
| "plain_json (JsArray xs) = (\<forall>x \<in> set xs. plain_json x)"
| "plain_json (JsObject ms) = (distinct (map fst ms) \<and> obj_entries ms = ms \<and> (\<forall>m \<in> set ms. plain_json (snd m)))"
| "plain_json v = False"

section \<open>Equal texts come from equal values\<close>

lemma short_escape_inj: "short_escape c = Some e \<Longrightarrow> short_escape d = Some e \<Longrightarrow> c = d"
  by (auto simp: short_escape_def split: if_splits)

lemma short_escape_not_u: "short_escape c \<noteq> Some (CHR ''u'')"
  by (simp add: short_escape_def)

lemma of_char_hex_digit: "n < 16 \<Longrightarrow> (of_char (hex_digit n) :: nat) = (if n < 10 then 48 + n else 87 + n)"
  by (simp add: hex_digit_def)

lemma hex_digit_inj: "m < 16 \<Longrightarrow> n < 16 \<Longrightarrow> hex_digit m = hex_digit n \<Longrightarrow> m = n"
  by (drule arg_cong [where f = "of_char :: char \<Rightarrow> nat"]) (auto simp: of_char_hex_digit split: if_splits)

lemma escape_char_cases:
  obtains (short) e where "escape_char c = [CHR 0x5C, e]" "short_escape c = Some e" "e \<noteq> CHR ''u''"
  | (long) n where "n = (of_char c :: nat)" "n < 32"
      "escape_char c = [CHR 0x5C, CHR ''u'', CHR ''0'', CHR ''0'', hex_digit (n div 16), hex_digit (n mod 16)]"
  | (plain) "escape_char c = [c]" "c \<noteq> CHR 0x22" "c \<noteq> CHR 0x5C"
proof (cases "short_escape c")
  case None
  then have "c \<noteq> CHR 0x22" "c \<noteq> CHR 0x5C" by (auto simp: short_escape_def)
  with None that(2,3) show ?thesis by (cases "(of_char c :: nat) < 32") (auto simp: escape_char_def Let_def)
next
  case (Some e)
  with short_escape_not_u [of c] that(1) show ?thesis by (auto simp: escape_char_def)
qed

lemma escape_char_prefix: "escape_char c @ r = escape_char d @ s \<Longrightarrow> c = d \<and> r = s"
proof (cases c rule: escape_char_cases)
  case short
  then show "escape_char c @ r = escape_char d @ s \<Longrightarrow> ?thesis"
    using short_escape_inj by (cases d rule: escape_char_cases) auto
next
  case c: (long m)
  show "escape_char c @ r = escape_char d @ s \<Longrightarrow> ?thesis"
  proof (cases d rule: escape_char_cases)
    case d: (long n)
    assume "escape_char c @ r = escape_char d @ s"
    with c d have rs: "r = s" and "hex_digit (m div 16) = hex_digit (n div 16)"
      "hex_digit (m mod 16) = hex_digit (n mod 16)" by simp_all
    with c(2) d(2) have "m div 16 = n div 16" "m mod 16 = n mod 16"
      by (auto intro!: hex_digit_inj)
    then have "m = n" by (metis div_mult_mod_eq)
    with c(1) d(1) rs show ?thesis by simp
  qed (use c in auto)
next
  case plain
  then show "escape_char c @ r = escape_char d @ s \<Longrightarrow> ?thesis"
    by (cases d rule: escape_char_cases) auto
qed

lemma escape_char_not_quote: "escape_char c @ r \<noteq> CHR 0x22 # s"
  by (cases c rule: escape_char_cases) auto

lemma quote_prefix: "quote a @ r = quote b @ s \<Longrightarrow> a = b \<and> r = s"
proof -
  have "concat (map escape_char a) @ CHR 0x22 # r = concat (map escape_char b) @ CHR 0x22 # s \<Longrightarrow>
      a = b \<and> r = s" for r s
  proof (induction a arbitrary: b)
    case Nil
    show ?case
    proof (cases b)
      case (Cons d b')
      with Nil have "escape_char d @ (concat (map escape_char b') @ CHR 0x22 # s) = CHR 0x22 # r" by simp
      with escape_char_not_quote show ?thesis by blast
    qed (use Nil in simp)
  next
    case (Cons c a)
    show ?case
    proof (cases b)
      case Nil
      with Cons.prems escape_char_not_quote [of c] show ?thesis by simp
    next
      case (Cons d b')
      with Cons.prems Cons.IH escape_char_prefix [of c _ d] show ?thesis by fastforce
    qed
  qed
  then show "quote a @ r = quote b @ s \<Longrightarrow> ?thesis" by (simp add: quote_def)
qed

declare decimal.simps [simp del]

lemma digit_char_digit: "n < 10 \<Longrightarrow> is_digit (digit_char n)"
  by (simp add: is_digit_def digit_char_def)

lemma decimal_digits: "\<forall>c \<in> set (decimal n). is_digit c"
  by (induction n rule: decimal.induct) (subst decimal.simps, auto simp: digit_char_digit)

lemma decimal_Nil [simp]: "decimal n \<noteq> []"
  by (subst decimal.simps) simp

lemma numeral_value_append:
  "numeral_value acc (s @ t) = (case numeral_value acc s of None \<Rightarrow> None | Some v \<Rightarrow> numeral_value v t)"
  by (induction s arbitrary: acc) (auto split: option.split)

lemma digit_value_char: "n < 10 \<Longrightarrow> digit_value (digit_char n) = Some n"
  by (simp add: digit_value_def digit_char_def)

lemma numeral_value_decimal: "numeral_value 0 (decimal n) = Some n"
proof (induction n rule: decimal.induct)
  case (1 n)
  show ?case
  proof (cases "n < 10")
    case False
    with 1 have "numeral_value 0 (decimal (n div 10)) = Some (n div 10)" by simp
    with False show ?thesis by (subst decimal.simps) (simp add: numeral_value_append digit_value_char)
  qed (subst decimal.simps, simp add: digit_value_char)
qed

definition no_digit :: "string \<Rightarrow> bool" where
  "no_digit r \<longleftrightarrow> r = [] \<or> \<not> is_digit (hd r)"

lemma decimal_prefix:
  assumes "no_digit r" "no_digit s" "decimal m @ r = decimal n @ s"
  shows "m = n \<and> r = s"
proof -
  have take: "takeWhile is_digit (decimal k @ t) = decimal k" if "no_digit t" for k t
    using that decimal_digits [of k] by (cases t) (auto simp: no_digit_def takeWhile_append2)
  from take [OF assms(1)] take [OF assms(2)] assms(3) have "decimal m = decimal n" by metis
  moreover from this have "m = n" by (metis numeral_value_decimal option.inject)
  ultimately show ?thesis using assms(3) by simp
qed

lemma decimal_hd: "decimal n = c # cs \<Longrightarrow> is_digit c"
  using decimal_digits [of n] by simp

lemma int_text_prefix:
  assumes "no_digit r" "no_digit s" "int_text i @ r = int_text j @ s"
  shows "i = j \<and> r = s"
proof -
  have neg: "decimal n @ t \<noteq> CHR ''-'' # u" for n t u
    using decimal_hd [of n] by (cases "decimal n") (auto simp: is_digit_def)
  show ?thesis
  proof (cases "i < 0")
    case i: True
    show ?thesis
    proof (cases "j < 0")
      case True
      with assms(3) i have "decimal (nat (- i)) @ r = decimal (nat (- j)) @ s" by (simp add: int_text_def)
      from decimal_prefix [OF assms(1,2) this] have "nat (- i) = nat (- j)" "r = s" by simp_all
      moreover from this(1) i True have "- i = - j" by (subst (asm) eq_nat_nat_iff) simp_all
      ultimately show ?thesis by simp
    next
      case False
      with assms(3) i neg show ?thesis by (simp add: int_text_def) metis
    qed
  next
    case i: False
    show ?thesis
    proof (cases "j < 0")
      case True
      with assms(3) i neg show ?thesis by (simp add: int_text_def)
    next
      case False
      with assms(3) i have "decimal (nat i) @ r = decimal (nat j) @ s" by (simp add: int_text_def)
      from decimal_prefix [OF assms(1,2) this] have "nat i = nat j" "r = s" by simp_all
      with i False show ?thesis by (subst (asm) eq_nat_nat_iff) simp_all
    qed
  qed
qed

text \<open>Lists of items between separators.\<close>

lemma comma_join_Cons: "comma_join (t # ts) = t @ concat (map (\<lambda>u. CHR '','' # u) ts)"
  by (induction ts arbitrary: t) auto

lemma separated_prefix:
  assumes "\<And>x y r s. x \<in> set xs \<Longrightarrow> y \<in> set ys \<Longrightarrow> no_digit r \<Longrightarrow> no_digit s \<Longrightarrow>
      p x @ r = p y @ s \<Longrightarrow> x = y \<and> r = s"
    and "e \<noteq> CHR '',''" "\<not> is_digit e"
    and "concat (map (\<lambda>x. CHR '','' # p x) xs) @ e # r = concat (map (\<lambda>x. CHR '','' # p x) ys) @ e # s"
  shows "xs = ys \<and> r = s"
  using assms(1,4)
proof (induction xs arbitrary: ys)
  case Nil
  then show ?case using assms(2) by (cases ys) auto
next
  case (Cons x xs)
  show ?case
  proof (cases ys)
    case Nil
    with Cons.prems(2) assms(2) show ?thesis by auto
  next
    case ys: (Cons y ys')
    have tail: "no_digit (concat (map (\<lambda>x. CHR '','' # p x) zs) @ e # t)" for zs t
      using assms(3) by (cases zs) (auto simp: no_digit_def is_digit_def)
    from Cons.prems(2) ys have "p x @ (concat (map (\<lambda>x. CHR '','' # p x) xs) @ e # r)
      = p y @ (concat (map (\<lambda>x. CHR '','' # p x) ys') @ e # s)" by simp
    from Cons.prems(1) [OF _ _ tail tail this] ys have "x = y"
      and "concat (map (\<lambda>x. CHR '','' # p x) xs) @ e # r = concat (map (\<lambda>x. CHR '','' # p x) ys') @ e # s"
      by auto
    moreover from this(2) Cons.prems(1) ys have "xs = ys' \<and> r = s"
      by (intro Cons.IH) auto
    ultimately show ?thesis using ys by simp
  qed
qed

lemma comma_join_prefix:
  assumes p: "\<And>x y r s. x \<in> set xs \<Longrightarrow> y \<in> set ys \<Longrightarrow> no_digit r \<Longrightarrow> no_digit s \<Longrightarrow>
      p x @ r = p y @ s \<Longrightarrow> x = y \<and> r = s"
    and first: "\<And>x r s. x \<in> set xs \<union> set ys \<Longrightarrow> p x @ r \<noteq> e # s"
    and e: "e \<noteq> CHR '',''" "\<not> is_digit e"
    and eq: "comma_join (map p xs) @ e # r = comma_join (map p ys) @ e # s"
  shows "xs = ys \<and> r = s"
proof (cases xs)
  case Nil
  with eq first [of "hd ys"] show ?thesis
    by (cases ys) (auto simp: comma_join_Cons, metis)
next
  case xs: (Cons x xs')
  show ?thesis
  proof (cases ys)
    case Nil
    with eq first [of x] xs show ?thesis by (auto simp: comma_join_Cons)
  next
    case ys: (Cons y ys')
    from eq xs ys have "concat (map (\<lambda>x. CHR '','' # p x) xs) @ e # r = concat (map (\<lambda>x. CHR '','' # p x) ys) @ e # s"
      by (simp add: comma_join_Cons comp_def)
    from separated_prefix [of xs ys p e r s, OF p e this] show ?thesis by blast
  qed
qed

lemma sort_key_map_snd: "sort_key (\<lambda>e. f (fst e)) (map (map_prod id g) ms) = map (map_prod id g) (sort_key (\<lambda>e. f (fst e)) ms)"
proof -
  have insort: "insort_key (\<lambda>e. f (fst e)) (map_prod id g x) (map (map_prod id g) zs)
      = map (map_prod id g) (insort_key (\<lambda>e. f (fst e)) x zs)" for x zs
    by (induction zs) auto
  show ?thesis by (induction ms) (simp_all only: list.map sort_key_simps insort)
qed

text \<open>The text of a plain value, and the text of a member.\<close>

abbreviation print :: "js_value \<Rightarrow> string" where
  "print v \<equiv> the (stringify v)"

abbreviation print_member :: "string \<times> js_value \<Rightarrow> string" where
  "print_member m \<equiv> quote (fst m) @ CHR '':'' # print (snd m)"

lemma plain_json_stringify: "plain_json v \<Longrightarrow> stringify v = Some (print v)"
  by (cases v) auto

lemma plain_json_case:
  "plain_json v \<Longrightarrow> (case stringify v of None \<Rightarrow> a | Some s \<Rightarrow> f s) = f (print v)"
  by (drule plain_json_stringify) (erule ssubst, simp)

lemma obj_entries_map: "obj_entries (map (map_prod id f) ms) = map (map_prod id f) (obj_entries ms)"
  by (simp add: obj_entries_def filter_map comp_def sort_key_map_snd [where f = "\<lambda>k. the (array_index k)"])

lemma print_array: "(\<forall>x \<in> set xs. plain_json x) \<Longrightarrow>
    print (JsArray xs) = CHR ''['' # comma_join (map print xs) @ '']''"
proof -
  assume "\<forall>x \<in> set xs. plain_json x"
  then have "map (\<lambda>t. case t of None \<Rightarrow> ''null'' | Some s \<Rightarrow> s) (map stringify xs) = map print xs"
    by (induction xs) (simp_all add: plain_json_case)
  then show ?thesis by (simp only: stringify.simps option.sel)
qed

lemma print_object: "plain_json (JsObject ms) \<Longrightarrow>
    print (JsObject ms) = CHR ''{'' # comma_join (map print_member ms) @ ''}''"
proof -
  assume plain: "plain_json (JsObject ms)"
  then have "\<forall>m \<in> set ms. plain_json (snd m)" by simp
  then have "concat (map (\<lambda>(k, t). case t of None \<Rightarrow> [] | Some s \<Rightarrow> [quote k @ CHR '':'' # s])
      (map (map_prod id stringify) ms)) = map print_member ms"
    by (induction ms) (auto simp: plain_json_case)
  with plain show ?thesis by (simp only: stringify.simps option.sel obj_entries_map plain_json.simps)
qed

lemma int_text_first: "\<not> is_digit c \<Longrightarrow> c \<noteq> CHR ''-'' \<Longrightarrow> int_text i @ r \<noteq> c # s"
  using decimal_digits [of "nat i"] by (cases "decimal (nat i)") (auto simp: int_text_def)

lemma int_text_first': "\<not> is_digit c \<Longrightarrow> c \<noteq> CHR ''-'' \<Longrightarrow> c # s \<noteq> int_text i @ r"
  using int_text_first by metis

lemma print_first:
  "plain_json v \<Longrightarrow> print v @ r \<noteq> CHR '']'' # s"
  by (cases v) (auto simp: int_text_first is_digit_def quote_def)

lemma print_prefix:
  "plain_json v \<Longrightarrow> plain_json w \<Longrightarrow> no_digit r \<Longrightarrow> no_digit s \<Longrightarrow>
   print v @ r = print w @ s \<Longrightarrow> v = w \<and> r = s"
proof (induction v arbitrary: w r s)
  case (JsInt i)
  show ?case
  proof (cases w)
    case w: (JsInt j)
    with JsInt.prems int_text_prefix [OF JsInt.prems(3,4), of i j] show ?thesis by simp
  qed (use JsInt.prems in \<open>auto simp: int_text_first is_digit_def quote_def split: if_splits\<close>)
next
  case (JsString a)
  show ?case
  proof (cases w)
    case w: (JsString b)
    with JsString.prems quote_prefix [of a r b s] show ?thesis by simp
  qed (use JsString.prems in \<open>auto simp: int_text_first' is_digit_def quote_def split: if_splits\<close>)
next
  case (JsArray xs)
  show ?case
  proof (cases w)
    case w: (JsArray ys)
    from JsArray.prems w have eq: "comma_join (map print xs) @ CHR '']'' # r = comma_join (map print ys) @ CHR '']'' # s"
      by (simp only: print_array plain_json.simps) simp
    have "xs = ys \<and> r = s"
    proof (rule comma_join_prefix [OF _ _ _ _ eq])
      show "x = y \<and> r' = s'" if "x \<in> set xs" "y \<in> set ys" "no_digit r'" "no_digit s'"
        "print x @ r' = print y @ s'" for x y r' s'
        using JsArray.prems(1,2) w that(1,2) by (intro JsArray.IH [OF that(1) _ _ that(3,4,5)]) simp_all
      show "print x @ r' \<noteq> CHR '']'' # s'" if "x \<in> set xs \<union> set ys" for x r' s'
        using that JsArray.prems(1,2) w print_first by auto
    qed (simp_all add: is_digit_def)
    with w show ?thesis by simp
  qed (use JsArray.prems in \<open>auto simp: int_text_first' is_digit_def quote_def split: if_splits\<close>)
next
  case (JsObject ms)
  show ?case
  proof (cases w)
    case w: (JsObject ns)
    from JsObject.prems(1,2,5) w have eq: "comma_join (map print_member ms) @ CHR ''}'' # r = comma_join (map print_member ns) @ CHR ''}'' # s"
      by (simp only: print_object) simp
    have "ms = ns \<and> r = s"
    proof (rule comma_join_prefix [OF _ _ _ _ eq])
      show "m = n \<and> r' = s'" if "m \<in> set ms" "n \<in> set ns" "no_digit r'" "no_digit s'"
        "print_member m @ r' = print_member n @ s'" for m n r' s'
      proof -
        from that(5) quote_prefix [of "fst m" _ "fst n"] have key: "fst m = fst n"
          and rest: "print (snd m) @ r' = print (snd n) @ s'" by fastforce+
        from that(1,2) w JsObject.prems(1,2) have plain: "plain_json (snd m)" "plain_json (snd n)" by auto
        obtain k v where m: "m = (k, v)" by force
        have "snd m = snd n \<and> r' = s'"
          by (rule JsObject.IH [OF that(1) _ plain that(3,4) rest]) (simp add: m)
        with key show ?thesis by (simp add: prod_eq_iff)
      qed
      show "print_member m @ r' \<noteq> CHR ''}'' # s'" if "m \<in> set ms \<union> set ns" for m r' s'
        by (simp add: quote_def)
    qed (simp_all add: is_digit_def)
    with w show ?thesis by simp
  qed (use JsObject.prems in \<open>auto simp: int_text_first' is_digit_def quote_def split: if_splits\<close>)
next
  case JsNull
  then show ?case by (cases w) (auto simp: int_text_first' is_digit_def quote_def split: if_splits)
next
  case (JsBool b)
  then show ?case by (cases w) (auto simp: int_text_first' is_digit_def quote_def split: if_splits)
qed auto

theorem stringify_plain_inj:
  assumes "plain_json v" "plain_json w" "stringify v = stringify w"
  shows "v = w"
  using print_prefix [of v w "[]" "[]"] assms by (simp add: no_digit_def)

lemma json_copy_plain: "plain_json v \<Longrightarrow> json_copy v = Some v"
proof (induction v)
  case (JsArray xs)
  then have "map (\<lambda>t. case t of None \<Rightarrow> JsNull | Some v \<Rightarrow> v) (map json_copy xs) = xs"
    by (induction xs) auto
  then show ?case by (simp only: json_copy.simps)
next
  case (JsObject ms)
  from JsObject.prems have "\<forall>m \<in> set ms. plain_json (snd m)" by simp
  with JsObject.IH have "\<forall>m \<in> set ms. json_copy (snd m) = Some (snd m)" by fastforce
  then have "concat (map (\<lambda>(k, t). case t of None \<Rightarrow> [] | Some v \<Rightarrow> [(k, v)]) (map (map_prod id json_copy) ms)) = ms"
    by (induction ms) auto
  with JsObject.prems show ?case by (simp only: json_copy.simps obj_entries_map plain_json.simps)
qed simp_all

lemma plain_json_copy_simps [simp]: "json_copy v = None \<Longrightarrow> \<not> plain_json v"
  by (cases v) auto

section \<open>Mapping with a function that may throw\<close>

fun js_map :: "('a \<Rightarrow> 'b js_result) \<Rightarrow> 'a list \<Rightarrow> 'b list js_result" where
  "js_map f [] = Inr []"
| "js_map f (x # xs) =
     (case f x of Inl e \<Rightarrow> Inl e | Inr y \<Rightarrow>
        (case js_map f xs of Inl e \<Rightarrow> Inl e | Inr ys \<Rightarrow> Inr (y # ys)))"

lemma js_map_cong [fundef_cong]:
  "xs = ys \<Longrightarrow> (\<And>x. x \<in> set ys \<Longrightarrow> f x = g x) \<Longrightarrow> js_map f xs = js_map g ys"
  by (induction xs arbitrary: ys) (auto split: sum.split)

lemma js_map_Inr: "js_map f xs = Inr ys \<longleftrightarrow> list_all2 (\<lambda>x y. f x = Inr y) xs ys"
proof (induction xs arbitrary: ys)
  case (Cons x xs)
  show ?case by (cases ys) (auto simp: Cons.IH [symmetric] split: sum.split)
qed auto

end
