(* ===== verification/Operation_Intent.thy ===== *)
theory Operation_Intent
  imports Json_Text "HOL-Library.List_Lexorder" "HOL-Library.Char_ord"
begin

text \<open>
  \<open>canonicalJson\<close> of \<open>agent-remote-relay/src/operation-cache.ts\<close>: the text that identifies what an
  operation asks for. Two requests under one operation identity are the same operation exactly when
  these texts agree.
\<close>

section \<open>The canonical text of an intent\<close>

definition invalid_intent :: "string \<Rightarrow> 'a js_result" where
  "invalid_intent m = Inl (Thrown OperationCacheErrorClass ''invalid_operation_intent'' m)"

fun normalize :: "js_value \<Rightarrow> js_value js_result" where
  "normalize JsNull = Inr JsNull"
| "normalize (JsString s) = Inr (JsString s)"
| "normalize (JsBool b) = Inr (JsBool b)"
| "normalize (JsInt i) = Inr (JsInt i)"
| "normalize (JsArray xs) =
     (case js_map normalize xs of Inl e \<Rightarrow> Inl e | Inr ys \<Rightarrow> Inr (JsArray ys))"
| "normalize (JsObject ms) =
     (case js_map (\<lambda>m.
        if snd m = JsUndefined then invalid_intent ''Operation parameters must not contain undefined values.''
        else (case normalize (snd m) of Inl e \<Rightarrow> Inl e | Inr v \<Rightarrow> Inr (fst m, v))) (sort_key fst ms) of
        Inl e \<Rightarrow> Inl e
      | Inr ns \<Rightarrow> Inr (JsObject (obj_entries ns)))"
| "normalize _ = invalid_intent ''Operation parameters must be JSON values.''"

definition canonicalJson :: "js_value \<Rightarrow> string js_result" where
  "canonicalJson v = (case normalize v of Inl e \<Rightarrow> Inl e | Inr n \<Rightarrow> Inr (the (stringify n)))"

text \<open>
  What the text stands for: objects are compared as dictionaries, whatever the order in which their
  members were written. \<open>wf_value\<close> says that no object repeats a key.
\<close>

fun wf_value :: "js_value \<Rightarrow> bool" where
  "wf_value (JsArray xs) = (\<forall>x \<in> set xs. wf_value x)"
| "wf_value (JsObject ms) = (distinct (map fst ms) \<and> (\<forall>m \<in> set ms. wf_value (snd m)))"
| "wf_value _ = True"

lemma zip_sizes [termination_simp]:
  "p \<in> set (zip xs ys) \<Longrightarrow> size (fst p) < Suc (size_list size xs)"
  "p \<in> set (zip xs ys) \<Longrightarrow> size (snd p) < Suc (size_list size ys)"
  by (metis less_Suc_eq_le order_refl prod.collapse set_zip_leftD size_list_estimation')
    (metis less_Suc_eq_le order_refl prod.collapse set_zip_rightD size_list_estimation')

fun same_value :: "js_value \<Rightarrow> js_value \<Rightarrow> bool" where
  "same_value (JsArray xs) (JsArray ys) =
     (length xs = length ys \<and> (\<forall>p \<in> set (zip xs ys). same_value (fst p) (snd p)))"
| "same_value (JsObject ms) (JsObject ns) =
     (set (map fst ms) = set (map fst ns) \<and>
      (\<forall>m \<in> set ms. \<forall>n \<in> set ns. fst m = fst n \<longrightarrow> same_value (snd m) (snd n)))"
| "same_value v w = (v = w)"

section \<open>The text identifies the intent\<close>

lemma obj_entries_idem [simp]: "obj_entries (obj_entries ms) = obj_entries ms"
proof -
  have none: "filter (\<lambda>x. array_index (fst x) = None \<and> (\<exists>y. array_index (fst x) = Some y)) ms = []"
    "filter (\<lambda>x. (\<exists>y. array_index (fst x) = Some y) \<and> array_index (fst x) = None) ms = []"
    by (auto simp: filter_empty_conv)
  have "filter (\<lambda>e. array_index (fst e) \<noteq> None) (obj_entries ms)
      = sort_key (\<lambda>e. the (array_index (fst e))) (filter (\<lambda>e. array_index (fst e) \<noteq> None) ms)"
    by (simp add: obj_entries_def filter_sort none)
  moreover have "filter (\<lambda>e. array_index (fst e) = None) (obj_entries ms) = filter (\<lambda>e. array_index (fst e) = None) ms"
    by (simp add: obj_entries_def filter_sort none)
  ultimately show ?thesis
    by (simp only: obj_entries_def [of "obj_entries ms"]) (simp only: obj_entries_def sort_key_ident [OF sorted_sort_key])
qed

lemma distinct_obj_entries: "distinct (map fst ms) \<Longrightarrow> distinct (map fst (obj_entries ms))"
  by (auto simp: obj_entries_def distinct_map intro: inj_on_subset)

lemma sorted_pairs_unique:
  assumes "distinct (map fst xs)" "distinct (map fst ys)" "set xs = set ys"
  shows "sort_key fst xs = sort_key fst ys"
  using assms
  by (intro map_sorted_distinct_set_unique [where f = fst]) (auto simp: distinct_map)

lemma normalize_member:
  "(if snd m = JsUndefined then invalid_intent t
    else case normalize (snd m) of Inl e \<Rightarrow> Inl e | Inr v \<Rightarrow> Inr (fst m, v)) = Inr k \<longleftrightarrow>
   fst k = fst m \<and> snd m \<noteq> JsUndefined \<and> normalize (snd m) = Inr (snd k)"
  by (cases k) (auto simp: invalid_intent_def split: sum.split)

lemma js_bind_Inr:
  "(case M of Inl e \<Rightarrow> Inl e | Inr ns \<Rightarrow> Inr (f ns)) = Inr n \<longleftrightarrow> (\<exists>ns. n = f ns \<and> M = Inr ns)"
  by (auto split: sum.split)

lemma normalize_object:
  "normalize (JsObject ms) = Inr n \<longleftrightarrow>
   (\<exists>ns. n = JsObject (obj_entries ns) \<and>
      list_all2 (\<lambda>m k. fst k = fst m \<and> snd m \<noteq> JsUndefined \<and> normalize (snd m) = Inr (snd k)) (sort_key fst ms) ns)"
  by (simp only: normalize.simps js_bind_Inr js_map_Inr normalize_member)

lemma normalize_array:
  "normalize (JsArray xs) = Inr n \<longleftrightarrow> (\<exists>ys. n = JsArray ys \<and> list_all2 (\<lambda>x y. normalize x = Inr y) xs ys)"
  by (simp only: normalize.simps js_bind_Inr js_map_Inr)

lemma plain_normalize: "normalize v = Inr n \<Longrightarrow> wf_value v \<Longrightarrow> plain_json n"
proof (induction v arbitrary: n)
  case (JsArray xs)
  then obtain ys where n: "n = JsArray ys" and ys: "list_all2 (\<lambda>x y. normalize x = Inr y) xs ys"
    by (auto simp only: normalize_array)
  from JsArray.prems(2) have "\<forall>x \<in> set xs. wf_value x" by simp
  with ys JsArray.IH have "\<forall>y \<in> set ys. plain_json y"
    by (auto simp: list_all2_conv_all_nth in_set_conv_nth) (metis nth_mem)
  with n show ?case by simp
next
  case (JsObject ms)
  then obtain ns where n: "n = JsObject (obj_entries ns)" and
    ns: "list_all2 (\<lambda>m k. fst k = fst m \<and> snd m \<noteq> JsUndefined \<and> normalize (snd m) = Inr (snd k)) (sort_key fst ms) ns"
    by (auto simp only: normalize_object)
  from ns have "map fst ns = map fst (sort_key fst ms)"
    by (auto simp: list_all2_conv_all_nth list_eq_iff_nth_eq)
  moreover from JsObject.prems(2) have "distinct (map fst (sort_key fst ms))"
    by (simp add: distinct_map)
  moreover have "plain_json (snd k)" if "k \<in> set ns" for k
  proof -
    from that obtain i where i: "i < length ns" "k = ns ! i" by (auto simp: in_set_conv_nth)
    define m where "m = sort_key fst ms ! i"
    from i ns have "m \<in> set (sort_key fst ms)" "normalize (snd m) = Inr (snd k)"
      unfolding m_def by (simp_all only: list_all2_conv_all_nth nth_mem)
    with JsObject.IH [of m "snd m" "snd k"] JsObject.prems(2) show ?thesis
      by (cases m) auto
  qed
  ultimately show ?case by (simp add: n distinct_obj_entries)
qed (auto simp: invalid_intent_def)

definition nf :: "js_value \<Rightarrow> js_value" where
  "nf v = projr (normalize v)"

lemma normalize_nf: "normalize v = Inr n \<Longrightarrow> nf v = n"
  by (simp add: nf_def)

lemma sort_key_fst_map: "sort_key fst (map (map_prod id g) ms) = map (map_prod id g) (sort_key fst ms)"
  using sort_key_map_snd [of "\<lambda>k. k" g ms] by simp

lemma object_nf:
  "normalize (JsObject ms) = Inr n \<Longrightarrow>
   n = JsObject (obj_entries (sort_key fst (map (map_prod id nf) ms))) \<and>
   (\<forall>m \<in> set ms. normalize (snd m) = Inr (nf (snd m)))"
proof -
  assume "normalize (JsObject ms) = Inr n"
  then obtain ns where n: "n = JsObject (obj_entries ns)" and
    ns: "list_all2 (\<lambda>m k. fst k = fst m \<and> snd m \<noteq> JsUndefined \<and> normalize (snd m) = Inr (snd k)) (sort_key fst ms) ns"
    by (auto simp only: normalize_object)
  have len: "length ns = length (sort_key fst ms)" by (rule list_all2_lengthD [OF ns, symmetric])
  from ns have each: "fst (ns ! i) = fst (sort_key fst ms ! i) \<and> normalize (snd (sort_key fst ms ! i)) = Inr (snd (ns ! i))"
    if "i < length ns" for i using that by (simp only: list_all2_conv_all_nth)
  have "ns = map (map_prod id nf) (sort_key fst ms)"
  proof (rule nth_equalityI)
    fix i assume i: "i < length ns"
    with each normalize_nf have "ns ! i = map_prod id nf (sort_key fst ms ! i)"
      by (simp add: prod_eq_iff)
    with i len show "ns ! i = map (map_prod id nf) (sort_key fst ms) ! i" by simp
  qed (simp add: len)
  moreover have "normalize (snd m) = Inr (nf (snd m))" if "m \<in> set ms" for m
  proof -
    from that have "m \<in> set (sort_key fst ms)" by simp
    then obtain i where "i < length ns" "m = sort_key fst ms ! i" by (auto simp only: in_set_conv_nth len)
    with each [of i] show ?thesis by (auto simp: normalize_nf)
  qed
  ultimately show ?thesis by (simp only: n sort_key_fst_map) simp
qed

lemma array_nf:
  "normalize (JsArray xs) = Inr n \<Longrightarrow>
   n = JsArray (map nf xs) \<and> (\<forall>x \<in> set xs. normalize x = Inr (nf x))"
proof -
  assume "normalize (JsArray xs) = Inr n"
  then obtain ys where n: "n = JsArray ys" and ys: "list_all2 (\<lambda>x y. normalize x = Inr y) xs ys"
    by (auto simp only: normalize_array)
  from ys have "ys = map nf xs \<and> (\<forall>x \<in> set xs. normalize x = Inr (nf x))"
  proof (induction rule: list_all2_induct)
    case (Cons x xs y ys)
    with normalize_nf [OF Cons(1)] show ?case by simp
  qed simp
  with n show ?thesis by simp
qed

lemma dictionaries_agree:
  assumes "distinct (map fst xs)" "distinct (map fst ys)"
  shows "obj_entries (sort_key fst xs) = obj_entries (sort_key fst ys) \<longleftrightarrow>
     fst ` set xs = fst ` set ys \<and> (\<forall>x \<in> set xs. \<forall>y \<in> set ys. fst x = fst y \<longrightarrow> snd x = snd y)"
    (is "?l \<longleftrightarrow> ?r")
proof
  assume ?l
  then have "set (obj_entries (sort_key fst xs)) = set (obj_entries (sort_key fst ys))" by simp
  then have eq: "set ys = set xs" by simp
  have "snd x = snd y" if "x \<in> set xs" "y \<in> set xs" "fst x = fst y" for x y
  proof -
    from assms(1) have "inj_on fst (set xs)" by (simp add: distinct_map)
    from inj_onD [OF this that(3,1,2)] show ?thesis by simp
  qed
  then have "\<forall>x \<in> set xs. \<forall>y \<in> set ys. fst x = fst y \<longrightarrow> snd x = snd y"
    unfolding eq by blast
  moreover have "fst ` set xs = fst ` set ys" unfolding eq ..
  ultimately show ?r by (rule conjI [rotated])
next
  assume r: ?r
  have "set xs = set ys"
  proof (intro equalityI subsetI)
    fix x assume x: "x \<in> set xs"
    with r have "fst x \<in> fst ` set ys" by blast
    then obtain y where y: "y \<in> set ys" "fst x = fst y" by blast
    with r x have "x = y" by (simp add: prod_eq_iff)
    with y show "x \<in> set ys" by simp
  next
    fix y assume y: "y \<in> set ys"
    with r have "fst y \<in> fst ` set xs" by blast
    then obtain x where x: "x \<in> set xs" "fst y = fst x" by blast
    with r y have "snd x = snd y" by simp
    with x have "x = y" by (simp add: prod_eq_iff)
    with x show "y \<in> set xs" by simp
  qed
  with sorted_pairs_unique [OF assms] show ?l by simp
qed

lemma normalize_atom:
  "normalize w = Inr JsNull \<longleftrightarrow> w = JsNull"
  "normalize w = Inr (JsBool b) \<longleftrightarrow> w = JsBool b"
  "normalize w = Inr (JsInt i) \<longleftrightarrow> w = JsInt i"
  "normalize w = Inr (JsString t) \<longleftrightarrow> w = JsString t"
  by (cases w; auto simp: invalid_intent_def split: sum.split)+

lemma map_eq_zip:
  "map f xs = map f ys \<longleftrightarrow> length xs = length ys \<and> (\<forall>p \<in> set (zip xs ys). f (fst p) = f (snd p))"
  by (induction xs ys rule: list_induct2') auto

lemma same_value_nf:
  "wf_value v \<Longrightarrow> wf_value w \<Longrightarrow> normalize v = Inr m \<Longrightarrow> normalize w = Inr n \<Longrightarrow>
   m = n \<longleftrightarrow> same_value v w"
proof (induction v w arbitrary: m n rule: same_value.induct)
  case (1 xs ys)
  from array_nf [OF 1(4)] have m: "m = JsArray (map nf xs)" and
    xs: "\<And>x. x \<in> set xs \<Longrightarrow> normalize x = Inr (nf x)" by auto
  from array_nf [OF 1(5)] have n: "n = JsArray (map nf ys)" and
    ys: "\<And>y. y \<in> set ys \<Longrightarrow> normalize y = Inr (nf y)" by auto
  have each: "nf (fst p) = nf (snd p) \<longleftrightarrow> same_value (fst p) (snd p)" if p: "p \<in> set (zip xs ys)" for p
  proof -
    from p have in_both: "fst p \<in> set xs" "snd p \<in> set ys"
      by (metis prod.collapse set_zip_leftD, metis prod.collapse set_zip_rightD)
    with 1(2,3) show ?thesis by (intro "1.IH" [OF p] xs ys) simp_all
  qed
  have "map nf xs = map nf ys \<longleftrightarrow> length xs = length ys \<and> (\<forall>p \<in> set (zip xs ys). nf (fst p) = nf (snd p))"
    by (rule map_eq_zip)
  with each show ?case by (simp add: m n)
next
  case (2 ms ns)
  from object_nf [OF 2(4)] have m: "m = JsObject (obj_entries (sort_key fst (map (map_prod id nf) ms)))" and
    ms: "\<And>x. x \<in> set ms \<Longrightarrow> normalize (snd x) = Inr (nf (snd x))" by auto
  from object_nf [OF 2(5)] have n: "n = JsObject (obj_entries (sort_key fst (map (map_prod id nf) ns)))" and
    ns: "\<And>y. y \<in> set ns \<Longrightarrow> normalize (snd y) = Inr (nf (snd y))" by auto
  have each: "nf (snd x) = nf (snd y) \<longleftrightarrow> same_value (snd x) (snd y)"
    if "x \<in> set ms" "y \<in> set ns" "fst x = fst y" for x y
    using that 2(2,3) by (intro "2.IH" [OF that] ms ns) simp_all
  have keys: "map fst (map (map_prod id nf) zs) = map fst zs" for zs :: "(string \<times> js_value) list"
    by simp
  from 2(2,3) have "distinct (map fst (map (map_prod id nf) ms))" "distinct (map fst (map (map_prod id nf) ns))"
    by (simp_all only: keys wf_value.simps)
  from dictionaries_agree [OF this]
  have "m = n \<longleftrightarrow> fst ` set ms = fst ` set ns \<and> (\<forall>x \<in> set ms. \<forall>y \<in> set ns. fst x = fst y \<longrightarrow> nf (snd x) = nf (snd y))"
    by (simp add: m n image_image)
  with each show ?case by simp
qed (auto simp: invalid_intent_def normalize_atom split: sum.splits)

lemma canonical_intent:
  assumes "wf_value v" "wf_value w" "canonicalJson v = Inr t" "canonicalJson w = Inr u"
  shows "t = u \<longleftrightarrow> same_value v w"
proof -
  from assms(3,4) obtain m n where mn: "normalize v = Inr m" "normalize w = Inr n"
    "t = the (stringify m)" "u = the (stringify n)"
    by (auto simp: canonicalJson_def split: sum.splits)
  from plain_normalize mn assms(1,2) have plain: "plain_json m" "plain_json n" by blast+
  then have "t = u \<longleftrightarrow> m = n"
    using stringify_plain_inj plain_json_stringify mn(3,4) by metis
  with same_value_nf [OF assms(1,2) mn(1,2)] show ?thesis by simp
qed

text \<open>C23: Two intents have the same canonical text exactly when they are the same value, the
  members of objects compared as dictionaries; the order in which a client writes them is
  irrelevant, and no two different intents share a text.\<close>

theorem canonical_text_identifies_intent:
  assumes "wf_value v" "wf_value w" "canonicalJson v = Inr t" "canonicalJson w = Inr u"
  shows "t = u \<longleftrightarrow> same_value v w"
  by (rule canonical_intent [OF assms])

lemma canonical_text_identifies_intent_witness:
  "same_value (JsObject [(''text'', JsString ''hi''), (''2'', JsInt 7)]) (JsObject [(''2'', JsInt 7), (''text'', JsString ''hi'')])"
proof -
  let ?a = "JsObject [(''text'', JsString ''hi''), (''2'', JsInt 7)]"
  let ?b = "JsObject [(''2'', JsInt 7), (''text'', JsString ''hi'')]"
  have n: "canonicalJson ?a = canonicalJson ?b" "\<exists>t. canonicalJson ?a = Inr t"
    by (simp_all add: canonicalJson_def)
  then obtain t where "canonicalJson ?a = Inr t" "canonicalJson ?b = Inr t" by auto
  from canonical_text_identifies_intent [OF _ _ this] show ?thesis by simp
qed

end
