(* ===== verification/Operation_Cache.thy ===== *)
theory Operation_Cache
  imports Operation_Intent
begin

text \<open>
  \<open>agent-remote-relay/src/operation-cache.ts\<close>: the cache that makes operations of clients
  idempotent. An operation is identified by a UUID within a scope; the first request reserves
  space for its receipt and runs, a repetition joins the run or is answered from the receipt.

  \<open>mutation_state\<close> objects are shared between an entry and the closures handed to the work, so they
  live in a heap (\<open>oc_mutations\<close>) under an identity; \<open>oc_next\<close> supplies fresh identities. The
  asynchronous body of an operation is cut at its suspension points: \<open>execute\<close> up to the
  reservation, \<open>reject_before\<close> for a failed admission or validation, \<open>dispatch_failed\<close> and
  \<open>dispatch_returned\<close> for the settlement. \<open>sha256\<close> (of the runtime library) is a parameter.
\<close>

section \<open>Data\<close>

record operation_descriptor =
  od_id :: string
  od_scope :: string
  od_kind :: string
  od_target :: string
  od_parameters :: js_value

record cache_options =
  op_ttl :: int
  op_max_entries :: int
  op_max_bytes :: int
  op_max_result_bytes :: int

datatype handle_kind = NativeHandle | AsyncHandle | ReservedHandle
datatype handle_state = HandlePending | HandleUnknown

record mutation_handle =
  mh_target :: string
  mh_kind :: handle_kind
  mh_state :: handle_state
  mh_pinned :: bool

record mutation_state =
  mu_targets :: "string list"
  mu_metadata :: int
  mu_reservation :: int
  mu_handles :: "(nat, mutation_handle) jmap"
  mu_result_bytes :: int
  mu_expired :: bool

datatype entry_state =
    InFlight
  | Completed "js_value option"
  | Rejected string "string option"
  | UnknownOutcome "string option"

record cache_entry =
  ce_fingerprint :: string
  ce_bytes :: int
  ce_mutation :: nat
  ce_state :: entry_state
  ce_settled_at :: int

record op_cache =
  oc_entries :: "(string, cache_entry) jmap"
  oc_enabled :: "(string, int) jmap"
  oc_mutations :: "nat \<Rightarrow> mutation_state"
  oc_next :: nat
  oc_retained :: int
  oc_closing :: bool
  oc_notified :: "string list"

section \<open>Checks and texts\<close>

definition cache_error :: "string \<Rightarrow> string \<Rightarrow> js_error" where
  "cache_error c m = Thrown OperationCacheErrorClass c m"

definition rejected_error :: "string \<Rightarrow> string \<Rightarrow> js_error" where
  "rejected_error c m = Thrown OperationRejectedError c m"

definition positive :: "int \<Rightarrow> string \<Rightarrow> int js_result" where
  "positive v name =
     (if \<not> is_safe_integer v \<or> v < 1
      then Inl (Thrown RangeErrorClass [] (name @ '' must be a positive safe integer.'')) else Inr v)"

definition validNow :: "int \<Rightarrow> int js_result" where
  "validNow now =
     (if \<not> is_safe_integer now \<or> now < 0
      then Inl (cache_error ''operation_clock_invalid'' ''Operation cache clock returned an invalid time.'')
      else Inr now)"

definition default_ttl_ms :: int where "default_ttl_ms = 600000"
definition default_max_entries :: int where "default_max_entries = 1000"
definition default_max_bytes :: int where "default_max_bytes = 8388608"
definition default_max_result_bytes :: int where "default_max_result_bytes = 262144"
definition default_result_reservation_bytes :: int where "default_result_reservation_bytes = 8192"
definition entry_overhead_bytes :: int where "entry_overhead_bytes = 256"

definition createOperationCache ::
  "int option \<Rightarrow> int option \<Rightarrow> int option \<Rightarrow> int option \<Rightarrow> (cache_options \<times> op_cache) js_result" where
  "createOperationCache ttl entries bytes result =
     (case positive (case ttl of None \<Rightarrow> default_ttl_ms | Some v \<Rightarrow> v) ''ttlMs'' of Inl e \<Rightarrow> Inl e | Inr t \<Rightarrow>
     (case positive (case entries of None \<Rightarrow> default_max_entries | Some v \<Rightarrow> v) ''maxEntries'' of Inl e \<Rightarrow> Inl e | Inr n \<Rightarrow>
     (case positive (case bytes of None \<Rightarrow> default_max_bytes | Some v \<Rightarrow> v) ''maxBytes'' of Inl e \<Rightarrow> Inl e | Inr b \<Rightarrow>
     (case positive (case result of None \<Rightarrow> default_max_result_bytes | Some v \<Rightarrow> v) ''maxResultBytes'' of Inl e \<Rightarrow> Inl e | Inr r \<Rightarrow>
        Inr (\<lparr>op_ttl = t, op_max_entries = n, op_max_bytes = b, op_max_result_bytes = r\<rparr>,
          \<lparr>oc_entries = [], oc_enabled = [],
           oc_mutations = \<lambda>_. \<lparr>mu_targets = [], mu_metadata = 0, mu_reservation = 0, mu_handles = [],
             mu_result_bytes = 0, mu_expired = False\<rparr>,
           oc_next = 0, oc_retained = 0, oc_closing = False, oc_notified = []\<rparr>)))))"

definition max_pinned_entries :: "cache_options \<Rightarrow> int" where
  "max_pinned_entries opts = min 125 (op_max_entries opts div 8)"

definition max_pinned_bytes :: "cache_options \<Rightarrow> int" where
  "max_pinned_bytes opts = min (1024 * 1024) (op_max_bytes opts div 8)"

definition handle_bytes :: int where "handle_bytes = 64"

definition is_hex_char :: "char \<Rightarrow> bool" where
  "is_hex_char c = (let n = (of_char c :: nat) in (48 \<le> n \<and> n \<le> 57) \<or> (97 \<le> n \<and> n \<le> 102) \<or> (65 \<le> n \<and> n \<le> 70))"

definition uuid_pattern :: "(char \<Rightarrow> bool) list" where
  "uuid_pattern =
     replicate 8 is_hex_char @ [(=) (CHR ''-'')] @ replicate 4 is_hex_char @ [(=) (CHR ''-'')]
     @ [\<lambda>c. c \<in> set ''12345678''] @ replicate 3 is_hex_char @ [(=) (CHR ''-'')]
     @ [\<lambda>c. c \<in> set ''89abAB''] @ replicate 3 is_hex_char @ [(=) (CHR ''-'')]
     @ replicate 12 is_hex_char"

definition is_uuid :: "string \<Rightarrow> bool" where
  "is_uuid s = list_all2 (\<lambda>p c. p c) uuid_pattern s"

definition is_lower_letter :: "char \<Rightarrow> bool" where
  "is_lower_letter c = (let n = (of_char c :: nat) in 97 \<le> n \<and> n \<le> 122)"

definition safeErrorCode :: "js_error \<Rightarrow> string" where
  "safeErrorCode e =
     (case err_code e of
        [] \<Rightarrow> ''operation_rejected''
      | c # cs \<Rightarrow>
          if is_lower_letter c \<and> length cs \<le> 63
            \<and> list_all (\<lambda>d. is_lower_letter d \<or> is_digit d \<or> d = CHR ''_'') cs
          then c # cs else ''operation_rejected'')"

definition unknownOutcome :: "string option \<Rightarrow> js_error" where
  "unknownOutcome cause =
     (let detail = ''The operation may have reached the native runtime. Inspect native state before creating a new intent.'' in
      if cause = Some ''native_file_limit''
      then cache_error ''native_file_limit'' (''The native runtime reached its file descriptor limit. '' @ detail)
      else cache_error ''operation_outcome_unknown'' detail)"

definition entryBytes :: "string \<Rightarrow> int \<Rightarrow> int" where
  "entryBytes key result_bytes = entry_overhead_bytes + int (utf8_length key) + result_bytes"

section \<open>Accounting\<close>

definition handles_pinned :: "mutation_state \<Rightarrow> bool" where
  "handles_pinned mu = list_ex mh_pinned (jvalues (mu_handles mu))"

definition pinned :: "op_cache \<Rightarrow> cache_entry \<Rightarrow> bool" where
  "pinned c e = handles_pinned (oc_mutations c (ce_mutation e))"

definition mutation_bytes :: "string \<Rightarrow> mutation_state \<Rightarrow> int" where
  "mutation_bytes key mu =
     entryBytes key (if handles_pinned mu then max (mu_result_bytes mu) (mu_reservation mu) else mu_result_bytes mu)
     + mu_metadata mu + int (length (mu_handles mu)) * handle_bytes"

definition accountedBytes :: "op_cache \<Rightarrow> string \<Rightarrow> cache_entry \<Rightarrow> int" where
  "accountedBytes c key e = mutation_bytes key (oc_mutations c (ce_mutation e))"

definition account :: "op_cache \<Rightarrow> string \<Rightarrow> op_cache" where
  "account c key =
     (case jget (oc_entries c) key of
        None \<Rightarrow> c
      | Some e \<Rightarrow>
          let bytes = accountedBytes c key e in
          c\<lparr>oc_retained := oc_retained c + (bytes - ce_bytes e),
            oc_entries := jset (oc_entries c) key (e\<lparr>ce_bytes := bytes\<rparr>)\<rparr>)"

definition set_mutation :: "nat \<Rightarrow> mutation_state \<Rightarrow> op_cache \<Rightarrow> op_cache" where
  "set_mutation m mu c = c\<lparr>oc_mutations := (oc_mutations c)(m := mu)\<rparr>"

section \<open>Expiry and settlement\<close>

definition evictable :: "op_cache \<Rightarrow> int \<Rightarrow> cache_entry \<Rightarrow> bool" where
  "evictable c cutoff e = (\<not> (ce_state e = InFlight \<or> pinned c e \<or> ce_settled_at e > cutoff))"

definition cleanup_entry :: "int \<Rightarrow> op_cache \<Rightarrow> string \<times> cache_entry \<Rightarrow> op_cache" where
  "cleanup_entry cutoff c ke =
     (let e = snd ke; m = ce_mutation e in
      if \<not> evictable c cutoff e then c
      else (set_mutation m ((oc_mutations c m)\<lparr>mu_expired := True\<rparr>) c)
        \<lparr>oc_entries := jdelete (oc_entries c) (fst ke), oc_retained := oc_retained c - ce_bytes e\<rparr>)"

definition cleanup :: "cache_options \<Rightarrow> int \<Rightarrow> op_cache \<Rightarrow> op_cache js_result" where
  "cleanup opts now c =
     (case validNow now of Inl x \<Rightarrow> Inl x
      | Inr t \<Rightarrow> Inr (foldl (cleanup_entry (t - op_ttl opts)) c (oc_entries c)))"

definition unsettled :: "op_cache \<Rightarrow> string \<Rightarrow> bool" where
  "unsettled c target =
     list_ex (\<lambda>e. let mu = oc_mutations c (ce_mutation e) in
        target \<in> set (mu_targets mu)
        \<and> (ce_state e = InFlight \<or> list_ex (\<lambda>h. mh_target h = target) (jvalues (mu_handles mu))))
       (jvalues (oc_entries c))"

text \<open>\<open>oc_notified\<close> records the targets reported to the settlement listeners, in order.\<close>

definition notifySettled :: "string list \<Rightarrow> op_cache \<Rightarrow> op_cache" where
  "notifySettled targets c =
     c\<lparr>oc_notified := oc_notified c @ filter (\<lambda>t. \<not> unsettled c t) targets\<rparr>"

definition settle :: "string \<Rightarrow> string \<Rightarrow> entry_state \<Rightarrow> int \<Rightarrow> int \<Rightarrow> op_cache \<Rightarrow> op_cache" where
  "settle key fingerprint st bytes settled_at c =
     (case jget (oc_entries c) key of
        None \<Rightarrow> c
      | Some prior \<Rightarrow>
          if ce_state prior \<noteq> InFlight then c
          else
            let m = ce_mutation prior;
                mu = (oc_mutations c m)\<lparr>mu_result_bytes := bytes - entryBytes key 0\<rparr>;
                c1 = (set_mutation m mu c)
                  \<lparr>oc_entries := jset (oc_entries c) key
                     \<lparr>ce_fingerprint = fingerprint, ce_bytes = ce_bytes prior, ce_mutation = m,
                      ce_state = st, ce_settled_at = settled_at\<rparr>\<rparr>
            in notifySettled (mu_targets mu) (account c1 key))"

section \<open>Admission of an operation\<close>

datatype execute_result =
    Joined nat
  | Replayed "js_value option"
  | Started nat string string int

definition operation_key :: "(string \<Rightarrow> string) \<Rightarrow> operation_descriptor \<Rightarrow> string" where
  "operation_key sha256 d = sha256 (od_scope d) @ '':'' @ ascii_lower (od_id d)"

definition operation_text :: "operation_descriptor \<Rightarrow> string js_result" where
  "operation_text d = canonicalJson (JsArray [JsString (od_kind d), JsString (od_target d), od_parameters d])"

definition operation_fingerprint :: "(string \<Rightarrow> string) \<Rightarrow> operation_descriptor \<Rightarrow> string js_result" where
  "operation_fingerprint sha256 d =
     (case operation_text d of Inl x \<Rightarrow> Inl x | Inr t \<Rightarrow> Inr (sha256 t))"

definition answer_existing :: "string \<Rightarrow> cache_entry \<Rightarrow> execute_result js_result" where
  "answer_existing fingerprint e =
     (if ce_fingerprint e \<noteq> fingerprint
      then Inl (cache_error ''operation_conflict'' ''The operation identity is retained for a different intent.'')
      else case ce_state e of
        InFlight \<Rightarrow> Inr (Joined (ce_mutation e))
      | Completed r \<Rightarrow> Inr (Replayed r)
      | UnknownOutcome code \<Rightarrow> Inl (unknownOutcome code)
      | Rejected code message \<Rightarrow>
          Inl (cache_error code (case message of None \<Rightarrow> ''The operation was rejected before dispatch.'' | Some m \<Rightarrow> m)))"

definition reserve :: "cache_options \<Rightarrow> string \<Rightarrow> string \<Rightarrow> string list \<Rightarrow> int option \<Rightarrow> op_cache \<Rightarrow>
    execute_result js_result \<times> op_cache" where
  "reserve opts key fingerprint mutation_targets maximum c =
     (case positive (case maximum of None \<Rightarrow> min default_result_reservation_bytes (op_max_result_bytes opts) | Some v \<Rightarrow> v) ''maximumResultBytes'' of
        Inl x \<Rightarrow> (Inl x, c)
      | Inr reservation \<Rightarrow>
          if reservation > op_max_result_bytes opts
          then (Inl (cache_error ''operation_result_too_large'' ''The operation result reservation exceeds the cache limit.''), c)
          else
            let targets = js_unique mutation_targets in
            if list_ex (\<lambda>t. t = []) targets
            then (Inl (cache_error ''invalid_operation_target'' ''Invalid mutation target.''), c)
            else
              let metadata = sum_list (map (\<lambda>t. int (utf8_length t) + 16) targets);
                  mu = \<lparr>mu_targets = targets, mu_metadata = metadata, mu_reservation = reservation,
                        mu_handles = [], mu_result_bytes = reservation, mu_expired = False\<rparr>;
                  bytes = entryBytes key reservation + metadata
              in if int (length (oc_entries c)) \<ge> op_max_entries opts \<or> oc_retained c + bytes > op_max_bytes opts
                 then (Inl (cache_error ''operation_capacity_exceeded''
                        ''The operation cache is full. Wait for retained operations to expire before trying a new mutation.''), c)
                 else (Inr (Started (oc_next c) key fingerprint reservation),
                   (set_mutation (oc_next c) mu c)
                     \<lparr>oc_next := Suc (oc_next c),
                      oc_entries := jset (oc_entries c) key
                        \<lparr>ce_fingerprint = fingerprint, ce_bytes = bytes, ce_mutation = oc_next c,
                         ce_state = InFlight, ce_settled_at = 0\<rparr>,
                      oc_retained := oc_retained c + bytes\<rparr>))"

definition execute :: "(string \<Rightarrow> string) \<Rightarrow> cache_options \<Rightarrow> int \<Rightarrow> operation_descriptor \<Rightarrow> string list \<Rightarrow> int option \<Rightarrow>
    op_cache \<Rightarrow> execute_result js_result \<times> op_cache" where
  "execute sha256 opts now d mutation_targets maximum c =
     (if oc_closing c then (Inl (cache_error ''operation_cache_closed'' ''The operation cache is closing.''), c)
      else if \<not> is_uuid (od_id d)
      then (Inl (cache_error ''invalid_operation_id'' ''Operation identity must be a UUID.''), c)
      else case operation_fingerprint sha256 d of
        Inl x \<Rightarrow> (Inl x, c)
      | Inr fingerprint \<Rightarrow>
          let key = operation_key sha256 d in
          (case cleanup opts now c of
             Inl x \<Rightarrow> (Inl x, c)
           | Inr c1 \<Rightarrow>
               (case jget (oc_entries c1) key of
                  Some e \<Rightarrow> (answer_existing fingerprint e, c1)
                | None \<Rightarrow> reserve opts key fingerprint mutation_targets maximum c1)))"

section \<open>The body of an operation\<close>

text \<open>Each returns what the operation's promise is settled with.\<close>

definition reject_before :: "string \<Rightarrow> string \<Rightarrow> int \<Rightarrow> js_error \<Rightarrow> int \<Rightarrow> op_cache \<Rightarrow> js_error \<times> op_cache" where
  "reject_before key fingerprint reservation err now c =
     (let bytes = (if err_class err = OperationCacheErrorClass then int (utf8_length (err_message err)) else 0);
          message = (if bytes > 0 \<and> bytes \<le> min 1024 reservation then Some (err_message err) else None)
      in case validNow now of
        Inl x \<Rightarrow> (x, c)
      | Inr t \<Rightarrow> (err, settle key fingerprint (Rejected (safeErrorCode err) message)
          (entryBytes key (if message \<noteq> None then bytes else 0)) t c))"

definition dispatch_failed :: "string \<Rightarrow> string \<Rightarrow> js_error \<Rightarrow> int \<Rightarrow> op_cache \<Rightarrow> js_error \<times> op_cache" where
  "dispatch_failed key fingerprint err now c =
     (case validNow now of
        Inl x \<Rightarrow> (x, c)
      | Inr t \<Rightarrow>
          if err_class err = OperationRejectedError
          then (cache_error (safeErrorCode err) ''The operation was rejected without side effects.'',
                settle key fingerprint (Rejected (safeErrorCode err) None) (entryBytes key 0) t c)
          else
            let code = (if err_class err = RuntimeErrorClass \<and> err_code err = ''native_file_limit''
                        then Some (err_code err) else None)
            in (unknownOutcome code, settle key fingerprint (UnknownOutcome code) (entryBytes key 0) t c))"

definition retained_result :: "int \<Rightarrow> js_value \<Rightarrow> (js_value option \<times> int) option" where
  "retained_result reservation result =
     (if result = JsUndefined then Some (None, 0)
      else case stringify result of
        None \<Rightarrow> None
      | Some encoded \<Rightarrow>
          if int (utf8_length encoded) > reservation then None
          else Some (json_copy result, int (utf8_length encoded)))"

definition dispatch_returned :: "string \<Rightarrow> string \<Rightarrow> int \<Rightarrow> js_value \<Rightarrow> int \<Rightarrow> int \<Rightarrow> op_cache \<Rightarrow>
    js_value js_result \<times> op_cache" where
  "dispatch_returned key fingerprint reservation result now now_again c =
     (case (retained_result reservation result, validNow now) of
        (Some (retained, bytes), Inr t) \<Rightarrow>
          (Inr result, settle key fingerprint (Completed retained) (entryBytes key bytes) t c)
      | _ \<Rightarrow>
          (case validNow now_again of
             Inl x \<Rightarrow> (Inl x, c)
           | Inr t \<Rightarrow>
               (Inl (cache_error ''operation_outcome_unknown'' ''The operation result could not be retained after dispatch.''),
                settle key fingerprint (UnknownOutcome None) (entryBytes key 0) t c)))"

section \<open>Evidence of native work\<close>

definition owns_entry :: "op_cache \<Rightarrow> string \<Rightarrow> nat \<Rightarrow> bool" where
  "owns_entry c key m = (map_option ce_mutation (jget (oc_entries c) key) = Some m)"

definition pinned_entries :: "op_cache \<Rightarrow> (string \<times> cache_entry) list" where
  "pinned_entries c = filter (\<lambda>ke. pinned c (snd ke)) (oc_entries c)"

definition pinned_bytes :: "op_cache \<Rightarrow> int" where
  "pinned_bytes c = sum_list (map (\<lambda>ke. accountedBytes c (fst ke) (snd ke)) (pinned_entries c))"

definition retain :: "cache_options \<Rightarrow> string \<Rightarrow> nat \<Rightarrow> string \<Rightarrow> handle_kind \<Rightarrow> op_cache \<Rightarrow> nat js_result \<times> op_cache" where
  "retain opts key m target kind c =
     (if oc_closing c \<or> \<not> owns_entry c key m
      then (Inl (rejected_error ''operation_cache_closed'' ''Mutation evidence is no longer available.''), c)
      else
        let mu = oc_mutations c m in
        if target \<notin> set (mu_targets mu)
        then (Inl (rejected_error ''invalid_operation_target'' ''Mutation target was not admitted.''), c)
        else
          let h = \<lparr>mh_target = target, mh_kind = kind, mh_state = HandlePending, mh_pinned = jhas (oc_enabled c) target\<rparr>;
              c1 = (set_mutation m (mu\<lparr>mu_handles := jset (mu_handles mu) (oc_next c) h\<rparr>) c)\<lparr>oc_next := Suc (oc_next c)\<rparr>;
              e = the (jget (oc_entries c) key);
              bytes = accountedBytes c1 key e
          in if oc_retained c + bytes - ce_bytes e > op_max_bytes opts
                \<or> (pinned c1 e \<and> (int (length (pinned_entries c1)) > max_pinned_entries opts \<or> pinned_bytes c1 > max_pinned_bytes opts))
             then (Inl (rejected_error ''mutation_evidence_capacity''
                     ''Mutation evidence capacity is full. Resolve retained native work before retrying.''), c\<lparr>oc_next := Suc (oc_next c)\<rparr>)
             else (Inr (oc_next c), account c1 key))"

definition drop_handle :: "nat \<Rightarrow> mutation_state \<Rightarrow> mutation_state" where
  "drop_handle h mu = mu\<lparr>mu_handles := jdelete (mu_handles mu) h\<rparr>"

definition change_handle :: "nat \<Rightarrow> (mutation_handle \<Rightarrow> mutation_handle) \<Rightarrow> mutation_state \<Rightarrow> mutation_state" where
  "change_handle h f mu =
     (case jget (mu_handles mu) h of None \<Rightarrow> mu | Some x \<Rightarrow> mu\<lparr>mu_handles := jset (mu_handles mu) h (f x)\<rparr>)"

definition handle_settled :: "string \<Rightarrow> nat \<Rightarrow> nat \<Rightarrow> string \<Rightarrow> op_cache \<Rightarrow> op_cache" where
  "handle_settled key m h target c =
     (if \<not> owns_entry c key m then c
      else notifySettled [target] (account (set_mutation m (drop_handle h (oc_mutations c m)) c) key))"

definition handle_unresolved :: "nat \<Rightarrow> nat \<Rightarrow> op_cache \<Rightarrow> op_cache" where
  "handle_unresolved m h c =
     set_mutation m (change_handle h (\<lambda>x. x\<lparr>mh_state := HandleUnknown\<rparr>) (oc_mutations c m)) c"

text \<open>The reservation of a native effect: its slot, whether it was released, the effect under way.\<close>

record native_reservation =
  nr_key :: string
  nr_mutation :: nat
  nr_target :: string
  nr_slot :: nat
  nr_pinned :: bool
  nr_released :: bool
  nr_active :: "nat option"

definition reserveNativeEffect :: "cache_options \<Rightarrow> string \<Rightarrow> nat \<Rightarrow> string \<Rightarrow> op_cache \<Rightarrow> native_reservation js_result \<times> op_cache" where
  "reserveNativeEffect opts key m target c =
     (case retain opts key m target ReservedHandle c of
        (Inl x, c') \<Rightarrow> (Inl x, c')
      | (Inr h, c') \<Rightarrow>
          (Inr \<lparr>nr_key = key, nr_mutation = m, nr_target = target, nr_slot = h,
                nr_pinned = jhas (oc_enabled c) target, nr_released = False, nr_active = None\<rparr>, c'))"

definition effect_start :: "native_reservation \<Rightarrow> op_cache \<Rightarrow> nat js_result \<times> native_reservation \<times> op_cache" where
  "effect_start r c =
     (let retained = owns_entry c (nr_key r) (nr_mutation r);
          ordinary_expired = mu_expired (oc_mutations c (nr_mutation r)) \<and> \<not> nr_pinned r
            \<and> \<not> jhas (oc_enabled c) (nr_target r)
      in if nr_released r \<or> nr_active r \<noteq> None \<or> oc_closing c \<or> (\<not> retained \<and> \<not> ordinary_expired)
         then (Inl (rejected_error ''mutation_reservation_unavailable'' ''The native effect reservation is unavailable.''), r, c)
         else (Inr (oc_next c), r\<lparr>nr_active := Some (oc_next c)\<rparr>,
           (set_mutation (nr_mutation r)
              (change_handle (nr_slot r) (\<lambda>h. h\<lparr>mh_kind := NativeHandle\<rparr>) (oc_mutations c (nr_mutation r))) c)
             \<lparr>oc_next := Suc (oc_next c)\<rparr>))"

definition effect_settled :: "nat \<Rightarrow> native_reservation \<Rightarrow> op_cache \<Rightarrow> native_reservation \<times> op_cache" where
  "effect_settled x r c =
     (if nr_active r \<noteq> Some x then (r, c)
      else if nr_released r
      then (r\<lparr>nr_active := None\<rparr>, handle_settled (nr_key r) (nr_mutation r) (nr_slot r) (nr_target r) c)
      else (r\<lparr>nr_active := None\<rparr>,
        set_mutation (nr_mutation r)
          (change_handle (nr_slot r) (\<lambda>h. h\<lparr>mh_kind := ReservedHandle, mh_state := HandlePending\<rparr>)
             (oc_mutations c (nr_mutation r))) c))"

definition effect_unresolved :: "nat \<Rightarrow> native_reservation \<Rightarrow> op_cache \<Rightarrow> op_cache" where
  "effect_unresolved x r c =
     (if nr_active r = Some x then handle_unresolved (nr_mutation r) (nr_slot r) c else c)"

definition reservation_release :: "native_reservation \<Rightarrow> op_cache \<Rightarrow> native_reservation \<times> op_cache" where
  "reservation_release r c =
     (if nr_released r then (r, c)
      else (r\<lparr>nr_released := True\<rparr>,
        if nr_active r = None then handle_settled (nr_key r) (nr_mutation r) (nr_slot r) (nr_target r) c else c))"

section \<open>The rest of the interface\<close>

definition hasUnsettledMutation :: "cache_options \<Rightarrow> int \<Rightarrow> string \<Rightarrow> op_cache \<Rightarrow> (bool \<times> op_cache) js_result" where
  "hasUnsettledMutation opts now target c =
     (case cleanup opts now c of Inl x \<Rightarrow> Inl x | Inr c1 \<Rightarrow> Inr (unsettled c1 target, c1))"

definition enableMutationTarget :: "string \<Rightarrow> op_cache \<Rightarrow> op_cache" where
  "enableMutationTarget target c =
     c\<lparr>oc_enabled := jset (oc_enabled c) target ((case jget (oc_enabled c) target of None \<Rightarrow> 0 | Some n \<Rightarrow> n) + 1)\<rparr>"

definition disable_target :: "string \<Rightarrow> op_cache \<Rightarrow> op_cache" where
  "disable_target target c =
     (let count = (case jget (oc_enabled c) target of None \<Rightarrow> 1 | Some n \<Rightarrow> n) - 1 in
      c\<lparr>oc_enabled := (if count > 0 then jset (oc_enabled c) target count else jdelete (oc_enabled c) target)\<rparr>)"

definition close_begin :: "op_cache \<Rightarrow> op_cache" where
  "close_begin c = c\<lparr>oc_closing := True\<rparr>"

text \<open>The rest of \<open>close\<close>, after the promises of the operations in flight have settled.\<close>

definition close_finish :: "op_cache \<Rightarrow> op_cache" where
  "close_finish c =
     (if oc_closing c
      then c\<lparr>oc_entries := [], oc_enabled := [], oc_retained := 0\<rparr> else c)"

end
