(* ===== verification/Operation_Cache_Invariant.thy ===== *)
theory Operation_Cache_Invariant
  imports Operation_Cache
begin

text \<open>
  The invariant of the operation cache: the byte counter is the sum of what the entries account
  for, the limits of the options hold, also those of entries pinned by native work, and every
  mutation belongs to at most one entry. Every operation keeps it.
\<close>

section \<open>The invariant\<close>

definition mutation_ok :: "nat \<Rightarrow> mutation_state \<Rightarrow> bool" where
  "mutation_ok n mu \<longleftrightarrow>
     wf_jmap (mu_handles mu) \<and> (\<forall>h \<in> set (jkeys (mu_handles mu)). h < n)
     \<and> 0 \<le> mu_result_bytes mu \<and> mu_result_bytes mu \<le> mu_reservation mu \<and> 0 \<le> mu_metadata mu"

definition entry_ok :: "op_cache \<Rightarrow> string \<Rightarrow> cache_entry \<Rightarrow> bool" where
  "entry_ok c k e \<longleftrightarrow>
     ce_mutation e < oc_next c
     \<and> ce_bytes e = accountedBytes c k e
     \<and> (ce_state e = InFlight \<longrightarrow>
         mu_result_bytes (oc_mutations c (ce_mutation e)) = mu_reservation (oc_mutations c (ce_mutation e)))"

definition entries_ok :: "op_cache \<Rightarrow> bool" where
  "entries_ok c \<longleftrightarrow>
     wf_jmap (oc_entries c)
     \<and> distinct (map (ce_mutation \<circ> snd) (oc_entries c))
     \<and> (\<forall>ke \<in> set (oc_entries c). entry_ok c (fst ke) (snd ke))
     \<and> (\<forall>m. mutation_ok (oc_next c) (oc_mutations c m))
     \<and> oc_retained c = jsum ce_bytes (oc_entries c)"

definition pin_count :: "op_cache \<Rightarrow> int" where
  "pin_count c = jsum (\<lambda>e. if pinned c e then 1 else 0) (oc_entries c)"

definition pin_bytes :: "op_cache \<Rightarrow> int" where
  "pin_bytes c = jsum (\<lambda>e. if pinned c e then ce_bytes e else 0) (oc_entries c)"

definition cache_ok :: "cache_options \<Rightarrow> op_cache \<Rightarrow> bool" where
  "cache_ok opts c \<longleftrightarrow>
     entries_ok c
     \<and> oc_retained c \<le> op_max_bytes opts
     \<and> int (length (oc_entries c)) \<le> op_max_entries opts
     \<and> pin_count c \<le> max_pinned_entries opts
     \<and> pin_bytes c \<le> max_pinned_bytes opts"

lemma pin_count_length: "int (length (pinned_entries c)) = pin_count c"
proof -
  have "int (length (filter (\<lambda>ke. pinned c (snd ke)) xs)) = jsum (\<lambda>e. if pinned c e then 1 else 0) xs" for xs :: "(string \<times> cache_entry) list"
    by (induction xs) (auto simp: jsum_def)
  then show ?thesis by (simp add: pin_count_def pinned_entries_def)
qed

lemma pin_bytes_sum: "entries_ok c \<Longrightarrow> pinned_bytes c = pin_bytes c"
proof -
  assume "entries_ok c"
  then have "\<forall>ke \<in> set (oc_entries c). ce_bytes (snd ke) = accountedBytes c (fst ke) (snd ke)"
    by (simp add: entries_ok_def entry_ok_def)
  then have "\<forall>ke \<in> set xs. ce_bytes (snd ke) = accountedBytes c (fst ke) (snd ke) \<Longrightarrow>
      sum_list (map (\<lambda>ke. accountedBytes c (fst ke) (snd ke)) (filter (\<lambda>ke. pinned c (snd ke)) xs))
      = jsum (\<lambda>e. if pinned c e then ce_bytes e else 0) xs" for xs
    by (induction xs) (auto simp: jsum_def)
  with \<open>\<forall>ke \<in> _. _\<close> show ?thesis by (simp add: pinned_bytes_def pin_bytes_def pinned_entries_def)
qed

lemma jsum_update:
  assumes "wf_jmap m" "jget m k = Some v" "\<And>l u. (l, u) \<in> set m \<Longrightarrow> l \<noteq> k \<Longrightarrow> f' u = f u"
  shows "jsum f' (jset m k w) = jsum f m - f v + f' w"
  using assms
proof (induction m)
  case (Cons e m)
  obtain l u where e: "e = (l, u)" by force
  show ?case
  proof (cases "l = k")
    case True
    with Cons.prems e have "jsum f' m = jsum f m"
      by (intro jsum_cong) (force simp: wf_jmap_def)
    with True e Cons.prems(2) show ?thesis by (simp add: jsum_def)
  next
    case False
    with Cons.prems(3) [of l u] e have "f' u = f u" by simp
    moreover have "jsum f' (jset m k w) = jsum f m - f v + f' w"
    proof (rule Cons.IH)
      show "f' u = f u" if "(l, u) \<in> set m" "l \<noteq> k" for l u
        using that by (intro Cons.prems(3) [of l u]) simp_all
    qed (use Cons.prems e False in \<open>simp_all add: wf_jmap_def\<close>)
    ultimately show ?thesis using False e by (simp add: jsum_def)
  qed
qed simp

lemma distinct_update_same:
  assumes "wf_jmap m" "jget m k = Some v" "f w = f v" "distinct (map (f \<circ> snd) m)"
  shows "distinct (map (f \<circ> snd) (jset m k w))"
proof -
  have "map (f \<circ> snd) (jset m k w) = map (f \<circ> snd) m"
    using assms(1,2,3) by (induction m) (auto simp: wf_jmap_def)
  with assms(4) show ?thesis by simp
qed

lemma set_jset_wf: "wf_jmap m \<Longrightarrow> (l, u) \<in> set (jset m k w) \<longleftrightarrow> (if l = k then u = w else (l, u) \<in> set m)"
proof -
  assume wf: "wf_jmap m"
  then have "(l, u) \<in> set (jset m k w) \<longleftrightarrow> jget (jset m k w) l = Some u"
    by (metis jget_mem map_of_SomeD wf_jmap_set)
  also have "\<dots> \<longleftrightarrow> (if l = k then u = w else jget m l = Some u)" by auto
  also have "jget m l = Some u \<longleftrightarrow> (l, u) \<in> set m" by (metis jget_mem map_of_SomeD wf)
  finally show ?thesis .
qed

lemma set_mutation_fields [simp]:
  "oc_entries (set_mutation m mu c) = oc_entries c" "oc_next (set_mutation m mu c) = oc_next c"
  "oc_retained (set_mutation m mu c) = oc_retained c" "oc_enabled (set_mutation m mu c) = oc_enabled c"
  "oc_closing (set_mutation m mu c) = oc_closing c" "oc_notified (set_mutation m mu c) = oc_notified c"
  by (simp_all add: set_mutation_def)

section \<open>Replacing one entry and its mutation\<close>

definition replace_entry :: "string \<Rightarrow> cache_entry \<Rightarrow> mutation_state \<Rightarrow> nat \<Rightarrow> op_cache \<Rightarrow> op_cache" where
  "replace_entry k e' mu' n' c =
     c\<lparr>oc_mutations := (oc_mutations c)(ce_mutation e' := mu'),
       oc_entries := jset (oc_entries c) k e',
       oc_retained := oc_retained c + (ce_bytes e' - ce_bytes (the (jget (oc_entries c) k))),
       oc_next := n'\<rparr>"

text \<open>When an entry and its mutation may be replaced.\<close>

definition replaceable :: "op_cache \<Rightarrow> string \<Rightarrow> cache_entry \<Rightarrow> cache_entry \<Rightarrow> mutation_state \<Rightarrow> nat \<Rightarrow> bool" where
  "replaceable c k e e' mu' n' \<longleftrightarrow>
     entries_ok c \<and> jget (oc_entries c) k = Some e \<and> ce_mutation e' = ce_mutation e
     \<and> ce_bytes e' = mutation_bytes k mu'
     \<and> (ce_state e' = InFlight \<longrightarrow> mu_result_bytes mu' = mu_reservation mu')
     \<and> mutation_ok n' mu' \<and> oc_next c \<le> n'"

lemma replaceableD:
  assumes "replaceable c k e e' mu' n'"
  shows "wf_jmap (oc_entries c)" "distinct (map (ce_mutation \<circ> snd) (oc_entries c))"
    "jget (oc_entries c) k = Some e" "ce_mutation e' = ce_mutation e"
  using assms by (simp_all add: replaceable_def entries_ok_def)

lemma replace_own: "replaceable c k e e' mu' n' \<Longrightarrow> oc_mutations (replace_entry k e' mu' n' c) (ce_mutation e) = mu'"
  by (simp add: replace_entry_def replaceable_def)

lemma replace_other:
  assumes "replaceable c k e e' mu' n'" "(l, u) \<in> set (oc_entries c)" "l \<noteq> k"
  shows "oc_mutations (replace_entry k e' mu' n' c) (ce_mutation u) = oc_mutations c (ce_mutation u)"
proof -
  note d = replaceableD [OF assms(1)]
  from d(3) have "(k, e) \<in> set (oc_entries c)" by (rule map_of_SomeD)
  with assms(2,3) d(2) have "ce_mutation u \<noteq> ce_mutation e"
    by (fastforce simp: distinct_map inj_on_def)
  with d(4) show ?thesis by (simp add: replace_entry_def)
qed

lemma mutation_ok_mono: "mutation_ok n mu \<Longrightarrow> n \<le> n' \<Longrightarrow> mutation_ok n' mu"
  by (auto simp: mutation_ok_def)

lemma replace_entries_ok:
  assumes r: "replaceable c k e e' mu' n'"
  shows "entries_ok (replace_entry k e' mu' n' c)"
proof -
  let ?c = "replace_entry k e' mu' n' c"
  note d = replaceableD [OF r]
  from r have ok: "entries_ok c" and n': "oc_next c \<le> n'" by (simp_all add: replaceable_def)
  have "entry_ok ?c l u" if "(l, u) \<in> set (jset (oc_entries c) k e')" for l u
  proof (cases "l = k")
    case True
    with that d(1) have "u = e'" by (simp add: set_jset_wf)
    moreover have "ce_mutation e < oc_next c"
      using ok d(3) by (auto simp: entries_ok_def entry_ok_def dest!: map_of_SomeD)
    ultimately show ?thesis
      using True r replace_own [OF r]
      by (simp add: entry_ok_def accountedBytes_def replaceable_def) (simp add: replace_entry_def)
  next
    case False
    with that d(1) have u: "(l, u) \<in> set (oc_entries c)" by (simp add: set_jset_wf)
    with ok have "entry_ok c l u" by (auto simp: entries_ok_def)
    with replace_other [OF r u False] n' show ?thesis
      by (simp add: entry_ok_def accountedBytes_def) (simp add: replace_entry_def)
  qed
  then have "\<forall>ke \<in> set (oc_entries ?c). entry_ok ?c (fst ke) (snd ke)"
    by (auto simp: replace_entry_def)
  moreover have "jsum ce_bytes (jset (oc_entries c) k e') = jsum ce_bytes (oc_entries c) - ce_bytes e + ce_bytes e'"
    by (rule jsum_update [OF d(1,3)]) simp
  moreover have "mutation_ok n' (oc_mutations ?c m)" for m
    using r ok mutation_ok_mono [OF _ n'] by (simp add: replace_entry_def replaceable_def entries_ok_def)
  moreover have "distinct (map (ce_mutation \<circ> snd) (jset (oc_entries c) k e'))"
    by (rule distinct_update_same [OF d(1,3,4,2)])
  ultimately show ?thesis
    using ok d(1,3) by (simp add: entries_ok_def replace_entry_def)
qed

lemma replace_pins:
  assumes r: "replaceable c k e e' mu' n'"
  shows "pin_count (replace_entry k e' mu' n' c) =
      pin_count c - (if pinned c e then 1 else 0) + (if handles_pinned mu' then 1 else 0)" (is ?count)
    and "pin_bytes (replace_entry k e' mu' n' c) =
      pin_bytes c - (if pinned c e then ce_bytes e else 0) + (if handles_pinned mu' then ce_bytes e' else 0)" (is ?bytes)
proof -
  let ?c = "replace_entry k e' mu' n' c"
  note d = replaceableD [OF r]
  have p: "pinned ?c u = pinned c u" if "(l, u) \<in> set (oc_entries c)" "l \<noteq> k" for l u
    using replace_other [OF r that] by (simp add: pinned_def)
  have p': "pinned ?c e' = handles_pinned mu'"
    using replace_own [OF r] d(4) by (simp add: pinned_def)
  have entries: "oc_entries ?c = jset (oc_entries c) k e'" by (simp add: replace_entry_def)
  show ?count
    unfolding pin_count_def entries p' [symmetric]
    by (rule jsum_update [OF d(1,3)]) (simp add: p)
  show ?bytes
    unfolding pin_bytes_def entries p' [symmetric]
    by (rule jsum_update [OF d(1,3)]) (simp add: p)
qed

lemma replace_length:
  "replaceable c k e e' mu' n' \<Longrightarrow> length (oc_entries (replace_entry k e' mu' n' c)) = length (oc_entries c)"
  by (simp add: replace_entry_def length_jset replaceable_def)

lemma replace_retained:
  "replaceable c k e e' mu' n' \<Longrightarrow> oc_retained (replace_entry k e' mu' n' c) = oc_retained c + (ce_bytes e' - ce_bytes e)"
  by (simp add: replace_entry_def replaceable_def)

lemma replace_shrink_ok:
  assumes r: "replaceable c k e e' mu' n'" and ok: "cache_ok opts c"
    and "ce_bytes e' \<le> ce_bytes e" "handles_pinned mu' \<Longrightarrow> pinned c e" "0 \<le> ce_bytes e"
  shows "cache_ok opts (replace_entry k e' mu' n' c)"
  using replace_pins [OF r] replace_entries_ok [OF r] replace_length [OF r] replace_retained [OF r] ok assms(3-5)
  by (auto simp: cache_ok_def)

section \<open>Every operation keeps the invariant\<close>

lemma cache_okD:
  assumes "cache_ok opts c"
  shows "entries_ok c" "wf_jmap (oc_entries c)" "mutation_ok (oc_next c) (oc_mutations c m)"
    "jget (oc_entries c) k = Some e \<Longrightarrow> entry_ok c k e"
  using assms by (auto simp: cache_ok_def entries_ok_def dest!: map_of_SomeD)

lemma mutation_bytes_nonneg: "mutation_ok n mu \<Longrightarrow> 0 \<le> mutation_bytes k mu"
  by (auto simp: mutation_bytes_def mutation_ok_def entryBytes_def entry_overhead_bytes_def handle_bytes_def)

lemma entry_bytes_nonneg: "cache_ok opts c \<Longrightarrow> jget (oc_entries c) k = Some e \<Longrightarrow> 0 \<le> ce_bytes e"
  using cache_okD(3,4) [of opts c] mutation_bytes_nonneg
  by (fastforce simp: entry_ok_def accountedBytes_def)

text \<open>What \<open>account\<close> does after the mutation of an entry was replaced.\<close>

lemma account_replace:
  assumes "jget (oc_entries c) k = Some e"
  shows "account (set_mutation (ce_mutation e) mu' c) k
    = replace_entry k (e\<lparr>ce_bytes := mutation_bytes k mu'\<rparr>) mu' (oc_next c) c"
  using assms by (simp add: account_def set_mutation_def replace_entry_def Let_def accountedBytes_def)

lemma cache_ok_notify [simp]: "cache_ok opts (notifySettled ts c) \<longleftrightarrow> cache_ok opts c"
  by (simp add: notifySettled_def cache_ok_def entries_ok_def entry_ok_def accountedBytes_def
      pin_count_def pin_bytes_def pinned_def)

lemma set_jdelete: "set (jdelete m k) \<subseteq> set m"
  by (induction m) (auto split: if_splits)

lemma length_jdelete_le: "length (jdelete m k) \<le> length m"
  by (induction m) auto

lemma handles_pinned_delete: "handles_pinned (drop_handle h mu) \<Longrightarrow> handles_pinned mu"
  using set_jdelete by (fastforce simp: handles_pinned_def drop_handle_def list_ex_iff)

lemma drop_handle_ok: "mutation_ok n mu \<Longrightarrow> mutation_ok n (drop_handle h mu)"
  using set_jdelete [where m = "mu_handles mu" and k = h] by (fastforce simp: mutation_ok_def drop_handle_def)

lemma drop_handle_bytes: "mutation_ok n mu \<Longrightarrow> mutation_bytes k (drop_handle h mu) \<le> mutation_bytes k mu"
proof -
  assume ok: "mutation_ok n mu"
  have len: "length (mu_handles (drop_handle h mu)) \<le> length (mu_handles mu)"
    by (simp add: drop_handle_def length_jdelete_le)
  have same: "mu_result_bytes (drop_handle h mu) = mu_result_bytes mu" "mu_reservation (drop_handle h mu) = mu_reservation mu"
    "mu_metadata (drop_handle h mu) = mu_metadata mu" by (simp_all add: drop_handle_def)
  have "(if handles_pinned (drop_handle h mu) then max (mu_result_bytes mu) (mu_reservation mu) else mu_result_bytes mu)
      \<le> (if handles_pinned mu then max (mu_result_bytes mu) (mu_reservation mu) else mu_result_bytes mu)"
    using handles_pinned_delete [of h mu] by auto
  with len show ?thesis
    by (simp add: mutation_bytes_def entryBytes_def same handle_bytes_def cong: if_cong split del: if_split)
qed

lemma owns_entryE:
  assumes "owns_entry c k m"
  obtains e where "jget (oc_entries c) k = Some e" "ce_mutation e = m"
  using assms by (auto simp: owns_entry_def)

lemma handle_settled_ok: "cache_ok opts c \<Longrightarrow> cache_ok opts (handle_settled k m h t c)"
proof (cases "owns_entry c k m")
  case True
  assume ok: "cache_ok opts c"
  from True obtain e where e: "jget (oc_entries c) k = Some e" "ce_mutation e = m" by (rule owns_entryE)
  let ?mu = "drop_handle h (oc_mutations c m)"
  let ?e = "e\<lparr>ce_bytes := mutation_bytes k ?mu\<rparr>"
  from cache_okD(4) [OF ok e(1)] have entry: "entry_ok c k e" .
  have "replaceable c k e ?e ?mu (oc_next c)"
    using cache_okD(1,3) [OF ok] drop_handle_ok e entry
    by (auto simp: replaceable_def entry_ok_def drop_handle_def)
  then have "cache_ok opts (replace_entry k ?e ?mu (oc_next c) c)"
  proof (rule replace_shrink_ok [OF _ ok])
    show "ce_bytes ?e \<le> ce_bytes e"
      using entry drop_handle_bytes [OF cache_okD(3) [OF ok]] e(2) by (simp add: entry_ok_def accountedBytes_def)
    show "handles_pinned ?mu \<Longrightarrow> pinned c e"
      using handles_pinned_delete e(2) by (auto simp: pinned_def)
    show "0 \<le> ce_bytes e" by (rule entry_bytes_nonneg [OF ok e(1)])
  qed
  with True account_replace [OF e(1), of ?mu] e(2) show ?thesis by (simp add: handle_settled_def)
qed (simp add: handle_settled_def)

text \<open>Changing kind or state of a handle changes no size.\<close>

lemma change_handle_facts:
  assumes "\<And>x. mh_pinned (f x) = mh_pinned x"
  shows "handles_pinned (change_handle h f mu) = handles_pinned mu"
    and "jkeys (mu_handles (change_handle h f mu)) = jkeys (mu_handles mu)"
    and "mu_result_bytes (change_handle h f mu) = mu_result_bytes mu"
    and "mu_reservation (change_handle h f mu) = mu_reservation mu"
    and "mu_metadata (change_handle h f mu) = mu_metadata mu"
    and "mu_targets (change_handle h f mu) = mu_targets mu"
proof -
  have pins: "jget xs h = Some x \<Longrightarrow> map (mh_pinned \<circ> snd) (jset xs h (f x)) = map (mh_pinned \<circ> snd) xs" for xs x
    by (induction xs) (auto simp: assms)
  have ex: "handles_pinned m = (True \<in> set (map (mh_pinned \<circ> snd) (mu_handles m)))" for m
    by (force simp: handles_pinned_def list_ex_iff)
  show "handles_pinned (change_handle h f mu) = handles_pinned mu"
    using pins [of "mu_handles mu"]
    by (cases "jget (mu_handles mu) h") (simp_all add: ex change_handle_def)
qed (auto simp: change_handle_def jkeys_set split: option.split)

lemma set_mutation_ok:
  assumes ok: "cache_ok opts c"
    and same: "handles_pinned mu' = handles_pinned (oc_mutations c m)"
      "jkeys (mu_handles mu') = jkeys (mu_handles (oc_mutations c m))"
      "mu_result_bytes mu' = mu_result_bytes (oc_mutations c m)"
      "mu_reservation mu' = mu_reservation (oc_mutations c m)"
      "mu_metadata mu' = mu_metadata (oc_mutations c m)"
  shows "cache_ok opts (set_mutation m mu' c)"
proof -
  let ?c = "set_mutation m mu' c"
  have pin: "handles_pinned (oc_mutations ?c n) = handles_pinned (oc_mutations c n)" for n
    by (simp add: set_mutation_def same)
  have size: "mutation_bytes k (oc_mutations ?c n) = mutation_bytes k (oc_mutations c n)" for k n
    using same map_eq_imp_length_eq [OF same(2)] by (simp add: set_mutation_def mutation_bytes_def)
  have ok': "mutation_ok (oc_next c) (oc_mutations ?c n)" for n
  proof (cases "n = m")
    case True
    have "oc_mutations ?c n = mu'" by (simp add: set_mutation_def True)
    with cache_okD(3) [OF ok, of m] show ?thesis
      by (simp only: mutation_ok_def wf_jmap_def same) blast
  next
    case False
    with cache_okD(3) [OF ok, of n] show ?thesis by (simp add: set_mutation_def)
  qed
  have flight: "mu_result_bytes (oc_mutations ?c n) = mu_result_bytes (oc_mutations c n)"
    "mu_reservation (oc_mutations ?c n) = mu_reservation (oc_mutations c n)" for n
    by (simp_all add: set_mutation_def same)
  have fields: "oc_entries ?c = oc_entries c" "oc_next ?c = oc_next c" "oc_retained ?c = oc_retained c"
    by (simp_all add: set_mutation_def)
  from ok show ?thesis
    using ok' by (simp add: cache_ok_def entries_ok_def entry_ok_def accountedBytes_def pin_count_def pin_bytes_def
        pinned_def pin size flight fields)
qed

lemma handle_unresolved_ok: "cache_ok opts c \<Longrightarrow> cache_ok opts (handle_unresolved m h c)"
  unfolding handle_unresolved_def by (rule set_mutation_ok) (simp_all add: change_handle_facts)

lemma cache_ok_next: "cache_ok opts c \<Longrightarrow> oc_next c \<le> n \<Longrightarrow> cache_ok opts (c\<lparr>oc_next := n\<rparr>)"
  using mutation_ok_mono
  by (fastforce simp: cache_ok_def entries_ok_def entry_ok_def accountedBytes_def pin_count_def pin_bytes_def pinned_def)

lemma settle_ok:
  assumes ok: "cache_ok opts c" and st: "st \<noteq> InFlight"
    and size: "\<And>e. jget (oc_entries c) k = Some e \<Longrightarrow> ce_state e = InFlight \<Longrightarrow>
        entryBytes k 0 \<le> bytes \<and> bytes \<le> entryBytes k (mu_reservation (oc_mutations c (ce_mutation e)))"
  shows "cache_ok opts (settle k fp st bytes since c)"
proof (cases "\<exists>e. jget (oc_entries c) k = Some e \<and> ce_state e = InFlight")
  case False
  with ok show ?thesis by (auto simp: settle_def split: option.split)
next
  case True
  then obtain e where e: "jget (oc_entries c) k = Some e" and flight: "ce_state e = InFlight" by blast
  let ?m = "ce_mutation e"
  let ?mu = "(oc_mutations c ?m)\<lparr>mu_result_bytes := bytes - entryBytes k 0\<rparr>"
  let ?e = "\<lparr>ce_fingerprint = fp, ce_bytes = mutation_bytes k ?mu, ce_mutation = ?m, ce_state = st, ce_settled_at = since\<rparr>"
  from cache_okD(4) [OF ok e] have entry: "entry_ok c k e" .
  with flight have full: "mu_result_bytes (oc_mutations c ?m) = mu_reservation (oc_mutations c ?m)"
    by (simp add: entry_ok_def)
  from size [OF e flight] have new: "0 \<le> bytes - entryBytes k 0"
    "bytes - entryBytes k 0 \<le> mu_reservation (oc_mutations c ?m)"
    by (simp_all add: entryBytes_def)
  have pin: "handles_pinned ?mu = handles_pinned (oc_mutations c ?m)" by (simp add: handles_pinned_def)
  have "replaceable c k e ?e ?mu (oc_next c)"
    using cache_okD(1,3) [OF ok] new st e by (simp add: replaceable_def mutation_ok_def)
  then have "cache_ok opts (replace_entry k ?e ?mu (oc_next c) c)"
  proof (rule replace_shrink_ok [OF _ ok])
    show "ce_bytes ?e \<le> ce_bytes e"
      using entry full new by (simp add: entry_ok_def accountedBytes_def mutation_bytes_def entryBytes_def pin)
    show "handles_pinned ?mu \<Longrightarrow> pinned c e" by (simp add: pin pinned_def)
    show "0 \<le> ce_bytes e" by (rule entry_bytes_nonneg [OF ok e])
  qed
  moreover have "settle k fp st bytes since c = notifySettled (mu_targets ?mu) (replace_entry k ?e ?mu (oc_next c) c)"
    using e flight by (cases c) (simp add: settle_def Let_def account_def set_mutation_def replace_entry_def accountedBytes_def)
  ultimately show ?thesis by simp
qed

text \<open>The pinned totals are determined by the keys and mutations of the entries.\<close>

definition entry_mutations :: "op_cache \<Rightarrow> (string \<times> nat) list" where
  "entry_mutations c = map (\<lambda>ke. (fst ke, ce_mutation (snd ke))) (oc_entries c)"

lemma pins_by_mutation:
  "length (pinned_entries c) = length (filter (\<lambda>km. handles_pinned (oc_mutations c (snd km))) (entry_mutations c))"
  "pinned_bytes c = sum_list (map (\<lambda>km. mutation_bytes (fst km) (oc_mutations c (snd km)))
     (filter (\<lambda>km. handles_pinned (oc_mutations c (snd km))) (entry_mutations c)))"
  by (simp_all add: pinned_entries_def pinned_bytes_def pinned_def entry_mutations_def accountedBytes_def
      filter_map comp_def)

lemma entry_mutations_replace:
  "replaceable c k e e' mu' n' \<Longrightarrow> entry_mutations (replace_entry k e' mu' n' c) = entry_mutations c"
proof -
  assume r: "replaceable c k e e' mu' n'"
  have "map (\<lambda>ke. (fst ke, ce_mutation (snd ke))) (jset xs k e') = map (\<lambda>ke. (fst ke, ce_mutation (snd ke))) xs"
    if "wf_jmap xs" "jget xs k = Some e" for xs
    using that replaceableD(4) [OF r] by (induction xs) (auto simp: wf_jmap_def)
  with replaceableD [OF r] show ?thesis by (simp add: entry_mutations_def replace_entry_def)
qed

lemma handles_pinned_add:
  "mutation_ok n mu \<Longrightarrow>
   handles_pinned (mu\<lparr>mu_handles := jset (mu_handles mu) n h\<rparr>) \<longleftrightarrow> handles_pinned mu \<or> mh_pinned h"
proof -
  assume "mutation_ok n mu"
  then have "n \<notin> set (jkeys (mu_handles mu))" by (auto simp: mutation_ok_def)
  then have "jset (mu_handles mu) n h = mu_handles mu @ [(n, h)]"
    by (intro jset_fresh) (simp add: map_of_eq_None_iff)
  then show ?thesis by (simp add: handles_pinned_def)
qed

lemma retain_ok:
  assumes ok: "cache_ok opts c"
  shows "cache_ok opts (snd (retain opts k m t kind c))"
proof (cases "oc_closing c \<or> \<not> owns_entry c k m \<or> t \<notin> set (mu_targets (oc_mutations c m))")
  case True
  with ok show ?thesis by (auto simp: retain_def Let_def)
next
  case False
  then obtain e where e: "jget (oc_entries c) k = Some e" "ce_mutation e = m" by (auto elim: owns_entryE)
  let ?h = "\<lparr>mh_target = t, mh_kind = kind, mh_state = HandlePending, mh_pinned = jhas (oc_enabled c) t\<rparr>"
  let ?mu = "(oc_mutations c m)\<lparr>mu_handles := jset (mu_handles (oc_mutations c m)) (oc_next c) ?h\<rparr>"
  let ?e = "e\<lparr>ce_bytes := mutation_bytes k ?mu\<rparr>"
  let ?c1 = "(set_mutation m ?mu c)\<lparr>oc_next := Suc (oc_next c)\<rparr>"
  let ?c2 = "replace_entry k ?e ?mu (Suc (oc_next c)) c"
  from cache_okD(4) [OF ok e(1)] have entry: "entry_ok c k e" .
  have mu: "mutation_ok (Suc (oc_next c)) ?mu"
    using cache_okD(3) [OF ok, of m] by (auto simp: mutation_ok_def dest!: set_mp [OF set_jset] intro: less_SucI)
  have r: "replaceable c k e ?e ?mu (Suc (oc_next c))"
    using cache_okD(1) [OF ok] mu e entry by (simp add: replaceable_def entry_ok_def)
  note pins = replace_pins [OF r] and d = replaceableD [OF r]
  have c2: "account ?c1 k = ?c2"
    using e by (simp add: account_def set_mutation_def replace_entry_def Let_def accountedBytes_def)
  have pinned1: "pinned ?c1 e = handles_pinned ?mu" using e by (simp add: pinned_def set_mutation_def)
  have muts: "oc_mutations ?c1 = oc_mutations ?c2" using e by (simp add: set_mutation_def replace_entry_def)
  have keys: "entry_mutations ?c1 = entry_mutations ?c2"
    using entry_mutations_replace [OF r] by (simp add: entry_mutations_def set_mutation_def)
  have ok2: "entries_ok ?c2" by (rule replace_entries_ok [OF r])
  have count: "int (length (pinned_entries ?c1)) = pin_count ?c2"
    by (simp only: pins_by_mutation(1) muts keys) (simp only: pins_by_mutation(1) [symmetric] pin_count_length)
  have bytes: "pinned_bytes ?c1 = pin_bytes ?c2"
    by (simp only: pins_by_mutation(2) muts keys) (simp only: pins_by_mutation(2) [symmetric] pin_bytes_sum [OF ok2])
  show ?thesis
  proof (cases "oc_retained c + accountedBytes ?c1 k e - ce_bytes e > op_max_bytes opts
      \<or> (pinned ?c1 e \<and> (int (length (pinned_entries ?c1)) > max_pinned_entries opts \<or> pinned_bytes ?c1 > max_pinned_bytes opts))")
    case True
    from False have guards: "(oc_closing c \<or> \<not> owns_entry c k m) = False" "(t \<notin> set (mu_targets (oc_mutations c m))) = False"
      by simp_all
    have "snd (retain opts k m t kind c) = c\<lparr>oc_next := Suc (oc_next c)\<rparr>"
      by (simp only: retain_def Let_def e(1) option.sel guards True if_False if_True snd_conv)
    with ok show ?thesis by (simp add: cache_ok_next)
  next
    case fits: False
    from False have guards: "(oc_closing c \<or> \<not> owns_entry c k m) = False" "(t \<notin> set (mu_targets (oc_mutations c m))) = False"
      by simp_all
    have res: "snd (retain opts k m t kind c) = ?c2"
      by (simp only: retain_def Let_def e(1) option.sel guards fits if_False snd_conv c2)
    have acc: "accountedBytes ?c1 k e = ce_bytes ?e"
      using e by (simp add: accountedBytes_def set_mutation_def)
    have "cache_ok opts ?c2"
    proof (cases "handles_pinned ?mu")
      case True
      with fits count bytes pinned1 ok2 replace_length [OF r] replace_retained [OF r] ok acc show ?thesis
        by (simp add: cache_ok_def)
    next
      case unpinned: False
      then have "\<not> pinned c e"
        using e handles_pinned_add [OF cache_okD(3) [OF ok, of m], of ?h] by (auto simp: pinned_def)
      with unpinned pins fits ok2 replace_length [OF r] replace_retained [OF r] ok acc show ?thesis
        by (simp add: cache_ok_def)
    qed
    with res show ?thesis by simp
  qed
qed

text \<open>A new entry.\<close>

definition add_entry :: "string \<Rightarrow> cache_entry \<Rightarrow> mutation_state \<Rightarrow> op_cache \<Rightarrow> op_cache" where
  "add_entry k e mu c =
     (set_mutation (oc_next c) mu c)
       \<lparr>oc_next := Suc (oc_next c), oc_entries := jset (oc_entries c) k e,
        oc_retained := oc_retained c + ce_bytes e\<rparr>"

lemma add_entry_ok:
  assumes ok: "cache_ok opts c" and fresh: "jget (oc_entries c) k = None"
    and e: "ce_mutation e = oc_next c" "ce_bytes e = mutation_bytes k mu" "mu_result_bytes mu = mu_reservation mu"
    and mu: "mutation_ok (Suc (oc_next c)) mu" "\<not> handles_pinned mu"
    and room: "int (length (oc_entries c)) < op_max_entries opts" "oc_retained c + ce_bytes e \<le> op_max_bytes opts"
  shows "cache_ok opts (add_entry k e mu c)"
proof -
  let ?c = "add_entry k e mu c"
  have entries: "oc_entries ?c = oc_entries c @ [(k, e)]" by (simp add: add_entry_def jset_fresh fresh)
  have old: "ce_mutation u < oc_next c" "entry_ok c l u" if "(l, u) \<in> set (oc_entries c)" for l u
    using that ok by (auto simp: cache_ok_def entries_ok_def entry_ok_def)
  have muts: "oc_mutations ?c (ce_mutation u) = oc_mutations c (ce_mutation u)" if "(l, u) \<in> set (oc_entries c)" for l u
    using old(1) [OF that] by (simp add: add_entry_def set_mutation_def)
  have own: "oc_mutations ?c (ce_mutation e) = mu" by (simp add: add_entry_def set_mutation_def e)
  have next_c: "oc_next ?c = Suc (oc_next c)" by (simp add: add_entry_def)
  have each: "entry_ok ?c l u" if "(l, u) \<in> set (oc_entries c)" for l u
    using old [OF that] muts [OF that] by (simp add: entry_ok_def accountedBytes_def next_c)
  have new: "entry_ok ?c k e" using e own by (simp add: entry_ok_def accountedBytes_def next_c)
  have "mutation_ok (Suc (oc_next c)) (oc_mutations ?c m)" for m
    using mu(1) mutation_ok_mono [OF cache_okD(3) [OF ok, of m], of "Suc (oc_next c)"]
    by (simp add: add_entry_def set_mutation_def)
  moreover have "distinct (map (ce_mutation \<circ> snd) (oc_entries ?c))"
    using ok old(1) e(1) by (fastforce simp: entries cache_ok_def entries_ok_def)
  moreover have "wf_jmap (oc_entries ?c)"
    using ok fresh by (auto simp: entries cache_ok_def entries_ok_def wf_jmap_def map_of_eq_None_iff)
  moreover have "oc_retained ?c = jsum ce_bytes (oc_entries ?c)"
    using ok by (simp add: entries) (simp add: add_entry_def cache_ok_def entries_ok_def)
  ultimately have "entries_ok ?c"
    using each new by (auto simp: entries_ok_def entries next_c)
  moreover have "pin_count ?c = pin_count c" "pin_bytes ?c = pin_bytes c"
    using mu(2) own by (auto simp: pin_count_def pin_bytes_def entries pinned_def muts intro!: jsum_cong)
  moreover have "oc_retained ?c = oc_retained c + ce_bytes e" by (simp add: add_entry_def)
  ultimately show ?thesis using ok room by (simp add: cache_ok_def entries)
qed

lemma metadata_nonneg: "0 \<le> sum_list (map (\<lambda>t. int (utf8_length t) + 16) ts)"
  by (rule sum_list_nonneg) auto

lemma positive_Inr: "positive v n = Inr w \<longleftrightarrow> w = v \<and> 1 \<le> v \<and> is_safe_integer v"
  by (auto simp: positive_def)

lemma reserve_cases:
  obtains (refused) err where "reserve opts k fp ts maximum c = (Inl err, c)"
  | (started) mu e reservation where
      "reserve opts k fp ts maximum c = (Inr (Started (oc_next c) k fp reservation), add_entry k e mu c)"
      "ce_mutation e = oc_next c" "ce_bytes e = mutation_bytes k mu" "mu_result_bytes mu = reservation"
      "ce_fingerprint e = fp" "ce_state e = InFlight" "mu_targets mu = js_unique ts"
      "mu_reservation mu = reservation" "1 \<le> reservation" "mu_handles mu = []" "0 \<le> mu_metadata mu"
      "int (length (oc_entries c)) < op_max_entries opts" "oc_retained c + ce_bytes e \<le> op_max_bytes opts"
proof (cases "fst (reserve opts k fp ts maximum c)")
  case (Inl err)
  then have "reserve opts k fp ts maximum c = (Inl err, c)"
    by (auto simp: reserve_def Let_def split: sum.splits if_splits)
  then show thesis by (rule that(1))
next
  case (Inr x)
  let ?max = "case maximum of None \<Rightarrow> min default_result_reservation_bytes (op_max_result_bytes opts) | Some v \<Rightarrow> v"
  from Inr obtain r where r: "positive ?max ''maximumResultBytes'' = Inr r"
    and fits: "\<not> r > op_max_result_bytes opts" "\<not> list_ex (\<lambda>t. t = []) (js_unique ts)"
    by (auto simp: reserve_def Let_def split: sum.splits if_splits)
  let ?meta = "sum_list (map (\<lambda>t. int (utf8_length t) + 16) (js_unique ts))"
  let ?mu = "\<lparr>mu_targets = js_unique ts, mu_metadata = ?meta, mu_reservation = r,
     mu_handles = [], mu_result_bytes = r, mu_expired = False\<rparr>"
  let ?e = "\<lparr>ce_fingerprint = fp, ce_bytes = entryBytes k r + ?meta, ce_mutation = oc_next c,
     ce_state = InFlight, ce_settled_at = 0\<rparr>"
  from Inr r fits have room: "\<not> (int (length (oc_entries c)) \<ge> op_max_entries opts
      \<or> oc_retained c + (entryBytes k r + ?meta) > op_max_bytes opts)"
    by (auto simp: reserve_def Let_def split: if_splits)
  with r fits have res: "reserve opts k fp ts maximum c = (Inr (Started (oc_next c) k fp r), add_entry k ?e ?mu c)"
    by (simp add: reserve_def Let_def add_entry_def)
  have "1 \<le> r" using r by (simp only: positive_Inr)
  with room metadata_nonneg show thesis
    by (intro that(2) [OF res]) (simp_all add: mutation_bytes_def handles_pinned_def)
qed

lemma reserve_ok:
  assumes ok: "cache_ok opts c" and "jget (oc_entries c) k = None"
  shows "cache_ok opts (snd (reserve opts k fp ts maximum c))"
proof (cases rule: reserve_cases [of opts k fp ts maximum c])
  case refused
  with ok show ?thesis by simp
next
  case (started mu e reservation)
  then have "mutation_ok (Suc (oc_next c)) mu" "\<not> handles_pinned mu"
    by (simp_all add: mutation_ok_def handles_pinned_def)
  with started assms show ?thesis by (simp add: add_entry_ok)
qed

section \<open>Expiry\<close>

lemma evictable_mark:
  "evictable (c\<lparr>oc_mutations := (oc_mutations c)(m := (oc_mutations c m)\<lparr>mu_expired := b\<rparr>), oc_entries := es, oc_retained := r\<rparr>) cutoff e
   = evictable c cutoff e"
  by (simp add: evictable_def pinned_def handles_pinned_def)

text \<open>What eviction does: it removes exactly the evictable entries and marks their mutations.\<close>

definition unexpired :: "mutation_state \<Rightarrow> mutation_state" where
  "unexpired mu = mu\<lparr>mu_expired := False\<rparr>"

definition evicted :: "int \<Rightarrow> (string \<times> cache_entry) list \<Rightarrow> op_cache \<Rightarrow> op_cache \<Rightarrow> bool" where
  "evicted cutoff xs c c' \<longleftrightarrow>
     (\<forall>k. jget (oc_entries c') k =
        (case jget (oc_entries c) k of None \<Rightarrow> None
         | Some e \<Rightarrow> if (k, e) \<in> set xs \<and> evictable c cutoff e then None else Some e))
     \<and> (\<forall>m. unexpired (oc_mutations c' m) = unexpired (oc_mutations c m))
     \<and> (\<forall>m. mu_expired (oc_mutations c m) \<longrightarrow> mu_expired (oc_mutations c' m))
     \<and> oc_next c' = oc_next c \<and> oc_enabled c' = oc_enabled c \<and> oc_closing c' = oc_closing c
     \<and> oc_notified c' = oc_notified c"

lemma unexpired_same:
  "unexpired mu = unexpired mu' \<Longrightarrow>
   mu_targets mu = mu_targets mu' \<and> mu_handles mu = mu_handles mu' \<and> mu_reservation mu = mu_reservation mu'
   \<and> mu_result_bytes mu = mu_result_bytes mu' \<and> mu_metadata mu = mu_metadata mu'"
  by (cases mu; cases mu') (simp add: unexpired_def)

lemma evicted_evictable: "evicted cutoff xs c c' \<Longrightarrow> evictable c' cutoff' e = evictable c cutoff' e"
proof -
  assume "evicted cutoff xs c c'"
  then have "unexpired (oc_mutations c' m) = unexpired (oc_mutations c m)" for m by (simp add: evicted_def)
  from unexpired_same [OF this] have "mu_handles (oc_mutations c' m) = mu_handles (oc_mutations c m)" for m by blast
  then show ?thesis by (simp add: evictable_def pinned_def handles_pinned_def)
qed

lemma cleanup_entry_ok:
  assumes ok: "cache_ok opts c" and e: "jget (oc_entries c) k = Some e"
  shows "cache_ok opts (cleanup_entry cutoff c (k, e))"
proof (cases "evictable c cutoff e")
  case False
  with ok show ?thesis by (simp add: cleanup_entry_def Let_def)
next
  case True
  let ?c = "cleanup_entry cutoff c (k, e)"
  have entries: "oc_entries ?c = jdelete (oc_entries c) k" and kept: "oc_retained ?c = oc_retained c - ce_bytes e"
    and nexts: "oc_next ?c = oc_next c"
    using True by (simp_all add: cleanup_entry_def Let_def)
  have muts: "unexpired (oc_mutations ?c m) = unexpired (oc_mutations c m)" for m
    using True by (simp add: cleanup_entry_def Let_def set_mutation_def unexpired_def)
  note same = unexpired_same [OF muts]
  have wf: "wf_jmap (oc_entries c)" using ok by (rule cache_okD)
  have pin: "pinned ?c u = pinned c u" for u by (simp add: pinned_def handles_pinned_def same)
  have acc: "accountedBytes ?c l u = accountedBytes c l u" for l u
    by (simp add: accountedBytes_def mutation_bytes_def handles_pinned_def same)
  have sub: "set (oc_entries ?c) \<subseteq> set (oc_entries c)" by (simp only: entries set_jdelete)
  have "distinct (map (ce_mutation \<circ> snd) (oc_entries ?c))"
  proof -
    have "distinct (oc_entries ?c)" using wf_jmap_delete [OF wf, of k] by (simp add: entries wf_jmap_def distinct_map)
    with ok sub show ?thesis by (auto simp: cache_ok_def entries_ok_def distinct_map intro: inj_on_subset)
  qed
  moreover have "mutation_ok (oc_next c) (oc_mutations ?c m)" for m
    using cache_okD(3) [OF ok, of m] by (simp add: mutation_ok_def same)
  moreover have "entry_ok ?c l u" if "(l, u) \<in> set (oc_entries ?c)" for l u
  proof -
    from that sub have "(l, u) \<in> set (oc_entries c)" by blast
    with ok have "entry_ok c l u" by (auto simp: cache_ok_def entries_ok_def)
    then show ?thesis by (simp add: entry_ok_def acc nexts same)
  qed
  moreover have "jsum ce_bytes (oc_entries ?c) = oc_retained ?c"
    using ok jsum_delete [OF wf e] by (simp add: entries kept cache_ok_def entries_ok_def)
  ultimately have "entries_ok ?c"
    using wf by (auto simp: entries_ok_def entries nexts)
  moreover have "pin_count ?c \<le> pin_count c" "pin_bytes ?c \<le> pin_bytes c"
    using jsum_delete [OF wf e] entry_bytes_nonneg [OF ok e] by (simp_all add: pin_count_def pin_bytes_def pin entries)
  moreover have "length (oc_entries ?c) \<le> length (oc_entries c)" by (simp add: entries length_jdelete_le)
  ultimately show ?thesis
    using ok entry_bytes_nonneg [OF ok e] kept by (simp add: cache_ok_def)
qed

lemma cleanup_entry_evicted:
  assumes "jget (oc_entries c) k = Some e"
  shows "evicted cutoff [(k, e)] c (cleanup_entry cutoff c (k, e))"
  using assms by (auto simp: evicted_def cleanup_entry_def Let_def unexpired_def set_mutation_def split: option.split)

lemma evicted_refl: "evicted cutoff [] c c"
  by (auto simp: evicted_def split: option.split)

lemma evicted_trans:
  assumes "evicted cutoff xs c c'" "evicted cutoff ys c' c''"
  shows "evicted cutoff (xs @ ys) c c''"
proof -
  have "jget (oc_entries c'') k =
      (case jget (oc_entries c) k of None \<Rightarrow> None
       | Some e \<Rightarrow> if (k, e) \<in> set (xs @ ys) \<and> evictable c cutoff e then None else Some e)" for k
    using assms evicted_evictable [OF assms(1)]
    by (cases "jget (oc_entries c) k") (auto simp: evicted_def)
  with assms show ?thesis by (simp add: evicted_def)
qed

lemma cleanup_fold:
  "cache_ok opts c \<Longrightarrow> (\<And>k e. (k, e) \<in> set xs \<Longrightarrow> jget (oc_entries c) k = Some e) \<Longrightarrow> distinct (map fst xs) \<Longrightarrow>
   cache_ok opts (foldl (cleanup_entry cutoff) c xs) \<and> evicted cutoff xs c (foldl (cleanup_entry cutoff) c xs)"
proof (induction xs arbitrary: c)
  case Nil
  then show ?case by (simp add: evicted_refl)
next
  case (Cons x xs)
  obtain k e where x: "x = (k, e)" by force
  let ?c = "cleanup_entry cutoff c x"
  from Cons.prems(2) x have e: "jget (oc_entries c) k = Some e" by simp
  from cleanup_entry_ok [OF Cons.prems(1) e] x have ok: "cache_ok opts ?c" by simp
  from cleanup_entry_evicted [OF e] x have ev: "evicted cutoff [x] c ?c" by simp
  have "jget (oc_entries ?c) l = Some u" if lu: "(l, u) \<in> set xs" for l u
  proof -
    from lu Cons.prems(3) x have "l \<noteq> k" by force
    moreover from lu Cons.prems(2) have "jget (oc_entries c) l = Some u" by simp
    ultimately show ?thesis using ev x by (simp add: evicted_def)
  qed
  from Cons.IH [OF ok this] Cons.prems(3) evicted_trans [OF ev] show ?case by simp
qed

lemma cleanup_ok:
  assumes ok: "cache_ok opts c" and c': "cleanup opts now c = Inr c'"
  shows "cache_ok opts c' \<and> evicted (now - op_ttl opts) (oc_entries c) c c'"
proof -
  from c' have c'_eq: "c' = foldl (cleanup_entry (now - op_ttl opts)) c (oc_entries c)"
    by (auto simp: cleanup_def validNow_def split: if_splits)
  have wf: "wf_jmap (oc_entries c)" using ok by (rule cache_okD)
  show ?thesis unfolding c'_eq
    using wf by (intro cleanup_fold [OF ok]) (auto simp: wf_jmap_def)
qed

lemma cleanup_entries:
  assumes "cache_ok opts c" and "cleanup opts now c = Inr c'"
  shows "jget (oc_entries c') k =
    (case jget (oc_entries c) k of None \<Rightarrow> None
     | Some e \<Rightarrow> if evictable c (now - op_ttl opts) e then None else Some e)"
  using cleanup_ok [OF assms] by (auto simp: evicted_def dest: map_of_SomeD split: option.split)

lemma execute_ok:
  assumes ok: "cache_ok opts c"
  shows "cache_ok opts (snd (execute sha opts now d ts maximum c))"
proof -
  have "cache_ok opts c'" if "cleanup opts now c = Inr c'" for c'
    using cleanup_ok [OF ok that] by simp
  then show ?thesis using ok reserve_ok
    by (auto simp: execute_def Let_def split: sum.split option.split)
qed

end
