(* ===== verification/Operation_Cache_System.thy ===== *)
theory Operation_Cache_System
  imports Operation_Cache_Invariant
begin

text \<open>
  The operation cache with the operations it runs: every request, every suspension point of an
  operation body and every call on the evidence of native work is an event, in any order the event
  loop may produce. \<open>sy_dispatched\<close> records the operations whose dispatch was called.
\<close>

section \<open>Events\<close>

datatype run_phase = Preparing | Dispatching | Finished

record op_run =
  or_key :: string
  or_fingerprint :: string
  or_reservation :: int
  or_phase :: run_phase

record op_system =
  sy_cache :: op_cache
  sy_runs :: "(nat, op_run) jmap"
  sy_dispatched :: "nat list"
  sy_reservations :: "(nat, native_reservation) jmap"

datatype op_event =
    ExecuteOp int operation_descriptor "string list" "int option"
  | RefuseOp nat js_error int
  | DispatchOp nat
  | FailOp nat js_error int
  | ReturnOp nat js_value int int
  | RetainHandle nat string handle_kind
  | SettleHandle nat nat string
  | UnresolveHandle nat nat
  | ReserveEffect nat string
  | StartEffect nat
  | SettleEffect nat nat
  | UnresolveEffect nat nat
  | ReleaseReservation nat
  | CleanupTick int
  | EnableTarget string
  | DisableTarget string
  | CloseCache
  | CloseFinished

definition set_phase :: "nat \<Rightarrow> op_run \<Rightarrow> run_phase \<Rightarrow> op_system \<Rightarrow> op_system" where
  "set_phase m r p s = s\<lparr>sy_runs := jset (sy_runs s) m (r\<lparr>or_phase := p\<rparr>)\<rparr>"

text \<open>
  \<open>execute\<close> starts \<open>runOperation\<close>; its body (\<open>perform\<close>) calls \<open>dispatch\<close> only after validation and
  admission succeeded, and settles once: the phases of a run.
\<close>

definition start_run :: "execute_result js_result \<times> op_cache \<Rightarrow> op_system \<Rightarrow> op_system" where
  "start_run rc s =
     (case fst rc of
        Inr (Started m key fingerprint reservation) \<Rightarrow>
          s\<lparr>sy_cache := snd rc,
            sy_runs := jset (sy_runs s) m \<lparr>or_key = key, or_fingerprint = fingerprint,
              or_reservation = reservation, or_phase = Preparing\<rparr>\<rparr>
      | _ \<Rightarrow> s\<lparr>sy_cache := snd rc\<rparr>)"

definition finish_run :: "nat \<Rightarrow> op_run \<Rightarrow> op_cache \<Rightarrow> op_system \<Rightarrow> op_system" where
  "finish_run m r c s = (set_phase m r Finished s)\<lparr>sy_cache := c\<rparr>"

fun op_step :: "(string \<Rightarrow> string) \<Rightarrow> cache_options \<Rightarrow> op_system \<Rightarrow> op_event \<Rightarrow> op_system" where
  "op_step sha256 opts s (ExecuteOp now d targets maximum) =
     start_run (execute sha256 opts now d targets maximum (sy_cache s)) s"
| "op_step sha256 opts s (RefuseOp m err now) =
     (case jget (sy_runs s) m of None \<Rightarrow> s | Some r \<Rightarrow>
        if or_phase r \<noteq> Preparing then s
        else finish_run m r (snd (reject_before (or_key r) (or_fingerprint r) (or_reservation r) err now (sy_cache s))) s)"
| "op_step sha256 opts s (DispatchOp m) =
     (case jget (sy_runs s) m of None \<Rightarrow> s | Some r \<Rightarrow>
        if or_phase r \<noteq> Preparing then s
        else (set_phase m r Dispatching s)\<lparr>sy_dispatched := sy_dispatched s @ [m]\<rparr>)"
| "op_step sha256 opts s (FailOp m err now) =
     (case jget (sy_runs s) m of None \<Rightarrow> s | Some r \<Rightarrow>
        if or_phase r \<noteq> Dispatching then s
        else finish_run m r (snd (dispatch_failed (or_key r) (or_fingerprint r) err now (sy_cache s))) s)"
| "op_step sha256 opts s (ReturnOp m result now now_again) =
     (case jget (sy_runs s) m of None \<Rightarrow> s | Some r \<Rightarrow>
        if or_phase r \<noteq> Dispatching then s
        else finish_run m r (snd (dispatch_returned (or_key r) (or_fingerprint r) (or_reservation r) result now now_again (sy_cache s))) s)"
| "op_step sha256 opts s (RetainHandle m target kind) =
     (case jget (sy_runs s) m of None \<Rightarrow> s | Some r \<Rightarrow>
        s\<lparr>sy_cache := snd (retain opts (or_key r) m target kind (sy_cache s))\<rparr>)"
| "op_step sha256 opts s (SettleHandle m h target) =
     (case jget (sy_runs s) m of None \<Rightarrow> s | Some r \<Rightarrow>
        s\<lparr>sy_cache := handle_settled (or_key r) m h target (sy_cache s)\<rparr>)"
| "op_step sha256 opts s (UnresolveHandle m h) = s\<lparr>sy_cache := handle_unresolved m h (sy_cache s)\<rparr>"
| "op_step sha256 opts s (ReserveEffect m target) =
     (case jget (sy_runs s) m of None \<Rightarrow> s | Some r \<Rightarrow>
        (case reserveNativeEffect opts (or_key r) m target (sy_cache s) of
           (Inl _, c) \<Rightarrow> s\<lparr>sy_cache := c\<rparr>
         | (Inr x, c) \<Rightarrow> s\<lparr>sy_cache := c, sy_reservations := jset (sy_reservations s) (nr_slot x) x\<rparr>))"
| "op_step sha256 opts s (StartEffect slot) =
     (case jget (sy_reservations s) slot of None \<Rightarrow> s | Some x \<Rightarrow>
        (case effect_start x (sy_cache s) of
           (_, x', c) \<Rightarrow> s\<lparr>sy_cache := c, sy_reservations := jset (sy_reservations s) slot x'\<rparr>))"
| "op_step sha256 opts s (SettleEffect slot e) =
     (case jget (sy_reservations s) slot of None \<Rightarrow> s | Some x \<Rightarrow>
        (case effect_settled e x (sy_cache s) of
           (x', c) \<Rightarrow> s\<lparr>sy_cache := c, sy_reservations := jset (sy_reservations s) slot x'\<rparr>))"
| "op_step sha256 opts s (UnresolveEffect slot e) =
     (case jget (sy_reservations s) slot of None \<Rightarrow> s | Some x \<Rightarrow>
        s\<lparr>sy_cache := effect_unresolved e x (sy_cache s)\<rparr>)"
| "op_step sha256 opts s (ReleaseReservation slot) =
     (case jget (sy_reservations s) slot of None \<Rightarrow> s | Some x \<Rightarrow>
        (case reservation_release x (sy_cache s) of
           (x', c) \<Rightarrow> s\<lparr>sy_cache := c, sy_reservations := jset (sy_reservations s) slot x'\<rparr>))"
| "op_step sha256 opts s (CleanupTick now) =
     (case cleanup opts now (sy_cache s) of Inl _ \<Rightarrow> s | Inr c \<Rightarrow> s\<lparr>sy_cache := c\<rparr>)"
| "op_step sha256 opts s (EnableTarget target) = s\<lparr>sy_cache := enableMutationTarget target (sy_cache s)\<rparr>"
| "op_step sha256 opts s (DisableTarget target) = s\<lparr>sy_cache := disable_target target (sy_cache s)\<rparr>"
| "op_step sha256 opts s CloseCache = s\<lparr>sy_cache := close_begin (sy_cache s)\<rparr>"
| "op_step sha256 opts s CloseFinished =
     (if list_all (\<lambda>r. or_phase r = Finished) (jvalues (sy_runs s))
      then s\<lparr>sy_cache := close_finish (sy_cache s)\<rparr> else s)"

definition initial_system :: "op_cache \<Rightarrow> op_system" where
  "initial_system c = \<lparr>sy_cache = c, sy_runs = [], sy_dispatched = [], sy_reservations = []\<rparr>"

section \<open>Receipts\<close>

text \<open>The part of an entry that answers a repeated request.\<close>

definition receipt :: "op_cache \<Rightarrow> string \<Rightarrow> (nat \<times> entry_state \<times> string \<times> int) option" where
  "receipt c k =
     map_option (\<lambda>e. (ce_mutation e, ce_state e, ce_fingerprint e, ce_settled_at e)) (jget (oc_entries c) k)"

text \<open>An operation that touches no receipt.\<close>

definition quiet :: "op_cache \<Rightarrow> op_cache \<Rightarrow> bool" where
  "quiet c c' \<longleftrightarrow>
     receipt c' = receipt c \<and> oc_next c \<le> oc_next c' \<and> oc_closing c' = oc_closing c
     \<and> (\<forall>m. mu_reservation (oc_mutations c' m) = mu_reservation (oc_mutations c m))"

lemma quiet_refl [simp]: "quiet c c"
  by (simp add: quiet_def)

lemma quiet_trans: "quiet a b \<Longrightarrow> quiet b c \<Longrightarrow> quiet a c"
  by (simp add: quiet_def)

lemma quiet_account: "quiet c (account c k)"
  by (auto simp: quiet_def account_def Let_def receipt_def fun_eq_iff split: option.split)

lemma quiet_notify: "quiet c (notifySettled ts c)"
  by (simp add: quiet_def notifySettled_def receipt_def fun_eq_iff)

lemma quiet_set_mutation:
  "mu_reservation mu = mu_reservation (oc_mutations c m) \<Longrightarrow> quiet c (set_mutation m mu c)"
  by (simp add: quiet_def set_mutation_def receipt_def fun_eq_iff)

lemma quiet_next: "quiet c (c\<lparr>oc_next := Suc (oc_next c)\<rparr>)"
  by (simp add: quiet_def receipt_def fun_eq_iff)

lemma quiet_handle_settled: "quiet c (handle_settled k m h t c)"
  unfolding handle_settled_def
  by (auto intro!: quiet_trans [OF _ quiet_notify] quiet_trans [OF _ quiet_account] quiet_set_mutation
      simp: drop_handle_def)

lemma quiet_change_handle:
  "quiet c (set_mutation m (change_handle h f (oc_mutations c m)) c)"
  by (rule quiet_set_mutation) (simp add: change_handle_def split: option.split)

lemma quiet_handle_unresolved: "quiet c (handle_unresolved m h c)"
  by (simp add: handle_unresolved_def quiet_change_handle)

lemma quiet_retain: "quiet c (snd (retain opts k m t kind c))"
proof -
  have "quiet c ((set_mutation m mu c)\<lparr>oc_next := Suc (oc_next c)\<rparr>)"
    if "mu_reservation mu = mu_reservation (oc_mutations c m)" for mu
    using quiet_trans [OF quiet_set_mutation [of mu c m] quiet_next] that by simp
  then show ?thesis
    by (auto simp: retain_def Let_def intro!: quiet_next quiet_trans [OF _ quiet_account])
qed

lemma quiet_reserve_effect: "quiet c (snd (reserveNativeEffect opts k m t c))"
  using quiet_retain [of c opts k m t ReservedHandle]
  by (auto simp: reserveNativeEffect_def split: prod.split sum.split)

lemma quiet_effect_start: "quiet c (snd (snd (effect_start r c)))"
  using quiet_trans [OF quiet_change_handle quiet_next]
  by (auto simp: effect_start_def Let_def quiet_next)

lemma quiet_effect_settled: "quiet c (snd (effect_settled e r c))"
  by (auto simp: effect_settled_def quiet_handle_settled quiet_change_handle)

lemma quiet_effect_unresolved: "quiet c (effect_unresolved e r c)"
  by (auto simp: effect_unresolved_def quiet_handle_unresolved)

lemma quiet_release: "quiet c (snd (reservation_release r c))"
  by (auto simp: reservation_release_def quiet_handle_settled)

lemma quiet_targets: "quiet c (enableMutationTarget t c)" "quiet c (disable_target t c)"
  by (simp_all add: quiet_def enableMutationTarget_def disable_target_def Let_def receipt_def fun_eq_iff)

lemmas quiet_rules = quiet_handle_settled quiet_handle_unresolved quiet_retain quiet_reserve_effect
  quiet_effect_start quiet_effect_settled quiet_effect_unresolved quiet_release quiet_targets

lemma receipt_settle:
  "receipt (settle k fp st bytes since c) l =
     (if l = k \<and> (\<exists>e. jget (oc_entries c) k = Some e \<and> ce_state e = InFlight)
      then Some (ce_mutation (the (jget (oc_entries c) k)), st, fp, since) else receipt c l)"
proof (cases "\<exists>e. jget (oc_entries c) k = Some e \<and> ce_state e = InFlight")
  case True
  then show ?thesis
    by (auto simp: settle_def Let_def notifySettled_def account_def receipt_def set_mutation_def)
next
  case False
  then have "settle k fp st bytes since c = c" by (auto simp: settle_def split: option.split)
  with False show ?thesis by auto
qed

lemma settle_frame:
  "oc_next (settle k fp st bytes since c) = oc_next c"
  "mu_reservation (oc_mutations (settle k fp st bytes since c) m) = mu_reservation (oc_mutations c m)"
  by (simp_all add: settle_def Let_def notifySettled_def account_def set_mutation_def split: option.split)

section \<open>The invariant of the system\<close>

definition run_alive :: "op_cache \<Rightarrow> nat \<Rightarrow> op_run \<Rightarrow> bool" where
  "run_alive c m r \<longleftrightarrow>
     (\<exists>e. jget (oc_entries c) (or_key r) = Some e \<and> ce_state e = InFlight \<and> ce_mutation e = m
        \<and> ce_fingerprint e = or_fingerprint r)
     \<and> mu_reservation (oc_mutations c m) = or_reservation r"

definition sys_ok :: "cache_options \<Rightarrow> op_system \<Rightarrow> bool" where
  "sys_ok opts s \<longleftrightarrow>
     cache_ok opts (sy_cache s)
     \<and> (\<forall>m r. jget (sy_runs s) m = Some r \<longrightarrow> m < oc_next (sy_cache s))
     \<and> (\<forall>m r. jget (sy_runs s) m = Some r \<and> or_phase r \<noteq> Finished \<longrightarrow> run_alive (sy_cache s) m r)
     \<and> distinct (sy_dispatched s)
     \<and> (\<forall>m \<in> set (sy_dispatched s). \<exists>r. jget (sy_runs s) m = Some r \<and> or_phase r \<noteq> Preparing)"

lemma run_alive_receipt:
  "run_alive c m r \<longleftrightarrow>
     (\<exists>t. receipt c (or_key r) = Some (m, InFlight, or_fingerprint r, t)) \<and> mu_reservation (oc_mutations c m) = or_reservation r"
  by (auto simp: run_alive_def receipt_def)

lemma sys_ok_quiet:
  assumes "sys_ok opts s" "cache_ok opts c" "quiet (sy_cache s) c"
  shows "sys_ok opts (s\<lparr>sy_cache := c\<rparr>)" and "sys_ok opts (s\<lparr>sy_cache := c, sy_reservations := rs\<rparr>)"
  using assms by (auto simp: sys_ok_def run_alive_receipt quiet_def intro: less_le_trans)

definition settled_from :: "op_run \<Rightarrow> op_cache \<Rightarrow> op_cache \<Rightarrow> bool" where
  "settled_from r c c' \<longleftrightarrow>
     c' = c \<or> (\<exists>st bytes t. st \<noteq> InFlight \<and> c' = settle (or_key r) (or_fingerprint r) st bytes t c
       \<and> entryBytes (or_key r) 0 \<le> bytes \<and> bytes \<le> entryBytes (or_key r) (or_reservation r))"

lemma settled_fromI [intro]:
  "st \<noteq> InFlight \<Longrightarrow> 0 \<le> b \<Longrightarrow> b \<le> or_reservation r \<Longrightarrow>
   settled_from r c (settle (or_key r) (or_fingerprint r) st (entryBytes (or_key r) b) t c)"
  unfolding settled_from_def by (rule disjI2) (force simp: entryBytes_def)

lemma settled_from_same [simp]: "settled_from r c c"
  by (simp add: settled_from_def)

lemma run_reservation_nonneg:
  "cache_ok opts c \<Longrightarrow> run_alive c m r \<Longrightarrow> 0 \<le> or_reservation r"
  using cache_okD(3) [of opts c m] by (auto simp: run_alive_def mutation_ok_def)

lemma settled_from_refuse:
  "0 \<le> or_reservation r \<Longrightarrow> settled_from r c (snd (reject_before (or_key r) (or_fingerprint r) (or_reservation r) err now c))"
  by (auto simp: reject_before_def Let_def split: sum.split)

lemma settled_from_failed:
  "0 \<le> or_reservation r \<Longrightarrow> settled_from r c (snd (dispatch_failed (or_key r) (or_fingerprint r) err now c))"
  by (auto simp: dispatch_failed_def Let_def split: sum.split)

lemma settled_from_returned:
  "0 \<le> or_reservation r \<Longrightarrow>
   settled_from r c (snd (dispatch_returned (or_key r) (or_fingerprint r) (or_reservation r) result now again c))"
proof -
  assume r: "0 \<le> or_reservation r"
  have size: "0 \<le> bytes \<and> bytes \<le> or_reservation r" if "retained_result (or_reservation r) result = Some (v, bytes)" for v bytes
    using that r by (auto simp: retained_result_def split: if_splits option.splits)
  show ?thesis
  proof (cases "\<exists>v bytes t. retained_result (or_reservation r) result = Some (v, bytes) \<and> validNow now = Inr t")
    case True
    then obtain v bytes t where v: "retained_result (or_reservation r) result = Some (v, bytes)" "validNow now = Inr t"
      by blast
    from size [OF v(1)] v show ?thesis
      by (auto simp: dispatch_returned_def)
  next
    case False
    then have "dispatch_returned (or_key r) (or_fingerprint r) (or_reservation r) result now again c =
        (case validNow again of
             Inl x \<Rightarrow> (Inl x, c)
           | Inr t \<Rightarrow>
               (Inl (cache_error ''operation_outcome_unknown'' ''The operation result could not be retained after dispatch.''),
                settle (or_key r) (or_fingerprint r) (UnknownOutcome None) (entryBytes (or_key r) 0) t c))"
      by (cases "retained_result (or_reservation r) result"; cases "validNow now") (auto simp: dispatch_returned_def)
    with r show ?thesis by (auto split: sum.split)
  qed
qed

lemma sys_ok_finish:
  assumes s: "sys_ok opts s" and r: "jget (sy_runs s) m = Some r" "or_phase r \<noteq> Finished"
    and c: "settled_from r (sy_cache s) c"
  shows "sys_ok opts (finish_run m r c s)"
proof -
  from s r have alive: "run_alive (sy_cache s) m r" and ok: "cache_ok opts (sy_cache s)"
    by (auto simp: sys_ok_def)
  from alive obtain e where e: "jget (oc_entries (sy_cache s)) (or_key r) = Some e" "ce_state e = InFlight"
    "ce_mutation e = m" "mu_reservation (oc_mutations (sy_cache s) m) = or_reservation r"
    by (auto simp: run_alive_def)
  have ok': "cache_ok opts c"
    using c ok e by (auto simp: settled_from_def intro!: settle_ok)
  have frame: "oc_next c = oc_next (sy_cache s)" "mu_reservation (oc_mutations c n) = mu_reservation (oc_mutations (sy_cache s) n)" for n
    using c by (auto simp: settled_from_def settle_frame)
  have other: "receipt c k = receipt (sy_cache s) k" if "k \<noteq> or_key r" for k
    using c that by (auto simp: settled_from_def receipt_settle)
  have keys: "or_key q \<noteq> or_key r" if "run_alive (sy_cache s) n q" "n \<noteq> m" for n q
    using alive that by (auto simp: run_alive_def)
  have "run_alive c n q" if "run_alive (sy_cache s) n q" "n \<noteq> m" for n q
    using that(1) other [OF keys [OF that]] frame by (simp add: run_alive_receipt)
  with s ok' frame r show ?thesis
    by (fastforce simp: sys_ok_def finish_run_def set_phase_def)
qed

lemma sys_ok_dispatch:
  assumes s: "sys_ok opts s" and r: "jget (sy_runs s) m = Some r" "or_phase r = Preparing"
  shows "sys_ok opts ((set_phase m r Dispatching s)\<lparr>sy_dispatched := sy_dispatched s @ [m]\<rparr>)"
proof -
  from s r have "m \<notin> set (sy_dispatched s)" by (auto simp: sys_ok_def)
  moreover from s r have "run_alive (sy_cache s) m (r\<lparr>or_phase := Dispatching\<rparr>)"
    by (auto simp: sys_ok_def run_alive_def)
  ultimately show ?thesis using s r by (auto simp: sys_ok_def set_phase_def)
qed

lemma sys_ok_cache:
  assumes "sys_ok opts s" "cache_ok opts c" "oc_next (sy_cache s) \<le> oc_next c"
    and "\<And>m r. run_alive (sy_cache s) m r \<Longrightarrow> run_alive c m r"
  shows "sys_ok opts (s\<lparr>sy_cache := c\<rparr>)"
  using assms by (auto simp: sys_ok_def intro: less_le_trans)

lemma alive_cleanup:
  assumes ok: "cache_ok opts c" and c': "cleanup opts now c = Inr c'" and alive: "run_alive c m r"
  shows "run_alive c' m r"
proof -
  from cleanup_ok [OF ok c'] have ev: "evicted (now - op_ttl opts) (oc_entries c) c c'" by simp
  then have "unexpired (oc_mutations c' m) = unexpired (oc_mutations c m)" by (simp add: evicted_def)
  from unexpired_same [OF this] cleanup_entries [OF ok c', of "or_key r"] alive show ?thesis
    by (auto simp: run_alive_def evictable_def)
qed

lemma cleanup_next: "cache_ok opts c \<Longrightarrow> cleanup opts now c = Inr c' \<Longrightarrow> oc_next c' = oc_next c"
  using cleanup_ok by (fastforce simp: evicted_def)

lemma sys_ok_cleanup:
  "sys_ok opts s \<Longrightarrow> cleanup opts now (sy_cache s) = Inr c \<Longrightarrow> sys_ok opts (s\<lparr>sy_cache := c\<rparr>)"
  using cleanup_ok [of opts "sy_cache s" now c] alive_cleanup [of opts "sy_cache s" now c] cleanup_next [of opts "sy_cache s" now c]
  by (intro sys_ok_cache) (auto simp: sys_ok_def)

lemma alive_add_entry:
  assumes "jget (oc_entries c) k = None" "m < oc_next c" "run_alive c m r"
  shows "run_alive (add_entry k e mu c) m r"
  using assms by (auto simp: run_alive_def add_entry_def set_mutation_def)

lemma sys_ok_reserve:
  assumes s: "sys_ok opts s" and fresh: "jget (oc_entries (sy_cache s)) k = None"
  shows "sys_ok opts (start_run (reserve opts k fp ts maximum (sy_cache s)) s)"
proof (cases rule: reserve_cases [of opts k fp ts maximum "sy_cache s"])
  case refused
  with s show ?thesis by (simp add: start_run_def)
next
  case (started mu e reservation)
  let ?c = "add_entry k e mu (sy_cache s)"
  from s have ok: "cache_ok opts (sy_cache s)" by (simp add: sys_ok_def)
  from reserve_ok [OF ok fresh, of fp ts maximum] started(1) have ok': "cache_ok opts ?c" by simp
  have next_c: "oc_next ?c = Suc (oc_next (sy_cache s))" by (simp add: add_entry_def)
  let ?r = "\<lparr>or_key = k, or_fingerprint = fp, or_reservation = reservation, or_phase = Preparing\<rparr>"
  have new: "run_alive ?c (oc_next (sy_cache s)) ?r"
    using started by (simp add: run_alive_def add_entry_def set_mutation_def)
  have old: "run_alive ?c m r" if "jget (sy_runs s) m = Some r" "or_phase r \<noteq> Finished" for m r
    using s that by (intro alive_add_entry [OF fresh]) (auto simp: sys_ok_def)
  have bound: "m < oc_next (sy_cache s)" if "jget (sy_runs s) m = Some r" for m r
    using s that by (auto simp: sys_ok_def)
  have "\<forall>m \<in> set (sy_dispatched s). m \<noteq> oc_next (sy_cache s)"
    using s bound by (fastforce simp: sys_ok_def)
  with s ok' new old bound show ?thesis
    by (auto simp: start_run_def started(1) sys_ok_def next_c intro: less_SucI)
qed

lemma start_run_other:
  "(\<forall>m k f r. fst rc \<noteq> Inr (Started m k f r)) \<Longrightarrow> start_run rc s = s\<lparr>sy_cache := snd rc\<rparr>"
  by (auto simp: start_run_def split: sum.split execute_result.split)

lemma start_run_override: "start_run rc (s\<lparr>sy_cache := c\<rparr>) = start_run rc s"
  by (auto simp: start_run_def split: sum.split execute_result.split)

lemma execute_cases:
  obtains (fails) err where "execute sha opts now d ts maximum c = (Inl err, c)"
  | (known) c1 e fp where "cleanup opts now c = Inr c1" "jget (oc_entries c1) (operation_key sha d) = Some e"
      "operation_fingerprint sha d = Inr fp"
      "execute sha opts now d ts maximum c = (answer_existing fp e, c1)"
  | (fresh) c1 fp where "cleanup opts now c = Inr c1" "jget (oc_entries c1) (operation_key sha d) = None"
      "operation_fingerprint sha d = Inr fp"
      "execute sha opts now d ts maximum c = reserve opts (operation_key sha d) fp ts maximum c1"
proof (cases "oc_closing c \<or> \<not> is_uuid (od_id d)")
  case True
  then show thesis using that(1) by (cases "oc_closing c") (auto simp: execute_def)
next
  case False
  show thesis
  proof (cases "operation_fingerprint sha d")
    case (Inl x)
    with False show thesis using that(1) by (simp add: execute_def)
  next
    case fp: (Inr fp)
    show thesis
    proof (cases "cleanup opts now c")
      case (Inl x)
      with False fp show thesis using that(1) by (simp add: execute_def)
    next
      case (Inr c1)
      with False fp show thesis using that(2,3) [of c1]
        by (cases "jget (oc_entries c1) (operation_key sha d)") (simp_all add: execute_def)
    qed
  qed
qed

lemma sys_ok_execute:
  assumes s: "sys_ok opts s"
  shows "sys_ok opts (start_run (execute sha opts now d ts maximum (sy_cache s)) s)"
proof -
  let ?k = "operation_key sha d"
  show ?thesis
  proof (cases rule: execute_cases [of sha opts now d ts maximum "sy_cache s"])
    case fails
    with s show ?thesis by (simp add: start_run_def)
  next
    case (known c e fp)
    have "\<forall>m k f r. answer_existing fp e \<noteq> Inr (Started m k f r)"
      by (auto simp: answer_existing_def split: entry_state.split)
    with known sys_ok_cleanup [OF s known(1)] show ?thesis by (simp add: start_run_other)
  next
    case (fresh c fp)
    from sys_ok_cleanup [OF s fresh(1)] have s': "sys_ok opts (s\<lparr>sy_cache := c\<rparr>)" .
    from sys_ok_reserve [OF s', of ?k fp ts maximum] fresh show ?thesis
      by (simp add: start_run_override)
  qed
qed

section \<open>Every event keeps the invariant\<close>

lemma change_handle_ok:
  "(\<And>x. mh_pinned (f x) = mh_pinned x) \<Longrightarrow> cache_ok opts c \<Longrightarrow>
   cache_ok opts (set_mutation m (change_handle h f (oc_mutations c m)) c)"
  by (rule set_mutation_ok) (simp_all add: change_handle_facts)

lemma reserve_effect_ok: "cache_ok opts c \<Longrightarrow> cache_ok opts (snd (reserveNativeEffect opts k m t c))"
  using retain_ok [of opts c k m t ReservedHandle]
  by (auto simp: reserveNativeEffect_def split: prod.split sum.split)

lemma effect_start_ok: "cache_ok opts c \<Longrightarrow> cache_ok opts (snd (snd (effect_start r c)))"
  by (auto simp: effect_start_def Let_def
      intro!: cache_ok_next [of opts "set_mutation _ _ c" "Suc (oc_next c)"] change_handle_ok)

lemma effect_settled_ok: "cache_ok opts c \<Longrightarrow> cache_ok opts (snd (effect_settled e r c))"
  by (auto simp: effect_settled_def intro: handle_settled_ok change_handle_ok)

lemma effect_unresolved_ok: "cache_ok opts c \<Longrightarrow> cache_ok opts (effect_unresolved e r c)"
  by (auto simp: effect_unresolved_def intro: handle_unresolved_ok)

lemma release_ok: "cache_ok opts c \<Longrightarrow> cache_ok opts (snd (reservation_release r c))"
  by (auto simp: reservation_release_def intro: handle_settled_ok)

lemma cache_ok_flags:
  "cache_ok opts (c\<lparr>oc_enabled := en\<rparr>) \<longleftrightarrow> cache_ok opts c"
  "cache_ok opts (c\<lparr>oc_closing := b\<rparr>) \<longleftrightarrow> cache_ok opts c"
  by (simp_all add: cache_ok_def entries_ok_def entry_ok_def accountedBytes_def pin_count_def pin_bytes_def pinned_def)

lemma targets_ok:
  "cache_ok opts c \<Longrightarrow> cache_ok opts (enableMutationTarget t c)"
  "cache_ok opts c \<Longrightarrow> cache_ok opts (disable_target t c)"
  "cache_ok opts c \<Longrightarrow> cache_ok opts (close_begin c)"
  by (simp_all add: enableMutationTarget_def disable_target_def close_begin_def Let_def cache_ok_flags)

definition options_ok :: "cache_options \<Rightarrow> bool" where
  "options_ok opts \<longleftrightarrow> 1 \<le> op_ttl opts \<and> 1 \<le> op_max_entries opts \<and> 1 \<le> op_max_bytes opts \<and> 1 \<le> op_max_result_bytes opts"

lemma close_finish_ok:
  "options_ok opts \<Longrightarrow> cache_ok opts c \<Longrightarrow> cache_ok opts (close_finish c)"
  by (simp add: close_finish_def cache_ok_def entries_ok_def pin_count_def pin_bytes_def options_ok_def
      max_pinned_entries_def max_pinned_bytes_def pos_imp_zdiv_nonneg_iff)

lemmas cache_ok_rules = retain_ok handle_settled_ok handle_unresolved_ok reserve_effect_ok effect_start_ok
  effect_settled_ok effect_unresolved_ok release_ok targets_ok

lemma sys_ok_op_step:
  assumes opts: "options_ok opts" and s: "sys_ok opts s"
  shows "sys_ok opts (op_step sha opts s ev)"
proof -
  from s have ok: "cache_ok opts (sy_cache s)" by (simp add: sys_ok_def)
  note quiet_step = sys_ok_quiet [OF s cache_ok_rules(1) [OF ok] quiet_rules(3)]
  have unfinished: "0 \<le> or_reservation r" if "jget (sy_runs s) m = Some r" "or_phase r \<noteq> Finished" for m r
    using s that run_reservation_nonneg [OF ok, of m r] by (auto simp: sys_ok_def)
  show ?thesis
  proof (cases ev)
    case (ExecuteOp now d ts maximum)
    with sys_ok_execute [OF s] show ?thesis by simp
  next
    case (RefuseOp m err now)
    with s unfinished [of m] show ?thesis
      by (auto split: option.split intro!: sys_ok_finish settled_from_refuse)
  next
    case (DispatchOp m)
    with s sys_ok_dispatch [OF s] show ?thesis by (auto split: option.split)
  next
    case (FailOp m err now)
    with s unfinished [of m] show ?thesis
      by (auto split: option.split intro!: sys_ok_finish settled_from_failed)
  next
    case (ReturnOp m result now again)
    with s unfinished [of m] show ?thesis
      by (auto split: option.split intro!: sys_ok_finish settled_from_returned)
  next
    case (CleanupTick now)
    with s sys_ok_cleanup [OF s] show ?thesis by (auto split: sum.split)
  next
    case CloseCache
    have "sys_ok opts (s\<lparr>sy_cache := close_begin (sy_cache s)\<rparr>)"
      by (rule sys_ok_cache [OF s targets_ok(3) [OF ok]]) (auto simp: close_begin_def run_alive_def)
    with CloseCache show ?thesis by simp
  next
    case CloseFinished
    have "sys_ok opts (s\<lparr>sy_cache := close_finish (sy_cache s)\<rparr>)" if "list_all (\<lambda>r. or_phase r = Finished) (jvalues (sy_runs s))"
    proof -
      have "or_phase r = Finished" if "jget (sy_runs s) m = Some r" for m r
        using that \<open>list_all _ _\<close> by (force simp: list_all_iff dest!: map_of_SomeD)
      with s close_finish_ok [OF opts ok] show ?thesis
        by (auto simp: sys_ok_def close_finish_def)
    qed
    with CloseFinished s show ?thesis by simp
  next
    case (ReserveEffect m t)
    have "sys_ok opts (s\<lparr>sy_cache := snd (reserveNativeEffect opts k m t (sy_cache s)), sy_reservations := rs\<rparr>)"
      "sys_ok opts (s\<lparr>sy_cache := snd (reserveNativeEffect opts k m t (sy_cache s))\<rparr>)" for k rs
      by (rule sys_ok_quiet [OF s] cache_ok_rules quiet_rules ok)+
    with ReserveEffect s show ?thesis by (auto split: option.split prod.split sum.split) (metis snd_conv)+
  next
    case (StartEffect slot)
    have "sys_ok opts (s\<lparr>sy_cache := snd (snd (effect_start x (sy_cache s))), sy_reservations := rs\<rparr>)" for x rs
      by (rule sys_ok_quiet [OF s] cache_ok_rules quiet_rules ok)+
    with StartEffect s show ?thesis by (auto split: option.split prod.split) (metis snd_conv)
  next
    case (SettleEffect slot e)
    have "sys_ok opts (s\<lparr>sy_cache := snd (effect_settled e x (sy_cache s)), sy_reservations := rs\<rparr>)" for x rs
      by (rule sys_ok_quiet [OF s] cache_ok_rules quiet_rules ok)+
    with SettleEffect s show ?thesis by (auto split: option.split prod.split) (metis snd_conv)
  next
    case (ReleaseReservation slot)
    have "sys_ok opts (s\<lparr>sy_cache := snd (reservation_release x (sy_cache s)), sy_reservations := rs\<rparr>)" for x rs
      by (rule sys_ok_quiet [OF s] cache_ok_rules quiet_rules ok)+
    with ReleaseReservation s show ?thesis by (auto split: option.split prod.split) (metis snd_conv)
  qed (use s in \<open>auto split: option.split intro!: sys_ok_quiet(1) [OF s] cache_ok_rules ok quiet_rules\<close>)
qed

end
