(* ===== verification/Operation_Cache_Properties.thy ===== *)
theory Operation_Cache_Properties
  imports Operation_Cache_System
begin

text \<open>
  What the operation cache guarantees to clients that repeat requests, and what it guarantees to
  the host about its memory.
\<close>

section \<open>Reachable systems\<close>

interpretation op_machine: machine "\<lambda>s. options_ok opts \<and> sys_ok opts s" "op_step sha256 opts"
  by unfold_locales (simp add: sys_ok_op_step)

definition reachable_system ::
  "(string \<Rightarrow> string) \<Rightarrow> int option \<Rightarrow> int option \<Rightarrow> int option \<Rightarrow> int option \<Rightarrow> op_event list \<Rightarrow> cache_options \<Rightarrow> op_system \<Rightarrow> bool" where
  "reachable_system sha256 ttl entries bytes result evs opts s \<longleftrightarrow>
     (case createOperationCache ttl entries bytes result of
        Inl _ \<Rightarrow> False
      | Inr (o', c) \<Rightarrow> opts = o' \<and> s = foldl (op_step sha256 o') (initial_system c) evs)"

lemma created_ok:
  "createOperationCache ttl entries bytes result = Inr (opts, c) \<Longrightarrow> options_ok opts \<and> sys_ok opts (initial_system c)"
  by (auto simp: createOperationCache_def positive_Inr options_ok_def sys_ok_def initial_system_def cache_ok_def
      entries_ok_def pin_count_def pin_bytes_def mutation_ok_def max_pinned_entries_def max_pinned_bytes_def
      pos_imp_zdiv_nonneg_iff split: sum.splits)

lemma reachable_ok:
  assumes "reachable_system sha ttl entries bytes result evs opts s"
  shows "options_ok opts" "sys_ok opts s"
proof -
  from assms obtain c where c: "createOperationCache ttl entries bytes result = Inr (opts, c)"
    "s = foldl (op_step sha opts) (initial_system c) evs"
    by (auto simp: reachable_system_def split: sum.splits)
  from op_machine.run_inv [OF created_ok [OF c(1)]] c(2) show "options_ok opts" "sys_ok opts s" by blast+
qed

text \<open>C24: In every reachable state the byte counter is the sum over the retained entries of what
  each accounts for (its key, its result or reserved result, its targets and its handles), and
  neither the counter nor the number of entries exceeds the limits; entries that native work pins
  against expiry stay within an eighth of both limits.\<close>

theorem cache_stays_within_limits:
  assumes "reachable_system sha ttl entries bytes result evs opts s"
  shows "oc_retained (sy_cache s) = jsum ce_bytes (oc_entries (sy_cache s))
    \<and> (\<forall>ke \<in> set (oc_entries (sy_cache s)). ce_bytes (snd ke) = accountedBytes (sy_cache s) (fst ke) (snd ke))
    \<and> oc_retained (sy_cache s) \<le> op_max_bytes opts
    \<and> int (length (oc_entries (sy_cache s))) \<le> op_max_entries opts
    \<and> int (length (pinned_entries (sy_cache s))) \<le> min 125 (op_max_entries opts div 8)
    \<and> pinned_bytes (sy_cache s) \<le> min 1048576 (op_max_bytes opts div 8)"
proof -
  from reachable_ok(2) [OF assms] have ok: "cache_ok opts (sy_cache s)" by (simp add: sys_ok_def)
  then have "entries_ok (sy_cache s)" by (simp add: cache_ok_def)
  with ok pin_bytes_sum [OF this] pin_count_length [of "sy_cache s"] show ?thesis
    by (simp add: cache_ok_def entries_ok_def entry_ok_def max_pinned_entries_def max_pinned_bytes_def)
qed

text \<open>C3: The native dispatch of an operation is called at most once, whatever is repeated, and
  never while another run of the same operation identity is unsettled.\<close>

theorem dispatched_at_most_once:
  assumes "reachable_system sha ttl entries bytes result evs opts s"
  shows "distinct (sy_dispatched s)
    \<and> (\<forall>m \<in> set (sy_dispatched s). \<exists>r. jget (sy_runs s) m = Some r \<and> or_phase r \<noteq> Preparing)
    \<and> (\<forall>m n r q. jget (sy_runs s) m = Some r \<and> or_phase r \<noteq> Finished \<and>
         jget (sy_runs s) n = Some q \<and> or_phase q \<noteq> Finished \<and> or_key r = or_key q \<longrightarrow> m = n)"
proof -
  from reachable_ok(2) [OF assms] have s: "sys_ok opts s" .
  then have "m = n" if "jget (sy_runs s) m = Some r" "or_phase r \<noteq> Finished"
      "jget (sy_runs s) n = Some q" "or_phase q \<noteq> Finished" "or_key r = or_key q" for m n r q
  proof -
    from s that have "run_alive (sy_cache s) m r" "run_alive (sy_cache s) n q" by (auto simp: sys_ok_def)
    with that(5) show ?thesis by (auto simp: run_alive_def)
  qed
  with s show ?thesis by (auto simp: sys_ok_def)
qed

section \<open>Receipts outlive everything but their time\<close>

text \<open>An event whose clock reads before \<open>limit\<close> and that does not empty the cache.\<close>

fun before :: "int \<Rightarrow> op_event \<Rightarrow> bool" where
  "before limit (ExecuteOp now d ts maximum) = (now < limit)"
| "before limit (CleanupTick now) = (now < limit)"
| "before limit CloseFinished = False"
| "before limit _ = True"

lemma receipt_cleanup:
  assumes "cache_ok opts c" "cleanup opts now c = Inr c'" "receipt c k = Some (m, st, fp, t)" "now < t + op_ttl opts"
  shows "receipt c' k = Some (m, st, fp, t)"
  using cleanup_entries [OF assms(1,2), of k] assms(3,4)
  by (auto simp: receipt_def evictable_def)

lemma receipt_reserve:
  "jget (oc_entries c) l = None \<Longrightarrow> receipt c k = Some x \<Longrightarrow>
   receipt (snd (reserve opts l fp ts maximum c)) k = Some x"
  by (cases rule: reserve_cases [of opts l fp ts maximum c])
    (auto simp: receipt_def add_entry_def)

lemma receipt_execute:
  assumes "cache_ok opts c" "receipt c k = Some (m, st, fp, t)" "now < t + op_ttl opts"
  shows "receipt (snd (execute sha opts now d ts maximum c)) k = Some (m, st, fp, t)"
  using assms receipt_cleanup [OF assms(1) _ assms(2,3)] receipt_reserve
  by (cases rule: execute_cases [of sha opts now d ts maximum c]) fastforce+

lemma start_run_cache: "sy_cache (start_run rc s) = snd rc"
  by (auto simp: start_run_def split: sum.split execute_result.split)

lemma receipt_settled_from:
  "settled_from r c c' \<Longrightarrow> receipt c k = Some (m, st, fp, t) \<Longrightarrow> st \<noteq> InFlight \<Longrightarrow> receipt c' k = Some (m, st, fp, t)"
  by (auto simp: settled_from_def receipt_settle) (auto simp: receipt_def)

lemma quiet_receipt: "quiet c c' \<Longrightarrow> receipt c' k = receipt c k"
  by (simp add: quiet_def)

lemma receipt_step:
  assumes opts: "options_ok opts" and s: "sys_ok opts s"
    and r: "receipt (sy_cache s) k = Some (m, st, fp, t)" "st \<noteq> InFlight"
    and ev: "before (t + op_ttl opts) ev"
  shows "receipt (sy_cache (op_step sha opts s ev)) k = Some (m, st, fp, t)"
proof -
  from s have ok: "cache_ok opts (sy_cache s)" by (simp add: sys_ok_def)
  have unfinished: "0 \<le> or_reservation q" if "jget (sy_runs s) n = Some q" "or_phase q \<noteq> Finished" for n q
    using s that run_reservation_nonneg [OF ok, of n q] by (auto simp: sys_ok_def)
  note keep = receipt_settled_from [OF _ r]
  show ?thesis
  proof (cases ev)
    case (ExecuteOp now d ts maximum)
    with receipt_execute [OF ok r(1)] ev show ?thesis by (simp add: start_run_cache)
  next
    case (RefuseOp n err now)
    with unfinished [of n] r(1) keep show ?thesis
      by (auto simp: finish_run_def split: option.split intro!: keep [OF settled_from_refuse])
  next
    case (FailOp n err now)
    with unfinished [of n] r(1) keep show ?thesis
      by (auto simp: finish_run_def split: option.split intro!: keep [OF settled_from_failed])
  next
    case (ReturnOp n result now again)
    with unfinished [of n] r(1) keep show ?thesis
      by (auto simp: finish_run_def split: option.split intro!: keep [OF settled_from_returned])
  next
    case (CleanupTick now)
    with receipt_cleanup [OF ok _ r(1)] r(1) ev show ?thesis by (auto split: sum.split)
  next
    case CloseCache
    with r(1) show ?thesis by (simp add: close_begin_def receipt_def)
  next
    case CloseFinished
    with ev show ?thesis by simp
  next
    case (ReserveEffect n target)
    have "receipt (snd (reserveNativeEffect opts l n target (sy_cache s))) k = receipt (sy_cache s) k" for l
      by (rule quiet_receipt [OF quiet_reserve_effect])
    with ReserveEffect r(1) show ?thesis by (auto split: option.split prod.split sum.split) (metis snd_conv)+
  next
    case (StartEffect slot)
    have "receipt (snd (snd (effect_start x (sy_cache s)))) k = receipt (sy_cache s) k" for x
      by (rule quiet_receipt [OF quiet_effect_start])
    with StartEffect r(1) show ?thesis by (auto split: option.split prod.split) (metis snd_conv)
  next
    case (SettleEffect slot e)
    have "receipt (snd (effect_settled e x (sy_cache s))) k = receipt (sy_cache s) k" for x
      by (rule quiet_receipt [OF quiet_effect_settled])
    with SettleEffect r(1) show ?thesis by (auto split: option.split prod.split) (metis snd_conv)
  next
    case (ReleaseReservation slot)
    have "receipt (snd (reservation_release x (sy_cache s))) k = receipt (sy_cache s) k" for x
      by (rule quiet_receipt [OF quiet_release])
    with ReleaseReservation r(1) show ?thesis by (auto split: option.split prod.split) (metis snd_conv)
  qed (use r(1) in \<open>auto simp: set_phase_def quiet_receipt [OF quiet_handle_settled] quiet_receipt [OF quiet_handle_unresolved]
      quiet_receipt [OF quiet_retain] quiet_receipt [OF quiet_effect_unresolved] quiet_receipt [OF quiet_targets(1)]
      quiet_receipt [OF quiet_targets(2)] split: option.split\<close>)
qed

lemma receipt_persists:
  assumes "options_ok opts" "sys_ok opts s" "receipt (sy_cache s) k = Some (m, st, fp, t)" "st \<noteq> InFlight"
    and "list_all (before (t + op_ttl opts)) evs"
  shows "receipt (sy_cache (foldl (op_step sha opts) s evs)) k = Some (m, st, fp, t)"
  by (rule op_machine.run_keeps [where P = "\<lambda>s. receipt (sy_cache s) k = Some (m, st, fp, t)" and ok = "before (t + op_ttl opts)"])
    (use assms receipt_step in auto)

definition settled_answer :: "entry_state \<Rightarrow> execute_result js_result" where
  "settled_answer st =
     (case st of
        InFlight \<Rightarrow> Inr (Joined 0)
      | Completed r \<Rightarrow> Inr (Replayed r)
      | UnknownOutcome code \<Rightarrow> Inl (unknownOutcome code)
      | Rejected code message \<Rightarrow>
          Inl (cache_error code (case message of None \<Rightarrow> ''The operation was rejected before dispatch.'' | Some m \<Rightarrow> m)))"

lemma answer_of_receipt:
  assumes ok: "cache_ok opts c" and r: "receipt c (operation_key sha d) = Some (m, st, fp, t)" "st \<noteq> InFlight"
    and now: "0 \<le> now" "is_safe_integer now" "now < t + op_ttl opts"
    and d: "is_uuid (od_id d)" "operation_fingerprint sha d = Inr fp'" "\<not> oc_closing c"
  shows "fst (execute sha opts now d ts maximum c) =
    (if fp' = fp then settled_answer st
     else Inl (cache_error ''operation_conflict'' ''The operation identity is retained for a different intent.''))"
proof -
  obtain c1 where c1: "cleanup opts now c = Inr c1" using now(1,2) by (simp add: cleanup_def validNow_def)
  from receipt_cleanup [OF ok c1 r(1) now(3)] obtain e where e: "jget (oc_entries c1) (operation_key sha d) = Some e"
    "ce_state e = st" "ce_fingerprint e = fp" by (auto simp: receipt_def)
  with c1 d r(2) show ?thesis
    by (simp add: execute_def answer_existing_def settled_answer_def split: entry_state.split)
qed

text \<open>C6: Once an operation is settled, every repetition within the retention time is answered
  from its receipt, whatever happened in between: with the retained result, the rejection or the
  unknown outcome; a request under the same identity with another intent is refused. Nothing is
  started.\<close>

theorem repetition_is_answered_from_receipt:
  assumes "reachable_system sha ttl entries bytes result evs opts s"
    and "receipt (sy_cache s) (operation_key sha d) = Some (m, st, fp, t)" and "st \<noteq> InFlight"
    and "list_all (before (t + op_ttl opts)) later"
    and "s' = foldl (op_step sha opts) s later"
    and "0 \<le> now" "is_safe_integer now" "now < t + op_ttl opts"
    and "is_uuid (od_id d)" "operation_fingerprint sha d = Inr fp'" "\<not> oc_closing (sy_cache s')"
  shows "fst (execute sha opts now d ts maximum (sy_cache s')) =
      (if fp' = fp then settled_answer st
       else Inl (cache_error ''operation_conflict'' ''The operation identity is retained for a different intent.''))
    \<and> sy_runs (op_step sha opts s' (ExecuteOp now d ts maximum)) = sy_runs s'"
proof -
  note base = reachable_ok [OF assms(1)]
  from receipt_persists [OF base assms(2-4)] assms(5)
  have r: "receipt (sy_cache s') (operation_key sha d) = Some (m, st, fp, t)" by simp
  from op_machine.run_inv [OF conjI [OF base], of sha later] assms(5) have "cache_ok opts (sy_cache s')"
    by (simp add: sys_ok_def)
  from answer_of_receipt [OF this r assms(3,6-11), of ts maximum] assms(3) show ?thesis
    by (auto simp: start_run_def settled_answer_def split: entry_state.split)
qed

lemma returned_receipt:
  assumes s: "sys_ok opts s" and r: "jget (sy_runs s) m = Some r" "or_phase r = Dispatching"
    and v: "plain_json v" "int (utf8_length (the (stringify v))) \<le> or_reservation r"
    and now: "0 \<le> now" "is_safe_integer now"
  shows "receipt (sy_cache (op_step sha opts s (ReturnOp m v now again))) (or_key r)
    = Some (m, Completed (Some v), or_fingerprint r, now)"
proof -
  from s r have "run_alive (sy_cache s) m r" by (auto simp: sys_ok_def)
  then obtain e where e: "jget (oc_entries (sy_cache s)) (or_key r) = Some e" "ce_state e = InFlight" "ce_mutation e = m"
    by (auto simp: run_alive_def)
  from v(1) have "v \<noteq> JsUndefined" by auto
  with v have "retained_result (or_reservation r) v = Some (Some v, int (utf8_length (the (stringify v))))"
    by (simp add: retained_result_def plain_json_case json_copy_plain)
  with r now e show ?thesis
    by (simp add: dispatch_returned_def validNow_def finish_run_def receipt_settle)
qed

text \<open>The value an operation returned, if it is a JSON value within its reservation, is exactly
  what every repetition of the request receives within the retention time.\<close>

theorem returned_value_is_replayed:
  assumes "reachable_system sha ttl entries bytes result evs opts s"
    and "jget (sy_runs s) m = Some r" "or_phase r = Dispatching"
    and "plain_json v" "int (utf8_length (the (stringify v))) \<le> or_reservation r"
    and "0 \<le> at_time" "is_safe_integer at_time"
    and "list_all (before (at_time + op_ttl opts)) later"
    and "s' = foldl (op_step sha opts) s (ReturnOp m v at_time again # later)"
    and "0 \<le> now" "is_safe_integer now" "now < at_time + op_ttl opts"
    and "is_uuid (od_id d)" "operation_key sha d = or_key r" "operation_fingerprint sha d = Inr (or_fingerprint r)"
    and "\<not> oc_closing (sy_cache s')"
  shows "fst (execute sha opts now d ts maximum (sy_cache s')) = Inr (Replayed (Some v))"
proof -
  note base = reachable_ok [OF assms(1)]
  let ?s1 = "op_step sha opts s (ReturnOp m v at_time again)"
  have ok1: "sys_ok opts ?s1" by (rule sys_ok_op_step [OF base])
  have "receipt (sy_cache ?s1) (operation_key sha d) = Some (m, Completed (Some v), or_fingerprint r, at_time)"
    unfolding assms(14) by (rule returned_receipt [OF base(2) assms(2-7)])
  from receipt_persists [OF base(1) ok1 this _ assms(8)] assms(9)
  have r: "receipt (sy_cache s') (operation_key sha d) = Some (m, Completed (Some v), or_fingerprint r, at_time)" by simp
  from op_machine.run_inv [OF conjI [OF base(1) ok1], of sha later] assms(9) have "cache_ok opts (sy_cache s')"
    by (simp add: sys_ok_def)
  from answer_of_receipt [OF this r _ assms(10-13,15,16), of ts maximum] show ?thesis
    by (simp add: settled_answer_def)
qed

section \<open>Native evidence and intents\<close>

lemma receipt_mutation: "receipt c k = Some (m, st, fp, t) \<Longrightarrow> \<exists>e. jget (oc_entries c) k = Some e \<and> ce_mutation e = m"
  by (auto simp: receipt_def)

lemma entry_survives_cleanup:
  assumes "cache_ok opts c" "cleanup opts now c = Inr c'" "jget (oc_entries c) k = Some e" "ce_state e = InFlight \<or> pinned c e"
  shows "jget (oc_entries c') k = Some e"
  using cleanup_entries [OF assms(1,2), of k] assms(3,4) by (auto simp: evictable_def)

lemma quiet_entry:
  "quiet c c' \<Longrightarrow> jget (oc_entries c) k = Some e \<Longrightarrow> \<exists>e'. jget (oc_entries c') k = Some e' \<and> ce_mutation e' = ce_mutation e"
  by (drule quiet_receipt [of c c' k]) (auto simp: receipt_def)

lemma settle_entry:
  "jget (oc_entries c) k = Some e \<Longrightarrow>
   \<exists>e'. jget (oc_entries (settle l fp st b t c)) k = Some e' \<and> ce_mutation e' = ce_mutation e"
proof -
  assume e: "jget (oc_entries c) k = Some e"
  then have "\<exists>x. receipt (settle l fp st b t c) k = Some (ce_mutation e, x)"
    by (auto simp: receipt_settle) (auto simp: receipt_def)
  then show ?thesis by (auto simp: receipt_def)
qed

lemma settled_from_entry:
  "settled_from r c c' \<Longrightarrow> jget (oc_entries c) k = Some e \<Longrightarrow>
   \<exists>e'. jget (oc_entries c') k = Some e' \<and> ce_mutation e' = ce_mutation e"
  using settle_entry by (auto simp: settled_from_def)

lemma execute_entry:
  assumes "cache_ok opts c" "jget (oc_entries c) k = Some e" "ce_state e = InFlight \<or> pinned c e"
  shows "jget (oc_entries (snd (execute sha opts now d ts maximum c))) k = Some e"
proof (cases rule: execute_cases [of sha opts now d ts maximum c])
  case (fresh c1 fp)
  from entry_survives_cleanup [OF assms(1) fresh(1) assms(2,3)] fresh show ?thesis
    by (cases rule: reserve_cases [of opts "operation_key sha d" fp ts maximum c1]) (auto simp: add_entry_def)
qed (use assms entry_survives_cleanup [OF assms(1) _ assms(2,3)] in simp_all)

text \<open>C25: No event except the end of closing removes the record of an operation that is still in
  flight or that native work pins: its evidence survives expiry, capacity pressure and any other
  request.\<close>

theorem evidence_is_never_evicted:
  assumes "reachable_system sha ttl entries bytes result evs opts s"
    and "jget (oc_entries (sy_cache s)) k = Some e" "ce_state e = InFlight \<or> pinned (sy_cache s) e"
    and "ev \<noteq> CloseFinished"
  shows "\<exists>e'. jget (oc_entries (sy_cache (op_step sha opts s ev))) k = Some e' \<and> ce_mutation e' = ce_mutation e"
proof -
  from reachable_ok(2) [OF assms(1)] have s: "sys_ok opts s" .
  then have ok: "cache_ok opts (sy_cache s)" by (simp add: sys_ok_def)
  have unfinished: "0 \<le> or_reservation q" if "jget (sy_runs s) n = Some q" "or_phase q \<noteq> Finished" for n q
    using s that run_reservation_nonneg [OF ok, of n q] by (auto simp: sys_ok_def)
  note keep = settled_from_entry [OF _ assms(2)] and quiet = quiet_entry [OF _ assms(2)]
  show ?thesis
  proof (cases ev)
    case (ExecuteOp now d ts maximum)
    with execute_entry [OF ok assms(2,3)] show ?thesis by (simp add: start_run_cache)
  next
    case (RefuseOp n err now)
    with unfinished [of n] assms(2) show ?thesis
      by (auto simp: finish_run_def split: option.split intro!: keep [OF settled_from_refuse])
  next
    case (FailOp n err now)
    with unfinished [of n] assms(2) show ?thesis
      by (auto simp: finish_run_def split: option.split intro!: keep [OF settled_from_failed])
  next
    case (ReturnOp n result now again)
    with unfinished [of n] assms(2) show ?thesis
      by (auto simp: finish_run_def split: option.split intro!: keep [OF settled_from_returned])
  next
    case (CleanupTick now)
    with entry_survives_cleanup [OF ok _ assms(2,3)] assms(2) show ?thesis by (auto split: sum.split)
  next
    case CloseCache
    with assms(2) show ?thesis by (simp add: close_begin_def)
  next
    case (ReserveEffect n target)
    with quiet [OF quiet_reserve_effect] assms(2) show ?thesis
      by (auto split: option.split prod.split sum.split) (metis snd_conv)+
  next
    case (StartEffect slot)
    with quiet [OF quiet_effect_start] assms(2) show ?thesis
      by (auto split: option.split prod.split) (metis snd_conv)
  next
    case (SettleEffect slot x)
    with quiet [OF quiet_effect_settled] assms(2) show ?thesis
      by (auto split: option.split prod.split) (metis snd_conv)
  next
    case (ReleaseReservation slot)
    with quiet [OF quiet_release] assms(2) show ?thesis
      by (auto split: option.split prod.split) (metis snd_conv)
  qed (use assms(2,4) in \<open>auto simp: set_phase_def split: option.split intro!: quiet [OF quiet_handle_settled]
      quiet [OF quiet_handle_unresolved] quiet [OF quiet_retain] quiet [OF quiet_effect_unresolved]
      quiet [OF quiet_targets(1)] quiet [OF quiet_targets(2)]\<close>)
qed

text \<open>C26: While the receipt of one intent is retained, a request with the same identity but a
  different kind, target or parameters is refused as a conflict, provided the digest distinguishes
  the two texts.\<close>

theorem other_intent_is_a_conflict:
  assumes "cache_ok opts c" and "od_scope d' = od_scope d" "od_id d' = od_id d" "is_uuid (od_id d)" "\<not> oc_closing c"
    and "jget (oc_entries c) (operation_key sha d) = Some e" "ce_fingerprint e = sha t" "operation_text d = Inr t"
    and "0 \<le> now" "is_safe_integer now" "\<not> evictable c (now - op_ttl opts) e"
    and "wf_value (od_parameters d)" "wf_value (od_parameters d')"
    and "operation_text d' = Inr u" and "sha t = sha u \<longrightarrow> t = u"
    and "\<not> (od_kind d' = od_kind d \<and> od_target d' = od_target d \<and> same_value (od_parameters d) (od_parameters d'))"
  shows "fst (execute sha opts now d' ts maximum c) =
    Inl (cache_error ''operation_conflict'' ''The operation identity is retained for a different intent.'')"
proof -
  obtain c1 where c1: "cleanup opts now c = Inr c1" using assms(9,10) by (simp add: cleanup_def validNow_def)
  from cleanup_entries [OF assms(1) c1] assms(6,11) have e: "jget (oc_entries c1) (operation_key sha d) = Some e"
    by simp
  have key: "operation_key sha d' = operation_key sha d" by (simp add: operation_key_def assms(2,3))
  let ?v = "\<lambda>d. JsArray [JsString (od_kind d), JsString (od_target d), od_parameters d]"
  have "\<not> same_value (?v d) (?v d')" using assms(16) by auto
  then have "t \<noteq> u"
    using canonical_intent [of "?v d" "?v d'" t u] assms(8,12-14) by (simp add: operation_text_def)
  with assms(7,15) have "ce_fingerprint e \<noteq> sha u" by auto
  with e key c1 assms(3-5,14) show ?thesis by (simp add: execute_def operation_fingerprint_def answer_existing_def)
qed

section \<open>An example run\<close>

definition sample_request :: operation_descriptor where
  "sample_request = \<lparr>od_id = ''00000000-0000-4000-8000-000000000000'', od_scope = ''h'', od_kind = ''k'',
     od_target = ''t'', od_parameters = JsNull\<rparr>"

definition sample_digest :: "string \<Rightarrow> string" where
  "sample_digest s = s"

definition sample_options :: cache_options where
  "sample_options = \<lparr>op_ttl = 100, op_max_entries = 8, op_max_bytes = 8192, op_max_result_bytes = 64\<rparr>"

definition sample_cache :: op_cache where
  "sample_cache = \<lparr>oc_entries = [], oc_enabled = [],
           oc_mutations = \<lambda>_. \<lparr>mu_targets = [], mu_metadata = 0, mu_reservation = 0, mu_handles = [],
             mu_result_bytes = 0, mu_expired = False\<rparr>,
           oc_next = 0, oc_retained = 0, oc_closing = False, oc_notified = []\<rparr>"

definition sample_run :: "op_event list \<Rightarrow> op_system" where
  "sample_run evs = foldl (op_step sample_digest sample_options) (initial_system sample_cache) evs"

lemma sample_created: "createOperationCache (Some 100) (Some 8) (Some 8192) (Some 64) = Inr (sample_options, sample_cache)"
  by (simp add: createOperationCache_def positive_def is_safe_integer_def max_safe_integer_def sample_options_def sample_cache_def)

lemma sample_reachable: "reachable_system sample_digest (Some 100) (Some 8) (Some 8192) (Some 64) evs sample_options (sample_run evs)"
  by (simp add: reachable_system_def sample_created sample_run_def)

abbreviation sample_key :: string where
  "sample_key \<equiv> ''h:00000000-0000-4000-8000-000000000000''"

abbreviation sample_print :: string where
  "sample_print \<equiv> [CHR ''['', CHR 0x22, CHR ''k'', CHR 0x22, CHR '','', CHR 0x22, CHR ''t'', CHR 0x22, CHR '','',
     CHR ''n'', CHR ''u'', CHR ''l'', CHR ''l'', CHR '']'']"

lemma sample_uuid: "is_uuid (od_id sample_request)"
  by (simp add: is_uuid_def uuid_pattern_def sample_request_def is_hex_char_def numeral_eq_Suc)

lemma sample_key: "operation_key sample_digest sample_request = sample_key"
  by (simp add: operation_key_def sample_digest_def sample_request_def ascii_lower_def lower_char_def)

lemma sample_text_of: "operation_text sample_request = Inr sample_print"
  by (simp add: operation_text_def sample_request_def canonicalJson_def quote_def escape_char_def short_escape_def)

lemma sample_fingerprint: "operation_fingerprint sample_digest sample_request = Inr sample_print"
  by (simp add: operation_fingerprint_def sample_text_of sample_digest_def)

abbreviation sample_start :: "op_event list" where
  "sample_start \<equiv> [ExecuteOp 0 sample_request [''t''] None, DispatchOp 0]"

abbreviation sample_done :: "op_event list" where
  "sample_done \<equiv> [ExecuteOp 0 sample_request [''t''] None, DispatchOp 0, ReturnOp 0 (JsInt 7) 1 1]"

lemma sample_cache_open: "oc_closing sample_cache = False"
  by (simp add: sample_cache_def)

lemma sample_executed:
  "execute sample_digest sample_options 0 sample_request [''t''] None sample_cache =
     reserve sample_options sample_key sample_print [''t''] None sample_cache"
  by (simp add: execute_def Let_def sample_uuid sample_key sample_fingerprint cleanup_def validNow_def
      is_safe_integer_def max_safe_integer_def) (simp add: sample_cache_def)

definition sample_entry :: cache_entry where
  "sample_entry = \<lparr>ce_fingerprint = sample_print, ce_bytes = 375, ce_mutation = 0, ce_state = InFlight, ce_settled_at = 0\<rparr>"

lemma sample_reserved:
  "reserve sample_options sample_key sample_print [''t''] None sample_cache =
     (Inr (Started 0 sample_key sample_print 64),
      sample_cache\<lparr>oc_next := 1, oc_entries := [(sample_key, sample_entry)],
        oc_mutations := (oc_mutations sample_cache)(0 := \<lparr>mu_targets = [''t''], mu_metadata = 17, mu_reservation = 64,
                        mu_handles = [], mu_result_bytes = 64, mu_expired = False\<rparr>),
        oc_retained := 375\<rparr>)"
  by (simp add: reserve_def positive_def is_safe_integer_def max_safe_integer_def Let_def sample_options_def
      default_result_reservation_bytes_def entry_overhead_bytes_def js_unique_def entryBytes_def utf8_length_def
      set_mutation_def sample_cache_def sample_entry_def)

lemma sample_dispatching:
  "sample_run sample_start = \<lparr>sy_cache = snd (reserve sample_options sample_key sample_print [''t''] None sample_cache),
     sy_runs = [(0, \<lparr>or_key = sample_key, or_fingerprint = sample_print, or_reservation = 64, or_phase = Dispatching\<rparr>)],
     sy_dispatched = [0], sy_reservations = []\<rparr>"
  by (simp add: sample_run_def initial_system_def sample_executed start_run_def sample_reserved set_phase_def)

lemma cache_stays_within_limits_witness:
  "oc_retained (sy_cache (sample_run sample_start)) \<le> op_max_bytes sample_options"
  using cache_stays_within_limits [OF sample_reachable [of sample_start]] by blast

lemma dispatched_at_most_once_witness: "distinct (sy_dispatched (sample_run sample_start))"
  using dispatched_at_most_once [OF sample_reachable [of sample_start]] by blast

lemma evidence_is_never_evicted_witness:
  "\<exists>e'. jget (oc_entries (sy_cache (op_step sample_digest sample_options (sample_run sample_start) (CleanupTick 5000)))) sample_key = Some e'
     \<and> ce_mutation e' = 0"
proof -
  have "jget (oc_entries (sy_cache (sample_run sample_start))) sample_key = Some sample_entry"
    by (simp add: sample_dispatching sample_reserved)
  from evidence_is_never_evicted [OF sample_reachable this, of "CleanupTick 5000"] show ?thesis
    by (simp add: sample_entry_def)
qed

lemma sample_returned:
  "sy_cache (sample_run (sample_done)) =
     snd (dispatch_returned sample_key sample_print 64 (JsInt 7) 1 1 (sy_cache (sample_run sample_start)))"
proof -
  have "sample_run (sample_done) = op_step sample_digest sample_options (sample_run sample_start) (ReturnOp 0 (JsInt 7) 1 1)"
    by (simp add: sample_run_def)
  then show ?thesis by (simp add: sample_dispatching finish_run_def)
qed

lemma sample_text: "stringify (JsInt 7) = Some ''7''"
  by (simp add: int_text_def decimal.simps digit_char_def) code_simp

lemma settle_closing: "oc_closing (settle k fp st b t c) = oc_closing c"
  by (simp add: settle_def Let_def notifySettled_def account_def set_mutation_def split: option.split)

lemma returned_closing: "oc_closing (snd (dispatch_returned k fp res v now again c)) = oc_closing c"
  by (simp add: dispatch_returned_def settle_closing split: option.split sum.split)

lemma sample_open: "\<not> oc_closing (sy_cache (sample_run sample_done))"
  by (simp only: sample_returned returned_closing) (simp add: sample_dispatching sample_reserved sample_cache_open)

lemma returned_value_is_replayed_witness:
  "fst (execute sample_digest sample_options 50 sample_request [] None
     (sy_cache (sample_run (sample_done)))) = Inr (Replayed (Some (JsInt 7)))"
proof (rule returned_value_is_replayed [OF sample_reachable [of sample_start], where m = 0 and at_time = 1 and again = 1 and later = "[]"])
  show "jget (sy_runs (sample_run sample_start)) 0 = Some \<lparr>or_key = sample_key, or_fingerprint = sample_print, or_reservation = 64, or_phase = Dispatching\<rparr>"
    by (simp add: sample_dispatching)
  show "int (utf8_length (the (stringify (JsInt 7)))) \<le> or_reservation \<lparr>or_key = sample_key, or_fingerprint = sample_print, or_reservation = 64, or_phase = Dispatching\<rparr>"
    by (simp add: sample_text utf8_length_def del: stringify.simps)
  show "sample_run (sample_done) =
      foldl (op_step sample_digest sample_options) (sample_run sample_start) [ReturnOp 0 (JsInt 7) 1 1]"
    by (simp add: sample_run_def)
qed (simp_all add: is_safe_integer_def max_safe_integer_def sample_options_def sample_uuid sample_key sample_fingerprint sample_open)

lemma repetition_is_answered_from_receipt_witness:
  "fst (execute sample_digest sample_options 50 sample_request [] None
     (sy_cache (sample_run (sample_done)))) = settled_answer (Completed (Some (JsInt 7)))"
proof -
  let ?s = "sample_run (sample_done)"
  have "?s = op_step sample_digest sample_options (sample_run sample_start) (ReturnOp 0 (JsInt 7) 1 1)"
    by (simp add: sample_run_def)
  moreover have "receipt (sy_cache (op_step sample_digest sample_options (sample_run sample_start) (ReturnOp 0 (JsInt 7) 1 1))) sample_key
      = Some (0, Completed (Some (JsInt 7)), sample_print, 1)"
    using returned_receipt [OF reachable_ok(2) [OF sample_reachable [of sample_start]], of 0
        "\<lparr>or_key = sample_key, or_fingerprint = sample_print, or_reservation = 64, or_phase = Dispatching\<rparr>" "JsInt 7" 1 sample_digest 1]
    by (simp add: sample_dispatching sample_text utf8_length_def is_safe_integer_def max_safe_integer_def del: stringify.simps)
  ultimately have r: "receipt (sy_cache ?s) (operation_key sample_digest sample_request) = Some (0, Completed (Some (JsInt 7)), sample_print, 1)"
    by (simp add: sample_key)
  have "fst (execute sample_digest sample_options 50 sample_request [] None (sy_cache ?s)) =
      (if sample_print = sample_print then settled_answer (Completed (Some (JsInt 7)))
       else Inl (cache_error ''operation_conflict'' ''The operation identity is retained for a different intent.''))
    \<and> sy_runs (op_step sample_digest sample_options ?s (ExecuteOp 50 sample_request [] None)) = sy_runs ?s"
    by (rule repetition_is_answered_from_receipt [OF sample_reachable r, where later = "[]"])
      (simp_all add: is_safe_integer_def max_safe_integer_def sample_options_def sample_uuid sample_fingerprint sample_open)
  then show ?thesis by simp
qed

lemma other_intent_is_a_conflict_witness:
  "fst (execute sample_digest sample_options 0 (sample_request\<lparr>od_target := ''u''\<rparr>) [] None (sy_cache (sample_run sample_start))) =
    Inl (cache_error ''operation_conflict'' ''The operation identity is retained for a different intent.'')"
proof -
  have e: "jget (oc_entries (sy_cache (sample_run sample_start))) sample_key = Some sample_entry"
    by (simp add: sample_dispatching sample_reserved)
  have ok: "cache_ok sample_options (sy_cache (sample_run sample_start))"
    using reachable_ok(2) [OF sample_reachable [of sample_start]] by (simp add: sys_ok_def)
  have open_c: "\<not> oc_closing (sy_cache (sample_run sample_start))"
    by (simp add: sample_dispatching sample_reserved sample_cache_open)
  have "\<exists>u. operation_text (sample_request\<lparr>od_target := ''u''\<rparr>) = Inr u"
    by (simp add: operation_text_def sample_request_def canonicalJson_def)
  then obtain u where u: "operation_text (sample_request\<lparr>od_target := ''u''\<rparr>) = Inr u" by blast
  show ?thesis
    by (rule other_intent_is_a_conflict [OF ok, where d = sample_request and e = sample_entry and t = sample_print and u = u])
      (simp_all add: e u open_c sample_key sample_uuid sample_text_of sample_entry_def is_safe_integer_def
        max_safe_integer_def evictable_def sample_digest_def, simp_all add: sample_request_def)
qed

end
