(* ===== verification/Session_Control_Properties.thy ===== *)
theory Session_Control_Properties
  imports Session_Control
begin

text \<open>
  The invariant of the session control registry, and its consequences: a grant ends with the
  ownership under which it was given, and no later event brings it back.
\<close>

section \<open>The invariant\<close>

definition lease_ok :: "control_registry \<Rightarrow> nat \<Rightarrow> control_connection \<Rightarrow> bool" where
  "lease_ok g l c \<longleftrightarrow>
     l < rg_next g \<and> cn_session c < rg_next g \<and> cn_revision c < rg_next g
     \<and> (\<forall>t. cn_token c = Some t \<longrightarrow> t < rg_next g)
     \<and> (\<not> cn_closed c \<and> \<not> rg_closed g \<longrightarrow>
         jget (rg_sessions g) (cn_agent c) = Some (cn_session c) \<and> l \<in> set (cs_connections (rg_heap g (cn_session c))))
     \<and> (cn_token c \<noteq> None \<longrightarrow> \<not> cn_closed c \<and> \<not> rg_closed g \<and> cs_owner (rg_heap g (cn_session c)) = None)"

definition session_ok :: "control_registry \<Rightarrow> string \<Rightarrow> nat \<Rightarrow> bool" where
  "session_ok g agent i \<longleftrightarrow>
     i < rg_next g
     \<and> (cs_owner (rg_heap g i) \<noteq> None \<or> cs_connections (rg_heap g i) \<noteq> [])
     \<and> (\<forall>l \<in> set (cs_connections (rg_heap g i)). \<exists>c. rg_leases g l = Some c \<and> cn_agent c = agent \<and> cn_session c = i \<and> \<not> cn_closed c)"

definition control_ok :: "control_registry \<Rightarrow> bool" where
  "control_ok g \<longleftrightarrow>
     wf_jmap (rg_sessions g)
     \<and> (rg_closed g \<longrightarrow> rg_sessions g = [])
     \<and> (\<forall>a b i. jget (rg_sessions g) a = Some i \<and> jget (rg_sessions g) b = Some i \<longrightarrow> a = b)
     \<and> (\<forall>l c. rg_leases g l = Some c \<longrightarrow> lease_ok g l c)
     \<and> (\<forall>a i. jget (rg_sessions g) a = Some i \<longrightarrow> session_ok g a i)
     \<and> (\<forall>k l c d t. rg_leases g k = Some c \<and> rg_leases g l = Some d \<and> cn_token c = Some t \<and> cn_token d = Some t \<longrightarrow> k = l)"

lemma control_okD:
  assumes "control_ok g"
  shows "wf_jmap (rg_sessions g)" "rg_closed g \<Longrightarrow> rg_sessions g = []"
    "jget (rg_sessions g) a = Some i \<Longrightarrow> jget (rg_sessions g) b = Some i \<Longrightarrow> a = b"
    "rg_leases g l = Some c \<Longrightarrow> lease_ok g l c"
    "jget (rg_sessions g) a = Some i \<Longrightarrow> session_ok g a i"
    "rg_leases g k = Some c \<Longrightarrow> rg_leases g l = Some d \<Longrightarrow> cn_token c = Some t \<Longrightarrow> cn_token d = Some t \<Longrightarrow> k = l"
  using assms by (auto simp: control_ok_def)

lemma new_registry_ok: "control_ok new_registry"
  by (simp add: control_ok_def new_registry_def)

section \<open>Revocation\<close>

lemma revoke_fields:
  "rg_sessions (foldl revoke g ls) = rg_sessions g" "rg_heap (foldl revoke g ls) = rg_heap g"
  "rg_closed (foldl revoke g ls) = rg_closed g" "rg_next g \<le> rg_next (foldl revoke g ls)"
  "l \<notin> set ls \<Longrightarrow> rg_leases (foldl revoke g ls) l = rg_leases g l"
  "rg_leases (foldl revoke g ls) l = None \<longleftrightarrow> rg_leases g l = None"
proof (induction ls arbitrary: g)
  case (Cons a ls)
  { case 1 show ?case by (simp add: Cons.IH) (simp add: revoke_def set_lease_def split: option.split) }
  { case 2 show ?case by (simp add: Cons.IH) (simp add: revoke_def set_lease_def split: option.split) }
  { case 3 show ?case by (simp add: Cons.IH) (simp add: revoke_def set_lease_def split: option.split) }
  { case 4
    have "rg_next g \<le> rg_next (revoke g a)" by (simp add: revoke_def set_lease_def split: option.split)
    with Cons.IH(4) [of "revoke g a"] show ?case by simp }
  { case 5 then show ?case by (simp add: Cons.IH) (simp add: revoke_def set_lease_def split: option.split) }
  { case 6 then show ?case by (simp add: Cons.IH) (simp add: revoke_def set_lease_def split: option.split) }
qed simp_all

lemma revoke_at:
  "rg_leases g l = Some c \<Longrightarrow> l \<in> set ls \<Longrightarrow>
   \<exists>r. rg_next g \<le> r \<and> r < rg_next (foldl revoke g ls) \<and>
     rg_leases (foldl revoke g ls) l = Some (c\<lparr>cn_token := None, cn_revision := r\<rparr>)"
proof (induction ls arbitrary: g c)
  case (Cons a ls)
  have up: "rg_next g \<le> rg_next (revoke g a)" by (simp add: revoke_def set_lease_def split: option.split)
  show ?case
  proof (cases "a = l")
    case True
    have now: "rg_leases (revoke g a) l = Some (c\<lparr>cn_token := None, cn_revision := rg_next g\<rparr>)"
      and lt: "rg_next g < rg_next (revoke g a)"
      using Cons.prems(1) True by (simp_all add: revoke_def set_lease_def)
    show ?thesis
    proof (cases "l \<in> set ls")
      case True
      from Cons.IH [OF now True] up show ?thesis by (auto intro: le_trans)
    next
      case False
      from now lt revoke_fields(4) [of "revoke g a" ls] revoke_fields(5) [OF False, of "revoke g a"] show ?thesis
        by (auto intro!: exI [of _ "rg_next g"])
    qed
  next
    case False
    then have "rg_leases (revoke g a) l = Some c" using Cons.prems(1)
      by (simp add: revoke_def set_lease_def split: option.split)
    from Cons.IH [OF this] False Cons.prems(2) up show ?thesis by (auto intro: le_trans)
  qed
qed simp

lemma revoke_cases:
  assumes "rg_leases (foldl revoke g ls) l = Some d"
  obtains c r where "rg_leases g l = Some c" "l \<in> set ls" "rg_next g \<le> r" "r < rg_next (foldl revoke g ls)"
      "d = c\<lparr>cn_token := None, cn_revision := r\<rparr>"
    | "rg_leases g l = Some d" "l \<notin> set ls"
proof (cases "l \<in> set ls")
  case True
  from assms have "rg_leases g l \<noteq> None" using revoke_fields(6) [of g ls l] by auto
  then obtain c where c: "rg_leases g l = Some c" by auto
  from revoke_at [OF c True] assms that(1) [OF c True] show ?thesis by fastforce
next
  case False
  with assms that(2) revoke_fields(5) [OF False, of g] show ?thesis by simp
qed

section \<open>Changing the owner\<close>

lemma drop_if_unused_fields [simp]:
  "rg_heap (drop_if_unused a x g) = rg_heap g" "rg_leases (drop_if_unused a x g) = rg_leases g"
  "rg_next (drop_if_unused a x g) = rg_next g" "rg_closed (drop_if_unused a x g) = rg_closed g"
  "jget (rg_sessions (drop_if_unused a x g)) b =
     (if b = a \<and> cs_owner x = None \<and> cs_connections x = [] then None else jget (rg_sessions g) b)"
  by (simp_all add: drop_if_unused_def)

lemma drop_if_unused_wf: "wf_jmap (rg_sessions g) \<Longrightarrow> wf_jmap (rg_sessions (drop_if_unused a x g))"
  by (simp add: drop_if_unused_def)

text \<open>The state a registry is in between creating a session and giving it an owner or a lease.\<close>

definition almost_ok :: "string \<Rightarrow> nat \<Rightarrow> control_registry \<Rightarrow> bool" where
  "almost_ok agent i g \<longleftrightarrow>
     wf_jmap (rg_sessions g) \<and> \<not> rg_closed g
     \<and> (\<forall>a b i. jget (rg_sessions g) a = Some i \<and> jget (rg_sessions g) b = Some i \<longrightarrow> a = b)
     \<and> (\<forall>l c. rg_leases g l = Some c \<longrightarrow> lease_ok g l c)
     \<and> (\<forall>a j. jget (rg_sessions g) a = Some j \<and> a \<noteq> agent \<longrightarrow> session_ok g a j)
     \<and> jget (rg_sessions g) agent = Some i \<and> i < rg_next g
     \<and> (\<forall>l \<in> set (cs_connections (rg_heap g i)). \<exists>c. rg_leases g l = Some c \<and> cn_agent c = agent \<and> cn_session c = i \<and> \<not> cn_closed c)
     \<and> (\<forall>k l c d t. rg_leases g k = Some c \<and> rg_leases g l = Some d \<and> cn_token c = Some t \<and> cn_token d = Some t \<longrightarrow> k = l)"

lemma almost_known:
  "control_ok g \<Longrightarrow> jget (rg_sessions g) agent = Some i \<Longrightarrow> almost_ok agent i g"
proof -
  assume ok: "control_ok g" and i: "jget (rg_sessions g) agent = Some i"
  have "\<not> rg_closed g" using control_okD(2) [OF ok] i by auto
  moreover have "i < rg_next g \<and> (\<forall>l \<in> set (cs_connections (rg_heap g i)).
      \<exists>c. rg_leases g l = Some c \<and> cn_agent c = agent \<and> cn_session c = i \<and> \<not> cn_closed c)"
    using control_okD(5) [OF ok i] by (simp add: session_ok_def)
  ultimately show ?thesis using i ok unfolding almost_ok_def control_ok_def by blast
qed

lemma almost_new:
  assumes ok: "control_ok g" and "\<not> rg_closed g" and none: "jget (rg_sessions g) agent = None"
  shows "almost_ok agent (rg_next g)
    ((set_session (rg_next g) \<lparr>cs_owner = None, cs_connections = []\<rparr> g)
       \<lparr>rg_sessions := jset (rg_sessions g) agent (rg_next g), rg_next := Suc (rg_next g)\<rparr>)"
    (is "almost_ok _ _ ?g")
proof -
  have other: "i < rg_next g" if "jget (rg_sessions g) a = Some i" for a i
    using control_okD(5) [OF ok that] by (simp add: session_ok_def)
  have lease: "lease_ok ?g l c" if "rg_leases g l = Some c" for l c
    using control_okD(4) [OF ok that] none by (auto simp: lease_ok_def set_session_def less_SucI)
  have sess: "session_ok ?g a j" if "jget (rg_sessions g) a = Some j" for a j
    using control_okD(5) [OF ok that] by (auto simp: session_ok_def set_session_def)
  show ?thesis
    using assms other lease sess control_okD(1,3,6) [OF ok]
    by (auto simp: almost_ok_def set_session_def split: if_splits)
qed

lemma change_owner_ok:
  assumes ok: "almost_ok agent i g" and change: "cs_owner (rg_heap g i) \<noteq> owner"
  shows "control_ok (snd (change_owner agent i owner g))"
proof -
  define x where "x = (rg_heap g i)\<lparr>cs_owner := owner\<rparr>"
  define g1 where "g1 = foldl revoke (set_session i x g) (cs_connections x)"
  define g2 where "g2 = drop_if_unused agent x g1"
  have g2: "snd (change_owner agent i owner g) = g2"
    using change by (simp add: change_owner_def Let_def x_def g1_def g2_def)
  note f = revoke_fields [where g = "set_session i x g" and ls = "cs_connections x", folded g1_def]
  have heap: "rg_heap g2 = (rg_heap g)(i := x)" and closed: "\<not> rg_closed g2" and up: "rg_next g \<le> rg_next g2"
    and sess1: "rg_sessions g1 = rg_sessions g"
    using ok f by (simp_all add: g2_def set_session_def almost_ok_def)
  have leases: "rg_leases g2 = rg_leases g1" by (simp add: g2_def)
  have own: "cs_connections x = cs_connections (rg_heap g i)" by (simp add: x_def)
  have kept: "\<exists>c. rg_leases g l = Some c \<and> cn_agent d = cn_agent c \<and> cn_session d = cn_session c \<and> cn_closed d = cn_closed c
      \<and> l < rg_next g \<and> cn_session d < rg_next g \<and> cn_revision d < rg_next g2
      \<and> (if l \<in> set (cs_connections x) then cn_token d = None else d = c)"
    if d: "rg_leases g2 l = Some d" for l d
  proof -
    have bounds: "l < rg_next g \<and> cn_session c < rg_next g \<and> cn_revision c < rg_next g" if "rg_leases g l = Some c" for c
      using ok that by (auto simp: almost_ok_def lease_ok_def)
    from d have "rg_leases (foldl revoke (set_session i x g) (cs_connections x)) l = Some d"
      by (simp add: leases g1_def)
    then show ?thesis
    proof (cases rule: revoke_cases)
      case (1 c r)
      then have "r < rg_next g2" by (simp add: g2_def g1_def)
      with 1 bounds [of c] show ?thesis by (auto simp: set_session_def)
    next
      case 2
      with bounds [of d] up show ?thesis by (auto simp: set_session_def intro: less_le_trans)
    qed
  qed
  have backward: "\<exists>d. rg_leases g2 l = Some d \<and> cn_agent d = cn_agent c \<and> cn_session d = cn_session c \<and> cn_closed d = cn_closed c"
    if "rg_leases g l = Some c" for l c
  proof -
    have "rg_leases g2 l \<noteq> None" using that f(6) by (simp add: leases set_session_def)
    then obtain d where "rg_leases g2 l = Some d" by auto
    with kept [OF this] that show ?thesis by auto
  qed
  have member: "l \<in> set (cs_connections (rg_heap g i))" if "rg_leases g l = Some c" "cn_session c = i" "cn_token c \<noteq> None" for l c
    using ok that by (auto simp: almost_ok_def lease_ok_def)
  have sessions: "jget (rg_sessions g2) a = Some j \<Longrightarrow> jget (rg_sessions g) a = Some j" for a j
    by (simp add: g2_def sess1 split: if_splits)
  have lease: "lease_ok g2 l d" if d: "rg_leases g2 l = Some d" for l d
  proof -
    from kept [OF d] obtain c where c: "rg_leases g l = Some c" "cn_agent d = cn_agent c" "cn_session d = cn_session c"
      "cn_closed d = cn_closed c" "l < rg_next g" "cn_session d < rg_next g" "cn_revision d < rg_next g2"
      "if l \<in> set (cs_connections x) then cn_token d = None else d = c" by blast
    from ok c(1) have old: "lease_ok g l c" and open_g: "\<not> rg_closed g" by (simp_all add: almost_ok_def)
    have "jget (rg_sessions g2) (cn_agent d) = Some (cn_session d) \<and> l \<in> set (cs_connections (rg_heap g2 (cn_session d)))"
      if "\<not> cn_closed d"
    proof -
      from old that open_g c have reg: "jget (rg_sessions g) (cn_agent d) = Some (cn_session d)"
        and l: "l \<in> set (cs_connections (rg_heap g (cn_session d)))" by (simp_all add: lease_ok_def)
      then have l': "l \<in> set (cs_connections (rg_heap g2 (cn_session d)))" by (auto simp: heap x_def)
      have "\<not> (cn_agent d = agent \<and> cs_owner x = None \<and> cs_connections x = [])"
        using ok reg l by (auto simp: almost_ok_def own)
      with reg l' show ?thesis by (simp add: g2_def sess1)
    qed
    moreover have "\<not> cn_closed d \<and> cs_owner (rg_heap g2 (cn_session d)) = None" if t: "cn_token d \<noteq> None"
    proof -
      from t c(8) have "l \<notin> set (cs_connections x)" "d = c" by (auto split: if_splits)
      with member [OF c(1)] t own have "cn_session d \<noteq> i" by auto
      with old t \<open>d = c\<close> show ?thesis by (simp add: lease_ok_def heap)
    qed
    moreover have "t < rg_next g2" if "cn_token d = Some t" for t
    proof -
      from that c(8) have "d = c" by (auto split: if_splits)
      with old that up show ?thesis by (auto simp: lease_ok_def intro: less_le_trans)
    qed
    ultimately show ?thesis using c(5-7) up closed by (auto simp: lease_ok_def intro: less_le_trans)
  qed
  have session: "session_ok g2 a j" if "jget (rg_sessions g2) a = Some j" for a j
  proof (cases "a = agent")
    case True
    with that sessions [OF that] ok have j: "j = i" "i < rg_next g" by (auto simp: almost_ok_def)
    from that True have "cs_owner x \<noteq> None \<or> cs_connections x \<noteq> []" by (auto simp: g2_def sess1 split: if_splits)
    moreover have "\<exists>d. rg_leases g2 l = Some d \<and> cn_agent d = agent \<and> cn_session d = i \<and> \<not> cn_closed d"
      if "l \<in> set (cs_connections x)" for l
      using that ok backward by (fastforce simp: almost_ok_def own)
    ultimately show ?thesis using j up True by (auto simp: session_ok_def heap)
  next
    case False
    from sessions [OF that] False ok have old: "session_ok g a j" and "j \<noteq> i" by (auto simp: almost_ok_def)
    with backward up show ?thesis by (fastforce simp: session_ok_def heap)
  qed
  have "k = l" if "rg_leases g2 k = Some c" "rg_leases g2 l = Some d" "cn_token c = Some t" "cn_token d = Some t" for k l c d t
  proof -
    from kept [OF that(1)] kept [OF that(2)] that(3,4) have "rg_leases g k = Some c" "rg_leases g l = Some d"
      by (auto split: if_splits)
    with ok that(3,4) show ?thesis by (auto simp: almost_ok_def)
  qed
  moreover have "wf_jmap (rg_sessions g2)"
    using ok by (simp add: g2_def sess1 drop_if_unused_wf almost_ok_def)
  moreover have "a = b" if "jget (rg_sessions g2) a = Some j" "jget (rg_sessions g2) b = Some j" for a b j
    using ok sessions [OF that(1)] sessions [OF that(2)] by (auto simp: almost_ok_def)
  ultimately show ?thesis using lease session closed by (simp add: g2 control_ok_def)
qed

lemma setNativeOwner_ok: "control_ok g \<Longrightarrow> control_ok (snd (setNativeOwner agent owner g))"
proof -
  assume ok: "control_ok g"
  show ?thesis
  proof (cases "jget (rg_sessions g) agent")
    case None
    have "control_ok (snd (change_owner agent (rg_next g) owner
        ((set_session (rg_next g) \<lparr>cs_owner = None, cs_connections = []\<rparr> g)
           \<lparr>rg_sessions := jset (rg_sessions g) agent (rg_next g), rg_next := Suc (rg_next g)\<rparr>)))"
      if "\<not> rg_closed g" "owner \<noteq> None"
      using that by (intro change_owner_ok almost_new ok None) (auto simp: set_session_def)
    with None ok show ?thesis by (auto simp: setNativeOwner_def Let_def)
  next
    case (Some i)
    show ?thesis
    proof (cases "cs_owner (rg_heap g i) = owner")
      case True
      with Some ok show ?thesis by (simp add: setNativeOwner_def change_owner_def Let_def)
    next
      case False
      from change_owner_ok [OF almost_known [OF ok Some] False] Some ok show ?thesis
        by (simp add: setNativeOwner_def)
    qed
  qed
qed

section \<open>The other operations\<close>

lemma almost_attach:
  assumes ok: "control_ok g" and "\<not> rg_closed g"
  shows "almost_ok agent (fst (attach_session agent g)) (snd (attach_session agent g))"
  using almost_known [OF ok] almost_new [OF assms] by (auto simp: attach_session_def split: option.split)

lemma attach_ok:
  assumes ok: "control_ok g" and att: "attach agent g = Inr (l, g')"
  shows "control_ok g'"
proof -
  from att have closed: "\<not> rg_closed g" by (auto simp: attach_def split: if_splits)
  define i where "i = fst (attach_session agent g)"
  define g1 where "g1 = snd (attach_session agent g)"
  from almost_attach [OF ok closed] have a: "almost_ok agent i g1" by (simp add: i_def g1_def)
  define x where "x = rg_heap g1 i"
  define c where "c = \<lparr>cn_agent = agent, cn_session = i, cn_revision = rg_next g1, cn_token = None, cn_closed = False\<rparr>"
  have l: "l = Suc (rg_next g1)" and g': "g' = (set_session i (x\<lparr>cs_connections := cs_connections x @ [l]\<rparr>) (set_lease l c g1))\<lparr>rg_next := Suc l\<rparr>"
    using att closed by (auto simp: attach_def Let_def i_def g1_def x_def c_def split: prod.splits)
  have fresh: "rg_leases g1 l = None"
  proof (rule ccontr)
    assume "rg_leases g1 l \<noteq> None"
    then obtain d where "rg_leases g1 l = Some d" by auto
    with a have "l < rg_next g1" by (auto simp: almost_ok_def lease_ok_def)
    with l show False by simp
  qed
  have heap: "rg_heap g' = (rg_heap g1)(i := x\<lparr>cs_connections := cs_connections x @ [l]\<rparr>)"
    and leases: "rg_leases g' = (rg_leases g1)(l \<mapsto> c)" and nexts: "rg_next g' = Suc (Suc (rg_next g1))"
    and sessions: "rg_sessions g' = rg_sessions g1" and closed': "\<not> rg_closed g'"
    using a by (simp_all add: g' l set_session_def set_lease_def almost_ok_def)
  have lease: "lease_ok g' k d" if "rg_leases g' k = Some d" for k d
  proof (cases "k = l")
    case True
    with that a show ?thesis
      by (auto simp: leases lease_ok_def c_def nexts sessions heap l almost_ok_def)
  next
    case False
    with that a have "lease_ok g1 k d" "\<not> rg_closed g1" by (auto simp: leases almost_ok_def)
    then show ?thesis by (auto simp: lease_ok_def nexts sessions heap closed' x_def)
  qed
  have session: "session_ok g' b j" if s: "jget (rg_sessions g') b = Some j" for b j
  proof (cases "b = agent")
    case True
    with s a have j: "j = i" "i < rg_next g1" by (auto simp: sessions almost_ok_def)
    have "\<exists>d. rg_leases g' k = Some d \<and> cn_agent d = agent \<and> cn_session d = i \<and> \<not> cn_closed d"
      if "k \<in> set (cs_connections x) \<or> k = l" for k
      using that a by (cases "k = l") (auto simp: leases c_def almost_ok_def x_def)
    with j True show ?thesis by (auto simp: session_ok_def heap nexts)
  next
    case False
    with s a have old: "session_ok g1 b j" and "j \<noteq> i" by (auto simp: sessions almost_ok_def)
    have "\<exists>d. rg_leases g' k = Some d \<and> cn_agent d = b \<and> cn_session d = j \<and> \<not> cn_closed d"
      if k: "k \<in> set (cs_connections (rg_heap g1 j))" for k
    proof -
      from old k obtain d where "rg_leases g1 k = Some d" "cn_agent d = b" "cn_session d = j" "\<not> cn_closed d"
        by (auto simp: session_ok_def)
      moreover from this fresh have "k \<noteq> l" by auto
      ultimately show ?thesis by (simp add: leases)
    qed
    with old \<open>j \<noteq> i\<close> show ?thesis by (auto simp: session_ok_def heap nexts)
  qed
  have "k = k'" if "rg_leases g' k = Some d" "rg_leases g' k' = Some d'" "cn_token d = Some t" "cn_token d' = Some t" for k k' d d' t
    using that a by (auto simp: leases c_def almost_ok_def split: if_splits)
  moreover have "wf_jmap (rg_sessions g')" using a by (simp add: sessions almost_ok_def)
  moreover have "a' = b" if "jget (rg_sessions g') a' = Some j" "jget (rg_sessions g') b = Some j" for a' b j
    using a that by (auto simp: sessions almost_ok_def)
  ultimately show ?thesis using lease session closed' unfolding control_ok_def by blast
qed

text \<open>Changing a lease without moving it.\<close>

lemma set_lease_ok:
  assumes ok: "control_ok g" and c: "rg_leases g l = Some c"
    and same: "cn_agent d = cn_agent c" "cn_session d = cn_session c" "cn_closed d = cn_closed c" "cn_revision d = cn_revision c"
    and token: "cn_token d = Some (rg_next g)" "\<not> cn_closed c" "\<not> rg_closed g" "cs_owner (rg_heap g (cn_session c)) = None"
  shows "control_ok ((set_lease l d g)\<lparr>rg_next := Suc (rg_next g)\<rparr>)" (is "control_ok ?g")
proof -
  have fields: "rg_sessions ?g = rg_sessions g" "rg_heap ?g = rg_heap g" "rg_closed ?g = rg_closed g"
    "rg_leases ?g = (rg_leases g)(l \<mapsto> d)" "rg_next ?g = Suc (rg_next g)"
    by (simp_all add: set_lease_def)
  have lease: "lease_ok ?g k e" if "rg_leases ?g k = Some e" for k e
  proof (cases "k = l")
    case True
    with that control_okD(4) [OF ok c] same token show ?thesis by (auto simp: lease_ok_def fields set_lease_def)
  next
    case False
    with that have "lease_ok g k e" by (intro control_okD(4) [OF ok]) (simp add: fields set_lease_def)
    then show ?thesis by (auto simp: lease_ok_def fields set_lease_def)
  qed
  have session: "session_ok ?g b j" if "jget (rg_sessions ?g) b = Some j" for b j
  proof -
    from that have old: "session_ok g b j" by (intro control_okD(5) [OF ok]) (simp add: fields set_lease_def)
    have "\<exists>e. rg_leases ?g k = Some e \<and> cn_agent e = b \<and> cn_session e = j \<and> \<not> cn_closed e"
      if k: "k \<in> set (cs_connections (rg_heap g j))" for k
      using old k c same by (cases "k = l") (auto simp: session_ok_def fields set_lease_def)
    with old show ?thesis by (auto simp: session_ok_def fields set_lease_def)
  qed
  have old: "t < rg_next g" if "rg_leases g k = Some e" "cn_token e = Some t" for k e t
    using control_okD(4) [OF ok that(1)] that(2) by (simp add: lease_ok_def)
  have uniq: "k = k'" if "rg_leases ?g k = Some e" "rg_leases ?g k' = Some e'" "cn_token e = Some t" "cn_token e' = Some t" for k k' e e' t
  proof (cases "k = l \<or> k' = l")
    case True
    then have "t = rg_next g" using that token(1) by (auto simp: set_lease_def)
    then show ?thesis using that old [of k e t] old [of k' e' t] by (auto simp: set_lease_def split: if_splits)
  next
    case False
    with that(1,2) have "rg_leases g k = Some e" "rg_leases g k' = Some e'" by (simp_all add: set_lease_def)
    from control_okD(6) [OF ok this that(3,4)] show ?thesis .
  qed
  have "wf_jmap (rg_sessions ?g) \<and> (rg_closed ?g \<longrightarrow> rg_sessions ?g = [])
    \<and> (\<forall>a b i. jget (rg_sessions ?g) a = Some i \<and> jget (rg_sessions ?g) b = Some i \<longrightarrow> a = b)"
    using ok unfolding fields by (simp add: control_ok_def)
  with lease session uniq show ?thesis unfolding control_ok_def by blast
qed

lemma lease_request_ok:
  assumes ok: "control_ok g" and c: "rg_leases g l = Some c" and req: "lease_request l c r g = Inr (st, g')"
  shows "control_ok g'"
  using req ok set_lease_ok [OF ok c, of "c\<lparr>cn_token := Some (rg_next g)\<rparr>"]
  by (auto simp: lease_request_def Let_def split: if_splits option.splits)

lemma lease_close_ok:
  assumes ok: "control_ok g" and c: "rg_leases g l = Some c"
  shows "control_ok (lease_close l c g)"
proof (cases "cn_closed c")
  case True
  with ok show ?thesis by (simp add: lease_close_def)
next
  case open_c: False
  define i where "i = cn_session c"
  define x where "x = (rg_heap g i)\<lparr>cs_connections := removeAll l (cs_connections (rg_heap g i))\<rparr>"
  define d where "d = c\<lparr>cn_closed := True, cn_token := None\<rparr>"
  define g' where "g' = drop_if_unused (cn_agent c) x (set_session i x (set_lease l d g))"
  have res: "lease_close l c g = g'" using open_c by (simp add: lease_close_def Let_def g'_def x_def d_def i_def)
  have heap: "rg_heap g' = (rg_heap g)(i := x)" and leases: "rg_leases g' = (rg_leases g)(l \<mapsto> d)"
    and nexts: "rg_next g' = rg_next g" and closed: "rg_closed g' = rg_closed g"
    by (simp_all add: g'_def set_session_def set_lease_def)
  have sessions: "jget (rg_sessions g') b =
      (if b = cn_agent c \<and> cs_owner x = None \<and> cs_connections x = [] then None else jget (rg_sessions g) b)" for b
    by (simp add: g'_def set_session_def set_lease_def)
  have own: "cs_owner x = cs_owner (rg_heap g i)" "set (cs_connections x) = set (cs_connections (rg_heap g i)) - {l}"
    by (simp_all add: x_def)
  have lease: "lease_ok g' k e" if e: "rg_leases g' k = Some e" for k e
  proof (cases "k = l")
    case True
    with e control_okD(4) [OF ok c] show ?thesis by (auto simp: leases lease_ok_def d_def nexts)
  next
    case False
    with e have old: "lease_ok g k e" by (intro control_okD(4) [OF ok]) (simp add: leases)
    have "jget (rg_sessions g') (cn_agent e) = Some (cn_session e) \<and> k \<in> set (cs_connections (rg_heap g' (cn_session e)))"
      if "\<not> cn_closed e" "\<not> rg_closed g"
    proof -
      from old that have reg: "jget (rg_sessions g) (cn_agent e) = Some (cn_session e)"
        and k: "k \<in> set (cs_connections (rg_heap g (cn_session e)))" by (simp_all add: lease_ok_def)
      have "cn_session e = i" if "cn_agent e = cn_agent c"
        using that reg control_okD(4) [OF ok c] open_c \<open>\<not> rg_closed g\<close> by (simp add: lease_ok_def i_def)
      with reg k False own show ?thesis by (auto simp: sessions heap)
    qed
    with old own show ?thesis by (auto simp: lease_ok_def nexts closed heap)
  qed
  have session: "session_ok g' b j" if s: "jget (rg_sessions g') b = Some j" for b j
  proof -
    from s have old_s: "jget (rg_sessions g) b = Some j" by (auto simp: sessions split: if_splits)
    from control_okD(5) [OF ok old_s] have old: "session_ok g b j" .
    have "\<exists>e. rg_leases g' k = Some e \<and> cn_agent e = b \<and> cn_session e = j \<and> \<not> cn_closed e"
      if k: "k \<in> set (cs_connections (rg_heap g' j))" for k
    proof -
      from k own have "k \<in> set (cs_connections (rg_heap g j))" by (auto simp: heap split: if_splits)
      with old obtain e where e: "rg_leases g k = Some e" "cn_agent e = b" "cn_session e = j" "\<not> cn_closed e"
        by (auto simp: session_ok_def)
      have "k \<noteq> l"
      proof
        assume "k = l"
        with e c have "j = i" by (simp add: i_def)
        with k \<open>k = l\<close> own show False by (simp add: heap)
      qed
      with e show ?thesis by (simp add: leases)
    qed
    moreover have "cs_owner (rg_heap g' j) \<noteq> None \<or> cs_connections (rg_heap g' j) \<noteq> []"
    proof (cases "j = i")
      case True
      have "b = cn_agent c"
      proof (cases "rg_closed g")
        case True
        with control_okD(2) [OF ok True] old_s show ?thesis by simp
      next
        case False
        with control_okD(4) [OF ok c] open_c have "jget (rg_sessions g) (cn_agent c) = Some i"
          by (simp add: lease_ok_def i_def)
        with control_okD(3) [OF ok old_s] True show ?thesis by simp
      qed
      with s True show ?thesis by (auto simp: sessions heap split: if_splits)
    next
      case False
      with old show ?thesis by (auto simp: session_ok_def heap)
    qed
    ultimately show ?thesis using old by (auto simp: session_ok_def nexts)
  qed
  have "k = k'" if "rg_leases g' k = Some e" "rg_leases g' k' = Some e'" "cn_token e = Some t" "cn_token e' = Some t" for k k' e e' t
    using that control_okD(6) [OF ok] by (auto simp: leases d_def split: if_splits)
  moreover have "wf_jmap (rg_sessions g')"
    using control_okD(1) [OF ok] by (simp add: g'_def set_session_def set_lease_def drop_if_unused_wf)
  moreover have "a = b" if "jget (rg_sessions g') a = Some j" "jget (rg_sessions g') b = Some j" for a b j
    using that control_okD(3) [OF ok] by (auto simp: sessions split: if_splits)
  moreover have "rg_closed g' \<Longrightarrow> rg_sessions g' = []"
    using control_okD(2) [OF ok] by (auto simp: closed g'_def drop_if_unused_def set_session_def set_lease_def)
  ultimately show ?thesis using lease session unfolding res control_ok_def by blast
qed

section \<open>Closing the registry\<close>

text \<open>The leases of a later registry differ at most by cleared tokens.\<close>

definition tokens_cleared :: "control_registry \<Rightarrow> control_registry \<Rightarrow> bool" where
  "tokens_cleared g g' \<longleftrightarrow>
     rg_next g' = rg_next g
     \<and> (\<forall>l d. rg_leases g' l = Some d \<longrightarrow>
         (\<exists>c. rg_leases g l = Some c \<and> (d = c \<or> d = c\<lparr>cn_token := None\<rparr>)))"

lemma tokens_cleared_refl: "tokens_cleared g g"
  by (simp add: tokens_cleared_def)

lemma tokens_cleared_trans: "tokens_cleared a b \<Longrightarrow> tokens_cleared b c \<Longrightarrow> tokens_cleared a c"
  by (fastforce simp: tokens_cleared_def)

lemma clear_fold:
  "tokens_cleared g (foldl clear_connection g ls)"
  "rg_heap (foldl clear_connection g ls) = rg_heap g"
  "rg_closed (foldl clear_connection g ls) = rg_closed g"
  "l \<in> set ls \<Longrightarrow> rg_leases (foldl clear_connection g ls) l = Some d \<Longrightarrow> cn_token d = None"
proof (induction ls arbitrary: g)
  case (Cons a ls)
  have step: "tokens_cleared g (clear_connection g a)" "rg_heap (clear_connection g a) = rg_heap g"
    "rg_closed (clear_connection g a) = rg_closed g" for g
    by (auto simp: tokens_cleared_def clear_connection_def set_lease_def split: option.split if_splits)
  { case 1 show ?case using tokens_cleared_trans [OF step(1) Cons.IH(1)] by simp }
  { case 2 show ?case by (simp add: Cons.IH step) }
  { case 3 show ?case by (simp add: Cons.IH step) }
  { case 4
    show ?case
    proof (cases "l \<in> set ls")
      case True
      with 4 Cons.IH(4) show ?thesis by simp
    next
      case False
      with 4 have "l = a" by simp
      from Cons.IH(1) [of "clear_connection g a"] 4(2) obtain c where
        c: "rg_leases (clear_connection g a) l = Some c" "d = c \<or> d = c\<lparr>cn_token := None\<rparr>"
        by (auto simp: tokens_cleared_def)
      with \<open>l = a\<close> show ?thesis
        by (auto simp: clear_connection_def set_lease_def split: option.splits)
    qed }
qed (simp_all add: tokens_cleared_refl)

lemma close_fold:
  "tokens_cleared g (foldl close_session g ids)"
  "rg_closed (foldl close_session g ids) = rg_closed g"
  "i \<in> set ids \<Longrightarrow> l \<in> set (cs_connections (rg_heap g i)) \<Longrightarrow>
   rg_leases (foldl close_session g ids) l = Some d \<Longrightarrow> cn_token d = None"
proof (induction ids arbitrary: g)
  case (Cons a ids)
  have step: "tokens_cleared g (close_session g a)" "rg_closed (close_session g a) = rg_closed g" for g
    using clear_fold(1-3) [of g "cs_connections (rg_heap g a)"]
    by (auto simp: close_session_def Let_def set_session_def tokens_cleared_def)
  { case 1 show ?case using tokens_cleared_trans [OF step(1) Cons.IH(1)] by simp }
  { case 2 show ?case by (simp add: Cons.IH step) }
  { case 3
    show ?case
    proof (cases "l \<in> set (cs_connections (rg_heap g a))")
      case True
      from Cons.IH(1) [of "close_session g a"] 3(3) obtain c where
        c: "rg_leases (close_session g a) l = Some c" "d = c \<or> d = c\<lparr>cn_token := None\<rparr>"
        by (auto simp: tokens_cleared_def)
      from c(1) have "rg_leases (foldl clear_connection g (cs_connections (rg_heap g a))) l = Some c"
        by (simp add: close_session_def Let_def set_session_def)
      from clear_fold(4) [OF True this] c(2) show ?thesis by auto
    next
      case False
      with 3 have "i \<in> set ids" "i \<noteq> a" by auto
      with 3 show ?thesis
        by (intro Cons.IH(3) [where g = "close_session g a"])
          (simp_all add: close_session_def Let_def set_session_def clear_fold(2))
    qed }
qed (simp_all add: tokens_cleared_refl)

lemma close_registry_leases:
  assumes ok: "control_ok g" and d: "rg_leases (close_registry g) l = Some d"
  shows "\<exists>c. rg_leases g l = Some c \<and> lease_ok g l c \<and> d = c\<lparr>cn_token := None\<rparr>"
proof -
  let ?f = "foldl close_session (g\<lparr>rg_closed := True\<rparr>) (jvalues (rg_sessions g))"
  from d have d: "rg_leases ?f l = Some d" by (simp add: close_registry_def)
  with close_fold(1) [of "g\<lparr>rg_closed := True\<rparr>" "jvalues (rg_sessions g)"]
  obtain c where c: "rg_leases g l = Some c" "d = c \<or> d = c\<lparr>cn_token := None\<rparr>"
    by (auto simp: tokens_cleared_def)
  from control_okD(4) [OF ok c(1)] have old: "lease_ok g l c" .
  have "cn_token d = None"
  proof (cases "cn_token c")
    case (Some t)
    with old have reg: "jget (rg_sessions g) (cn_agent c) = Some (cn_session c)"
      and l: "l \<in> set (cs_connections (rg_heap g (cn_session c)))" by (auto simp: lease_ok_def)
    from reg have "cn_session c \<in> set (jvalues (rg_sessions g))" by (force dest: map_of_SomeD)
    from close_fold(3) [OF this _ d] l show ?thesis by simp
  qed (use c in auto)
  with c old show ?thesis by (cases c) auto
qed

lemma close_registry_fields:
  "rg_next (close_registry g) = rg_next g" "rg_closed (close_registry g)" "rg_sessions (close_registry g) = []"
  using close_fold(1,2) [of "g\<lparr>rg_closed := True\<rparr>" "jvalues (rg_sessions g)"]
  by (simp_all add: close_registry_def tokens_cleared_def)

lemma close_registry_ok:
  assumes ok: "control_ok g"
  shows "control_ok (close_registry g)"
proof -
  have "lease_ok (close_registry g) l d" if "rg_leases (close_registry g) l = Some d" for l d
    using close_registry_leases [OF ok that] close_registry_fields [of g] by (auto simp: lease_ok_def)
  moreover have "cn_token d \<noteq> Some t" if "rg_leases (close_registry g) l = Some d" for l d t
    using close_registry_leases [OF ok that] by auto
  ultimately show ?thesis
    using close_registry_fields [of g] unfolding control_ok_def by auto
qed

section \<open>Runs\<close>

lemma control_step_ok: "control_ok g \<Longrightarrow> control_ok (control_step g ev)"
  by (cases ev)
    (auto simp: setNativeOwner_ok close_registry_ok split: sum.split option.split prod.split
      intro: attach_ok lease_request_ok lease_close_ok)

interpretation control_machine: machine control_ok control_step
  by unfold_locales (rule control_step_ok)

lemma control_reachable_ok: "control_ok (foldl control_step new_registry evs)"
  by (rule control_machine.run_inv [OF new_registry_ok])

text \<open>A token that no connection holds any more.\<close>

definition dead_token :: "nat \<Rightarrow> control_registry \<Rightarrow> bool" where
  "dead_token t g \<longleftrightarrow> t < rg_next g \<and> (\<forall>l c. rg_leases g l = Some c \<longrightarrow> cn_token c \<noteq> Some t)"

lemma dead_change_owner:
  assumes "dead_token t g"
  shows "dead_token t (snd (change_owner agent i owner g))"
proof (cases "cs_owner (rg_heap g i) = owner")
  case True
  with assms show ?thesis by (simp add: change_owner_def Let_def)
next
  case False
  let ?g = "set_session i ((rg_heap g i)\<lparr>cs_owner := owner\<rparr>) g"
  let ?ls = "cs_connections (rg_heap g i)"
  have "rg_next g \<le> rg_next (foldl revoke ?g ?ls)"
    using revoke_fields(4) [of ?g ?ls] by (simp add: set_session_def)
  moreover have "cn_token d \<noteq> Some t" if "rg_leases (foldl revoke ?g ?ls) l = Some d" for l d
    using that assms by (cases rule: revoke_cases) (auto simp: dead_token_def set_session_def)
  ultimately show ?thesis using assms False by (auto simp: dead_token_def change_owner_def Let_def)
qed

lemma dead_step: "dead_token t g \<Longrightarrow> dead_token t (control_step g ev)"
proof (cases ev)
  case (SetOwner agent owner)
  assume dead: "dead_token t g"
  then have "dead_token t ((set_session i x g)\<lparr>rg_sessions := m, rg_next := Suc (rg_next g)\<rparr>)" for i x m
    by (auto simp: dead_token_def set_session_def)
  with dead show ?thesis
    by (auto simp: SetOwner setNativeOwner_def Let_def intro!: dead_change_owner split: option.split)
next
  case (Attach agent)
  assume "dead_token t g"
  then show ?thesis
    by (auto simp: Attach attach_def attach_session_def Let_def dead_token_def set_session_def set_lease_def
        split: option.splits if_splits sum.splits prod.splits)
next
  case (RequestControl l r)
  assume "dead_token t g"
  then show ?thesis
    by (auto simp: RequestControl lease_request_def Let_def dead_token_def set_lease_def split: option.splits if_splits sum.splits)
next
  case (CloseLease l)
  assume "dead_token t g"
  then show ?thesis
    by (auto simp: CloseLease lease_close_def Let_def dead_token_def set_lease_def set_session_def split: option.splits)
next
  case CloseRegistry
  assume "dead_token t g"
  then show ?thesis
    using close_fold(1) [of "g\<lparr>rg_closed := True\<rparr>" "jvalues (rg_sessions g)"]
    by (fastforce simp: CloseRegistry close_registry_def dead_token_def tokens_cleared_def)
qed

lemma dead_run: "dead_token t g \<Longrightarrow> dead_token t (foldl control_step g evs)"
  by (induction evs arbitrary: g) (simp_all add: dead_step)

text \<open>The events that end the grant of lease \<open>l\<close>.\<close>

fun ends_grant :: "control_connection \<Rightarrow> nat \<Rightarrow> control_event \<Rightarrow> bool" where
  "ends_grant c l (SetOwner agent owner) = (agent = cn_agent c \<and> owner \<noteq> None)"
| "ends_grant c l (CloseLease k) = (k = l)"
| "ends_grant c l CloseRegistry = True"
| "ends_grant c l _ = False"

lemma ends_grant_dead:
  assumes ok: "control_ok g" and c: "rg_leases g l = Some c" "cn_token c = Some t" and ev: "ends_grant c l ev"
  shows "dead_token t (control_step g ev)"
proof -
  have fresh: "t < rg_next g" using control_okD(4) [OF ok c(1)] c(2) by (simp add: lease_ok_def)
  have only: "k = l" if "rg_leases g k = Some d" "cn_token d = Some t" for k d
    using control_okD(6) [OF ok that(1) c(1) that(2) c(2)] .
  from control_okD(4) [OF ok c(1)] c(2) have held: "jget (rg_sessions g) (cn_agent c) = Some (cn_session c)"
    "l \<in> set (cs_connections (rg_heap g (cn_session c)))" "cs_owner (rg_heap g (cn_session c)) = None"
    "\<not> cn_closed c" "\<not> rg_closed g" by (auto simp: lease_ok_def)
  show ?thesis
  proof (cases ev)
    case (SetOwner agent owner)
    let ?g = "set_session (cn_session c) ((rg_heap g (cn_session c))\<lparr>cs_owner := owner\<rparr>) g"
    let ?ls = "cs_connections (rg_heap g (cn_session c))"
    from SetOwner ev held have step: "control_step g ev =
        drop_if_unused (cn_agent c) ((rg_heap g (cn_session c))\<lparr>cs_owner := owner\<rparr>) (foldl revoke ?g ?ls)"
      by (auto simp: setNativeOwner_def change_owner_def Let_def)
    have "rg_next g \<le> rg_next (foldl revoke ?g ?ls)"
      using revoke_fields(4) [of ?g ?ls] by (simp add: set_session_def)
    moreover have "cn_token d \<noteq> Some t" if "rg_leases (foldl revoke ?g ?ls) k = Some d" for k d
      using that
    proof (cases rule: revoke_cases)
      case 2
      then have "rg_leases g k = Some d" "k \<noteq> l" using held(2) by (auto simp: set_session_def)
      with only show ?thesis by blast
    qed simp
    ultimately show ?thesis using fresh by (auto simp: dead_token_def step)
  next
    case (CloseLease k)
    with ev have "k = l" by simp
    have "rg_leases (control_step g ev) = (rg_leases g)(l \<mapsto> c\<lparr>cn_closed := True, cn_token := None\<rparr>)"
      "rg_next (control_step g ev) = rg_next g"
      using c held(4) by (simp_all add: CloseLease \<open>k = l\<close> lease_close_def Let_def set_lease_def set_session_def)
    with fresh only show ?thesis by (simp add: dead_token_def) blast
  next
    case CloseRegistry
    then show ?thesis
      using fresh close_registry_leases [OF ok] close_registry_fields(1) [of g]
      by (fastforce simp: dead_token_def)
  qed (use ev in simp_all)
qed

text \<open>C15: A grant ends for good when the native client takes the session, when its connection closes
  or when the registry closes: no connection can operate the session with that token again, whatever
  happens later (also after the native client gives the session back).\<close>

theorem ended_grant_stays_ended:
  assumes "g = foldl control_step new_registry before_events"
    and "rg_leases g l = Some c" "cn_token c = Some t" "ends_grant c l ev"
    and "g' = foldl control_step (control_step g ev) later"
    and "rg_leases g' k = Some d"
  shows "lease_assert d (Some t) g' = Inl (denied ''session_read_only'' ''This connection is read-only. Reconnect before operating this session.'')"
proof -
  have ok: "control_ok g" unfolding assms(1) by (rule control_reachable_ok)
  from ends_grant_dead [OF ok assms(2-4)] have "dead_token t (control_step g ev)" .
  then have "dead_token t g'"
    unfolding assms(5) by (rule dead_run)
  with assms(6) show ?thesis by (auto simp: dead_token_def lease_assert_def)
qed


section \<open>An example\<close>

definition sample_grants :: "control_event list" where
  "sample_grants = [Attach ''a'', RequestControl 2 1]"

definition sample_native :: native_owner where
  "sample_native = \<lparr>no_kind = NativeCli, no_generation = ''1''\<rparr>"

lemma sample_lease:
  "rg_leases (foldl control_step new_registry sample_grants) 2 =
     Some \<lparr>cn_agent = ''a'', cn_session = 0, cn_revision = 1, cn_token = Some 3, cn_closed = False\<rparr>"
  by (simp add: sample_grants_def new_registry_def attach_def attach_session_def Let_def set_session_def set_lease_def
      lease_request_def)

lemma ended_grant_stays_ended_witness:
  "\<exists>d. rg_leases (control_step (foldl control_step new_registry sample_grants) (SetOwner ''a'' (Some sample_native))) 2 = Some d
     \<and> lease_assert d (Some 3) (control_step (foldl control_step new_registry sample_grants) (SetOwner ''a'' (Some sample_native)))
       = Inl (denied ''session_read_only'' ''This connection is read-only. Reconnect before operating this session.'')"
proof -
  let ?g = "foldl control_step new_registry sample_grants"
  have "\<exists>d. rg_leases (control_step ?g (SetOwner ''a'' (Some sample_native))) 2 = Some d"
    by (simp add: sample_grants_def new_registry_def attach_def attach_session_def Let_def set_session_def set_lease_def
      lease_request_def setNativeOwner_def change_owner_def revoke_def drop_if_unused_def)
  then obtain d where d: "rg_leases (control_step ?g (SetOwner ''a'' (Some sample_native))) 2 = Some d" by blast
  have "lease_assert d (Some 3) (control_step ?g (SetOwner ''a'' (Some sample_native)))
       = Inl (denied ''session_read_only'' ''This connection is read-only. Reconnect before operating this session.'')"
    by (rule ended_grant_stays_ended [OF refl sample_lease _ _ _ d, where later = "[]" and ev = "SetOwner ''a'' (Some sample_native)"])
      simp_all
  with d show ?thesis by blast
qed


end
