(* ===== verification/Session_Bindings.thy ===== *)
theory Session_Bindings
  imports Json_Text
begin

text \<open>
  \<open>agent-remote-relay/src/session-bindings.ts\<close>: the registry that binds native sessions to public
  agent identities. Attachment is asynchronous: \<open>bind\<close> reserves the identity and its promise settles
  in one of three later events (the attachment failed, the service had closed before it started, or
  it completed). \<open>pending\<close> keeps the promise under a number; joining a pending bind returns it.
  Binding objects are compared by identity: \<open>sb_object\<close> numbers them as they are created.
\<close>

section \<open>Data\<close>

record session_binding =
  sb_providerId :: string
  sb_nativeSessionId :: string
  sb_agentId :: string
  sb_parent :: "string option"
  sb_object :: nat

type_synonym native_key = string

record pending_binding =
  pb_binding :: session_binding
  pb_promise :: nat
  pb_started :: bool

record session_bindings =
  bd_native :: "(native_key, session_binding) jmap"
  bd_agents :: "(string, session_binding) jmap"
  bd_pending :: "(native_key, pending_binding) jmap"
  bd_reserved :: "(string, native_key) jmap"
  bd_closed :: bool
  bd_next :: nat

definition new_bindings :: session_bindings where
  "new_bindings = \<lparr>bd_native = [], bd_agents = [], bd_pending = [], bd_reserved = [], bd_closed = False, bd_next = 0\<rparr>"

definition binding_key :: "string \<Rightarrow> string \<Rightarrow> native_key" where
  "binding_key provider native = the (stringify (JsArray [JsString provider, JsString native]))"

definition key_of_binding :: "session_binding \<Rightarrow> native_key" where
  "key_of_binding b = binding_key (sb_providerId b) (sb_nativeSessionId b)"

text \<open>\<open>this.status\<close> of the error: 503 for a closed service, 409 for a conflict.\<close>

definition binding_conflict :: "string \<Rightarrow> js_error" where
  "binding_conflict m = Thrown SessionBindingErrorClass ''session_binding_conflict'' m"

definition host_closed :: "string \<Rightarrow> js_error" where
  "host_closed m = Thrown SessionBindingErrorClass ''host_closed'' m"

definition error_status :: "js_error \<Rightarrow> nat" where
  "error_status e = (if err_code e = ''host_closed'' then 503 else 409)"

section \<open>Operations\<close>

definition getByNative :: "session_bindings \<Rightarrow> string \<Rightarrow> string \<Rightarrow> session_binding option" where
  "getByNative s provider native = jget (bd_native s) (binding_key provider native)"

definition getByAgent :: "session_bindings \<Rightarrow> string \<Rightarrow> session_binding option" where
  "getByAgent s agent = jget (bd_agents s) agent"

definition isPending :: "session_bindings \<Rightarrow> string \<Rightarrow> string \<Rightarrow> bool" where
  "isPending s provider native = jhas (bd_pending s) (binding_key provider native)"

definition isReserved :: "session_bindings \<Rightarrow> string \<Rightarrow> bool" where
  "isReserved s agent \<longleftrightarrow> jhas (bd_reserved s) agent \<or> jhas (bd_agents s) agent"

datatype bind_result = JoinedBind nat | StartedBind nat

text \<open>
  \<open>bind\<close> up to its promise. \<open>canonical\<close> is the optional flag of the extension, \<open>validate\<close> its
  \<open>validateResult\<close> (an exception of it is returned).
\<close>

definition bind_session ::
  "session_binding \<Rightarrow> bool option \<Rightarrow> (session_binding \<Rightarrow> js_error option) \<Rightarrow> session_bindings \<Rightarrow> bind_result js_result \<times> session_bindings" where
  "bind_session request canonical validate s =
     (if bd_closed s then (Inl (host_closed ''Session binding service is closed.''), s)
      else
        let identity = key_of_binding request;
            existing = jget (bd_native s) identity;
            pending = jget (bd_pending s) identity;
            prior = or_else existing (map_option pb_binding pending)
        in if (case prior of None \<Rightarrow> False
               | Some p \<Rightarrow> sb_parent p \<noteq> sb_parent request \<or> (canonical = Some False \<and> sb_agentId p \<noteq> sb_agentId request))
           then (Inl (binding_conflict ''Native session identity or ownership conflicts with this binding.''), s)
           else
             let binding = (case prior of None \<Rightarrow> request\<lparr>sb_object := bd_next s\<rparr> | Some p \<Rightarrow> p) in
             (case validate binding of
                Some x \<Rightarrow> (Inl x, s)
              | None \<Rightarrow>
                  let public_target = jget (bd_agents s) (sb_agentId binding);
                      reservation = jget (bd_reserved s) (sb_agentId binding)
                  in if (case public_target of None \<Rightarrow> False | Some t \<Rightarrow> key_of_binding t \<noteq> identity)
                        \<or> (case reservation of None \<Rightarrow> False | Some k \<Rightarrow> k \<noteq> identity)
                     then (Inl (binding_conflict ''The public session identity is already reserved for a different native session.''), s)
                     else case pending of
                       Some p \<Rightarrow> (Inr (JoinedBind (pb_promise p)), s)
                     | None \<Rightarrow>
                         (Inr (StartedBind (Suc (bd_next s))),
                          s\<lparr>bd_reserved := jset (bd_reserved s) (sb_agentId binding) identity,
                            bd_pending := jset (bd_pending s) identity
                              \<lparr>pb_binding = binding, pb_promise = Suc (bd_next s), pb_started = False\<rparr>,
                            bd_next := Suc (Suc (bd_next s))\<rparr>)))"

text \<open>The steps of the promise; \<open>release_pending\<close> is its \<open>finally\<close>.\<close>

definition release_pending :: "native_key \<Rightarrow> session_binding \<Rightarrow> session_bindings \<Rightarrow> session_bindings" where
  "release_pending identity b s =
     s\<lparr>bd_pending := jdelete (bd_pending s) identity, bd_reserved := jdelete (bd_reserved s) (sb_agentId b)\<rparr>"

datatype attach_outcome = AttachFailed js_error | AttachDone "js_error option"

text \<open>The start of the attachment: refused when the service closed meanwhile.\<close>

definition start_attach :: "native_key \<Rightarrow> session_bindings \<Rightarrow> js_error option \<times> session_bindings" where
  "start_attach identity s =
     (case jget (bd_pending s) identity of
        None \<Rightarrow> (None, s)
      | Some p \<Rightarrow>
          if pb_started p then (None, s)
          else if bd_closed s
          then (Some (host_closed ''Session binding service is closed.''), release_pending identity (pb_binding p) s)
          else (None, s\<lparr>bd_pending := jset (bd_pending s) identity (p\<lparr>pb_started := True\<rparr>)\<rparr>))"

text \<open>
  The end of the attachment. \<open>AttachDone d\<close>: \<open>attach\<close> returned; if the service has closed,
  \<open>discard\<close> runs and \<open>d\<close> is what it threw, if anything.
\<close>

definition finish_attach :: "native_key \<Rightarrow> attach_outcome \<Rightarrow> session_bindings \<Rightarrow> session_binding js_result option \<times> session_bindings" where
  "finish_attach identity outcome s =
     (case jget (bd_pending s) identity of
        None \<Rightarrow> (None, s)
      | Some p \<Rightarrow>
          if \<not> pb_started p then (None, s)
          else
            let b = pb_binding p in
            (case outcome of
               AttachFailed x \<Rightarrow> (Some (Inl x), release_pending identity b s)
             | AttachDone discarded \<Rightarrow>
                 if bd_closed s
                 then (Some (Inl (case discarded of Some x \<Rightarrow> x
                         | None \<Rightarrow> host_closed ''Session binding service closed during attachment.'')), release_pending identity b s)
                 else (Some (Inr b), release_pending identity b
                        (s\<lparr>bd_native := jset (bd_native s) identity b,
                           bd_agents := jset (bd_agents s) (sb_agentId b) b\<rparr>))))"

definition release_binding :: "session_binding \<Rightarrow> session_bindings \<Rightarrow> session_bindings" where
  "release_binding b s =
     (if jget (bd_native s) (key_of_binding b) \<noteq> Some b then s
      else s\<lparr>bd_native := jdelete (bd_native s) (key_of_binding b), bd_agents := jdelete (bd_agents s) (sb_agentId b)\<rparr>)"

definition close_bindings :: "session_bindings \<Rightarrow> session_bindings" where
  "close_bindings s = s\<lparr>bd_closed := True\<rparr>"

datatype binding_event =
    Bind session_binding "bool option" "session_binding \<Rightarrow> js_error option"
  | StartAttach native_key
  | FinishAttach native_key attach_outcome
  | ReleaseBinding session_binding
  | CloseBindings

fun binding_step :: "session_bindings \<Rightarrow> binding_event \<Rightarrow> session_bindings" where
  "binding_step s (Bind request canonical validate) = snd (bind_session request canonical validate s)"
| "binding_step s (StartAttach k) = snd (start_attach k s)"
| "binding_step s (FinishAttach k outcome) = snd (finish_attach k outcome s)"
| "binding_step s (ReleaseBinding b) = release_binding b s"
| "binding_step s CloseBindings = close_bindings s"

end
