(* ===== verification/Session_Bindings_Properties.thy ===== *)
theory Session_Bindings_Properties
  imports Session_Bindings
begin

text \<open>
  The two indexes of the binding registry are inverse to each other and every asynchronous bind
  keeps its two identities reserved until it settles.
\<close>

section \<open>Keys\<close>

lemma binding_key_inj: "binding_key p n = binding_key q m \<longleftrightarrow> p = q \<and> n = m"
proof
  assume eq: "binding_key p n = binding_key q m"
  have "JsArray [JsString p, JsString n] = JsArray [JsString q, JsString m]"
    by (rule stringify_plain_inj) (use eq in \<open>simp_all add: binding_key_def\<close>)
  then show "p = q \<and> n = m" by simp
qed simp

section \<open>The invariant\<close>

definition pending_ok :: "session_bindings \<Rightarrow> native_key \<Rightarrow> pending_binding \<Rightarrow> bool" where
  "pending_ok s k p \<longleftrightarrow>
     key_of_binding (pb_binding p) = k
     \<and> jget (bd_reserved s) (sb_agentId (pb_binding p)) = Some k
     \<and> (jget (bd_native s) k = None \<or> jget (bd_native s) k = Some (pb_binding p))
     \<and> (\<forall>t. jget (bd_agents s) (sb_agentId (pb_binding p)) = Some t \<longrightarrow> key_of_binding t = k)"

definition bindings_ok :: "session_bindings \<Rightarrow> bool" where
  "bindings_ok s \<longleftrightarrow>
     (\<forall>k b. jget (bd_native s) k = Some b \<longrightarrow> key_of_binding b = k \<and> jget (bd_agents s) (sb_agentId b) = Some b)
     \<and> (\<forall>a b. jget (bd_agents s) a = Some b \<longrightarrow> sb_agentId b = a \<and> jget (bd_native s) (key_of_binding b) = Some b)
     \<and> (\<forall>k p. jget (bd_pending s) k = Some p \<longrightarrow> pending_ok s k p)
     \<and> (\<forall>a k. jget (bd_reserved s) a = Some k \<longrightarrow>
          (\<exists>p. jget (bd_pending s) k = Some p \<and> sb_agentId (pb_binding p) = a))"

lemma bindings_okD:
  assumes "bindings_ok s"
  shows "jget (bd_native s) k = Some b \<Longrightarrow> key_of_binding b = k \<and> jget (bd_agents s) (sb_agentId b) = Some b"
    "jget (bd_agents s) a = Some b \<Longrightarrow> sb_agentId b = a \<and> jget (bd_native s) (key_of_binding b) = Some b"
    "jget (bd_pending s) k = Some p \<Longrightarrow> pending_ok s k p"
    "jget (bd_reserved s) a = Some k \<Longrightarrow> \<exists>p. jget (bd_pending s) k = Some p \<and> sb_agentId (pb_binding p) = a"
  using assms by (auto simp: bindings_ok_def)

lemma bindings_okI:
  assumes "\<And>k b. jget (bd_native s) k = Some b \<Longrightarrow> key_of_binding b = k \<and> jget (bd_agents s) (sb_agentId b) = Some b"
    and "\<And>a b. jget (bd_agents s) a = Some b \<Longrightarrow> sb_agentId b = a \<and> jget (bd_native s) (key_of_binding b) = Some b"
    and "\<And>k p. jget (bd_pending s) k = Some p \<Longrightarrow> pending_ok s k p"
    and "\<And>a k. jget (bd_reserved s) a = Some k \<Longrightarrow> \<exists>p. jget (bd_pending s) k = Some p \<and> sb_agentId (pb_binding p) = a"
  shows "bindings_ok s"
  using assms by (simp add: bindings_ok_def)

lemma indexes_same:
  assumes "bindings_ok s" "bd_native t = bd_native s" "bd_agents t = bd_agents s"
  shows "jget (bd_native t) k = Some b \<Longrightarrow> key_of_binding b = k \<and> jget (bd_agents t) (sb_agentId b) = Some b"
    and "jget (bd_agents t) a = Some b \<Longrightarrow> sb_agentId b = a \<and> jget (bd_native t) (key_of_binding b) = Some b"
  using bindings_okD(1,2) [OF assms(1)] by (simp_all add: assms(2,3))

lemma new_bindings_ok: "bindings_ok new_bindings"
  by (simp add: bindings_ok_def new_bindings_def)

lemma key_of_object [simp]: "key_of_binding (b\<lparr>sb_object := n\<rparr>) = key_of_binding b"
  by (simp add: key_of_binding_def)

lemma reserve_binding_ok:
  assumes ok: "bindings_ok s" and free: "jget (bd_pending s) k = None"
    and b: "key_of_binding b = k" "jget (bd_native s) k = None \<or> jget (bd_native s) k = Some b"
      "\<And>t. jget (bd_agents s) (sb_agentId b) = Some t \<Longrightarrow> key_of_binding t = k"
      "\<And>j. jget (bd_reserved s) (sb_agentId b) = Some j \<Longrightarrow> j = k"
  shows "bindings_ok (s\<lparr>bd_reserved := jset (bd_reserved s) (sb_agentId b) k,
      bd_pending := jset (bd_pending s) k \<lparr>pb_binding = b, pb_promise = n, pb_started = False\<rparr>, bd_next := m\<rparr>)"
    (is "bindings_ok ?s")
proof -
  have pend: "pending_ok ?s j p" if p: "jget (bd_pending ?s) j = Some p" for j p
  proof (cases "j = k")
    case True
    with p b show ?thesis by (auto simp: pending_ok_def)
  next
    case False
    with p have "pending_ok s j p" by (intro bindings_okD(3) [OF ok]) simp
    moreover from this b(4) False have "sb_agentId (pb_binding p) \<noteq> sb_agentId b" by (auto simp: pending_ok_def)
    ultimately show ?thesis by (simp add: pending_ok_def)
  qed
  have res: "\<exists>p. jget (bd_pending ?s) j = Some p \<and> sb_agentId (pb_binding p) = a"
    if "jget (bd_reserved ?s) a = Some j" for a j
  proof (cases "a = sb_agentId b")
    case True
    with that show ?thesis by simp
  next
    case False
    with that obtain p where p: "jget (bd_pending s) j = Some p" "sb_agentId (pb_binding p) = a"
      using bindings_okD(4) [OF ok, of a j] by auto
    with free have "j \<noteq> k" by auto
    with p show ?thesis by simp
  qed
  have same: "bd_native ?s = bd_native s" "bd_agents ?s = bd_agents s" by simp_all
  from indexes_same [OF ok same] pend res show ?thesis by (rule bindings_okI)
qed

lemma bind_ok:
  assumes ok: "bindings_ok s"
  shows "bindings_ok (snd (bind_session request canonical validate s))"
proof (cases "snd (bind_session request canonical validate s) = s")
  case False
  define k where "k = key_of_binding request"
  define prior where "prior = or_else (jget (bd_native s) k) (map_option pb_binding (jget (bd_pending s) k))"
  define b where "b = (case prior of None \<Rightarrow> request\<lparr>sb_object := bd_next s\<rparr> | Some p \<Rightarrow> p)"
  define taken where "taken = ((case jget (bd_agents s) (sb_agentId b) of None \<Rightarrow> False | Some t \<Rightarrow> key_of_binding t \<noteq> k)
      \<or> (case jget (bd_reserved s) (sb_agentId b) of None \<Rightarrow> False | Some j \<Rightarrow> j \<noteq> k))"
  define clash where "clash = (case prior of None \<Rightarrow> False
      | Some p \<Rightarrow> sb_parent p \<noteq> sb_parent request \<or> (canonical = Some False \<and> sb_agentId p \<noteq> sb_agentId request))"
  let ?new = "s\<lparr>bd_reserved := jset (bd_reserved s) (sb_agentId b) k,
      bd_pending := jset (bd_pending s) k \<lparr>pb_binding = b, pb_promise = Suc (bd_next s), pb_started = False\<rparr>,
      bd_next := Suc (Suc (bd_next s))\<rparr>"
  have unfold: "snd (bind_session request canonical validate s) =
      (if bd_closed s \<or> clash \<or> validate b \<noteq> None \<or> taken \<or> jget (bd_pending s) k \<noteq> None then s else ?new)"
    unfolding bind_session_def Let_def k_def [symmetric] prior_def [symmetric]
    unfolding b_def [symmetric] clash_def [symmetric]
    unfolding taken_def [symmetric]
    by (cases "bd_closed s"; cases clash; cases "validate b"; cases taken; cases "jget (bd_pending s) k") simp_all
  with False have started: "jget (bd_pending s) k = None" "snd (bind_session request canonical validate s) = ?new"
    and free: "\<not> taken" by (simp_all split: if_splits)
  have own: "prior = jget (bd_native s) k" using started(1) by (simp add: prior_def or_else_def split: option.split)
  have "key_of_binding b = k" "jget (bd_native s) k = None \<or> jget (bd_native s) k = Some b"
    using bindings_okD(1) [OF ok, of k] by (auto simp: b_def own k_def split: option.split)
  from reserve_binding_ok [OF ok started(1) this] free show ?thesis
    unfolding started(2) taken_def by (simp split: option.splits)
qed (use ok in simp)

lemma release_pending_ok:
  assumes ok: "bindings_ok s" and p: "jget (bd_pending s) k = Some p"
  shows "bindings_ok (release_pending k (pb_binding p) s)" (is "bindings_ok ?s")
proof -
  from bindings_okD(3) [OF ok p] have own: "pending_ok s k p" .
  have pend: "pending_ok ?s j q" if q: "jget (bd_pending ?s) j = Some q" for j q
  proof -
    from q have "j \<noteq> k" and q': "jget (bd_pending s) j = Some q" by (auto simp: release_pending_def split: if_splits)
    from bindings_okD(3) [OF ok q'] have "pending_ok s j q" .
    moreover from this own \<open>j \<noteq> k\<close> have "sb_agentId (pb_binding q) \<noteq> sb_agentId (pb_binding p)"
      by (auto simp: pending_ok_def)
    ultimately show ?thesis by (simp add: pending_ok_def release_pending_def)
  qed
  have res: "\<exists>q. jget (bd_pending ?s) j = Some q \<and> sb_agentId (pb_binding q) = a"
    if "jget (bd_reserved ?s) a = Some j" for a j
  proof -
    from that have "a \<noteq> sb_agentId (pb_binding p)" and "jget (bd_reserved s) a = Some j"
      by (auto simp: release_pending_def split: if_splits)
    from bindings_okD(4) [OF ok this(2)] obtain q where q: "jget (bd_pending s) j = Some q" "sb_agentId (pb_binding q) = a"
      by blast
    with p \<open>a \<noteq> _\<close> have "j \<noteq> k" by auto
    with q show ?thesis by (simp add: release_pending_def)
  qed
  have same: "bd_native ?s = bd_native s" "bd_agents ?s = bd_agents s" by (simp_all add: release_pending_def)
  from indexes_same [OF ok same] pend res show ?thesis by (rule bindings_okI)
qed

lemma start_attach_ok:
  assumes ok: "bindings_ok s"
  shows "bindings_ok (snd (start_attach k s))"
proof (cases "jget (bd_pending s) k")
  case None
  with ok show ?thesis by (simp add: start_attach_def)
next
  case (Some p)
  let ?s = "s\<lparr>bd_pending := jset (bd_pending s) k (p\<lparr>pb_started := True\<rparr>)\<rparr>"
  have same: "bd_native ?s = bd_native s" "bd_agents ?s = bd_agents s" by simp_all
  have pend: "pending_ok ?s j q" if "jget (bd_pending ?s) j = Some q" for j q
    using that bindings_okD(3) [OF ok Some] bindings_okD(3) [OF ok, of j q]
    by (auto simp: pending_ok_def split: if_splits)
  have res: "\<exists>q. jget (bd_pending ?s) j = Some q \<and> sb_agentId (pb_binding q) = a"
    if "jget (bd_reserved ?s) a = Some j" for a j
    using that bindings_okD(4) [OF ok, of a j] Some by (cases "j = k") auto
  from indexes_same [OF ok same] pend res have "bindings_ok ?s" by (rule bindings_okI)
  with Some ok release_pending_ok [OF ok Some] show ?thesis by (simp add: start_attach_def)
qed

lemma publish_ok:
  assumes ok: "bindings_ok s" and p: "jget (bd_pending s) k = Some p"
  shows "bindings_ok (s\<lparr>bd_native := jset (bd_native s) k (pb_binding p),
      bd_agents := jset (bd_agents s) (sb_agentId (pb_binding p)) (pb_binding p)\<rparr>)" (is "bindings_ok ?s")
proof -
  let ?b = "pb_binding p"
  from bindings_okD(3) [OF ok p] have own: "key_of_binding ?b = k" "jget (bd_reserved s) (sb_agentId ?b) = Some k"
    "jget (bd_native s) k = None \<or> jget (bd_native s) k = Some ?b"
    "\<And>t. jget (bd_agents s) (sb_agentId ?b) = Some t \<Longrightarrow> key_of_binding t = k"
    by (auto simp: pending_ok_def)
  have native: "key_of_binding b = j \<and> jget (bd_agents ?s) (sb_agentId b) = Some b" if "jget (bd_native ?s) j = Some b" for j b
  proof (cases "j = k")
    case True
    with that own(1) show ?thesis by simp
  next
    case False
    with that bindings_okD(1) [OF ok, of j b] have b: "key_of_binding b = j" "jget (bd_agents s) (sb_agentId b) = Some b" by auto
    with own(4) False have "sb_agentId b \<noteq> sb_agentId ?b" by metis
    with b show ?thesis by simp
  qed
  have agents: "sb_agentId b = a \<and> jget (bd_native ?s) (key_of_binding b) = Some b" if "jget (bd_agents ?s) a = Some b" for a b
  proof (cases "a = sb_agentId ?b")
    case True
    with that own(1) show ?thesis by simp
  next
    case False
    with that bindings_okD(2) [OF ok, of a b] have b: "sb_agentId b = a" "jget (bd_native s) (key_of_binding b) = Some b" by auto
    with own(3) False have "key_of_binding b \<noteq> k" by auto
    with b show ?thesis by simp
  qed
  have pend: "pending_ok ?s j q" if "jget (bd_pending ?s) j = Some q" for j q
  proof -
    from that have old: "pending_ok s j q" by (intro bindings_okD(3) [OF ok]) simp
    show ?thesis
    proof (cases "j = k")
      case True
      with that p have "q = p" by simp
      with old own True show ?thesis by (auto simp: pending_ok_def)
    next
      case False
      with old own(2) have "sb_agentId (pb_binding q) \<noteq> sb_agentId ?b" by (auto simp: pending_ok_def)
      with old False show ?thesis by (auto simp: pending_ok_def)
    qed
  qed
  have res: "\<exists>q. jget (bd_pending ?s) j = Some q \<and> sb_agentId (pb_binding q) = a"
    if "jget (bd_reserved ?s) a = Some j" for a j
    using bindings_okD(4) [OF ok, of a j] that by simp
  from native agents pend res show ?thesis by (rule bindings_okI)
qed

lemma finish_attach_ok:
  assumes ok: "bindings_ok s"
  shows "bindings_ok (snd (finish_attach k outcome s))"
proof (cases "jget (bd_pending s) k")
  case None
  with ok show ?thesis by (simp add: finish_attach_def)
next
  case (Some p)
  have published: "jget (bd_pending (s\<lparr>bd_native := jset (bd_native s) k (pb_binding p),
      bd_agents := jset (bd_agents s) (sb_agentId (pb_binding p)) (pb_binding p)\<rparr>)) k = Some p"
    using Some by simp
  from release_pending_ok [OF publish_ok [OF ok Some] published] release_pending_ok [OF ok Some] ok Some show ?thesis
    by (simp add: finish_attach_def Let_def split: attach_outcome.split)
qed

lemma release_binding_ok:
  assumes ok: "bindings_ok s"
  shows "bindings_ok (release_binding b s)"
proof (cases "jget (bd_native s) (key_of_binding b) = Some b")
  case False
  with ok show ?thesis by (simp add: release_binding_def)
next
  case True
  let ?s = "s\<lparr>bd_native := jdelete (bd_native s) (key_of_binding b), bd_agents := jdelete (bd_agents s) (sb_agentId b)\<rparr>"
  have native: "key_of_binding c = j \<and> jget (bd_agents ?s) (sb_agentId c) = Some c" if "jget (bd_native ?s) j = Some c" for j c
  proof -
    from that have j: "j \<noteq> key_of_binding b" "jget (bd_native s) j = Some c" by (auto split: if_splits)
    from bindings_okD(1) [OF ok j(2)] bindings_okD(1) [OF ok True] j(1) have "sb_agentId c \<noteq> sb_agentId b" by auto
    with bindings_okD(1) [OF ok j(2)] show ?thesis by simp
  qed
  have agents: "sb_agentId c = a \<and> jget (bd_native ?s) (key_of_binding c) = Some c" if "jget (bd_agents ?s) a = Some c" for a c
  proof -
    from that have a: "a \<noteq> sb_agentId b" "jget (bd_agents s) a = Some c" by (auto split: if_splits)
    from bindings_okD(2) [OF ok a(2)] True a(1) have "key_of_binding c \<noteq> key_of_binding b" by auto
    with bindings_okD(2) [OF ok a(2)] show ?thesis by simp
  qed
  have pend: "pending_ok ?s j q" if "jget (bd_pending ?s) j = Some q" for j q
    using bindings_okD(3) [OF ok, of j q] that by (auto simp: pending_ok_def)
  have res: "\<exists>q. jget (bd_pending ?s) j = Some q \<and> sb_agentId (pb_binding q) = a"
    if "jget (bd_reserved ?s) a = Some j" for a j
    using bindings_okD(4) [OF ok, of a j] that by simp
  from native agents pend res have "bindings_ok ?s" by (rule bindings_okI)
  with True show ?thesis by (simp add: release_binding_def)
qed

lemma binding_step_ok: "bindings_ok s \<Longrightarrow> bindings_ok (binding_step s ev)"
  by (cases ev) (simp_all add: bind_ok start_attach_ok finish_attach_ok release_binding_ok,
      simp add: close_bindings_def bindings_ok_def pending_ok_def)

interpretation binding_machine: machine bindings_ok binding_step
  by unfold_locales (rule binding_step_ok)

text \<open>C28: In every reachable registry the two indexes are inverse: a native session (provider and
  native id) has one public agent and that agent leads back to it. While a bind is pending its agent
  is reserved for it alone: no other pending bind has it and no other native session is bound to it.\<close>

theorem bindings_are_one_to_one:
  assumes "s = foldl binding_step new_bindings events"
  shows "(\<forall>p n b. getByNative s p n = Some b \<longrightarrow>
        sb_providerId b = p \<and> sb_nativeSessionId b = n \<and> getByAgent s (sb_agentId b) = Some b)
    \<and> (\<forall>a b. getByAgent s a = Some b \<longrightarrow>
        sb_agentId b = a \<and> getByNative s (sb_providerId b) (sb_nativeSessionId b) = Some b)
    \<and> (\<forall>j k p q. jget (bd_pending s) j = Some p \<and> jget (bd_pending s) k = Some q
        \<and> sb_agentId (pb_binding p) = sb_agentId (pb_binding q) \<longrightarrow> j = k)
    \<and> (\<forall>k p t. jget (bd_pending s) k = Some p \<and> getByAgent s (sb_agentId (pb_binding p)) = Some t \<longrightarrow> t = pb_binding p)"
proof -
  have ok: "bindings_ok s" unfolding assms by (rule binding_machine.run_inv [OF new_bindings_ok])
  have "sb_providerId b = p \<and> sb_nativeSessionId b = n \<and> getByAgent s (sb_agentId b) = Some b" if "getByNative s p n = Some b" for p n b
    using bindings_okD(1) [OF ok, of "binding_key p n" b] that
    by (simp add: getByNative_def getByAgent_def key_of_binding_def binding_key_inj)
  moreover have "sb_agentId b = a \<and> getByNative s (sb_providerId b) (sb_nativeSessionId b) = Some b" if "getByAgent s a = Some b" for a b
    using bindings_okD(2) [OF ok, of a b] that by (simp add: getByNative_def getByAgent_def key_of_binding_def)
  moreover have "j = k" if "jget (bd_pending s) j = Some p" "jget (bd_pending s) k = Some q"
      "sb_agentId (pb_binding p) = sb_agentId (pb_binding q)" for j k p q
    using bindings_okD(3) [OF ok that(1)] bindings_okD(3) [OF ok that(2)] that(3) by (simp add: pending_ok_def)
  moreover have "t = pb_binding p" if "jget (bd_pending s) k = Some p" "getByAgent s (sb_agentId (pb_binding p)) = Some t" for k p t
  proof -
    from bindings_okD(3) [OF ok that(1)] that(2) have "key_of_binding t = k"
      "jget (bd_native s) k = None \<or> jget (bd_native s) k = Some (pb_binding p)"
      by (simp_all add: pending_ok_def getByAgent_def)
    moreover have "jget (bd_native s) (key_of_binding t) = Some t"
      using bindings_okD(2) [OF ok, of _ t] that(2) by (simp add: getByAgent_def)
    ultimately show ?thesis by auto
  qed
  ultimately show ?thesis by blast
qed

text \<open>A bind whose promise resolves is published under both identities and no longer pending; a
  failed one leaves the two indexes as they were and frees its reservation.\<close>

theorem settled_bind_is_published:
  assumes "s = foldl binding_step new_bindings events"
    and "finish_attach k outcome s = (Some result, s')"
  shows "jget (bd_pending s') k = None
    \<and> (case result of
         Inr b \<Rightarrow> getByAgent s' (sb_agentId b) = Some b \<and> getByNative s' (sb_providerId b) (sb_nativeSessionId b) = Some b
           \<and> \<not> jhas (bd_reserved s') (sb_agentId b)
       | Inl _ \<Rightarrow> bd_native s' = bd_native s \<and> bd_agents s' = bd_agents s
           \<and> (\<exists>p. jget (bd_pending s) k = Some p \<and> \<not> jhas (bd_reserved s') (sb_agentId (pb_binding p))))"
proof -
  have ok: "bindings_ok s" unfolding assms(1) by (rule binding_machine.run_inv [OF new_bindings_ok])
  from assms(2) obtain p where p: "jget (bd_pending s) k = Some p"
    by (auto simp: finish_attach_def split: option.splits)
  from bindings_okD(3) [OF ok p] have "key_of_binding (pb_binding p) = k" by (simp add: pending_ok_def)
  with p assms(2) show ?thesis
    by (auto simp: finish_attach_def Let_def release_pending_def getByAgent_def getByNative_def key_of_binding_def
        split: if_splits attach_outcome.splits)
qed

text \<open>After the service closed nothing more is published: the bindings only become fewer.\<close>

theorem closed_service_publishes_nothing:
  assumes "bd_closed s"
  shows "bd_closed (foldl binding_step s events)
    \<and> (\<forall>k b. jget (bd_native (foldl binding_step s events)) k = Some b \<longrightarrow> jget (bd_native s) k = Some b)
    \<and> (\<forall>a b. jget (bd_agents (foldl binding_step s events)) a = Some b \<longrightarrow> jget (bd_agents s) a = Some b)"
  using assms
proof (induction events arbitrary: s)
  case (Cons ev events)
  have "bd_closed (binding_step s ev)
    \<and> (\<forall>k b. jget (bd_native (binding_step s ev)) k = Some b \<longrightarrow> jget (bd_native s) k = Some b)
    \<and> (\<forall>a b. jget (bd_agents (binding_step s ev)) a = Some b \<longrightarrow> jget (bd_agents s) a = Some b)"
    using Cons.prems
    by (cases ev) (auto simp: bind_session_def start_attach_def finish_attach_def Let_def release_pending_def
        release_binding_def close_bindings_def split: option.split attach_outcome.split if_splits)
  with Cons.IH [of "binding_step s ev"] show ?case by simp
qed simp

section \<open>An example\<close>

definition sample_native_session :: session_binding where
  "sample_native_session = \<lparr>sb_providerId = ''p'', sb_nativeSessionId = ''n'', sb_agentId = ''a'', sb_parent = None, sb_object = 0\<rparr>"

definition sample_binds :: "binding_event list" where
  "sample_binds = [Bind sample_native_session None (\<lambda>_. None), StartAttach (binding_key ''p'' ''n'')]"

lemma bindings_are_one_to_one_witness:
  "getByAgent (foldl binding_step new_bindings (sample_binds @ [FinishAttach (binding_key ''p'' ''n'') (AttachDone None)])) ''a''
     = Some sample_native_session"
proof -
  let ?s = "foldl binding_step new_bindings (sample_binds @ [FinishAttach (binding_key ''p'' ''n'') (AttachDone None)])"
  have "getByNative ?s ''p'' ''n'' = Some sample_native_session"
    by (simp add: sample_binds_def new_bindings_def bind_session_def Let_def key_of_binding_def sample_native_session_def
        start_attach_def finish_attach_def release_pending_def getByNative_def)
  moreover have "getByNative ?s ''p'' ''n'' = Some sample_native_session \<longrightarrow> getByAgent ?s (sb_agentId sample_native_session) = Some sample_native_session"
    using bindings_are_one_to_one [OF refl, of "sample_binds @ [FinishAttach (binding_key ''p'' ''n'') (AttachDone None)]"] by blast
  ultimately have "getByAgent ?s (sb_agentId sample_native_session) = Some sample_native_session" by (rule rev_mp)
  moreover have "sb_agentId sample_native_session = ''a''" by (simp add: sample_native_session_def)
  ultimately show ?thesis by (simp only:)
qed

lemma settled_bind_is_published_witness:
  "\<exists>s'. finish_attach (binding_key ''p'' ''n'') (AttachDone None) (foldl binding_step new_bindings sample_binds)
      = (Some (Inr sample_native_session), s') \<and> getByAgent s' ''a'' = Some sample_native_session"
proof -
  have "\<exists>s'. finish_attach (binding_key ''p'' ''n'') (AttachDone None) (foldl binding_step new_bindings sample_binds)
      = (Some (Inr sample_native_session), s')"
    by (simp add: sample_binds_def new_bindings_def bind_session_def Let_def key_of_binding_def sample_native_session_def
        start_attach_def finish_attach_def release_pending_def)
  then obtain s' where s': "finish_attach (binding_key ''p'' ''n'') (AttachDone None) (foldl binding_step new_bindings sample_binds)
      = (Some (Inr sample_native_session), s')" by blast
  from settled_bind_is_published [OF refl s'] s' show ?thesis by (auto simp: sample_native_session_def)
qed

lemma closed_service_publishes_nothing_witness:
  "jget (bd_agents (foldl binding_step (close_bindings new_bindings) sample_binds)) ''a'' = None"
  using closed_service_publishes_nothing [of "close_bindings new_bindings" sample_binds]
  by (cases "jget (bd_agents (foldl binding_step (close_bindings new_bindings) sample_binds)) ''a''")
    (auto simp: close_bindings_def new_bindings_def)

end
