(* ===== verification/Setting_Changes.thy ===== *)
theory Setting_Changes
  imports Session_State Js_Text
begin

text \<open>
  \<open>agent-remote-relay/src/session-setting-changes.ts\<close>: the accepted changes of session settings.
  An intent is queued, applied one at a time, and pending until the native runtime reports its
  value, fails or times out.

  Intents are objects shared with timers and with the running application, so they live in a heap
  (\<open>sg_heap\<close>); \<open>sg_intents\<close> is the map from a setting to its current intent. \<open>drain\<close> is cut at its
  await: \<open>drain_start\<close>, then \<open>drain_applied\<close> or \<open>drain_failed\<close>. \<open>JSON.stringify(runtime)\<close> is the
  parameter \<open>print_runtime\<close>; \<open>it_confirmed\<close> and \<open>it_terminated\<close> count the calls of the lifecycle
  callbacks; \<open>sg_published\<close> lists what was published.
\<close>

section \<open>Data\<close>

datatype intent_phase = QueuedIntent | ApplyingIntent | PendingIntent | DeferredIntent | SettledIntent

record setting_intent =
  it_change :: setting_change
  it_phase :: intent_phase
  it_deferredRuntime :: "string option"
  it_observedDifferentValue :: bool
  it_applied :: bool
  it_timer :: bool
  it_confirmed :: nat
  it_terminated :: nat

record drain_context =
  dc_intent :: nat
  dc_fingerprint :: string
  dc_revision :: nat

record setting_changes =
  sg_intents :: "(string, nat) jmap"
  sg_heap :: "nat \<Rightarrow> setting_intent option"
  sg_next :: nat
  sg_nativeRevision :: nat
  sg_applying :: "drain_context option"
  sg_closed :: bool
  sg_refreshing :: bool
  sg_poll :: bool
  sg_runtime :: runtime_info
  sg_published :: "setting_change list list"

definition setting_deadline_ms :: int where "setting_deadline_ms = 30000"

definition new_changes :: "runtime_info \<Rightarrow> setting_changes" where
  "new_changes rt = \<lparr>sg_intents = [], sg_heap = \<lambda>_. None, sg_next = 0, sg_nativeRevision = 0, sg_applying = None,
     sg_closed = False, sg_refreshing = False, sg_poll = False, sg_runtime = rt, sg_published = []\<rparr>"

section \<open>Helpers\<close>

text \<open>\<open>runtime.settings?.find(setting => setting.id === id)?.value\<close>, absent and \<open>null\<close> alike.\<close>

definition reported_value :: "runtime_info \<Rightarrow> string \<Rightarrow> string option" where
  "reported_value rt i =
     (case ri_settings rt of None \<Rightarrow> None
      | Some xs \<Rightarrow> (case find (\<lambda>x. ss_id x = i) xs of None \<Rightarrow> None | Some x \<Rightarrow> ss_value x))"

definition set_intent :: "nat \<Rightarrow> setting_intent \<Rightarrow> setting_changes \<Rightarrow> setting_changes" where
  "set_intent i x s = s\<lparr>sg_heap := (sg_heap s)(i \<mapsto> x)\<rparr>"

definition change_intent :: "nat \<Rightarrow> (setting_intent \<Rightarrow> setting_intent) \<Rightarrow> setting_changes \<Rightarrow> setting_changes" where
  "change_intent i f s = (case sg_heap s i of None \<Rightarrow> s | Some x \<Rightarrow> set_intent i (f x) s)"

definition current_intent :: "setting_changes \<Rightarrow> nat \<Rightarrow> setting_intent \<Rightarrow> bool" where
  "current_intent s i x \<longleftrightarrow> \<not> sg_closed s \<and> jget (sg_intents s) (ch_settingId (it_change x)) = Some i"

definition intent_pending :: "setting_intent \<Rightarrow> bool" where
  "intent_pending x \<longleftrightarrow> ch_status (it_change x) = ChangePending"

definition listed_intents :: "setting_changes \<Rightarrow> (nat \<times> setting_intent) list" where
  "listed_intents s = map (\<lambda>i. (i, the (sg_heap s i))) (jvalues (sg_intents s))"

definition any_pending :: "setting_changes \<Rightarrow> bool" where
  "any_pending s = list_ex (\<lambda>ix. intent_pending (snd ix)) (listed_intents s)"

definition publish :: "setting_changes \<Rightarrow> setting_changes" where
  "publish s =
     (if sg_closed s then s
      else s\<lparr>sg_published := sg_published s @ [map (\<lambda>ix. it_change (snd ix)) (listed_intents s)]\<rparr>)"

definition terminate_intent :: "setting_intent \<Rightarrow> setting_intent" where
  "terminate_intent x = x\<lparr>it_terminated := Suc (it_terminated x)\<rparr>"

section \<open>Confirmation\<close>

definition confirmable :: "setting_changes \<Rightarrow> nat \<Rightarrow> setting_intent \<Rightarrow> bool" where
  "confirmable s i x \<longleftrightarrow>
     it_phase x = PendingIntent \<and> current_intent s i x \<and> intent_pending x
     \<and> (it_applied x \<or> it_observedDifferentValue x)
     \<and> reported_value (sg_runtime s) (ch_settingId (it_change x)) = Some (ch_targetValue (it_change x))"

definition confirm :: "nat \<Rightarrow> setting_changes \<Rightarrow> bool \<times> setting_changes" where
  "confirm i s =
     (case sg_heap s i of None \<Rightarrow> (False, s)
      | Some x \<Rightarrow>
          if \<not> confirmable s i x then (False, s)
          else (True, (set_intent i (x\<lparr>it_timer := False, it_confirmed := Suc (it_confirmed x)\<rparr>) s)
            \<lparr>sg_intents := jdelete (sg_intents s) (ch_settingId (it_change x))\<rparr>))"

section \<open>Applying\<close>

definition drain_start :: "(runtime_info \<Rightarrow> string) \<Rightarrow> setting_changes \<Rightarrow> setting_changes" where
  "drain_start print_runtime s =
     (if sg_closed s \<or> sg_applying s \<noteq> None then s
      else case find (\<lambda>ix. it_phase (snd ix) = QueuedIntent \<and> intent_pending (snd ix)) (listed_intents s) of
        None \<Rightarrow> s
      | Some (i, x) \<Rightarrow>
          let baseline = reported_value (sg_runtime s) (ch_settingId (it_change x)) in
          (set_intent i (x\<lparr>it_phase := ApplyingIntent,
               it_observedDifferentValue := (baseline \<noteq> None \<and> baseline \<noteq> Some (ch_targetValue (it_change x))),
               it_applied := False\<rparr>) s)
            \<lparr>sg_applying := Some \<lparr>dc_intent = i, dc_fingerprint = print_runtime (sg_runtime s), dc_revision = sg_nativeRevision s\<rparr>\<rparr>)"

definition readback_start :: "setting_changes \<Rightarrow> setting_changes" where
  "readback_start s = (if sg_closed s \<or> sg_refreshing s then s else s\<lparr>sg_refreshing := True\<rparr>)"

definition readback_end :: "setting_changes \<Rightarrow> setting_changes" where
  "readback_end s = s\<lparr>sg_refreshing := False\<rparr>"

definition schedule_readback :: "setting_changes \<Rightarrow> setting_changes" where
  "schedule_readback s = (if sg_closed s \<or> sg_poll s \<or> \<not> any_pending s then s else s\<lparr>sg_poll := True\<rparr>)"

definition poll_fires :: "setting_changes \<Rightarrow> setting_changes" where
  "poll_fires s =
     (if \<not> sg_poll s then s else schedule_readback (readback_start (s\<lparr>sg_poll := False\<rparr>)))"

definition drain_end :: "(runtime_info \<Rightarrow> string) \<Rightarrow> setting_changes \<Rightarrow> setting_changes" where
  "drain_end print_runtime s = drain_start print_runtime (s\<lparr>sg_applying := None\<rparr>)"

text \<open>What the native call returned: nothing, \<open>deferred\<close> or \<open>pending\<close>.\<close>

datatype apply_result = AppliedNow | AppliedDeferred | AppliedPending

definition apply_phase :: "drain_context \<Rightarrow> apply_result \<Rightarrow> nat \<Rightarrow> setting_intent \<Rightarrow> setting_intent" where
  "apply_phase d result revision x =
     (let y = x\<lparr>it_phase := (if result = AppliedDeferred then DeferredIntent else PendingIntent),
                it_applied := (result = AppliedNow)\<rparr>
      in if result = AppliedDeferred
         then y\<lparr>it_deferredRuntime := Some (dc_fingerprint d),
                it_phase := (if dc_revision d \<noteq> revision then QueuedIntent else DeferredIntent)\<rparr>
         else y)"

definition drain_applied :: "(runtime_info \<Rightarrow> string) \<Rightarrow> apply_result \<Rightarrow> setting_changes \<Rightarrow> setting_changes" where
  "drain_applied print_runtime result s =
     (case sg_applying s of None \<Rightarrow> s
      | Some d \<Rightarrow>
          let i = dc_intent d;
              s1 = (case sg_heap s i of None \<Rightarrow> s
                    | Some x \<Rightarrow>
                        if current_intent s i x \<and> intent_pending x
                        then set_intent i (apply_phase d result (sg_nativeRevision s) x) s else s);
              (done, s2) = confirm i s1;
              s3 = (if done then publish s2 else s2);
              s4 = (if sg_closed s3 then s3 else readback_start s3)
          in drain_end print_runtime s4)"

definition failure_message :: "js_error \<Rightarrow> string" where
  "failure_message e = (if err_message e \<noteq> [] then err_message e else ''The setting could not be applied.'')"

definition drain_failed :: "(runtime_info \<Rightarrow> string) \<Rightarrow> js_error \<Rightarrow> setting_changes \<Rightarrow> setting_changes" where
  "drain_failed print_runtime e s =
     (case sg_applying s of None \<Rightarrow> s
      | Some d \<Rightarrow>
          let i = dc_intent d;
              s1 = change_intent i terminate_intent s;
              s2 = (case sg_heap s1 i of None \<Rightarrow> s1
                    | Some x \<Rightarrow>
                        if current_intent s1 i x \<and> intent_pending x
                        then publish (set_intent i (x\<lparr>it_timer := False, it_phase := SettledIntent,
                               it_change := (it_change x)\<lparr>ch_status := ChangeFailed, ch_message := Some (failure_message e),
                                 ch_code := (if err_code e \<noteq> [] then Some (err_code e) else ch_code (it_change x))\<rparr>\<rparr>) s1)
                        else s1);
              s3 = (if sg_closed s2 then s2 else readback_start s2)
          in drain_end print_runtime s3)"

section \<open>Accepting, observing, expiring\<close>

definition retire_previous :: "string \<Rightarrow> setting_changes \<Rightarrow> setting_changes" where
  "retire_previous setting_id s =
     (case jget (sg_intents s) setting_id of None \<Rightarrow> s
      | Some i \<Rightarrow> change_intent i (\<lambda>x. terminate_intent (x\<lparr>it_timer := False\<rparr>)) s)"

definition make_change :: "session_setting \<Rightarrow> string \<Rightarrow> string \<Rightarrow> string option \<Rightarrow> string \<Rightarrow> string \<Rightarrow> setting_change" where
  "make_change setting target request_id confirmed requested deadline =
     \<lparr>ch_category = ss_category setting, ch_label = ss_label setting, ch_settingId = ss_id setting,
      ch_requestId = request_id, ch_targetValue = target, ch_confirmedValue = confirmed,
      ch_status = ChangePending, ch_requestedAt = requested, ch_deadlineAt = deadline,
      ch_message = None, ch_code = None\<rparr>"

text \<open>
  \<open>accept\<close>; \<open>now\<close> is the clock in milliseconds, \<open>refused\<close> an exception of the \<open>publish\<close> callback.
\<close>

definition accept_change :: "(runtime_info \<Rightarrow> string) \<Rightarrow> session_setting \<Rightarrow> string \<Rightarrow> string \<Rightarrow> int \<Rightarrow> js_error option \<Rightarrow>
    setting_changes \<Rightarrow> js_error option \<times> setting_changes" where
  "accept_change print_runtime setting target request_id now refused s =
     (if sg_closed s then (Some (Thrown PlainError [] ''Setting intents are closed.''), s)
      else
        let setting_id = ss_id setting;
            previous = (case jget (sg_intents s) setting_id of None \<Rightarrow> None | Some i \<Rightarrow> sg_heap s i);
            s1 = retire_previous setting_id s;
            confirmed = or_else (reported_value (sg_runtime s) setting_id)
              (case previous of None \<Rightarrow> None | Some x \<Rightarrow> ch_confirmedValue (it_change x))
        in case to_iso_string now of Inl e \<Rightarrow> (Some e, s1)
         | Inr requested \<Rightarrow>
           (case to_iso_string (now + setting_deadline_ms) of Inl e \<Rightarrow> (Some e, s1)
            | Inr deadline \<Rightarrow>
                let i = sg_next s1;
                    x = \<lparr>it_change = make_change setting target request_id confirmed requested deadline,
                         it_phase = QueuedIntent, it_deferredRuntime = None, it_observedDifferentValue = False,
                         it_applied = False, it_timer = True, it_confirmed = 0, it_terminated = 0\<rparr>;
                    s2 = (set_intent i x s1)\<lparr>sg_next := Suc i, sg_intents := jset (sg_intents s1) setting_id i\<rparr>
                in case refused of
                     Some e \<Rightarrow> (Some e, (set_intent i (terminate_intent (x\<lparr>it_timer := False\<rparr>)) s2)
                                 \<lparr>sg_intents := jdelete (sg_intents s2) setting_id\<rparr>)
                   | None \<Rightarrow> (None, schedule_readback (drain_start print_runtime (publish s2)))))"

definition note_value :: "runtime_info \<Rightarrow> string \<Rightarrow> setting_intent \<Rightarrow> setting_intent" where
  "note_value rt setting_id x =
     (case reported_value rt setting_id of None \<Rightarrow> x
      | Some v \<Rightarrow>
          let y = x\<lparr>it_change := (it_change x)\<lparr>ch_confirmedValue := Some v\<rparr>\<rparr> in
          if intent_pending x \<and> (it_phase x = ApplyingIntent \<or> it_phase x = PendingIntent) \<and> v \<noteq> ch_targetValue (it_change x)
          then y\<lparr>it_observedDifferentValue := True\<rparr> else y)"

definition observe_intent :: "bool \<Rightarrow> string \<Rightarrow> setting_changes \<Rightarrow> string \<times> nat \<Rightarrow> setting_changes" where
  "observe_intent native fingerprint s entry =
     (let i = snd entry; s1 = change_intent i (note_value (sg_runtime s) (fst entry)) s in
      case sg_heap s1 i of None \<Rightarrow> s1
      | Some x \<Rightarrow>
          if \<not> intent_pending x then s1
          else
            let (done, s2) = confirm i s1 in
            if done then s2
            else if it_phase x = DeferredIntent \<and> (native \<or> it_deferredRuntime x \<noteq> Some fingerprint)
            then set_intent i (x\<lparr>it_phase := QueuedIntent\<rparr>) s2
            else s2)"

definition observe :: "(runtime_info \<Rightarrow> string) \<Rightarrow> runtime_info \<Rightarrow> bool \<Rightarrow> setting_changes \<Rightarrow> setting_changes" where
  "observe print_runtime rt native s =
     (if sg_closed s then s
      else
        let s1 = s\<lparr>sg_runtime := rt, sg_nativeRevision := (if native then Suc (sg_nativeRevision s) else sg_nativeRevision s)\<rparr>
        in drain_start print_runtime (publish (foldl (observe_intent native (print_runtime rt)) s1 (sg_intents s1))))"

definition hasUnsettledWork :: "setting_changes \<Rightarrow> bool" where
  "hasUnsettledWork s \<longleftrightarrow> sg_applying s \<noteq> None \<or> any_pending s"

definition timeout_message :: string where
  "timeout_message = ''The setting change timed out. Showing the last confirmed value.''"

definition expire_intent :: "nat \<Rightarrow> setting_changes \<Rightarrow> setting_changes" where
  "expire_intent i s =
     (case sg_heap s i of None \<Rightarrow> s
      | Some x \<Rightarrow>
          if \<not> it_timer x then s
          else
            let y = x\<lparr>it_timer := False\<rparr>; s0 = set_intent i y s in
            if \<not> current_intent s0 i y \<or> \<not> intent_pending y then s0
            else readback_start (publish (set_intent i
              (terminate_intent (y\<lparr>it_phase := SettledIntent,
                 it_change := (it_change y)\<lparr>ch_status := ChangeTimedOut, ch_message := Some timeout_message\<rparr>\<rparr>)) s0)))"

definition close_changes :: "setting_changes \<Rightarrow> setting_changes" where
  "close_changes s =
     foldl (\<lambda>s i. change_intent i (\<lambda>x. terminate_intent (x\<lparr>it_timer := False\<rparr>)) s)
       (s\<lparr>sg_closed := True, sg_poll := False\<rparr>) (jvalues (sg_intents s))"

section \<open>Events\<close>

datatype change_event =
    AcceptChange session_setting string string int "js_error option"
  | Observe runtime_info bool
  | ApplyReturned apply_result
  | ApplyThrew js_error
  | TimerExpires nat
  | ReadbackEnds
  | PollFires
  | CloseChanges

fun change_step :: "(runtime_info \<Rightarrow> string) \<Rightarrow> setting_changes \<Rightarrow> change_event \<Rightarrow> setting_changes" where
  "change_step p s (AcceptChange setting target request_id now refused) = snd (accept_change p setting target request_id now refused s)"
| "change_step p s (Observe rt native) = observe p rt native s"
| "change_step p s (ApplyReturned result) = drain_applied p result s"
| "change_step p s (ApplyThrew e) = drain_failed p e s"
| "change_step p s (TimerExpires i) = expire_intent i s"
| "change_step p s ReadbackEnds = readback_end s"
| "change_step p s PollFires = poll_fires s"
| "change_step p s CloseChanges = close_changes s"

end
