(* ===== verification/Setting_Changes_Properties.thy ===== *)
theory Setting_Changes_Properties
  imports Setting_Changes
begin

text \<open>
  Every accepted setting change ends: it is confirmed by the runtime, fails or times out, and its
  owner hears of exactly one kind of end.
\<close>

section \<open>The invariant\<close>

abbreviation intent_setting :: "setting_intent \<Rightarrow> string" where
  "intent_setting x \<equiv> ch_settingId (it_change x)"

definition intent_ok :: "setting_changes \<Rightarrow> nat \<Rightarrow> setting_intent \<Rightarrow> bool" where
  "intent_ok s i x \<longleftrightarrow>
     (it_confirmed x = 0 \<or> it_confirmed x = 1 \<and> it_terminated x = 0 \<and> jget (sg_intents s) (intent_setting x) \<noteq> Some i)
     \<and> (current_intent s i x \<and> intent_pending x \<longrightarrow>
          it_terminated x = 0 \<and> it_timer x \<and> it_phase x \<noteq> SettledIntent
          \<and> (it_phase x = ApplyingIntent \<longrightarrow> (\<exists>d. sg_applying s = Some d \<and> dc_intent d = i)))"

definition changes_ok :: "setting_changes \<Rightarrow> bool" where
  "changes_ok s \<longleftrightarrow>
     (\<forall>k i. jget (sg_intents s) k = Some i \<longrightarrow> (\<exists>x. sg_heap s i = Some x \<and> intent_setting x = k))
     \<and> (\<forall>i x. sg_heap s i = Some x \<longrightarrow> i < sg_next s \<and> intent_ok s i x)
     \<and> (\<forall>d. sg_applying s = Some d \<longrightarrow>
          (\<exists>x. sg_heap s (dc_intent d) = Some x \<and> it_confirmed x = 0 \<and> it_phase x \<in> {ApplyingIntent, SettledIntent}))"

lemma changes_okI:
  assumes "\<And>k i. jget (sg_intents s) k = Some i \<Longrightarrow> \<exists>x. sg_heap s i = Some x \<and> intent_setting x = k"
    and "\<And>i x. sg_heap s i = Some x \<Longrightarrow> i < sg_next s \<and> intent_ok s i x"
    and "\<And>d. sg_applying s = Some d \<Longrightarrow>
          \<exists>x. sg_heap s (dc_intent d) = Some x \<and> it_confirmed x = 0 \<and> it_phase x \<in> {ApplyingIntent, SettledIntent}"
  shows "changes_ok s"
  using assms by (simp add: changes_ok_def)

lemma changes_okD:
  assumes "changes_ok s"
  shows "jget (sg_intents s) k = Some i \<Longrightarrow> \<exists>x. sg_heap s i = Some x \<and> intent_setting x = k"
    "sg_heap s i = Some x \<Longrightarrow> i < sg_next s"
    "sg_heap s i = Some x \<Longrightarrow> intent_ok s i x"
    "sg_applying s = Some d \<Longrightarrow>
       \<exists>x. sg_heap s (dc_intent d) = Some x \<and> it_confirmed x = 0 \<and> it_phase x \<in> {ApplyingIntent, SettledIntent}"
  using assms by (auto simp: changes_ok_def)

lemma new_changes_ok: "changes_ok (new_changes rt)"
  by (simp add: changes_ok_def new_changes_def)

section \<open>Steps that leave the intents alone\<close>

lemma set_intent_fields [simp]:
  "sg_intents (set_intent i x s) = sg_intents s" "sg_next (set_intent i x s) = sg_next s"
  "sg_applying (set_intent i x s) = sg_applying s" "sg_closed (set_intent i x s) = sg_closed s"
  "sg_runtime (set_intent i x s) = sg_runtime s" "sg_nativeRevision (set_intent i x s) = sg_nativeRevision s"
  "sg_heap (set_intent i x s) = (sg_heap s)(i \<mapsto> x)"
  by (simp_all add: set_intent_def)

lemma intent_ok_fields:
  "sg_intents t = sg_intents s \<Longrightarrow> sg_closed t = sg_closed s \<Longrightarrow> sg_applying t = sg_applying s \<Longrightarrow>
   intent_ok t i x \<longleftrightarrow> intent_ok s i x"
  by (simp add: intent_ok_def current_intent_def)

lemma changes_ok_fields:
  assumes "changes_ok s" "sg_intents t = sg_intents s" "sg_heap t = sg_heap s" "sg_next t = sg_next s"
    "sg_applying t = sg_applying s" "sg_closed t = sg_closed s"
  shows "changes_ok t"
  using assms intent_ok_fields [OF assms(2,6,5)] by (simp add: changes_ok_def)

lemma publish_fields [simp]:
  "sg_intents (publish s) = sg_intents s" "sg_heap (publish s) = sg_heap s" "sg_next (publish s) = sg_next s"
  "sg_applying (publish s) = sg_applying s" "sg_closed (publish s) = sg_closed s" "sg_runtime (publish s) = sg_runtime s"
  by (simp_all add: publish_def)

lemma readback_fields [simp]:
  "sg_intents (readback_start s) = sg_intents s" "sg_heap (readback_start s) = sg_heap s" "sg_next (readback_start s) = sg_next s"
  "sg_applying (readback_start s) = sg_applying s" "sg_closed (readback_start s) = sg_closed s" "sg_runtime (readback_start s) = sg_runtime s"
  by (simp_all add: readback_start_def)

lemma schedule_fields [simp]:
  "sg_intents (schedule_readback s) = sg_intents s" "sg_heap (schedule_readback s) = sg_heap s" "sg_next (schedule_readback s) = sg_next s"
  "sg_applying (schedule_readback s) = sg_applying s" "sg_closed (schedule_readback s) = sg_closed s"
  by (simp_all add: schedule_readback_def)

lemma frame_ok:
  "changes_ok s \<Longrightarrow> changes_ok (publish s)"
  "changes_ok s \<Longrightarrow> changes_ok (readback_start s)"
  "changes_ok s \<Longrightarrow> changes_ok (readback_end s)"
  "changes_ok s \<Longrightarrow> changes_ok (schedule_readback s)"
  "changes_ok s \<Longrightarrow> changes_ok (poll_fires s)"
  by (erule changes_ok_fields; simp add: readback_end_def poll_fires_def)+

section \<open>Steps that change one intent\<close>

lemma set_intent_ok:
  assumes ok: "changes_ok s" and x: "sg_heap s i = Some x" and y: "intent_setting y = intent_setting x" "intent_ok s i y"
    and applying: "\<And>d. sg_applying s = Some d \<Longrightarrow> dc_intent d = i \<Longrightarrow> it_confirmed y = 0 \<and> it_phase y \<in> {ApplyingIntent, SettledIntent}"
  shows "changes_ok (set_intent i y s)"
proof (rule changes_okI)
  show "\<exists>z. sg_heap (set_intent i y s) j = Some z \<and> intent_setting z = k" if "jget (sg_intents (set_intent i y s)) k = Some j" for k j
    using changes_okD(1) [OF ok, of k j] that x y(1) by (cases "j = i") auto
  show "j < sg_next (set_intent i y s) \<and> intent_ok (set_intent i y s) j z" if "sg_heap (set_intent i y s) j = Some z" for j z
    using changes_okD(2,3) [OF ok, of j] that x y(2) intent_ok_fields [of "set_intent i y s" s]
    by (cases "j = i") auto
  show "\<exists>z. sg_heap (set_intent i y s) (dc_intent d) = Some z \<and> it_confirmed z = 0 \<and> it_phase z \<in> {ApplyingIntent, SettledIntent}"
    if "sg_applying (set_intent i y s) = Some d" for d
    using changes_okD(4) [OF ok, of d] applying [of d] that by (cases "dc_intent d = i") auto
qed

lemma change_intent_ok:
  assumes "changes_ok s" and "\<And>x. sg_heap s i = Some x \<Longrightarrow> changes_ok (set_intent i (f x) s)"
  shows "changes_ok (change_intent i f s)"
  using assms by (simp add: change_intent_def split: option.split)

text \<open>An intent that is no longer pending and current may be terminated and stopped.\<close>

lemma stop_intent_ok:
  assumes ok: "changes_ok s" and x: "sg_heap s i = Some x" and y: "intent_setting y = intent_setting x"
    and conf: "it_confirmed x = 0" "it_confirmed y = 0" and over: "\<not> (current_intent s i y \<and> intent_pending y)"
    and phase: "it_phase y = it_phase x \<or> it_phase y = SettledIntent"
  shows "changes_ok (set_intent i y s)"
proof (rule set_intent_ok [OF ok x y])
  show "intent_ok s i y" using conf over by (auto simp: intent_ok_def)
  show "it_confirmed y = 0 \<and> it_phase y \<in> {ApplyingIntent, SettledIntent}" if "sg_applying s = Some d" "dc_intent d = i" for d
    using changes_okD(4) [OF ok that(1)] that(2) x phase conf by auto
qed

lemma current_unconfirmed:
  assumes "changes_ok s" "sg_heap s i = Some x" "jget (sg_intents s) (intent_setting x) = Some i"
  shows "it_confirmed x = 0"
  using changes_okD(3) [OF assms(1,2)] assms(3) by (simp add: intent_ok_def)

lemma confirm_ok:
  assumes ok: "changes_ok s"
  shows "changes_ok (snd (confirm i s))"
proof (cases "\<exists>x. sg_heap s i = Some x \<and> confirmable s i x")
  case False
  with ok show ?thesis by (auto simp: confirm_def split: option.split)
next
  case True
  then obtain x where x: "sg_heap s i = Some x" and c: "confirmable s i x" by blast
  let ?y = "x\<lparr>it_timer := False, it_confirmed := Suc (it_confirmed x)\<rparr>"
  let ?s = "(set_intent i ?y s)\<lparr>sg_intents := jdelete (sg_intents s) (intent_setting x)\<rparr>"
  have res: "snd (confirm i s) = ?s" using x c by (simp add: confirm_def)
  from c have cur: "current_intent s i x" "intent_pending x" "it_phase x = PendingIntent" by (simp_all add: confirmable_def)
  from changes_okD(3) [OF ok x] cur have old: "it_confirmed x = 0" "it_terminated x = 0"
    by (auto simp: intent_ok_def current_intent_def)
  have "changes_ok ?s"
  proof (rule changes_okI)
    show "\<exists>z. sg_heap ?s j = Some z \<and> intent_setting z = k" if "jget (sg_intents ?s) k = Some j" for k j
      using changes_okD(1) [OF ok, of k j] that x by (cases "j = i") (auto split: if_splits)
    show "j < sg_next ?s \<and> intent_ok ?s j z" if z: "sg_heap ?s j = Some z" for j z
    proof (cases "j = i")
      case True
      with z have "z = ?y" by simp
      with True old changes_okD(2) [OF ok x] show ?thesis by (simp add: intent_ok_def current_intent_def)
    next
      case False
      with z have "sg_heap s j = Some z" by simp
      from changes_okD(2,3) [OF ok this] show ?thesis by (auto simp: intent_ok_def current_intent_def)
    qed
    show "\<exists>z. sg_heap ?s (dc_intent d) = Some z \<and> it_confirmed z = 0 \<and> it_phase z \<in> {ApplyingIntent, SettledIntent}"
      if "sg_applying ?s = Some d" for d
      using changes_okD(4) [OF ok, of d] that x cur(3) by auto
  qed
  with res show ?thesis by simp
qed

lemma find_listed:
  assumes "find P (listed_intents s) = Some (i, x)" "changes_ok s"
  shows "P (i, x) \<and> sg_heap s i = Some x \<and> jget (sg_intents s) (intent_setting x) = Some i \<or> \<not> wf_jmap (sg_intents s)"
proof (cases "wf_jmap (sg_intents s)")
  case True
  from assms(1) have p: "P (i, x)" and "(i, x) \<in> set (listed_intents s)"
    by (auto simp: find_Some_iff in_set_conv_nth)
  then obtain k where k: "(k, i) \<in> set (sg_intents s)" "x = the (sg_heap s i)" by (auto simp: listed_intents_def)
  from jget_mem [OF True k(1)] have "jget (sg_intents s) k = Some i" .
  with changes_okD(1) [OF assms(2) this] k(2) p show ?thesis by auto
qed simp

definition intents_ok :: "setting_changes \<Rightarrow> bool" where
  "intents_ok s \<longleftrightarrow> wf_jmap (sg_intents s) \<and> changes_ok s"

lemma drain_start_ok:
  assumes ok: "intents_ok s"
  shows "intents_ok (drain_start p s)"
proof (cases "sg_closed s \<or> sg_applying s \<noteq> None \<or> find (\<lambda>ix. it_phase (snd ix) = QueuedIntent \<and> intent_pending (snd ix)) (listed_intents s) = None")
  case True
  with ok show ?thesis by (auto simp: drain_start_def)
next
  case False
  then obtain i x where f: "find (\<lambda>ix. it_phase (snd ix) = QueuedIntent \<and> intent_pending (snd ix)) (listed_intents s) = Some (i, x)"
    and idle: "\<not> sg_closed s" "sg_applying s = None" by auto
  from ok have c: "changes_ok s" "wf_jmap (sg_intents s)" by (simp_all add: intents_ok_def)
  from find_listed [OF f c(1)] c(2) have x: "sg_heap s i = Some x" "jget (sg_intents s) (intent_setting x) = Some i"
    "it_phase x = QueuedIntent" "intent_pending x" by simp_all
  define y where "y = x\<lparr>it_phase := ApplyingIntent,
               it_observedDifferentValue := (reported_value (sg_runtime s) (ch_settingId (it_change x)) \<noteq> None
                 \<and> reported_value (sg_runtime s) (ch_settingId (it_change x)) \<noteq> Some (ch_targetValue (it_change x))),
               it_applied := False\<rparr>"
  define t where "t = (set_intent i y s)\<lparr>sg_applying := Some \<lparr>dc_intent = i, dc_fingerprint = p (sg_runtime s), dc_revision = sg_nativeRevision s\<rparr>\<rparr>"
  have res: "drain_start p s = t"
    unfolding drain_start_def using f idle by (simp add: Let_def t_def y_def)
  have y: "intent_setting y = intent_setting x" "it_confirmed y = it_confirmed x" "it_terminated y = it_terminated x"
    "it_timer y = it_timer x" "intent_pending y = intent_pending x" "it_phase y = ApplyingIntent"
    by (simp_all add: y_def intent_pending_def)
  from current_unconfirmed [OF c(1) x(1,2)] have conf: "it_confirmed x = 0" .
  have cur: "current_intent s i x" using x(2) idle by (simp add: current_intent_def)
  have "changes_ok t"
  proof (rule changes_okI)
    show "\<exists>z. sg_heap t j = Some z \<and> intent_setting z = k" if "jget (sg_intents t) k = Some j" for k j
      using changes_okD(1) [OF c(1), of k j] that x(1) y(1) by (cases "j = i") (auto simp: t_def)
    show "j < sg_next t \<and> intent_ok t j z" if z: "sg_heap t j = Some z" for j z
    proof (cases "j = i")
      case True
      with z have "z = y" by (simp add: t_def)
      with True changes_okD(2,3) [OF c(1) x(1)] cur x(4) conf y show ?thesis
        by (simp add: intent_ok_def) (simp add: t_def)
    next
      case False
      with z have "sg_heap s j = Some z" by (simp add: t_def)
      from changes_okD(2,3) [OF c(1) this] idle(2) show ?thesis by (auto simp: intent_ok_def current_intent_def t_def)
    qed
    show "\<exists>z. sg_heap t (dc_intent d) = Some z \<and> it_confirmed z = 0 \<and> it_phase z \<in> {ApplyingIntent, SettledIntent}"
      if "sg_applying t = Some d" for d
      using that conf y by (auto simp: t_def)
  qed
  then show ?thesis using c(2) by (simp add: intents_ok_def res) (simp add: t_def)
qed

section \<open>The end of an intent\<close>

definition same_end :: "setting_intent \<Rightarrow> setting_intent \<Rightarrow> bool" where
  "same_end x y \<longleftrightarrow> ch_status (it_change y) = ch_status (it_change x) \<and> it_confirmed y = it_confirmed x
     \<and> intent_setting y = intent_setting x \<and> ch_targetValue (it_change y) = ch_targetValue (it_change x)
     \<and> ch_message (it_change y) = ch_message (it_change x) \<and> ch_code (it_change y) = ch_code (it_change x)"

lemma same_end_refl [simp]: "same_end x x"
  by (simp add: same_end_def)

lemma same_end_trans: "same_end x y \<Longrightarrow> same_end y z \<Longrightarrow> same_end x z"
  by (simp add: same_end_def)

lemma same_end_pending: "same_end x y \<Longrightarrow> intent_pending y = intent_pending x"
  by (simp add: same_end_def intent_pending_def)

text \<open>\<open>keeps_ends s t\<close>: the settled intents of \<open>s\<close> are the same in \<open>t\<close>.\<close>

definition keeps_ends :: "setting_changes \<Rightarrow> setting_changes \<Rightarrow> bool" where
  "keeps_ends s t \<longleftrightarrow>
     (\<forall>i x. sg_heap s i = Some x \<and> \<not> intent_pending x \<longrightarrow> (\<exists>y. sg_heap t i = Some y \<and> same_end x y))"

lemma keeps_ends_heap: "sg_heap t = sg_heap s \<Longrightarrow> keeps_ends s t"
  by (auto simp: keeps_ends_def)

lemma keeps_ends_trans: "keeps_ends a b \<Longrightarrow> keeps_ends b c \<Longrightarrow> keeps_ends a c"
  unfolding keeps_ends_def using same_end_pending same_end_trans by meson

lemma keeps_ends_set:
  "(\<And>x. sg_heap s i = Some x \<Longrightarrow> intent_pending x \<or> same_end x y) \<Longrightarrow> keeps_ends s (set_intent i y s)"
  by (auto simp: keeps_ends_def)

lemma keeps_ends_change: "(\<And>x. same_end x (f x)) \<Longrightarrow> keeps_ends s (change_intent i f s)"
  by (auto simp: keeps_ends_def change_intent_def split: option.split)

lemma keeps_ends_confirm: "keeps_ends s (snd (confirm i s))"
  by (auto simp: confirm_def keeps_ends_def confirmable_def split: option.split)

section \<open>Every event keeps the invariant\<close>

lemma intents_ok_frame:
  "intents_ok s \<Longrightarrow> intents_ok (publish s)" "intents_ok s \<Longrightarrow> intents_ok (readback_start s)"
  "intents_ok s \<Longrightarrow> intents_ok (readback_end s)" "intents_ok s \<Longrightarrow> intents_ok (schedule_readback s)"
  "intents_ok s \<Longrightarrow> intents_ok (poll_fires s)"
  by (simp_all add: intents_ok_def frame_ok) (simp_all add: readback_end_def poll_fires_def)

lemma intents_ok_confirm: "intents_ok s \<Longrightarrow> intents_ok (snd (confirm i s))"
  using confirm_ok [of s i] by (auto simp: intents_ok_def confirm_def split: option.split)

lemma confirm_fields:
  "sg_closed (snd (confirm i s)) = sg_closed s" "sg_applying (snd (confirm i s)) = sg_applying s"
  by (simp_all add: confirm_def split: option.split)

lemma not_applying_ok:
  assumes ok: "intents_ok s"
    and idle: "\<And>d x. sg_applying s = Some d \<Longrightarrow> sg_heap s (dc_intent d) = Some x \<Longrightarrow>
        \<not> (current_intent s (dc_intent d) x \<and> intent_pending x \<and> it_phase x = ApplyingIntent)"
  shows "intents_ok (s\<lparr>sg_applying := None\<rparr>)"
proof -
  from ok have c: "changes_ok s" "wf_jmap (sg_intents s)" by (simp_all add: intents_ok_def)
  have "intent_ok (s\<lparr>sg_applying := None\<rparr>) i x" if "sg_heap s i = Some x" for i x
    using changes_okD(3) [OF c(1) that] idle that by (auto simp: intent_ok_def current_intent_def)
  with c show ?thesis by (auto simp: intents_ok_def changes_ok_def)
qed

lemma apply_phase_fields:
  "it_change (apply_phase d r n x) = it_change x" "it_confirmed (apply_phase d r n x) = it_confirmed x"
  "it_terminated (apply_phase d r n x) = it_terminated x" "it_timer (apply_phase d r n x) = it_timer x"
  "it_phase (apply_phase d r n x) \<in> {QueuedIntent, DeferredIntent, PendingIntent}"
  by (simp_all add: apply_phase_def Let_def)

text \<open>\<open>intents_ok\<close> with the running application already over.\<close>

lemma applied_ok:
  assumes ok: "intents_ok s" and d: "sg_applying s = Some d" and x: "sg_heap s (dc_intent d) = Some x"
    and cur: "current_intent s (dc_intent d) x" "intent_pending x"
  shows "intents_ok ((set_intent (dc_intent d) (apply_phase d r n x) s)\<lparr>sg_applying := None\<rparr>)" (is "intents_ok ?s")
proof -
  let ?y = "apply_phase d r n x"
  from ok have c: "changes_ok s" "wf_jmap (sg_intents s)" by (simp_all add: intents_ok_def)
  note f = apply_phase_fields [of d r n x]
  have "changes_ok ?s"
  proof (rule changes_okI)
    show "\<exists>z. sg_heap ?s j = Some z \<and> intent_setting z = k" if "jget (sg_intents ?s) k = Some j" for k j
      using changes_okD(1) [OF c(1), of k j] that x f(1) by (cases "j = dc_intent d") auto
    show "j < sg_next ?s \<and> intent_ok ?s j z" if z: "sg_heap ?s j = Some z" for j z
    proof (cases "j = dc_intent d")
      case True
      with z have "z = ?y" by simp
      with True changes_okD(2,3) [OF c(1) x] cur f show ?thesis
        by (auto simp: intent_ok_def current_intent_def intent_pending_def)
    next
      case False
      with z have "sg_heap s j = Some z" by simp
      from changes_okD(2,3) [OF c(1) this] d False show ?thesis by (auto simp: intent_ok_def current_intent_def)
    qed
  qed simp
  with c(2) show ?thesis by (simp add: intents_ok_def)
qed

lemma confirm_override: "confirm i (s\<lparr>sg_applying := a\<rparr>) = (fst (confirm i s), (snd (confirm i s))\<lparr>sg_applying := a\<rparr>)"
  by (simp add: confirm_def confirmable_def current_intent_def set_intent_def split: option.split)

lemma publish_override: "publish (s\<lparr>sg_applying := a\<rparr>) = (publish s)\<lparr>sg_applying := a\<rparr>"
  by (simp add: publish_def listed_intents_def)

lemma readback_override: "readback_start (s\<lparr>sg_applying := a\<rparr>) = (readback_start s)\<lparr>sg_applying := a\<rparr>"
  by (simp add: readback_start_def)

lemma drain_applied_mid:
  assumes ok: "intents_ok s" and Some: "sg_applying s = Some d"
  shows "\<exists>t. drain_applied p r s = drain_start p t \<and> intents_ok t \<and> keeps_ends s t"
proof -
  define i where "i = dc_intent d"
  from ok have c: "changes_ok s" by (simp add: intents_ok_def)
  from changes_okD(4) [OF c Some] obtain x where x: "sg_heap s i = Some x" by (auto simp: i_def)
  define s1 where "s1 = (if current_intent s i x \<and> intent_pending x then set_intent i (apply_phase d r (sg_nativeRevision s) x) s else s)"
  define s3 where "s3 = (if fst (confirm i s1) then publish (snd (confirm i s1)) else snd (confirm i s1))"
  define s4 where "s4 = (if sg_closed s3 then s3 else readback_start s3)"
  have res: "drain_applied p r s = drain_start p (s4\<lparr>sg_applying := None\<rparr>)"
    using Some x by (simp add: drain_applied_def Let_def i_def s1_def s3_def s4_def drain_end_def case_prod_beta cong: if_cong)
  have "intents_ok (s1\<lparr>sg_applying := None\<rparr>)"
  proof (cases "current_intent s i x \<and> intent_pending x")
    case True
    then show ?thesis using applied_ok [OF ok Some x [unfolded i_def]] by (simp add: s1_def i_def)
  next
    case False
    then show ?thesis using x Some by (auto simp: s1_def i_def intro: not_applying_ok [OF ok])
  qed
  from intents_ok_confirm [OF this, of i] have "intents_ok ((snd (confirm i s1))\<lparr>sg_applying := None\<rparr>)"
    by (simp add: confirm_override)
  from this intents_ok_frame(1) [OF this] have "intents_ok (s3\<lparr>sg_applying := None\<rparr>)"
    by (simp add: s3_def publish_override)
  from this intents_ok_frame(2) [OF this] have "intents_ok (s4\<lparr>sg_applying := None\<rparr>)"
    by (simp add: s4_def readback_override)
  moreover have "keeps_ends s s1" using x by (auto simp: s1_def keeps_ends_def)
  moreover have "keeps_ends s1 (snd (confirm i s1))" by (rule keeps_ends_confirm)
  moreover have "keeps_ends (snd (confirm i s1)) (s4\<lparr>sg_applying := None\<rparr>)"
    by (rule keeps_ends_heap) (simp add: s3_def s4_def)
  ultimately have "keeps_ends s (s4\<lparr>sg_applying := None\<rparr>)" by (meson keeps_ends_trans)
  with res \<open>intents_ok (s4\<lparr>sg_applying := None\<rparr>)\<close> show ?thesis by blast
qed

lemma drain_applied_ok:
  assumes ok: "intents_ok s"
  shows "intents_ok (drain_applied p r s)"
proof (cases "sg_applying s")
  case None
  with ok show ?thesis by (simp add: drain_applied_def)
next
  case (Some d)
  from drain_applied_mid [OF ok Some, of p r] show ?thesis by (auto intro: drain_start_ok)
qed


lemma stopped_ok:
  assumes ok: "intents_ok s" and x: "sg_heap s i = Some x" and y: "intent_setting y = intent_setting x"
    and conf: "it_confirmed x = 0" "it_confirmed y = 0" and over: "\<not> (current_intent s i y \<and> intent_pending y)"
    and phase: "it_phase y = it_phase x \<or> it_phase y = SettledIntent"
  shows "intents_ok (set_intent i y s)"
  using stop_intent_ok [OF _ x y conf over phase] ok by (simp add: intents_ok_def)

lemma set_intent_twice: "set_intent i y (set_intent i x s) = set_intent i y s"
  by (simp add: set_intent_def)

lemma drain_failed_mid:
  assumes ok: "intents_ok s" and Some: "sg_applying s = Some d"
  shows "\<exists>t. drain_failed p e s = drain_start p t \<and> intents_ok t \<and> keeps_ends s t"
proof -
  define i where "i = dc_intent d"
  from ok have c: "changes_ok s" by (simp add: intents_ok_def)
  from changes_okD(4) [OF c Some] obtain x where x: "sg_heap s i = Some x" "it_confirmed x = 0" by (auto simp: i_def)
  define x1 where "x1 = terminate_intent x"
  define y where "y = x1\<lparr>it_timer := False, it_phase := SettledIntent,
                               it_change := (it_change x1)\<lparr>ch_status := ChangeFailed, ch_message := Some (failure_message e),
                                 ch_code := (if err_code e \<noteq> [] then Some (err_code e) else ch_code (it_change x1))\<rparr>\<rparr>"
  define s2 where "s2 = (if current_intent s i x \<and> intent_pending x then publish (set_intent i y s) else set_intent i x1 s)"
  have same: "current_intent (set_intent i x1 s) i x1 = current_intent s i x" "intent_pending x1 = intent_pending x"
    by (simp_all add: current_intent_def x1_def terminate_intent_def intent_pending_def)
  have res: "drain_failed p e s = drain_start p ((if sg_closed s2 then s2 else readback_start s2)\<lparr>sg_applying := None\<rparr>)"
    using Some x(1) same
    by (simp add: drain_failed_def Let_def i_def [symmetric] change_intent_def x1_def [symmetric] y_def [symmetric] s2_def drain_end_def
        set_intent_twice cong: if_cong)
  have s2_ok: "intents_ok s2"
  proof (cases "current_intent s i x \<and> intent_pending x")
    case True
    have "intents_ok (set_intent i y s)"
      by (rule stopped_ok [OF ok x(1) _ x(2)])
        (use x(2) in \<open>simp_all add: y_def x1_def terminate_intent_def intent_pending_def\<close>)
    with True show ?thesis by (simp add: s2_def intents_ok_frame)
  next
    case False
    have "intents_ok (set_intent i x1 s)"
      by (rule stopped_ok [OF ok x(1) _ x(2)])
        (use x(2) False same in \<open>simp_all add: x1_def terminate_intent_def current_intent_def intent_pending_def\<close>)
    with False show ?thesis by (auto simp: s2_def)
  qed
  have s2: "sg_applying s2 = Some d" "sg_intents s2 = sg_intents s" "sg_closed s2 = sg_closed s"
    "sg_heap s2 i = Some (if current_intent s i x \<and> intent_pending x then y else x1)"
    by (simp_all add: s2_def Some)
  have "intents_ok (s2\<lparr>sg_applying := None\<rparr>)"
    by (rule not_applying_ok [OF s2_ok])
      (use s2 in \<open>auto simp: i_def [symmetric] y_def x1_def terminate_intent_def current_intent_def intent_pending_def split: if_splits\<close>)
  from this intents_ok_frame(2) [OF this] have "intents_ok ((if sg_closed s2 then s2 else readback_start s2)\<lparr>sg_applying := None\<rparr>)"
    by (simp add: readback_override)
  moreover have "keeps_ends s ((if sg_closed s2 then s2 else readback_start s2)\<lparr>sg_applying := None\<rparr>)"
    using x(1) by (auto simp: s2_def keeps_ends_def x1_def terminate_intent_def same_end_def)
  ultimately show ?thesis using res by blast
qed

lemma drain_failed_ok:
  assumes ok: "intents_ok s"
  shows "intents_ok (drain_failed p e s)"
proof (cases "sg_applying s")
  case None
  with ok show ?thesis by (simp add: drain_failed_def)
next
  case (Some d)
  from drain_failed_mid [OF ok Some, of p e] show ?thesis by (auto intro: drain_start_ok)
qed


lemma expire_ok:
  assumes ok: "intents_ok s"
  shows "intents_ok (expire_intent i s)"
proof (cases "sg_heap s i")
  case None
  with ok show ?thesis by (simp add: expire_intent_def)
next
  case (Some x)
  from ok have c: "changes_ok s" by (simp add: intents_ok_def)
  show ?thesis
  proof (cases "it_timer x")
    case False
    with Some ok show ?thesis by (simp add: expire_intent_def)
  next
    case True
    let ?y = "x\<lparr>it_timer := False\<rparr>"
    let ?z = "terminate_intent (?y\<lparr>it_phase := SettledIntent,
                 it_change := (it_change ?y)\<lparr>ch_status := ChangeTimedOut, ch_message := Some timeout_message\<rparr>\<rparr>)"
    show ?thesis
    proof (cases "current_intent s i x \<and> intent_pending x")
      case live: True
      with current_unconfirmed [OF c Some] have conf: "it_confirmed x = 0" by (simp add: current_intent_def)
      have "intents_ok (set_intent i ?z s)"
        by (rule stopped_ok [OF ok Some _ conf]) (use conf in \<open>simp_all add: terminate_intent_def intent_pending_def\<close>)
      with live Some True show ?thesis
        by (simp add: expire_intent_def Let_def set_intent_twice intents_ok_frame current_intent_def intent_pending_def)
    next
      case over: False
      have "changes_ok (set_intent i ?y s)"
      proof (rule set_intent_ok [OF c Some])
        show "intent_ok s i ?y"
          using changes_okD(3) [OF c Some] over by (auto simp: intent_ok_def current_intent_def intent_pending_def)
        show "it_confirmed ?y = 0 \<and> it_phase ?y \<in> {ApplyingIntent, SettledIntent}" if "sg_applying s = Some d" "dc_intent d = i" for d
          using changes_okD(4) [OF c that(1)] that(2) Some by auto
      qed simp
      with ok have "intents_ok (set_intent i ?y s)" by (simp add: intents_ok_def)
      with over Some True show ?thesis
        by (auto simp: expire_intent_def Let_def current_intent_def intent_pending_def)
    qed
  qed
qed

lemma close_fold_ok:
  "intents_ok s \<Longrightarrow> sg_closed s \<Longrightarrow> (\<And>i x. i \<in> set is \<Longrightarrow> sg_heap s i = Some x \<Longrightarrow> it_confirmed x = 0) \<Longrightarrow>
   intents_ok (foldl (\<lambda>s i. change_intent i (\<lambda>x. terminate_intent (x\<lparr>it_timer := False\<rparr>)) s) s is)"
proof (induction "is" arbitrary: s)
  case (Cons a "is")
  let ?s = "change_intent a (\<lambda>x. terminate_intent (x\<lparr>it_timer := False\<rparr>)) s"
  have "intents_ok ?s"
  proof (cases "sg_heap s a")
    case None
    with Cons.prems(1) show ?thesis by (simp add: change_intent_def)
  next
    case (Some x)
    have "intents_ok (set_intent a (terminate_intent (x\<lparr>it_timer := False\<rparr>)) s)"
      using Cons.prems(2,3) Some
      by (intro stopped_ok [OF Cons.prems(1) Some]) (auto simp: terminate_intent_def current_intent_def)
    with Some show ?thesis by (simp add: change_intent_def)
  qed
  moreover have "sg_closed ?s" using Cons.prems(2) by (simp add: change_intent_def split: option.split)
  moreover have "it_confirmed x = 0" if "i \<in> set is" "sg_heap ?s i = Some x" for i x
    using that Cons.prems(3) [of i] Cons.prems(3) [of a]
    by (auto simp: change_intent_def terminate_intent_def split: option.splits if_splits)
  ultimately show ?case using Cons.IH [of ?s] by simp
qed simp

lemma close_ok:
  assumes ok: "intents_ok s"
  shows "intents_ok (close_changes s)"
proof -
  from ok have c: "changes_ok s" "wf_jmap (sg_intents s)" by (simp_all add: intents_ok_def)
  have "intent_ok (s\<lparr>sg_closed := True, sg_poll := False\<rparr>) i x" if "sg_heap s i = Some x" for i x
    using changes_okD(3) [OF c(1) that] by (auto simp: intent_ok_def current_intent_def)
  with c have "intents_ok (s\<lparr>sg_closed := True, sg_poll := False\<rparr>)" by (auto simp: intents_ok_def changes_ok_def)
  moreover have "it_confirmed x = 0" if "i \<in> set (jvalues (sg_intents s))" "sg_heap s i = Some x" for i x
  proof -
    from that(1) obtain k where "(k, i) \<in> set (sg_intents s)" by auto
    from jget_mem [OF c(2) this] have k: "jget (sg_intents s) k = Some i" .
    with changes_okD(1) [OF c(1) k] that(2) show ?thesis by (intro current_unconfirmed [OF c(1) that(2)]) auto
  qed
  ultimately show ?thesis unfolding close_changes_def by (intro close_fold_ok) auto
qed

lemma retire_fields:
  "sg_intents (retire_previous k s) = sg_intents s" "sg_next (retire_previous k s) = sg_next s"
  "sg_applying (retire_previous k s) = sg_applying s" "sg_closed (retire_previous k s) = sg_closed s"
  "sg_runtime (retire_previous k s) = sg_runtime s"
  "sg_heap (retire_previous k s) j =
     (if jget (sg_intents s) k = Some j
      then map_option (\<lambda>x. terminate_intent (x\<lparr>it_timer := False\<rparr>)) (sg_heap s j) else sg_heap s j)"
  by (auto simp: retire_previous_def change_intent_def split: option.split)

text \<open>The registration of a new intent in the place of the previous one.\<close>

definition register_intent :: "setting_intent \<Rightarrow> setting_changes \<Rightarrow> setting_changes" where
  "register_intent x s =
     (set_intent (sg_next s) x (retire_previous (intent_setting x) s))
       \<lparr>sg_next := Suc (sg_next s), sg_intents := jset (sg_intents s) (intent_setting x) (sg_next s)\<rparr>"

lemma register_ok:
  assumes ok: "intents_ok s"
    and x: "it_confirmed x = 0" "it_terminated x = 0" "it_timer x" "it_phase x = QueuedIntent"
  shows "intents_ok (register_intent x s)" (is "intents_ok ?s")
proof -
  from ok have c: "changes_ok s" "wf_jmap (sg_intents s)" by (simp_all add: intents_ok_def)
  let ?k = "intent_setting x"
  let ?n = "sg_next s"
  have fresh: "sg_heap s ?n = None"
  proof (cases "sg_heap s ?n")
    case (Some y)
    from changes_okD(2) [OF c(1) this] show ?thesis by simp
  qed simp
  have heap: "sg_heap ?s j = (if j = ?n then Some x else if jget (sg_intents s) ?k = Some j
      then map_option (\<lambda>x. terminate_intent (x\<lparr>it_timer := False\<rparr>)) (sg_heap s j) else sg_heap s j)" for j
    by (simp add: register_intent_def retire_fields)
  have old: "\<exists>z. sg_heap s j = Some z \<and> intent_setting z = intent_setting y \<and> it_confirmed z = it_confirmed y \<and> it_phase z = it_phase y"
    if "sg_heap ?s j = Some y" "j \<noteq> ?n" for j y
    using that by (auto simp: heap terminate_intent_def split: if_splits)
  have "changes_ok ?s"
  proof (rule changes_okI)
    show "\<exists>z. sg_heap ?s j = Some z \<and> intent_setting z = k" if "jget (sg_intents ?s) k = Some j" for k j
    proof (cases "k = ?k")
      case True
      with that show ?thesis by (simp add: register_intent_def)
    next
      case False
      with that have kj: "jget (sg_intents s) k = Some j" by (simp add: register_intent_def)
      from changes_okD(1) [OF c(1) kj] obtain z where z: "sg_heap s j = Some z" "intent_setting z = k" by blast
      moreover have "j \<noteq> ?n" using z fresh by auto
      moreover have "jget (sg_intents s) ?k \<noteq> Some j"
        using changes_okD(1) [OF c(1), of ?k j] z False by auto
      ultimately show ?thesis by (simp add: heap)
    qed
    show "j < sg_next ?s \<and> intent_ok ?s j y" if y: "sg_heap ?s j = Some y" for j y
    proof (cases "j = ?n")
      case True
      with y x show ?thesis by (simp add: heap intent_ok_def) (simp add: register_intent_def)
    next
      case False
      from old [OF y False] obtain z where z: "sg_heap s j = Some z" "intent_setting z = intent_setting y" by blast
      from changes_okD(2,3) [OF c(1) z(1)] have zo: "j < ?n" "intent_ok s j z" by simp_all
      have fields: "jget (sg_intents ?s) k = (if k = ?k then Some ?n else jget (sg_intents s) k)"
        "sg_closed ?s = sg_closed s" "sg_applying ?s = sg_applying s" "sg_next ?s = Suc ?n" for k
        by (simp_all add: register_intent_def retire_fields)
      show ?thesis
      proof (cases "jget (sg_intents s) ?k = Some j")
        case True
        from changes_okD(1) [OF c(1) True] z have "intent_setting z = ?k" by auto
        moreover from current_unconfirmed [OF c(1) z(1)] True this have "it_confirmed z = 0" by simp
        moreover from y False True z have "y = terminate_intent (z\<lparr>it_timer := False\<rparr>)" by (simp add: heap)
        ultimately show ?thesis using False zo by (simp add: intent_ok_def current_intent_def fields terminate_intent_def)
      next
        case notk: False
        with y False z have "y = z" by (simp add: heap)
        with zo show ?thesis by (auto simp: intent_ok_def current_intent_def fields)
      qed
    qed
    show "\<exists>z. sg_heap ?s (dc_intent d) = Some z \<and> it_confirmed z = 0 \<and> it_phase z \<in> {ApplyingIntent, SettledIntent}"
      if "sg_applying ?s = Some d" for d
    proof -
      from that have "sg_applying s = Some d" by (simp add: register_intent_def retire_fields)
      from changes_okD(4) [OF c(1) this] obtain z where z: "sg_heap s (dc_intent d) = Some z" "it_confirmed z = 0"
        "it_phase z \<in> {ApplyingIntent, SettledIntent}" by blast
      with fresh have "dc_intent d \<noteq> ?n" by auto
      with z show ?thesis by (auto simp: heap terminate_intent_def)
    qed
  qed
  moreover have "wf_jmap (sg_intents ?s)" using c(2) by (simp add: register_intent_def)
  ultimately show ?thesis by (simp add: intents_ok_def)
qed

lemma withdraw_ok:
  assumes ok: "intents_ok s" and x: "sg_heap s i = Some x" "jget (sg_intents s) (intent_setting x) = Some i"
    and y: "intent_setting y = intent_setting x" "it_confirmed y = 0" "it_phase y = it_phase x"
  shows "intents_ok ((set_intent i y s)\<lparr>sg_intents := jdelete (sg_intents s) (intent_setting x)\<rparr>)" (is "intents_ok ?s")
proof -
  from ok have c: "changes_ok s" "wf_jmap (sg_intents s)" by (simp_all add: intents_ok_def)
  have "changes_ok ?s"
  proof (rule changes_okI)
    show "\<exists>z. sg_heap ?s j = Some z \<and> intent_setting z = k" if "jget (sg_intents ?s) k = Some j" for k j
      using changes_okD(1) [OF c(1), of k j] that x(1) y(1) by (cases "j = i") (auto split: if_splits)
    show "j < sg_next ?s \<and> intent_ok ?s j z" if z: "sg_heap ?s j = Some z" for j z
    proof (cases "j = i")
      case True
      with z have "z = y" by simp
      with True y changes_okD(2) [OF c(1) x(1)] show ?thesis by (simp add: intent_ok_def current_intent_def)
    next
      case False
      with z have "sg_heap s j = Some z" by simp
      from changes_okD(2,3) [OF c(1) this] show ?thesis by (auto simp: intent_ok_def current_intent_def)
    qed
    show "\<exists>z. sg_heap ?s (dc_intent d) = Some z \<and> it_confirmed z = 0 \<and> it_phase z \<in> {ApplyingIntent, SettledIntent}"
      if "sg_applying ?s = Some d" for d
      using changes_okD(4) [OF c(1), of d] that x(1) y by (cases "dc_intent d = i") auto
  qed
  with c(2) show ?thesis by (simp add: intents_ok_def)
qed

definition valid_clock :: "int \<Rightarrow> bool" where
  "valid_clock now \<longleftrightarrow> valid_time now \<and> valid_time (now + setting_deadline_ms)"

text \<open>\<open>accept\<close> when the clock is valid, as a registration.\<close>

definition accepted_intent :: "session_setting \<Rightarrow> string \<Rightarrow> string \<Rightarrow> int \<Rightarrow> setting_changes \<Rightarrow> setting_intent" where
  "accepted_intent setting target request_id now s =
     \<lparr>it_change = make_change setting target request_id
        (or_else (reported_value (sg_runtime s) (ss_id setting))
           (case (case jget (sg_intents s) (ss_id setting) of None \<Rightarrow> None | Some i \<Rightarrow> sg_heap s i) of
              None \<Rightarrow> None | Some x \<Rightarrow> ch_confirmedValue (it_change x)))
        (iso_text now) (iso_text (now + setting_deadline_ms)),
      it_phase = QueuedIntent, it_deferredRuntime = None, it_observedDifferentValue = False,
      it_applied = False, it_timer = True, it_confirmed = 0, it_terminated = 0\<rparr>"

lemma accept_eq:
  assumes "\<not> sg_closed s" "valid_clock now"
  shows "snd (accept_change p setting target request_id now refused s) =
    (let x = accepted_intent setting target request_id now s; s2 = register_intent x s in
     case refused of
       Some e \<Rightarrow> (set_intent (sg_next s) (terminate_intent (x\<lparr>it_timer := False\<rparr>)) s2)
                   \<lparr>sg_intents := jdelete (sg_intents s2) (ss_id setting)\<rparr>
     | None \<Rightarrow> schedule_readback (drain_start p (publish s2)))"
  using assms
  by (simp add: accept_change_def Let_def valid_clock_def accepted_intent_def register_intent_def make_change_def retire_fields
      split: option.split)

lemma accept_ok:
  assumes ok: "intents_ok s" and clock: "valid_clock now"
  shows "intents_ok (snd (accept_change p setting target request_id now refused s))"
proof (cases "sg_closed s")
  case True
  with ok show ?thesis by (simp add: accept_change_def)
next
  case False
  let ?x = "accepted_intent setting target request_id now s"
  have reg: "intents_ok (register_intent ?x s)"
    by (rule register_ok [OF ok]) (simp_all add: accepted_intent_def)
  have id: "intent_setting ?x = ss_id setting" by (simp add: accepted_intent_def make_change_def)
  have at_next: "sg_heap (register_intent ?x s) (sg_next s) = Some ?x"
    "jget (sg_intents (register_intent ?x s)) (intent_setting ?x) = Some (sg_next s)"
    by (simp_all add: register_intent_def)
  have w: "intents_ok ((set_intent (sg_next s) (terminate_intent (?x\<lparr>it_timer := False\<rparr>)) (register_intent ?x s))
      \<lparr>sg_intents := jdelete (sg_intents (register_intent ?x s)) (intent_setting ?x)\<rparr>)"
    by (rule withdraw_ok [OF reg at_next]) (simp_all add: terminate_intent_def accepted_intent_def)
  have d: "intents_ok (schedule_readback (drain_start p (publish (register_intent ?x s))))"
    by (intro intents_ok_frame drain_start_ok reg)
  show ?thesis using w d by (simp add: accept_eq [OF False clock] Let_def id split: option.split)
qed

lemma note_value_fields:
  "intent_setting (note_value rt k x) = intent_setting x" "it_confirmed (note_value rt k x) = it_confirmed x"
  "it_terminated (note_value rt k x) = it_terminated x" "it_timer (note_value rt k x) = it_timer x"
  "it_phase (note_value rt k x) = it_phase x" "intent_pending (note_value rt k x) = intent_pending x"
  "ch_targetValue (it_change (note_value rt k x)) = ch_targetValue (it_change x)"
  by (simp_all add: note_value_def Let_def intent_pending_def split: option.split)

lemma observe_intent_ok:
  assumes ok: "intents_ok s"
  shows "intents_ok (observe_intent native fp s entry)"
proof (cases "sg_heap s (snd entry)")
  case None
  with ok show ?thesis by (simp add: observe_intent_def change_intent_def)
next
  case (Some x)
  let ?i = "snd entry"
  let ?y = "note_value (sg_runtime s) (fst entry) x"
  let ?s = "set_intent ?i ?y s"
  from ok have c: "changes_ok s" by (simp add: intents_ok_def)
  note f = note_value_fields [of "sg_runtime s" "fst entry" x]
  have "changes_ok ?s"
  proof (rule set_intent_ok [OF c Some f(1)])
    show "intent_ok s ?i ?y" using changes_okD(3) [OF c Some] by (simp add: intent_ok_def current_intent_def f)
    show "it_confirmed ?y = 0 \<and> it_phase ?y \<in> {ApplyingIntent, SettledIntent}" if "sg_applying s = Some d" "dc_intent d = ?i" for d
      using changes_okD(4) [OF c that(1)] that(2) Some by (simp add: f)
  qed
  with ok have s: "intents_ok ?s" by (simp add: intents_ok_def)
  then have cs: "changes_ok ?s" by (simp add: intents_ok_def)
  have y: "sg_heap ?s ?i = Some ?y" by simp
  have requeue: "intents_ok (set_intent ?i (?y\<lparr>it_phase := QueuedIntent\<rparr>) ?s)" if deferred: "it_phase ?y = DeferredIntent"
  proof -
    have "changes_ok (set_intent ?i (?y\<lparr>it_phase := QueuedIntent\<rparr>) ?s)"
    proof (rule set_intent_ok [OF cs y])
      show "intent_ok ?s ?i (?y\<lparr>it_phase := QueuedIntent\<rparr>)"
        using changes_okD(3) [OF cs y] by (auto simp: intent_ok_def current_intent_def intent_pending_def)
      show "it_confirmed (?y\<lparr>it_phase := QueuedIntent\<rparr>) = 0 \<and> it_phase (?y\<lparr>it_phase := QueuedIntent\<rparr>) \<in> {ApplyingIntent, SettledIntent}"
        if "sg_applying ?s = Some d" "dc_intent d = ?i" for d
        using changes_okD(4) [OF cs that(1)] that(2) y deferred by auto
    qed simp
    with s show ?thesis by (simp add: intents_ok_def)
  qed
  have unconfirmed: "confirm ?i ?s = (False, ?s)" if "\<not> fst (confirm ?i ?s)"
    using that by (auto simp: confirm_def split: option.splits if_splits)
  show ?thesis
  proof (cases "intent_pending x \<and> \<not> fst (confirm ?i ?s)")
    case True
    with unconfirmed have u: "confirm ?i ?s = (False, ?s)" by blast
    from True Some s requeue u show ?thesis
      by (simp add: observe_intent_def change_intent_def Let_def f del: set_intent_fields(7)) (simp add: f)
  next
    case False
    with Some s intents_ok_confirm [OF s, of ?i] show ?thesis
      by (auto simp: observe_intent_def change_intent_def Let_def f case_prod_beta)
  qed
qed

lemma observe_fold_ok: "intents_ok s \<Longrightarrow> intents_ok (foldl (observe_intent native fp) s es)"
  by (induction es arbitrary: s) (simp_all add: observe_intent_ok)

lemma observe_ok:
  assumes ok: "intents_ok s"
  shows "intents_ok (observe p rt native s)"
proof -
  have "intents_ok (s\<lparr>sg_runtime := rt, sg_nativeRevision := n\<rparr>)" "intents_ok (s\<lparr>sg_runtime := rt\<rparr>)" for n
    using ok by (auto simp: intents_ok_def intro: changes_ok_fields)
  with ok show ?thesis by (auto simp: observe_def Let_def intro!: drain_start_ok intents_ok_frame(1) observe_fold_ok)
qed

text \<open>The clock of every acceptance is a valid date.\<close>

fun clock_ok :: "change_event \<Rightarrow> bool" where
  "clock_ok (AcceptChange setting target request_id now refused) = valid_clock now"
| "clock_ok _ = True"

lemma change_step_ok: "intents_ok s \<Longrightarrow> clock_ok ev \<Longrightarrow> intents_ok (change_step p s ev)"
  by (cases ev) (simp_all add: accept_ok observe_ok drain_applied_ok drain_failed_ok expire_ok intents_ok_frame close_ok)

interpretation change_machine: machine "\<lambda>_. True" "change_step print_runtime"
  by unfold_locales simp

lemma changes_reachable_ok:
  assumes "list_all clock_ok events"
  shows "intents_ok (foldl (change_step p) (new_changes rt) events)"
proof (rule change_machine.run_keeps [where ok = clock_ok])
  show "intents_ok (new_changes rt)" by (simp add: intents_ok_def new_changes_ok) (simp add: new_changes_def)
qed (use assms change_step_ok in auto)


section \<open>Settled changes\<close>

lemma keeps_ends_drain_start: "intents_ok s \<Longrightarrow> keeps_ends s (drain_start p s)"
proof (cases "sg_closed s \<or> sg_applying s \<noteq> None \<or> find (\<lambda>ix. it_phase (snd ix) = QueuedIntent \<and> intent_pending (snd ix)) (listed_intents s) = None")
  case True
  then show ?thesis by (auto simp: drain_start_def intro: keeps_ends_heap)
next
  case False
  assume ok: "intents_ok s"
  from False obtain i x where f: "find (\<lambda>ix. it_phase (snd ix) = QueuedIntent \<and> intent_pending (snd ix)) (listed_intents s) = Some (i, x)"
    and idle: "\<not> sg_closed s" "sg_applying s = None" by auto
  from ok have c: "changes_ok s" "wf_jmap (sg_intents s)" by (simp_all add: intents_ok_def)
  from find_listed [OF f c(1)] c(2) have "sg_heap s i = Some x" "intent_pending x" by simp_all
  with f idle show ?thesis
    by (auto simp: drain_start_def Let_def keeps_ends_def)
qed

lemma keeps_ends_observe_intent: "keeps_ends s (observe_intent native fp s e)"
proof -
  let ?i = "snd e"
  let ?s = "change_intent ?i (note_value (sg_runtime s) (fst e)) s"
  have one: "keeps_ends s ?s"
    by (rule keeps_ends_change) (auto simp: same_end_def note_value_def Let_def split: option.split)
  have two: "keeps_ends ?s (set_intent ?i (x\<lparr>it_phase := QueuedIntent\<rparr>) (snd (confirm ?i ?s)))"
    if x: "sg_heap ?s ?i = Some x" "intent_pending x" for x
    using that keeps_ends_confirm [of ?s ?i] by (auto simp: keeps_ends_def)
  show ?thesis
    using one keeps_ends_trans [OF one two] keeps_ends_trans [OF one keeps_ends_confirm [of ?s ?i]]
    by (auto simp: observe_intent_def Let_def case_prod_beta split: option.split)
qed

lemma keeps_ends_fold: "(\<And>s e. keeps_ends s (f s e)) \<Longrightarrow> keeps_ends s (foldl f s es)"
proof (induction es arbitrary: s)
  case Nil
  show ?case by (simp add: keeps_ends_heap)
next
  case (Cons e es)
  show ?case using keeps_ends_trans [OF Cons.prems [of s e] Cons.IH [OF Cons.prems]] by simp
qed

lemma keeps_ends_register:
  assumes "intents_ok s"
  shows "keeps_ends s (register_intent x s)"
proof -
  have "i \<noteq> sg_next s" if "sg_heap s i = Some y" for i y
    using changes_okD(2) [of s i y] assms that by (auto simp: intents_ok_def)
  then show ?thesis
    by (auto simp: keeps_ends_def register_intent_def retire_fields terminate_intent_def same_end_def)
qed

lemma keeps_ends_step:
  assumes ok: "intents_ok s" and clock: "clock_ok ev"
  shows "keeps_ends s (change_step p s ev)"
proof (cases ev)
  case (AcceptChange setting target request_id now refused)
  show ?thesis
  proof (cases "sg_closed s")
    case True
    with AcceptChange show ?thesis by (simp add: accept_change_def keeps_ends_heap)
  next
    case False
    let ?x = "accepted_intent setting target request_id now s"
    have r: "keeps_ends s (register_intent ?x s)" by (rule keeps_ends_register [OF ok])
    have reg: "intents_ok (register_intent ?x s)"
      by (rule register_ok [OF ok]) (simp_all add: accepted_intent_def)
    have a: "keeps_ends (register_intent ?x s) (schedule_readback (drain_start p (publish (register_intent ?x s))))"
      using keeps_ends_drain_start [OF intents_ok_frame(1) [OF reg], of p] by (simp add: keeps_ends_def)
    have "intent_pending ?x" by (simp add: accepted_intent_def make_change_def intent_pending_def)
    then have b: "keeps_ends (register_intent ?x s) ((set_intent (sg_next s) (terminate_intent (?x\<lparr>it_timer := False\<rparr>)) (register_intent ?x s))
        \<lparr>sg_intents := m\<rparr>)" for m
      by (auto simp: keeps_ends_def register_intent_def)
    from clock AcceptChange have "valid_clock now" by simp
    from accept_eq [OF False this] keeps_ends_trans [OF r a] keeps_ends_trans [OF r b] AcceptChange show ?thesis
      by (simp add: Let_def split: option.split)
  qed
next
  case (Observe rt native)
  let ?s = "s\<lparr>sg_runtime := rt, sg_nativeRevision := (if native then Suc (sg_nativeRevision s) else sg_nativeRevision s)\<rparr>"
  have start: "intents_ok ?s" using ok by (auto simp: intents_ok_def intro: changes_ok_fields)
  let ?t = "foldl (observe_intent native (p rt)) ?s (sg_intents s)"
  have "keeps_ends s ?s" by (rule keeps_ends_heap) simp
  moreover have "keeps_ends ?s ?t" by (rule keeps_ends_fold [OF keeps_ends_observe_intent])
  moreover have "keeps_ends ?t (publish ?t)" by (rule keeps_ends_heap) simp
  moreover have "keeps_ends (publish ?t) (drain_start p (publish ?t))"
    by (intro keeps_ends_drain_start intents_ok_frame(1) observe_fold_ok start)
  ultimately have "keeps_ends s (drain_start p (publish ?t))" by (meson keeps_ends_trans)
  moreover have "keeps_ends s s" by (rule keeps_ends_heap) simp
  moreover have "change_step p s ev = (if sg_closed s then s else drain_start p (publish ?t))"
    by (simp add: Observe observe_def Let_def)
  ultimately show ?thesis by (simp only: split: if_split) blast
next
  case (ApplyReturned r)
  show ?thesis
  proof (cases "sg_applying s")
    case None
    with ApplyReturned show ?thesis by (simp add: drain_applied_def keeps_ends_heap)
  next
    case (Some d)
    from drain_applied_mid [OF ok Some, of p r] obtain t where
      "drain_applied p r s = drain_start p t" "intents_ok t" "keeps_ends s t" by blast
    with keeps_ends_trans [OF this(3) keeps_ends_drain_start [OF this(2)]] show ?thesis by (simp add: ApplyReturned)
  qed
next
  case (ApplyThrew e)
  show ?thesis
  proof (cases "sg_applying s")
    case None
    with ApplyThrew show ?thesis by (simp add: drain_failed_def keeps_ends_heap)
  next
    case (Some d)
    from drain_failed_mid [OF ok Some, of p e] obtain t where
      "drain_failed p e s = drain_start p t" "intents_ok t" "keeps_ends s t" by blast
    with keeps_ends_trans [OF this(3) keeps_ends_drain_start [OF this(2)]] show ?thesis by (simp add: ApplyThrew)
  qed
next
  case (TimerExpires i)
  then show ?thesis
    by (auto simp: expire_intent_def Let_def keeps_ends_def intent_pending_def same_end_def split: option.split)
next
  case CloseChanges
  have "keeps_ends t (foldl (\<lambda>s i. change_intent i (\<lambda>x. terminate_intent (x\<lparr>it_timer := False\<rparr>)) s) t is)" for t "is"
    by (rule keeps_ends_fold [OF keeps_ends_change]) (simp add: terminate_intent_def same_end_def)
  moreover have "keeps_ends s (s\<lparr>sg_closed := True, sg_poll := False\<rparr>)" by (rule keeps_ends_heap) simp
  ultimately show ?thesis by (simp add: CloseChanges close_changes_def) (meson keeps_ends_trans)
qed (auto intro!: keeps_ends_heap simp: readback_end_def poll_fires_def)

text \<open>C30: When its deadline fires, a change that is still pending becomes timed out, is published as
  such with the last confirmed value, and its owner hears of the termination; and whatever happens
  later, a change that has failed or timed out keeps its status, message and code and is never
  confirmed.\<close>

theorem deadline_is_final:
  assumes "list_all clock_ok events" and "s = foldl (change_step p) (new_changes rt) events"
    and "sg_heap s i = Some x" "current_intent s i x" "intent_pending x"
    and "list_all clock_ok later"
  shows "\<exists>y z. sg_heap (expire_intent i s) i = Some y \<and> ch_status (it_change y) = ChangeTimedOut
      \<and> it_terminated y = 1 \<and> it_change y \<in> set (last (sg_published (expire_intent i s)))
      \<and> sg_heap (foldl (change_step p) (expire_intent i s) later) i = Some z \<and> same_end y z \<and> it_confirmed z = 0"
proof -
  from changes_reachable_ok [OF assms(1), of p rt] assms(2) have ok: "intents_ok s" by simp
  then have c: "changes_ok s" "wf_jmap (sg_intents s)" by (simp_all add: intents_ok_def)
  from changes_okD(3) [OF c(1) assms(3)] assms(4,5) have x: "it_confirmed x = 0" "it_terminated x = 0" "it_timer x"
    by (auto simp: intent_ok_def current_intent_def)
  define y where "y = terminate_intent ((x\<lparr>it_timer := False\<rparr>)\<lparr>it_phase := SettledIntent,
                 it_change := (it_change x)\<lparr>ch_status := ChangeTimedOut, ch_message := Some timeout_message\<rparr>\<rparr>)"
  have e: "expire_intent i s = readback_start (publish (set_intent i y s))"
    using assms(3-5) x(3) by (simp add: expire_intent_def Let_def set_intent_twice current_intent_def intent_pending_def y_def)
  have y: "ch_status (it_change y) = ChangeTimedOut" "it_terminated y = 1" "it_confirmed y = 0" "\<not> intent_pending y"
    using x by (simp_all add: y_def terminate_intent_def intent_pending_def)
  have heap: "sg_heap (expire_intent i s) i = Some y" by (simp add: e)
  from assms(4) have "i \<in> set (jvalues (sg_intents s))" and open_s: "\<not> sg_closed s"
    by (force simp: current_intent_def dest: map_of_SomeD)+
  then have "it_change y \<in> set (last (sg_published (expire_intent i s)))"
    by (force simp: e readback_start_def publish_def listed_intents_def)
  moreover have "\<exists>z. sg_heap (foldl (change_step p) t later) i = Some z \<and> same_end y z"
    if "intents_ok t" "sg_heap t i = Some y" "\<not> intent_pending y" for t y
    using that assms(6)
  proof (induction later arbitrary: t y)
    case (Cons ev later)
    from Cons.prems have clock: "clock_ok ev" "list_all clock_ok later" by simp_all
    from keeps_ends_step [OF Cons.prems(1) clock(1), of p] Cons.prems(2,3) obtain z where
      z: "sg_heap (change_step p t ev) i = Some z" "same_end y z" by (auto simp: keeps_ends_def)
    from Cons.IH [OF change_step_ok [OF Cons.prems(1) clock(1)] z(1) _ clock(2)] z(2) Cons.prems(3) same_end_pending [OF z(2)]
    show ?case using same_end_trans by auto
  qed simp
  from this [OF expire_ok [OF ok] heap y(4)] obtain z where
    "sg_heap (foldl (change_step p) (expire_intent i s) later) i = Some z" "same_end y z" by blast
  ultimately show ?thesis using heap y by (auto simp: same_end_def)
qed

section \<open>Confirmation follows the report\<close>

definition ready_to_confirm :: "nat \<Rightarrow> string \<Rightarrow> string \<Rightarrow> setting_changes \<Rightarrow> bool" where
  "ready_to_confirm i k target s \<longleftrightarrow>
     intents_ok s \<and> \<not> sg_closed s \<and> reported_value (sg_runtime s) k = Some target \<and> jget (sg_intents s) k = Some i
     \<and> (\<exists>x. sg_heap s i = Some x \<and> intent_pending x \<and> it_phase x = PendingIntent
          \<and> (it_applied x \<or> it_observedDifferentValue x) \<and> ch_targetValue (it_change x) = target \<and> intent_setting x = k)"

definition was_confirmed :: "nat \<Rightarrow> string \<Rightarrow> setting_changes \<Rightarrow> bool" where
  "was_confirmed i k s \<longleftrightarrow> jget (sg_intents s) k \<noteq> Some i \<and> (\<exists>y. sg_heap s i = Some y \<and> it_confirmed y = 1 \<and> it_terminated y = 0)"

lemma observe_intent_fields:
  "sg_closed (observe_intent native fp s e) = sg_closed s" "sg_runtime (observe_intent native fp s e) = sg_runtime s"
  by (simp_all add: observe_intent_def change_intent_def confirm_def Let_def split: option.split)

lemma observe_intent_other:
  assumes "snd e \<noteq> i"
  shows "sg_heap (observe_intent native fp s e) i = sg_heap s i"
    and "jget (sg_intents (observe_intent native fp s e)) k = Some i \<longleftrightarrow> jget (sg_intents s) k = Some i"
  using assms
  by (auto simp: observe_intent_def change_intent_def confirm_def confirmable_def current_intent_def Let_def split: option.split)

lemma ready_other: "ready_to_confirm i k target s \<Longrightarrow> snd e \<noteq> i \<Longrightarrow> ready_to_confirm i k target (observe_intent native fp s e)"
  by (simp add: ready_to_confirm_def observe_intent_ok observe_intent_fields observe_intent_other)

lemma confirmed_other: "was_confirmed i k s \<Longrightarrow> snd e \<noteq> i \<Longrightarrow> was_confirmed i k (observe_intent native fp s e)"
  by (simp add: was_confirmed_def observe_intent_other)

lemma ready_own:
  assumes r: "ready_to_confirm i k target s"
  shows "was_confirmed i k (observe_intent native fp s (k, i))"
proof -
  from r obtain x where x: "sg_heap s i = Some x" "intent_pending x" "it_phase x = PendingIntent"
    "it_applied x \<or> it_observedDifferentValue x" "ch_targetValue (it_change x) = target" "intent_setting x = k"
    by (auto simp: ready_to_confirm_def)
  from r have s: "\<not> sg_closed s" "reported_value (sg_runtime s) k = Some target" "jget (sg_intents s) k = Some i" "changes_ok s"
    by (simp_all add: ready_to_confirm_def intents_ok_def)
  let ?y = "note_value (sg_runtime s) k x"
  have y: "confirmable (set_intent i ?y s) i ?y"
    using x s by (auto simp: confirmable_def current_intent_def note_value_fields) (auto simp: note_value_def Let_def split: option.split)
  have "it_confirmed x = 0" "it_terminated x = 0"
    using changes_okD(3) [OF s(4) x(1)] s x by (auto simp: intent_ok_def current_intent_def)
  with x s y show ?thesis
    by (simp add: observe_intent_def change_intent_def confirm_def Let_def was_confirmed_def note_value_fields)
qed

lemma observe_fold_confirms:
  "ready_to_confirm i k target s \<Longrightarrow> (k, i) \<in> set es \<Longrightarrow> distinct (map fst es) \<Longrightarrow> (\<And>l j. (l, j) \<in> set es \<Longrightarrow> j = i \<Longrightarrow> l = k) \<Longrightarrow>
   was_confirmed i k (foldl (observe_intent native fp) s es)"
proof (induction es arbitrary: s)
  case (Cons e es)
  have rest: "was_confirmed i k t \<Longrightarrow> was_confirmed i k (foldl (observe_intent native fp) t xs)"
    if "\<forall>e \<in> set xs. snd e \<noteq> i" for t xs
    using that by (induction xs arbitrary: t) (simp_all add: confirmed_other)
  show ?case
  proof (cases "e = (k, i)")
    case True
    have "\<forall>e \<in> set es. snd e \<noteq> i"
    proof
      fix f assume f: "f \<in> set es"
      show "snd f \<noteq> i"
      proof
        assume "snd f = i"
        with f Cons.prems(4) [of "fst f" i] have "fst f = k" by (cases f) auto
        with f True Cons.prems(3) show False by force
      qed
    qed
    from rest [OF this ready_own [OF Cons.prems(1)]] True show ?thesis by simp
  next
    case False
    have "snd e \<noteq> i"
    proof
      assume "snd e = i"
      with Cons.prems(4) [of "fst e" "snd e"] have "fst e = k" by (cases e) simp
      with \<open>snd e = i\<close> False show False by (cases e) simp
    qed
    note r = ready_other [OF Cons.prems(1) this]
    have "was_confirmed i k (foldl (observe_intent native fp) (observe_intent native fp s e) es)"
    proof (rule Cons.IH [OF r])
      show "(k, i) \<in> set es" using Cons.prems(2) False by simp
      show "distinct (map fst es)" using Cons.prems(3) by simp
      show "l = k" if "(l, j) \<in> set es" "j = i" for l j
        by (rule Cons.prems(4) [of l j]) (use that in simp_all)
    qed
    then show ?thesis by simp
  qed
qed simp

text \<open>When the runtime reports the target value of a pending change that was applied (or whose
  value was seen to change), the change is confirmed exactly once and leaves the list; a change of
  another setting does not disturb it.\<close>

theorem reported_target_confirms:
  assumes "list_all clock_ok events" and "s = foldl (change_step p) (new_changes rt0) events"
    and "sg_heap s i = Some x" "current_intent s i x" "intent_pending x" "it_phase x = PendingIntent"
    and "it_applied x \<or> it_observedDifferentValue x"
    and "reported_value rt (intent_setting x) = Some (ch_targetValue (it_change x))"
  shows "\<exists>y. sg_heap (observe p rt native s) i = Some y \<and> it_confirmed y = 1 \<and> it_terminated y = 0
    \<and> jget (sg_intents (observe p rt native s)) (intent_setting x) \<noteq> Some i"
proof -
  from changes_reachable_ok [OF assms(1), of p rt0] assms(2) have ok: "intents_ok s" by simp
  then have c: "changes_ok s" "wf_jmap (sg_intents s)" by (simp_all add: intents_ok_def)
  define s1 where "s1 = s\<lparr>sg_runtime := rt, sg_nativeRevision := (if native then Suc (sg_nativeRevision s) else sg_nativeRevision s)\<rparr>"
  define t where "t = foldl (observe_intent native (p rt)) s1 (sg_intents s)"
  have ok1: "intents_ok s1" using ok by (auto simp: intents_ok_def s1_def intro: changes_ok_fields)
  have k: "jget (sg_intents s) (intent_setting x) = Some i" and open_s: "\<not> sg_closed s"
    using assms(4) by (simp_all add: current_intent_def)
  have ready: "ready_to_confirm i (intent_setting x) (ch_targetValue (it_change x)) s1"
    using ok1 assms(3-8) k open_s by (simp add: ready_to_confirm_def) (simp add: s1_def)
  have "was_confirmed i (intent_setting x) t"
    unfolding t_def
  proof (rule observe_fold_confirms [OF ready])
    show "(intent_setting x, i) \<in> set (sg_intents s)" using k by (rule map_of_SomeD)
    show "distinct (map fst (sg_intents s))" using c(2) by (simp add: wf_jmap_def)
    show "l = intent_setting x" if "(l, j) \<in> set (sg_intents s)" "j = i" for l j
    proof -
      have "jget (sg_intents s) l = Some i" using jget_mem [OF c(2) that(1)] that(2) by simp
      from changes_okD(1) [OF c(1) this] obtain x' where "sg_heap s i = Some x'" "intent_setting x' = l" by blast
      with assms(3) show ?thesis by simp
    qed
  qed
  then obtain y where y: "jget (sg_intents t) (intent_setting x) \<noteq> Some i" "sg_heap t i = Some y" "it_confirmed y = 1" "it_terminated y = 0"
    by (auto simp: was_confirmed_def)
  have okt: "intents_ok t" unfolding t_def by (rule observe_fold_ok [OF ok1])
  have res: "observe p rt native s = drain_start p (publish t)"
    using open_s by (simp add: observe_def Let_def t_def s1_def)
  have "sg_intents (drain_start p (publish t)) = sg_intents t"
    by (simp add: drain_start_def Let_def split: option.split)
  moreover have "sg_heap (drain_start p (publish t)) i = Some y"
  proof -
    have "jget (sg_intents (publish t)) (intent_setting y) \<noteq> Some i"
      using changes_okD(3) [of t i y] okt y by (auto simp: intents_ok_def intent_ok_def)
    then have "j \<noteq> i" if "find P (listed_intents (publish t)) = Some (j, z)" for P j z
      using find_listed [OF that] intents_ok_frame(1) [OF okt] y(2) by (auto simp: intents_ok_def)
    then show ?thesis using y(2) by (auto simp: drain_start_def Let_def split: option.split)
  qed
  ultimately show ?thesis using y by (simp add: res)
qed

section \<open>An example\<close>

definition sample_setting :: session_setting where
  "sample_setting = \<lparr>ss_id = ''m'', ss_category = ModelCategory, ss_label = ''Model'', ss_value = Some ''a'', ss_options = [],
     ss_mutable = True, ss_scope = SettingSession, ss_description = None\<rparr>"

definition setting_runtime :: "string \<Rightarrow> runtime_info" where
  "setting_runtime v = \<lparr>ri_providerId = ''p'', ri_sessionId = None, ri_status = Idle, ri_failure = None, ri_cwd = None,
     ri_model = None, ri_mode = None, ri_planning = None, ri_connection = None,
     ri_settings = Some [sample_setting\<lparr>ss_value := Some v\<rparr>], ri_childSessions = None, ri_persistence = None\<rparr>"

abbreviation sample_print_runtime :: "runtime_info \<Rightarrow> string" where
  "sample_print_runtime \<equiv> \<lambda>rt. ''r''"

definition sample_changes :: "change_event list" where
  "sample_changes = [AcceptChange sample_setting ''b'' ''q'' 0 None, ApplyReturned AppliedNow]"

abbreviation sample_settled :: setting_changes where
  "sample_settled \<equiv> foldl (change_step sample_print_runtime) (new_changes (setting_runtime ''a'')) sample_changes"

definition sample_intent :: setting_intent where
  "sample_intent = \<lparr>it_change = \<lparr>ch_category = ModelCategory, ch_label = ''Model'', ch_settingId = ''m'',
      ch_requestId = ''q'', ch_targetValue = ''b'', ch_confirmedValue = Some ''a'',
      ch_status = ChangePending, ch_requestedAt = iso_text 0, ch_deadlineAt = iso_text 30000,
      ch_message = None, ch_code = None\<rparr>,
    it_phase = PendingIntent, it_deferredRuntime = None, it_observedDifferentValue = True,
    it_applied = True, it_timer = True, it_confirmed = 0, it_terminated = 0\<rparr>"

lemma sample_reported: "reported_value (setting_runtime v) ''m'' = Some v"
  by (simp add: reported_value_def setting_runtime_def sample_setting_def)

lemma sample_clock: "valid_clock 0"
  by (simp add: valid_clock_def valid_time_def setting_deadline_ms_def)

lemma sample_changes_clock: "list_all clock_ok sample_changes"
  by (simp add: sample_changes_def sample_clock)

lemma sample_settled_state:
  "sg_heap sample_settled 0 = Some sample_intent \<and> sg_intents sample_settled = [(''m'', 0)] \<and> \<not> sg_closed sample_settled"
  by (simp add: sample_changes_def accept_eq [OF _ sample_clock] Let_def new_changes_def register_intent_def retire_previous_def
      accepted_intent_def make_change_def sample_reported drain_start_def listed_intents_def intent_pending_def
      publish_def schedule_readback_def any_pending_def sample_setting_def [THEN arg_cong [where f = ss_id]] set_intent_def
      drain_applied_def apply_phase_def confirm_def confirmable_def current_intent_def readback_start_def drain_end_def
      sample_intent_def setting_deadline_ms_def del: set_intent_fields) (simp add: sample_setting_def sample_reported)

abbreviation sample_start :: runtime_info where
  "sample_start \<equiv> setting_runtime ''a''"


lemma sample_current: "current_intent sample_settled 0 sample_intent" "intent_pending sample_intent" "sg_heap sample_settled 0 = Some sample_intent"
  using sample_settled_state by (simp_all add: current_intent_def intent_pending_def sample_intent_def)

lemma deadline_is_final_witness:
  "\<exists>y. sg_heap (expire_intent 0 sample_settled) 0 = Some y \<and> ch_status (it_change y) = ChangeTimedOut"
proof -
  have "list_all clock_ok []" by simp
  from deadline_is_final [where p = sample_print_runtime and rt = sample_start and i = 0 and x = sample_intent,
      OF sample_changes_clock refl sample_current(3,1,2) this] show ?thesis by blast
qed

lemma reported_target_confirms_witness:
  "\<exists>y. sg_heap (observe sample_print_runtime (setting_runtime ''b'') True sample_settled) 0 = Some y \<and> it_confirmed y = 1"
proof -
  have x: "it_phase sample_intent = PendingIntent" "it_applied sample_intent \<or> it_observedDifferentValue sample_intent"
    "reported_value (setting_runtime ''b'') (intent_setting sample_intent) = Some (ch_targetValue (it_change sample_intent))"
    by (simp_all add: sample_intent_def sample_reported)
  from reported_target_confirms [where p = sample_print_runtime and ?rt0.0 = sample_start and i = 0 and x = sample_intent
        and rt = "setting_runtime ''b''" and native = True,
      OF sample_changes_clock refl sample_current(3,1,2) x] show ?thesis by blast
qed

end
