(* ===== verification/Json_Parse.thy ===== *)
theory Json_Parse
  imports Json_Text
begin

text \<open>
  \<open>JSON.parse\<close> on the values of \<open>Json_Text\<close>: \<open>json_parse\<close> reads a text and throws a
  \<open>SyntaxError\<close> where the text is no JSON. Numbers with a fraction or an exponent and escapes of
  characters beyond code point 255 have no value in the model and are refused as well. A later
  member of an object replaces an earlier one of the same name. The recursion runs on fuel, the
  length of the text, which \<open>json_parse_print\<close> shows to be enough for every printed value.
\<close>

section \<open>The parser\<close>

definition json_space :: "char \<Rightarrow> bool" where
  "json_space c \<longleftrightarrow> c \<in> {CHR '' '', CHR 0x09, CHR 0x0A, CHR 0x0D}"

definition skip_space :: "string \<Rightarrow> string" where
  "skip_space s = dropWhile json_space s"

definition hex_value :: "char \<Rightarrow> nat option" where
  "hex_value c =
     (let n = (of_char c :: nat) in
      if 48 \<le> n \<and> n \<le> 57 then Some (n - 48)
      else if 97 \<le> n \<and> n \<le> 102 then Some (n - 87)
      else if 65 \<le> n \<and> n \<le> 70 then Some (n - 55) else None)"

definition unescape :: "char \<Rightarrow> char option" where
  "unescape c =
     (if c \<in> {CHR 0x22, CHR 0x5C, CHR ''/''} then Some c
      else if c = CHR ''b'' then Some (CHR 0x08)
      else if c = CHR ''t'' then Some (CHR 0x09)
      else if c = CHR ''n'' then Some (CHR 0x0A)
      else if c = CHR ''f'' then Some (CHR 0x0C)
      else if c = CHR ''r'' then Some (CHR 0x0D)
      else None)"

definition unicode_escape :: "char \<Rightarrow> char \<Rightarrow> char \<Rightarrow> char \<Rightarrow> char option" where
  "unicode_escape a b c d =
     (case (hex_value a, hex_value b, hex_value c, hex_value d) of
        (Some 0, Some 0, Some h, Some l) \<Rightarrow> Some (char_of (16 * h + l))
      | _ \<Rightarrow> None)"

fun parse_chars :: "string \<Rightarrow> (string \<times> string) option" where
  "parse_chars [] = None"
| "parse_chars (c # cs) =
     (if c = CHR 0x22 then Some ([], cs)
      else if c = CHR 0x5C then
        (case cs of
           [] \<Rightarrow> None
         | e # rest \<Rightarrow>
             if e = CHR ''u'' then
               (case rest of
                  h1 # h2 # h3 # h4 # rest' \<Rightarrow>
                    (case unicode_escape h1 h2 h3 h4 of
                       None \<Rightarrow> None
                     | Some x \<Rightarrow> map_option (apfst ((#) x)) (parse_chars rest'))
                | _ \<Rightarrow> None)
             else (case unescape e of
                     None \<Rightarrow> None
                   | Some x \<Rightarrow> map_option (apfst ((#) x)) (parse_chars rest)))
      else if (of_char c :: nat) < 32 then None
      else map_option (apfst ((#) c)) (parse_chars cs))"

definition parse_string :: "string \<Rightarrow> (string \<times> string) option" where
  "parse_string s =
     (case s of c # cs \<Rightarrow> if c = CHR 0x22 then parse_chars cs else None | [] \<Rightarrow> None)"

definition number_continues :: "string \<Rightarrow> bool" where
  "number_continues s = (case s of [] \<Rightarrow> False | c # _ \<Rightarrow> c \<in> {CHR ''.'', CHR ''e'', CHR ''E''})"

definition parse_natural :: "string \<Rightarrow> (nat \<times> string) option" where
  "parse_natural s =
     (let ds = takeWhile is_digit s; rest = dropWhile is_digit s in
      if ds = [] \<or> (hd ds = CHR ''0'' \<and> tl ds \<noteq> []) \<or> number_continues rest then None
      else map_option (\<lambda>n. (n, rest)) (numeral_value 0 ds))"

definition parse_int :: "string \<Rightarrow> (js_value \<times> string) option" where
  "parse_int s =
     (case s of
        [] \<Rightarrow> None
      | c # cs \<Rightarrow>
          if c = CHR ''-'' then map_option (\<lambda>(n, r). (JsInt (- int n), r)) (parse_natural cs)
          else map_option (\<lambda>(n, r). (JsInt (int n), r)) (parse_natural s))"

definition literal :: "string \<Rightarrow> js_value \<Rightarrow> string \<Rightarrow> (js_value \<times> string) option" where
  "literal word v s = (if take (length word) s = word then Some (v, drop (length word) s) else None)"

fun parse_value :: "nat \<Rightarrow> string \<Rightarrow> (js_value \<times> string) option"
  and parse_elements :: "nat \<Rightarrow> string \<Rightarrow> (js_value list \<times> string) option"
  and parse_members :: "nat \<Rightarrow> string \<Rightarrow> ((string \<times> js_value) list \<times> string) option" where
  "parse_value 0 s = None"
| "parse_value (Suc n) s =
     (case skip_space s of
        [] \<Rightarrow> None
      | c # cs \<Rightarrow>
          if c = CHR 0x22 then map_option (apfst JsString) (parse_chars cs)
          else if c = CHR ''['' then
            (case skip_space cs of
               [] \<Rightarrow> None
             | d # ds \<Rightarrow> if d = CHR '']'' then Some (JsArray [], ds)
                         else map_option (apfst JsArray) (parse_elements n (d # ds)))
          else if c = CHR ''{'' then
            (case skip_space cs of
               [] \<Rightarrow> None
             | d # ds \<Rightarrow> if d = CHR ''}'' then Some (JsObject [], ds)
                         else map_option (apfst (\<lambda>ms. JsObject (foldl (\<lambda>m e. jset m (fst e) (snd e)) [] ms)))
                                (parse_members n (d # ds)))
          else if c = CHR ''n'' then literal ''null'' JsNull (c # cs)
          else if c = CHR ''t'' then literal ''true'' (JsBool True) (c # cs)
          else if c = CHR ''f'' then literal ''false'' (JsBool False) (c # cs)
          else parse_int (c # cs))"
| "parse_elements 0 s = None"
| "parse_elements (Suc n) s =
     (case parse_value n s of
        None \<Rightarrow> None
      | Some (v, r) \<Rightarrow>
          (case skip_space r of
             [] \<Rightarrow> None
           | c # cs \<Rightarrow> if c = CHR '']'' then Some ([v], cs)
                       else if c = CHR '','' then map_option (apfst ((#) v)) (parse_elements n cs)
                       else None))"
| "parse_members 0 s = None"
| "parse_members (Suc n) s =
     (case parse_string (skip_space s) of
        None \<Rightarrow> None
      | Some (k, r) \<Rightarrow>
          (case skip_space r of
             [] \<Rightarrow> None
           | c # cs \<Rightarrow>
               if c \<noteq> CHR '':'' then None
               else (case parse_value n cs of
                       None \<Rightarrow> None
                     | Some (v, r') \<Rightarrow>
                         (case skip_space r' of
                            [] \<Rightarrow> None
                          | d # ds \<Rightarrow> if d = CHR ''}'' then Some ([(k, v)], ds)
                                      else if d = CHR '','' then map_option (apfst ((#) (k, v))) (parse_members n ds)
                                      else None))))"

definition json_parse :: "string \<Rightarrow> js_value js_result" where
  "json_parse s =
     (case parse_value (Suc (length s)) s of
        Some (v, r) \<Rightarrow> if skip_space r = [] then Inr v else Inl (Thrown SyntaxErrorClass [] ''Unexpected token'')
      | None \<Rightarrow> Inl (Thrown SyntaxErrorClass [] ''Unexpected token''))"

section \<open>Reading back what was printed\<close>

lemma hex_value_digit: "n < 16 \<Longrightarrow> hex_value (hex_digit n) = Some n"
  by (simp add: hex_value_def of_char_hex_digit)

lemma hex_value_0: "hex_value (CHR ''0'') = Some 0"
  by (simp add: hex_value_def)

lemma unescape_short: "short_escape c = Some e \<Longrightarrow> unescape e = Some c \<and> e \<noteq> CHR ''u''"
  by (auto simp: short_escape_def unescape_def split: if_splits)

lemma short_escape_None: "short_escape c = None \<Longrightarrow> c \<noteq> CHR 0x22 \<and> c \<noteq> CHR 0x5C"
  by (auto simp: short_escape_def)

lemma parse_escape: "parse_chars (escape_char c @ r) = map_option (apfst ((#) c)) (parse_chars r)"
proof (cases "short_escape c")
  case (Some e)
  with unescape_short [OF Some] show ?thesis by (simp add: escape_char_def)
next
  case None
  note c = short_escape_None [OF None]
  show ?thesis
  proof (cases "(of_char c :: nat) < 32")
    case True
    then have "(of_char c :: nat) div 16 < 16" "(of_char c :: nat) mod 16 < 16" by auto
    then have "unicode_escape (CHR ''0'') (CHR ''0'') (hex_digit (of_char c div 16)) (hex_digit (of_char c mod 16)) = Some c"
      by (simp add: unicode_escape_def hex_value_digit hex_value_0)
    with None True show ?thesis by (simp add: escape_char_def Let_def)
  qed (use None c in \<open>simp add: escape_char_def\<close>)
qed

lemma parse_chars_print: "parse_chars (concat (map escape_char s) @ CHR 0x22 # r) = Some (s, r)"
  by (induction s) (simp_all add: parse_escape)

lemma parse_string_quote: "parse_string (quote s @ r) = Some (s, r)"
  by (simp add: parse_string_def quote_def parse_chars_print)

lemma skip_space_quote: "skip_space (quote s @ r) = quote s @ r"
  by (simp add: skip_space_def quote_def json_space_def)

lemma skip_space_id: "\<not> json_space c \<Longrightarrow> skip_space (c # s) = c # s"
  by (simp add: skip_space_def)

text \<open>What follows a value in a printed text ends a number.\<close>

definition ends_value :: "string \<Rightarrow> bool" where
  "ends_value r \<longleftrightarrow> r = [] \<or> hd r \<in> {CHR '','', CHR '']'', CHR ''}''}"

lemma ends_value_simps [simp]:
  "ends_value []" "ends_value (CHR '','' # r)" "ends_value (CHR '']'' # r)" "ends_value (CHR ''}'' # r)"
  by (simp_all add: ends_value_def)

lemma decimal_0: "decimal 0 = ''0''"
  by code_simp

lemma decimal_zero: "decimal n = ''0'' \<longleftrightarrow> n = 0"
  using numeral_value_decimal [of n] numeral_value_decimal [of 0] by (auto simp: decimal_0)

lemma decimal_zero_first: "hd (decimal n) = CHR ''0'' \<Longrightarrow> n = 0"
proof (induction n rule: decimal.induct)
  case (1 n)
  show ?case
  proof (cases "n < 10")
    case True
    with 1(2) have "decimal n = ''0''" by (subst decimal.simps) (subst (asm) decimal.simps, simp)
    then show ?thesis by (simp add: decimal_zero)
  next
    case False
    then have "decimal n = decimal (n div 10) @ [digit_char (n mod 10)]" by (subst decimal.simps) simp
    with 1(2) have "hd (decimal (n div 10)) = CHR ''0''" by simp
    with 1(1) False have "n div 10 = 0" by simp
    with False show ?thesis by simp
  qed
qed

lemma ends_no_digit: "ends_value r \<Longrightarrow> no_digit r \<and> \<not> number_continues r"
  by (cases r) (auto simp: ends_value_def no_digit_def number_continues_def is_digit_def)

lemma take_digits: "no_digit r \<Longrightarrow> takeWhile is_digit (decimal n @ r) = decimal n \<and> dropWhile is_digit (decimal n @ r) = r"
  using decimal_digits [of n] by (cases r) (auto simp: no_digit_def takeWhile_append2 dropWhile_append2)

lemma parse_natural_decimal: "ends_value r \<Longrightarrow> parse_natural (decimal n @ r) = Some (n, r)"
proof -
  assume "ends_value r"
  then have r: "no_digit r" "\<not> number_continues r" using ends_no_digit by auto
  have "hd (decimal n) = CHR ''0'' \<Longrightarrow> tl (decimal n) = []" using decimal_zero_first [of n] by (auto simp: decimal_0)
  with take_digits [OF r(1), of n] r(2) numeral_value_decimal [of n] show ?thesis
    by (auto simp: parse_natural_def Let_def)
qed

lemma decimal_first: "decimal n = c # cs \<Longrightarrow> is_digit c"
  using decimal_digits [of n] by simp

lemma parse_int_text: "ends_value r \<Longrightarrow> parse_int (int_text i @ r) = Some (JsInt i, r)"
proof -
  assume r: "ends_value r"
  obtain c cs where d: "decimal (nat i) = c # cs" by (cases "decimal (nat i)") auto
  have "c \<noteq> CHR ''-''" using decimal_first [OF d] by (auto simp: is_digit_def)
  with d parse_natural_decimal [OF r, of "nat i"] parse_natural_decimal [OF r, of "nat (- i)"] show ?thesis
    by (auto simp: parse_int_def int_text_def)
qed

section \<open>Values\<close>

text \<open>The first character of a printed value: no white space and no closing bracket.\<close>

lemma print_first_char:
  assumes "plain_json v"
  obtains c cs where "print v = c # cs" "\<not> json_space c" "c \<noteq> CHR '']''" "c \<noteq> CHR ''}''"
proof (cases v)
  case (JsInt i)
  have digit: "\<not> json_space c" "c \<noteq> CHR '']''" "c \<noteq> CHR ''}''" if "is_digit c" for c
    using that by (auto simp: is_digit_def json_space_def)
  obtain c cs where d: "decimal (nat i) = c # cs" by (cases "decimal (nat i)") auto
  with JsInt that [of c cs] digit [OF decimal_first [OF d]] that [of "CHR ''-''" "decimal (nat (- i))"] show thesis
    by (cases "i < 0") (auto simp: int_text_def json_space_def)
next
  case (JsBool b)
  then show thesis using that [of "CHR ''t''" "''rue''"] that [of "CHR ''f''" "''alse''"] by (cases b) (auto simp: json_space_def)
qed (use assms that in \<open>auto simp: json_space_def quote_def\<close>)

lemma skip_print: "plain_json v \<Longrightarrow> skip_space (print v @ r) = print v @ r"
  by (erule print_first_char) (simp add: skip_space_id)

lemma rebuild_members: "distinct (map fst ms) \<Longrightarrow> foldl (\<lambda>m e. jset m (fst e) (snd e)) [] ms = ms"
proof (induction ms rule: rev_induct)
  case (snoc e ms)
  then have "jget ms (fst e) = None" by (simp add: map_of_eq_None_iff)
  with snoc show ?case by (simp add: jset_fresh)
qed simp

lemma parse_elements_print:
  assumes "xs \<noteq> []" and "\<And>x f r. x \<in> set xs \<Longrightarrow> length (print x) < f \<Longrightarrow> ends_value r \<Longrightarrow> parse_value f (print x @ r) = Some (x, r)"
    and "length (comma_join (map print xs)) + 1 < f"
  shows "parse_elements f (comma_join (map print xs) @ CHR '']'' # r) = Some (xs, r)"
  using assms
proof (induction xs arbitrary: f)
  case (Cons x xs)
  obtain g where f: "f = Suc g" using Cons.prems(3) by (cases f) auto
  show ?case
  proof (cases xs)
    case Nil
    with Cons.prems(2) [of x g "CHR '']'' # r"] Cons.prems(3) f show ?thesis by (simp add: skip_space_id json_space_def)
  next
    case (Cons y ys)
    have join: "comma_join (map print (x # xs)) = print x @ CHR '','' # comma_join (map print xs)" using Cons by simp
    have "parse_elements g (comma_join (map print xs) @ CHR '']'' # r) = Some (xs, r)"
      using Cons Cons.prems f join by (intro Cons.IH) auto
    moreover have "parse_value g (print x @ CHR '','' # comma_join (map print xs) @ CHR '']'' # r)
        = Some (x, CHR '','' # comma_join (map print xs) @ CHR '']'' # r)"
      using Cons.prems f join by (intro Cons.prems(2)) auto
    ultimately show ?thesis unfolding join by (simp add: f skip_space_id json_space_def del: comma_join.simps list.map)
  qed
qed simp

lemma parse_members_print:
  assumes "ms \<noteq> []" and "\<And>m f r. m \<in> set ms \<Longrightarrow> length (print (snd m)) < f \<Longrightarrow> ends_value r \<Longrightarrow>
      parse_value f (print (snd m) @ r) = Some (snd m, r)"
    and "length (comma_join (map print_member ms)) + 1 < f"
  shows "parse_members f (comma_join (map print_member ms) @ CHR ''}'' # r) = Some (ms, r)"
  using assms
proof (induction ms arbitrary: f)
  case (Cons m ms)
  obtain g where f: "f = Suc g" using Cons.prems(3) by (cases f) auto
  obtain k v where m: "m = (k, v)" by force
  show ?case
  proof (cases ms)
    case Nil
    with Cons.prems(2) [of m g "CHR ''}'' # r"] Cons.prems(3) f m show ?thesis
      by (simp add: skip_space_id json_space_def skip_space_quote parse_string_quote)
  next
    case (Cons n ns)
    have join: "comma_join (map print_member (m # ms)) = quote k @ CHR '':'' # print v @ CHR '','' # comma_join (map print_member ms)"
      using Cons m by simp
    have "parse_members g (comma_join (map print_member ms) @ CHR ''}'' # r) = Some (ms, r)"
      using Cons Cons.prems f join by (intro Cons.IH) auto
    moreover have "parse_value g (print v @ CHR '','' # comma_join (map print_member ms) @ CHR ''}'' # r)
        = Some (v, CHR '','' # comma_join (map print_member ms) @ CHR ''}'' # r)"
      using Cons.prems(2) [of m g "CHR '','' # comma_join (map print_member ms) @ CHR ''}'' # r"] Cons.prems(3) f join m by simp
    ultimately show ?thesis
      unfolding join by (simp add: f m skip_space_id json_space_def skip_space_quote parse_string_quote del: comma_join.simps list.map)
  qed
qed simp

lemma comma_join_first: "xs \<noteq> [] \<Longrightarrow> \<exists>u. comma_join (map p xs) = p (hd xs) @ u"
  by (cases xs) (auto simp: comma_join_Cons)

lemma parse_print: "plain_json v \<Longrightarrow> length (print v) < f \<Longrightarrow> ends_value r \<Longrightarrow> parse_value f (print v @ r) = Some (v, r)"
proof (induction v arbitrary: f r)
  case (JsInt i)
  then obtain g where f: "f = Suc g" by (cases f) auto
  obtain c cs where "print (JsInt i) = c # cs" and sp: "\<not> json_space c"
    by (rule print_first_char [OF JsInt(1)])
  then have p: "int_text i = c # cs" by simp
  have c: "c \<noteq> CHR 0x22" "c \<noteq> CHR ''[''" "c \<noteq> CHR ''{''" "c \<noteq> CHR ''n''" "c \<noteq> CHR ''t''" "c \<noteq> CHR ''f''"
    using p decimal_digits [of "nat i"] decimal_digits [of "nat (- i)"]
    by (auto simp: int_text_def is_digit_def split: if_splits)
  with p sp parse_int_text [OF JsInt(3), of i] show ?case by (simp add: f skip_space_id)
next
  case (JsString s)
  then obtain g where f: "f = Suc g" by (cases f) auto
  show ?case by (simp add: f quote_def skip_space_id json_space_def parse_chars_print)
next
  case JsNull
  then obtain g where f: "f = Suc g" by (cases f) auto
  show ?case by (simp add: f skip_space_id json_space_def literal_def)
next
  case (JsBool b)
  then obtain g where f: "f = Suc g" by (cases f) auto
  show ?case by (cases b) (simp_all add: f skip_space_id json_space_def literal_def)
next
  case (JsArray xs)
  then obtain g where f: "f = Suc g" by (cases f) auto
  have plain: "\<forall>x \<in> set xs. plain_json x" using JsArray.prems(1) by simp
  show ?case
  proof (cases xs)
    case Nil
    then show ?thesis by (simp add: f skip_space_id json_space_def)
  next
    case (Cons x ys)
    with plain have "plain_json x" by simp
    then obtain c cs where c: "print x = c # cs" "\<not> json_space c" "c \<noteq> CHR '']''" by (rule print_first_char)
    obtain u where u: "comma_join (map print xs) = c # u" using comma_join_first [of xs print] Cons c(1) by auto
    have "parse_elements g (comma_join (map print xs) @ CHR '']'' # r) = Some (xs, r)"
    proof (rule parse_elements_print)
      show "length (comma_join (map print xs)) + 1 < g" using JsArray.prems(2) plain f by (simp only: print_array) simp
      show "parse_value f' (print x @ r') = Some (x, r')" if "x \<in> set xs" "length (print x) < f'" "ends_value r'" for x f' r'
        using JsArray.IH [OF that(1) _ that(2,3)] plain that(1) by simp
    qed (simp add: Cons)
    with u c show ?thesis unfolding print_array [OF plain]
      by (simp add: f skip_space_id json_space_def)
  qed
next
  case (JsObject ms)
  then obtain g where f: "f = Suc g" by (cases f) auto
  have plain: "distinct (map fst ms)" "\<forall>m \<in> set ms. plain_json (snd m)" using JsObject.prems(1) by simp_all
  show ?case
  proof (cases ms)
    case Nil
    then show ?thesis by (simp add: f skip_space_id json_space_def obj_entries_def)
  next
    case (Cons m ns)
    obtain u where u: "comma_join (map print_member ms) = CHR 0x22 # u"
      using comma_join_first [of ms print_member] Cons by (auto simp: quote_def)
    have "parse_members g (comma_join (map print_member ms) @ CHR ''}'' # r) = Some (ms, r)"
    proof (rule parse_members_print)
      show "length (comma_join (map print_member ms)) + 1 < g"
        using JsObject.prems(1,2) f by (simp only: print_object) simp
      show "parse_value f' (print (snd m) @ r') = Some (snd m, r')"
        if "m \<in> set ms" "length (print (snd m)) < f'" "ends_value r'" for m f' r'
        using JsObject.IH [OF that(1) _ _ that(2,3)] plain(2) that(1) by (cases m) auto
    qed (simp add: Cons)
    with u rebuild_members [OF plain(1)] show ?thesis unfolding print_object [OF JsObject.prems(1)]
      by (simp add: f skip_space_id json_space_def)
  qed
qed auto

theorem json_parse_print: "plain_json v \<Longrightarrow> json_parse (print v) = Inr v"
  using parse_print [of v "Suc (length (print v))" "[]"] by (simp add: json_parse_def skip_space_def)

end
