(* ===== verification/Tunnel_Codec.thy ===== *)
theory Tunnel_Codec
  imports Json_Parse "HOL-Library.Word"
begin

text \<open>
  \<open>agent-remote-tunnel/src/codec.ts\<close>: the frames two tunnel peers exchange and their encoding. A
  control frame is JSON text; a body chunk or a WebSocket message is a binary frame: the length of
  its JSON metadata as a big-endian 32-bit word, the metadata in UTF-8, the bytes.
  \<open>TextEncoder\<close> and the fatal \<open>TextDecoder\<close> work on characters of code points below 256
  (\<open>utf8_encode\<close>, \<open>utf8_decode\<close>); a text with others is refused by the model.
\<close>

unbundle bit_operations_syntax

type_synonym byte = "8 word"

section \<open>UTF-8\<close>

definition utf8_char :: "char \<Rightarrow> byte list" where
  "utf8_char c =
     (let n = (of_char c :: nat) in
      if n < 128 then [of_nat n] else [of_nat (192 + n div 64), of_nat (128 + n mod 64)])"

definition utf8_encode :: "string \<Rightarrow> byte list" where
  "utf8_encode s = concat (map utf8_char s)"

fun utf8_decode :: "byte list \<Rightarrow> string option" where
  "utf8_decode [] = Some []"
| "utf8_decode (b # bs) =
     (if unat b < 128 then map_option ((#) (char_of (unat b))) (utf8_decode bs)
      else (case bs of
          c # cs \<Rightarrow>
            if unat b \<in> {194, 195} \<and> 128 \<le> unat c \<and> unat c < 192
            then map_option ((#) (char_of ((unat b - 192) * 64 + (unat c - 128)))) (utf8_decode cs)
            else None
        | [] \<Rightarrow> None))"

section \<open>Frames\<close>

datatype body_direction = RequestBody | ResponseBody
datatype credit_direction = BodyCredit body_direction | SocketCredit

type_synonym header_list = "(string \<times> string) list"

datatype control_frame =
    HttpOpen string string string string header_list bool
  | HttpResponse string int header_list bool
  | BodyEnd string body_direction
  | Credit string credit_direction int
  | Cancel string string string
  | WsOpen string string string header_list "string list"
  | WsAccept string "string option"
  | WsClose string int string
  | Ping string
  | Pong string

datatype binary_frame =
    BodyChunk string body_direction "byte list"
  | WsMessage string bool "byte list"

datatype tunnel_frame = ControlFrame control_frame | BinaryFrame binary_frame

datatype tunnel_data = TextData string | BinaryData "byte list"

text \<open>The objects that the code writes as literals and hands to \<open>JSON.stringify\<close>.\<close>

definition tunnel_direction_name :: "body_direction \<Rightarrow> string" where
  "tunnel_direction_name d = (case d of RequestBody \<Rightarrow> ''request'' | ResponseBody \<Rightarrow> ''response'')"

definition credit_name :: "credit_direction \<Rightarrow> string" where
  "credit_name d = (case d of BodyCredit b \<Rightarrow> tunnel_direction_name b | SocketCredit \<Rightarrow> ''ws'')"

definition header_value :: "header_list \<Rightarrow> js_value" where
  "header_value hs = JsArray (map (\<lambda>(k, v). JsArray [JsString k, JsString v]) hs)"

definition optional_string :: "string option \<Rightarrow> js_value" where
  "optional_string s = (case s of None \<Rightarrow> JsUndefined | Some t \<Rightarrow> JsString t)"

definition frame_value :: "control_frame \<Rightarrow> js_value" where
  "frame_value f =
     (case f of
        HttpOpen i p m u hs b \<Rightarrow> JsObject [(''type'', JsString ''http_open''), (''streamId'', JsString i), (''previewId'', JsString p),
          (''method'', JsString m), (''path'', JsString u), (''headers'', header_value hs), (''hasBody'', JsBool b)]
      | HttpResponse i s hs b \<Rightarrow> JsObject [(''type'', JsString ''http_response''), (''streamId'', JsString i), (''status'', JsInt s),
          (''headers'', header_value hs), (''hasBody'', JsBool b)]
      | BodyEnd i d \<Rightarrow> JsObject [(''type'', JsString ''body_end''), (''streamId'', JsString i), (''direction'', JsString (tunnel_direction_name d))]
      | Credit i d n \<Rightarrow> JsObject [(''type'', JsString ''credit''), (''streamId'', JsString i), (''direction'', JsString (credit_name d)), (''bytes'', JsInt n)]
      | Cancel i c m \<Rightarrow> JsObject [(''type'', JsString ''cancel''), (''streamId'', JsString i), (''code'', JsString c), (''message'', JsString m)]
      | WsOpen i p u hs ps \<Rightarrow> JsObject [(''type'', JsString ''ws_open''), (''streamId'', JsString i), (''previewId'', JsString p),
          (''path'', JsString u), (''headers'', header_value hs), (''protocols'', JsArray (map JsString ps))]
      | WsAccept i p \<Rightarrow> JsObject [(''type'', JsString ''ws_accept''), (''streamId'', JsString i), (''protocol'', optional_string p)]
      | WsClose i c r \<Rightarrow> JsObject [(''type'', JsString ''ws_close''), (''streamId'', JsString i), (''code'', JsInt c), (''reason'', JsString r)]
      | Ping n \<Rightarrow> JsObject [(''type'', JsString ''ping''), (''nonce'', JsString n)]
      | Pong n \<Rightarrow> JsObject [(''type'', JsString ''pong''), (''nonce'', JsString n)])"

definition metadata_value :: "binary_frame \<Rightarrow> js_value" where
  "metadata_value f =
     (case f of
        BodyChunk i d _ \<Rightarrow> JsObject [(''type'', JsString ''body_chunk''), (''streamId'', JsString i), (''direction'', JsString (tunnel_direction_name d))]
      | WsMessage i b _ \<Rightarrow> JsObject [(''type'', JsString ''ws_message''), (''streamId'', JsString i), (''binary'', JsBool b)])"

definition frame_payload :: "binary_frame \<Rightarrow> byte list" where
  "frame_payload f = (case f of BodyChunk _ _ d \<Rightarrow> d | WsMessage _ _ d \<Rightarrow> d)"

definition data_size :: "tunnel_data \<Rightarrow> nat" where
  "data_size d = (case d of TextData s \<Rightarrow> utf8_length s | BinaryData bs \<Rightarrow> length bs)"

text \<open>\<open>DataView.setUint32\<close> and \<open>getUint32\<close>: big-endian, the number modulo \<open>2 ^ 32\<close>.\<close>

definition set_uint32 :: "nat \<Rightarrow> byte list" where
  "set_uint32 n =
     (let w = (of_nat n :: 32 word) in
      [ucast (drop_bit 24 w), ucast (drop_bit 16 w), ucast (drop_bit 8 w), ucast w])"

definition get_uint32 :: "byte list \<Rightarrow> nat" where
  "get_uint32 bs =
     (case bs of
        a # b # c # d # _ \<Rightarrow>
          unat (push_bit 24 (ucast a) OR push_bit 16 (ucast b) OR push_bit 8 (ucast c) OR ucast d :: 32 word)
      | _ \<Rightarrow> 0)"

section \<open>Encoding and decoding\<close>

definition frame_too_large :: "'a js_result" where
  "frame_too_large = throw_plain ''Tunnel frame exceeds the configured maximum.''"

definition encodeTunnelFrame :: "nat \<Rightarrow> tunnel_frame \<Rightarrow> tunnel_data js_result" where
  "encodeTunnelFrame maxFrameBytes frame =
     (case frame of
        ControlFrame f \<Rightarrow>
          (let v = the (stringify (frame_value f)) in
           if maxFrameBytes < utf8_length v then frame_too_large else Inr (TextData v))
      | BinaryFrame f \<Rightarrow>
          (let metadata = utf8_encode (the (stringify (metadata_value f)));
               result = set_uint32 (length metadata) @ metadata @ frame_payload f in
           if maxFrameBytes < length result then frame_too_large else Inr (BinaryData result)))"

text \<open>
  A text frame is the parsed value as it stands: the code casts it without a check. The members of
  the metadata are read as properties.
\<close>

datatype decoded_frame = DecodedControl js_value | DecodedBinary binary_frame

definition js_property :: "js_value \<Rightarrow> string \<Rightarrow> js_value" where
  "js_property v k = (case v of JsObject ms \<Rightarrow> (case jget ms k of Some x \<Rightarrow> x | None \<Rightarrow> JsUndefined) | _ \<Rightarrow> JsUndefined)"

definition value_direction :: "js_value \<Rightarrow> body_direction option" where
  "value_direction v =
     (if v = JsString ''request'' then Some RequestBody else if v = JsString ''response'' then Some ResponseBody else None)"

definition decode_metadata :: "js_value \<Rightarrow> byte list \<Rightarrow> decoded_frame js_result" where
  "decode_metadata metadata payload =
     (case (js_property metadata ''type'', js_property metadata ''streamId'', value_direction (js_property metadata ''direction''),
            js_property metadata ''binary'') of
        (JsString t, JsString i, d, b) \<Rightarrow>
          if t = ''body_chunk'' \<and> d \<noteq> None then Inr (DecodedBinary (BodyChunk i (the d) payload))
          else (case b of
              JsBool f \<Rightarrow> if t = ''ws_message'' then Inr (DecodedBinary (WsMessage i f payload))
                          else throw_plain ''Unknown binary tunnel frame.''
            | _ \<Rightarrow> throw_plain ''Unknown binary tunnel frame.'')
      | _ \<Rightarrow> throw_plain ''Unknown binary tunnel frame.'')"

definition decodeTunnelFrame :: "nat \<Rightarrow> tunnel_data \<Rightarrow> decoded_frame js_result" where
  "decodeTunnelFrame maxFrameBytes data =
     (if maxFrameBytes < data_size data then frame_too_large
      else case data of
        TextData s \<Rightarrow> map_sum id DecodedControl (json_parse s)
      | BinaryData bs \<Rightarrow>
          if length bs < 4 then throw_plain ''Invalid binary tunnel frame.''
          else
            let metadataSize = get_uint32 bs in
            if length bs - 4 < metadataSize then throw_plain ''Invalid binary tunnel frame metadata.''
            else (case utf8_decode (take metadataSize (drop 4 bs)) of
                None \<Rightarrow> throw_plain ''The encoded data was not valid.''
              | Some t \<Rightarrow>
                  (case json_parse t of
                     Inl e \<Rightarrow> Inl e
                   | Inr metadata \<Rightarrow> decode_metadata metadata (drop (4 + metadataSize) bs))))"

section \<open>Round trips\<close>

lemma utf8_char_length: "length (utf8_char c) = (if (of_char c :: nat) < 128 then 1 else 2)"
  by (simp add: utf8_char_def Let_def)

lemma utf8_encode_length: "length (utf8_encode s) = utf8_length s"
  by (induction s) (simp_all add: utf8_encode_def utf8_length_def utf8_char_length)

lemma unat_continuation: "k < 64 \<Longrightarrow> unat (128 + word_of_nat k :: byte) = 128 + k"
  using unat_of_nat [of "128 + k", where ?'a = 8] by simp

lemma utf8_decode_char: "utf8_decode (utf8_char c @ bs) = map_option ((#) c) (utf8_decode bs)"
proof (cases "(of_char c :: nat) < 128")
  case True
  then show ?thesis by (simp add: utf8_char_def unat_of_nat)
next
  case False
  have n: "128 \<le> (of_char c :: nat)" "(of_char c :: nat) < 256" using False nat_of_char_less_256 [of c] by simp_all
  then have two: "(of_char c :: nat) div 64 = 2 \<or> (of_char c :: nat) div 64 = 3" by arith
  have "(of_char c :: nat) div 64 * 64 + of_char c mod 64 = of_char c" by simp
  then have sum: "char_of ((of_char c :: nat) div 64 * 64 + of_char c mod 64) = c" by (simp only: char_of_char)
  from two show ?thesis
  proof
    assume "(of_char c :: nat) div 64 = 2"
    with sum False show ?thesis by (simp add: utf8_char_def unat_continuation)
  next
    assume "(of_char c :: nat) div 64 = 3"
    with sum False show ?thesis by (simp add: utf8_char_def unat_continuation)
  qed
qed

lemma utf8_round_trip: "utf8_decode (utf8_encode s) = Some s"
  by (induction s) (simp_all add: utf8_encode_def utf8_decode_char)

lemma word_bytes:
  "push_bit 24 (ucast (ucast (drop_bit 24 w) :: byte)) OR push_bit 16 (ucast (ucast (drop_bit 16 w) :: byte))
     OR push_bit 8 (ucast (ucast (drop_bit 8 w) :: byte)) OR ucast (ucast w :: byte) = (w :: 32 word)"
proof (rule bit_word_eqI)
  fix n assume n: "n < LENGTH(32)"
  consider "n < 8" | "8 \<le> n" "n < 16" | "16 \<le> n" "n < 24" | "24 \<le> n" by linarith
  then show "bit (push_bit 24 (ucast (ucast (drop_bit 24 w) :: byte)) OR push_bit 16 (ucast (ucast (drop_bit 16 w) :: byte))
     OR push_bit 8 (ucast (ucast (drop_bit 8 w) :: byte)) OR ucast (ucast w :: byte) :: 32 word) n = bit w n"
    by cases (use n in \<open>auto simp: bit_simps\<close>)
qed

lemma get_set_uint32: "n < 2 ^ 32 \<Longrightarrow> get_uint32 (set_uint32 n @ bs) = n"
  by (simp add: set_uint32_def get_uint32_def Let_def word_bytes) (simp add: unat_of_nat)

lemma length_set_uint32: "length (set_uint32 n) = 4"
  by (simp add: set_uint32_def Let_def)

text \<open>
  A control frame survives the trip when its optional members are there: an absent protocol is left
  out of the text and read back as absent.
\<close>

definition received_value :: "control_frame \<Rightarrow> js_value" where
  "received_value f =
     (case f of
        WsAccept i None \<Rightarrow> JsObject [(''type'', JsString ''ws_accept''), (''streamId'', JsString i)]
      | _ \<Rightarrow> frame_value f)"

lemma named_entries: "\<forall>k \<in> set (map fst ms). array_index k = None \<Longrightarrow> obj_entries ms = ms"
  by (induction ms) (auto simp: obj_entries_def)

lemma field_names [simp]:
  "array_index ''type'' = None" "array_index ''streamId'' = None" "array_index ''previewId'' = None" "array_index ''method'' = None"
  "array_index ''path'' = None" "array_index ''headers'' = None" "array_index ''hasBody'' = None" "array_index ''status'' = None"
  "array_index ''direction'' = None" "array_index ''bytes'' = None" "array_index ''code'' = None" "array_index ''message'' = None"
  "array_index ''protocols'' = None" "array_index ''protocol'' = None" "array_index ''reason'' = None" "array_index ''nonce'' = None"
  "array_index ''binary'' = None"
  by (simp_all add: array_index_def digit_value_def)

lemma header_plain: "plain_json (header_value hs)"
  by (auto simp: header_value_def)

lemma direction_name_inj [simp]: "value_direction (JsString (tunnel_direction_name d)) = Some d"
  by (cases d) (simp_all add: value_direction_def tunnel_direction_name_def)

lemma received_plain: "plain_json (received_value f)"
proof (cases f)
  case (WsAccept i p)
  then show ?thesis by (cases p) (simp_all add: received_value_def frame_value_def optional_string_def named_entries)
qed (simp_all add: received_value_def frame_value_def named_entries header_plain)

lemma metadata_plain: "plain_json (metadata_value f)"
  by (cases f) (simp_all add: metadata_value_def named_entries)

lemma frame_text: "stringify (frame_value f) = Some (print (received_value f))"
proof (cases "\<exists>i. f = WsAccept i None")
  case True
  then obtain i where f: "f = WsAccept i None" ..
  have "obj_entries [(''type'', Some (quote ''ws_accept'')), (''streamId'', Some (quote i)), (''protocol'', None)]
      = [(''type'', Some (quote ''ws_accept'')), (''streamId'', Some (quote i)), (''protocol'', None)]"
    "obj_entries [(''type'', Some (quote ''ws_accept'')), (''streamId'', Some (quote i))]
      = [(''type'', Some (quote ''ws_accept'')), (''streamId'', Some (quote i))]"
    by (rule named_entries, simp)+
  then show ?thesis by (simp add: f frame_value_def received_value_def optional_string_def)
next
  case False
  have "received_value f = frame_value f"
  proof (cases f)
    case (WsAccept i p)
    with False show ?thesis by (cases p) (simp_all add: received_value_def)
  qed (simp_all add: received_value_def)
  then have "frame_value f = received_value f" by (rule sym)
  then show ?thesis by (rule ssubst) (rule plain_json_stringify [OF received_plain])
qed

definition frame_kind :: "control_frame \<Rightarrow> js_value" where
  "frame_kind f = js_property (received_value f) ''type''"

lemma frame_kinds:
  "frame_kind (HttpOpen i p m u hs b) = JsString ''http_open''" "frame_kind (HttpResponse i s hs b) = JsString ''http_response''"
  "frame_kind (BodyEnd i d) = JsString ''body_end''" "frame_kind (Credit i cd n) = JsString ''credit''"
  "frame_kind (Cancel i c m) = JsString ''cancel''" "frame_kind (WsOpen i p u hs ps) = JsString ''ws_open''"
  "frame_kind (WsAccept i pr) = JsString ''ws_accept''" "frame_kind (WsClose i cc r) = JsString ''ws_close''"
  "frame_kind (Ping n') = JsString ''ping''" "frame_kind (Pong n') = JsString ''pong''"
  by (simp_all add: frame_kind_def received_value_def frame_value_def js_property_def split: option.split)

lemma header_value_inj: "header_value hs = header_value hs' \<longleftrightarrow> hs = hs'"
proof -
  have "inj (\<lambda>(k, v). JsArray [JsString k, JsString v])" by (auto simp: inj_def)
  then show ?thesis by (simp add: header_value_def inj_map_eq_map)
qed

lemma protocols_inj: "map JsString ps = map JsString ps' \<longleftrightarrow> ps = ps'"
  by (rule inj_map_eq_map) (simp add: inj_def)

lemma direction_name_inj': "tunnel_direction_name d = tunnel_direction_name d' \<longleftrightarrow> d = d'"
  by (cases d; cases d'; simp add: tunnel_direction_name_def)

lemma credit_name_inj: "credit_name c = credit_name c' \<longleftrightarrow> c = c'"
  by (cases c; cases c') (auto simp: credit_name_def tunnel_direction_name_def split: body_direction.splits)

lemmas direction_names_inj = direction_name_inj' credit_name_inj

lemma received_inj: "received_value f = received_value g \<Longrightarrow> f = g"
proof -
  assume eq: "received_value f = received_value g"
  then have kind: "frame_kind f = frame_kind g" by (simp add: frame_kind_def)
  show ?thesis
  proof (cases f)
    case (WsAccept i p)
    with kind obtain i' p' where g: "g = WsAccept i' p'" by (cases g) (simp_all add: frame_kinds)
    from eq show ?thesis by (cases p; cases p') (simp_all add: WsAccept g received_value_def frame_value_def optional_string_def)
  qed (use kind eq in \<open>cases g; simp add: frame_kinds; simp add: received_value_def frame_value_def header_value_inj protocols_inj direction_names_inj\<close>)+
qed

definition delivered :: "tunnel_frame \<Rightarrow> decoded_frame" where
  "delivered frame = (case frame of ControlFrame f \<Rightarrow> DecodedControl (received_value f) | BinaryFrame f \<Rightarrow> DecodedBinary f)"

lemma decode_metadata_value: "decode_metadata (metadata_value f) (frame_payload f) = Inr (DecodedBinary f)"
  by (cases f) (simp_all add: decode_metadata_def metadata_value_def frame_payload_def js_property_def)


text \<open>C32: What one peer encodes within the frame limit the other peer decodes to the same frame: the
  same control object (a missing optional member stays missing) or the same binary frame with the
  same bytes; control frames of different content are different objects for the receiver.\<close>

theorem tunnel_frame_round_trip:
  assumes "encodeTunnelFrame limit frame = Inr data" and "limit < 2 ^ 32"
  shows "decodeTunnelFrame limit data = Inr (delivered frame) \<and> data_size data \<le> limit
    \<and> (\<forall>other. delivered other = delivered frame \<longrightarrow> other = frame)"
proof -
  have "decodeTunnelFrame limit data = Inr (delivered frame) \<and> data_size data \<le> limit"
  proof (cases frame)
    case (ControlFrame f)
    with assms(1) have d: "data = TextData (print (received_value f))" "utf8_length (print (received_value f)) \<le> limit"
      by (simp_all add: encodeTunnelFrame_def frame_text Let_def frame_too_large_def split: if_splits)
    with ControlFrame json_parse_print [OF received_plain, of f] show ?thesis
      by (simp add: decodeTunnelFrame_def data_size_def delivered_def)
  next
    case (BinaryFrame f)
    define m where "m = utf8_encode (print (metadata_value f))"
    from assms(1) BinaryFrame have d: "data = BinaryData (set_uint32 (length m) @ m @ frame_payload f)"
      "length (set_uint32 (length m) @ m @ frame_payload f) \<le> limit"
      by (simp_all add: encodeTunnelFrame_def m_def Let_def frame_too_large_def split: if_splits)
    then have m: "length m < 2 ^ 32" using assms(2) by simp
    have parts: "take (length m) (drop 4 (set_uint32 (length m) @ m @ frame_payload f)) = m"
      "drop (4 + length m) (set_uint32 (length m) @ m @ frame_payload f) = frame_payload f"
      by (simp_all add: length_set_uint32)
    have "utf8_decode m = Some (print (metadata_value f))" by (simp add: m_def utf8_round_trip)
    with d BinaryFrame json_parse_print [OF metadata_plain, of f] show ?thesis
      by (simp add: decodeTunnelFrame_def data_size_def delivered_def get_set_uint32 [OF m] parts decode_metadata_value
          length_set_uint32 Let_def)
  qed
  moreover have "other = frame" if "delivered other = delivered frame" for other
    using that received_inj by (cases other; cases frame) (auto simp: delivered_def)
  ultimately show ?thesis by blast
qed

lemma sample_frame_encoded:
  "\<exists>data. encodeTunnelFrame 262144 (BinaryFrame (BodyChunk ''a-1'' RequestBody [1, 255])) = Inr data"
  by (simp add: encodeTunnelFrame_def metadata_value_def tunnel_direction_name_def utf8_encode_length Let_def frame_payload_def length_set_uint32
      named_entries quote_def escape_char_def short_escape_def utf8_length_def)

lemma tunnel_frame_round_trip_witness:
  "\<exists>data. decodeTunnelFrame 262144 data = Inr (DecodedBinary (BodyChunk ''a-1'' RequestBody [1, 255]))"
proof -
  obtain data where "encodeTunnelFrame 262144 (BinaryFrame (BodyChunk ''a-1'' RequestBody [1, 255])) = Inr data"
    using sample_frame_encoded by blast
  from tunnel_frame_round_trip [OF this] show ?thesis by (auto simp: delivered_def)
qed

end
