(* ===== verification/Tunnel_Outbound.thy ===== *)
theory Tunnel_Outbound
  imports Tunnel_Codec
begin

text \<open>
  \<open>agent-remote-tunnel/src/outbound.ts\<close>: the send queue of a tunnel peer. Control frames go before
  payload frames; a frame is handed to the socket when the bytes in flight leave room for it, and
  payloads leave a reserve for control frames. \<open>socket.send\<close> and \<open>socket.bufferedAmount\<close> are the
  reply of the socket at each turn of the loop (an argument, indexed by the turn); the completion
  of a send, the abort of a signal and the polling timer are events. A pending frame is known by a
  number, its signal by the stream it belongs to. Only payloads have a promise: \<open>ob_issued\<close> are the
  promises handed out, \<open>ob_settled\<close> records how each was settled (a promise settles once) and
  \<open>ob_sent\<close> what the socket was given, in order.
\<close>

section \<open>State\<close>

record pending_frame =
  pf_id :: nat
  pf_data :: tunnel_data
  pf_bytes :: nat
  pf_payload :: bool
  pf_signal :: "string option"

record socket_reply =
  sr_buffered :: nat
  sr_error :: "js_error option"

record outbound =
  ob_controls :: "pending_frame list"
  ob_payloads :: "pending_frame list"
  ob_sending :: "pending_frame list"
  ob_controlBytes :: int
  ob_sendingBytes :: int
  ob_failure :: "js_error option"
  ob_polling :: bool
  ob_payloadLimit :: nat
  ob_maxFrameBytes :: nat
  ob_maxQueuedBytes :: nat
  ob_next :: nat
  ob_turn :: nat
  ob_sent :: "pending_frame list"
  ob_issued :: "nat list"
  ob_settled :: "(nat, unit js_result) jmap"

definition new_outbound :: "nat \<Rightarrow> nat \<Rightarrow> outbound" where
  "new_outbound maxFrameBytes maxQueuedBytes =
     \<lparr>ob_controls = [], ob_payloads = [], ob_sending = [], ob_controlBytes = 0, ob_sendingBytes = 0, ob_failure = None,
      ob_polling = False, ob_payloadLimit = max maxFrameBytes (maxQueuedBytes - min 65536 (maxQueuedBytes div 4)),
      ob_maxFrameBytes = maxFrameBytes, ob_maxQueuedBytes = maxQueuedBytes, ob_next = 0, ob_turn = 0, ob_sent = [], ob_issued = [], ob_settled = []\<rparr>"

definition tunnel_error :: "string \<Rightarrow> string \<Rightarrow> js_error" where
  "tunnel_error code message = Thrown TunnelErrorClass code message"

section \<open>Settling promises\<close>

text \<open>A control frame has no promise; a promise that is settled stays as it is.\<close>

definition settle_frame :: "pending_frame \<Rightarrow> unit js_result \<Rightarrow> outbound \<Rightarrow> outbound" where
  "settle_frame item r s =
     (if pf_payload item \<and> jget (ob_settled s) (pf_id item) = None
      then s\<lparr>ob_settled := jset (ob_settled s) (pf_id item) r\<rparr> else s)"

definition settle_frames :: "unit js_result \<Rightarrow> pending_frame list \<Rightarrow> outbound \<Rightarrow> outbound" where
  "settle_frames r items s = foldl (\<lambda>s item. settle_frame item r s) s items"

definition close_outbound :: "js_error \<Rightarrow> outbound \<Rightarrow> outbound" where
  "close_outbound e s =
     (case ob_failure s of
        Some _ \<Rightarrow> s
      | None \<Rightarrow>
          (settle_frames (Inl e) (ob_controls s @ ob_payloads s @ ob_sending s)
             (s\<lparr>ob_failure := Some e, ob_polling := False\<rparr>))
          \<lparr>ob_controls := [], ob_payloads := [], ob_controlBytes := 0, ob_sending := [], ob_sendingBytes := 0\<rparr>)"

text \<open>A send that fails ends the queue; the owner of the queue is told by \<open>ob_failure\<close>.\<close>

definition fail_send :: "pending_frame \<Rightarrow> js_error \<Rightarrow> outbound \<Rightarrow> outbound" where
  "fail_send item e s =
     (if item \<in> set (ob_sending s) then
        close_outbound e (settle_frame item (Inl e)
          (s\<lparr>ob_sending := remove1 item (ob_sending s), ob_sendingBytes := ob_sendingBytes s - int (pf_bytes item)\<rparr>))
      else s)"

section \<open>The sending loop\<close>

definition next_frame :: "outbound \<Rightarrow> (bool \<times> pending_frame) option" where
  "next_frame s =
     (case ob_controls s of
        item # _ \<Rightarrow> Some (True, item)
      | [] \<Rightarrow> (case ob_payloads s of item # _ \<Rightarrow> Some (False, item) | [] \<Rightarrow> None))"

definition frame_fits :: "socket_reply \<Rightarrow> bool \<Rightarrow> pending_frame \<Rightarrow> outbound \<Rightarrow> bool" where
  "frame_fits reply control item s \<longleftrightarrow>
     max (ob_sendingBytes s) (int (sr_buffered reply)) + int (pf_bytes item)
       \<le> int (if control then ob_maxQueuedBytes s else ob_payloadLimit s)"

definition take_frame :: "bool \<Rightarrow> pending_frame \<Rightarrow> outbound \<Rightarrow> outbound" where
  "take_frame control item s =
     (let s = (if control then s\<lparr>ob_controls := tl (ob_controls s), ob_controlBytes := ob_controlBytes s - int (pf_bytes item)\<rparr>
               else s\<lparr>ob_payloads := tl (ob_payloads s)\<rparr>)
      in s\<lparr>ob_sending := ob_sending s @ [item], ob_sendingBytes := ob_sendingBytes s + int (pf_bytes item),
           ob_sent := ob_sent s @ [item], ob_turn := Suc (ob_turn s)\<rparr>)"

definition wait_for_room :: "outbound \<Rightarrow> outbound" where
  "wait_for_room s = s\<lparr>ob_polling := ob_polling s \<or> ob_sending s = [], ob_turn := Suc (ob_turn s)\<rparr>"

definition queued_frames :: "outbound \<Rightarrow> nat" where
  "queued_frames s = length (ob_controls s) + length (ob_payloads s)"

function send_loop :: "(nat \<Rightarrow> socket_reply) \<Rightarrow> outbound \<Rightarrow> outbound" where
  "send_loop socket s =
     (case next_frame s of
        None \<Rightarrow> s
      | Some (control, item) \<Rightarrow>
          let reply = socket (ob_turn s) in
          if \<not> frame_fits reply control item s then wait_for_room s
          else (case sr_error reply of
              Some e \<Rightarrow> fail_send item e (take_frame control item s)
            | None \<Rightarrow> send_loop socket (take_frame control item s)))"
  by pat_completeness auto

lemma take_frame_queued: "next_frame s = Some (c, item) \<Longrightarrow> queued_frames (take_frame c item s) < queued_frames s"
  by (auto simp: next_frame_def take_frame_def queued_frames_def Let_def split: list.splits)

termination send_loop
  by (relation "measure (\<lambda>(_, s). queued_frames s)") (auto simp: take_frame_queued)

declare send_loop.simps [simp del]

definition drain_outbound :: "(nat \<Rightarrow> socket_reply) \<Rightarrow> outbound \<Rightarrow> outbound" where
  "drain_outbound socket s =
     (if ob_failure s \<noteq> None then s
      else let s = send_loop socket s in
        if ob_controls s = [] \<and> ob_payloads s = [] then s\<lparr>ob_polling := False\<rparr> else s)"

section \<open>Operations\<close>

definition encode_frame :: "bool \<Rightarrow> tunnel_frame \<Rightarrow> string option \<Rightarrow> outbound \<Rightarrow> pending_frame js_result" where
  "encode_frame payload frame signal s =
     map_sum id (\<lambda>d. \<lparr>pf_id = ob_next s, pf_data = d, pf_bytes = data_size d, pf_payload = payload, pf_signal = signal\<rparr>)
       (encodeTunnelFrame (ob_maxFrameBytes s) frame)"

definition send_control :: "(nat \<Rightarrow> socket_reply) \<Rightarrow> tunnel_frame \<Rightarrow> string option \<Rightarrow> bool \<Rightarrow> outbound \<Rightarrow> js_error option \<times> outbound" where
  "send_control socket frame signal aborted s =
     (if aborted then (None, s)
      else case ob_failure s of
        Some e \<Rightarrow> (Some e, s)
      | None \<Rightarrow>
          (case encode_frame False frame signal s of
             Inl e \<Rightarrow> (Some e, s)
           | Inr item \<Rightarrow>
               if int (ob_maxQueuedBytes s) < ob_controlBytes s + int (pf_bytes item)
               then (Some (tunnel_error ''backpressure'' ''Tunnel control queue is full.''), s)
               else (None, drain_outbound socket
                       (s\<lparr>ob_controlBytes := ob_controlBytes s + int (pf_bytes item), ob_controls := ob_controls s @ [item],
                          ob_next := Suc (ob_next s)\<rparr>))))"

text \<open>The promise of a payload: refused at once, or pending under a number.\<close>

definition send_payload :: "(nat \<Rightarrow> socket_reply) \<Rightarrow> tunnel_frame \<Rightarrow> string \<Rightarrow> bool \<Rightarrow> outbound \<Rightarrow> nat js_result \<times> outbound" where
  "send_payload socket frame signal aborted s =
     (case ob_failure s of
        Some e \<Rightarrow> (Inl e, s)
      | None \<Rightarrow>
          if aborted then (Inl (tunnel_error ''cancelled'' ''Tunnel stream ended.''), s)
          else (case encode_frame True frame (Some signal) s of
              Inl e \<Rightarrow> (Inl e, s)
            | Inr item \<Rightarrow>
                (Inr (pf_id item), drain_outbound socket
                   (s\<lparr>ob_payloads := ob_payloads s @ [item], ob_next := Suc (ob_next s), ob_issued := ob_issued s @ [pf_id item]\<rparr>))))"

definition complete_send :: "(nat \<Rightarrow> socket_reply) \<Rightarrow> pending_frame \<Rightarrow> js_error option \<Rightarrow> outbound \<Rightarrow> outbound" where
  "complete_send socket item failure s =
     (case failure of
        Some e \<Rightarrow> fail_send item e s
      | None \<Rightarrow>
          if item \<in> set (ob_sending s) then
            drain_outbound socket (settle_frame item (Inr ())
              (s\<lparr>ob_sending := remove1 item (ob_sending s), ob_sendingBytes := ob_sendingBytes s - int (pf_bytes item)\<rparr>))
          else s)"

text \<open>
  The listener a frame has on its signal: it leaves the queue it waits in, a payload is refused, and
  the loop runs. A frame the socket already has stays there; its listener was removed when its send
  completed or the queue closed.
\<close>

definition abort_control :: "(nat \<Rightarrow> socket_reply) \<Rightarrow> pending_frame \<Rightarrow> outbound \<Rightarrow> outbound" where
  "abort_control socket item s =
     drain_outbound socket
       (if item \<in> set (ob_controls s)
        then s\<lparr>ob_controls := remove1 item (ob_controls s), ob_controlBytes := ob_controlBytes s - int (pf_bytes item)\<rparr>
        else s)"

definition abort_payload :: "(nat \<Rightarrow> socket_reply) \<Rightarrow> pending_frame \<Rightarrow> outbound \<Rightarrow> outbound" where
  "abort_payload socket item s =
     drain_outbound socket
       (settle_frame item (Inl (tunnel_error ''cancelled'' ''Tunnel stream ended.''))
          (s\<lparr>ob_payloads := remove1 item (ob_payloads s)\<rparr>))"

definition abort_frame :: "(nat \<Rightarrow> socket_reply) \<Rightarrow> pending_frame \<Rightarrow> outbound \<Rightarrow> outbound" where
  "abort_frame socket item s = (if pf_payload item then abort_payload else abort_control) socket item s"

definition poll_outbound :: "(nat \<Rightarrow> socket_reply) \<Rightarrow> outbound \<Rightarrow> outbound" where
  "poll_outbound socket s = drain_outbound socket (s\<lparr>ob_polling := False\<rparr>)"

datatype outbound_event =
    SendControl tunnel_frame "string option" bool
  | SendPayload tunnel_frame string bool
  | SendCompleted pending_frame "js_error option"
  | SignalAborted pending_frame
  | PollFired
  | CloseOutbound js_error

fun outbound_step :: "(nat \<Rightarrow> socket_reply) \<Rightarrow> outbound \<Rightarrow> outbound_event \<Rightarrow> outbound" where
  "outbound_step socket s (SendControl f signal aborted) = snd (send_control socket f signal aborted s)"
| "outbound_step socket s (SendPayload f signal aborted) = snd (send_payload socket f signal aborted s)"
| "outbound_step socket s (SendCompleted item failure) = complete_send socket item failure s"
| "outbound_step socket s (SignalAborted item) =
     (if item \<in> set (ob_controls s @ ob_payloads s @ ob_sending s) then abort_frame socket item s else s)"
| "outbound_step socket s PollFired = (if ob_polling s then poll_outbound socket s else s)"
| "outbound_step socket s (CloseOutbound e) = close_outbound e s"


section \<open>The invariant\<close>

definition frame_bytes :: "pending_frame list \<Rightarrow> int" where
  "frame_bytes items = sum_list (map (\<lambda>f. int (pf_bytes f)) items)"

definition in_order :: "pending_frame list \<Rightarrow> bool" where
  "in_order items \<longleftrightarrow> sorted_wrt (<) (map pf_id items)"

definition of_class :: "bool \<Rightarrow> pending_frame list \<Rightarrow> pending_frame list" where
  "of_class payload items = filter (\<lambda>f. pf_payload f = payload) items"

definition promise_kept :: "outbound \<Rightarrow> nat \<Rightarrow> bool" where
  "promise_kept s i \<longleftrightarrow> jhas (ob_settled s) i \<or> (\<exists>f \<in> set (ob_payloads s) \<union> set (ob_sending s). pf_payload f \<and> pf_id f = i)"

definition queue_ok :: "outbound \<Rightarrow> bool" where
  "queue_ok s \<longleftrightarrow>
     ob_controlBytes s = frame_bytes (ob_controls s) \<and> ob_sendingBytes s = frame_bytes (ob_sending s)
     \<and> ob_controlBytes s \<le> int (ob_maxQueuedBytes s)
     \<and> ob_sendingBytes s \<le> int (max (ob_maxQueuedBytes s) (ob_payloadLimit s))
     \<and> in_order (of_class False (ob_sent s) @ ob_controls s) \<and> in_order (of_class True (ob_sent s) @ ob_payloads s)
     \<and> (\<forall>f \<in> set (ob_sent s) \<union> set (ob_controls s) \<union> set (ob_payloads s). pf_id f < ob_next s)
     \<and> (\<forall>f \<in> set (ob_controls s). \<not> pf_payload f) \<and> (\<forall>f \<in> set (ob_payloads s). pf_payload f)
     \<and> (ob_failure s \<noteq> None \<longrightarrow> ob_controls s = [] \<and> ob_payloads s = [] \<and> ob_sending s = [] \<and> \<not> ob_polling s)
     \<and> (\<forall>i \<in> set (ob_issued s). promise_kept s i)"

definition awake :: "outbound \<Rightarrow> bool" where
  "awake s \<longleftrightarrow> (ob_controls s = [] \<and> ob_payloads s = []) \<or> ob_sending s \<noteq> [] \<or> ob_polling s"

lemma queue_okI:
  assumes "ob_controlBytes s = frame_bytes (ob_controls s)" "ob_sendingBytes s = frame_bytes (ob_sending s)"
    "ob_controlBytes s \<le> int (ob_maxQueuedBytes s)" "ob_sendingBytes s \<le> int (max (ob_maxQueuedBytes s) (ob_payloadLimit s))"
    "in_order (of_class False (ob_sent s) @ ob_controls s)" "in_order (of_class True (ob_sent s) @ ob_payloads s)"
    "\<And>f. f \<in> set (ob_sent s) \<union> set (ob_controls s) \<union> set (ob_payloads s) \<Longrightarrow> pf_id f < ob_next s"
    "\<And>f. f \<in> set (ob_controls s) \<Longrightarrow> \<not> pf_payload f" "\<And>f. f \<in> set (ob_payloads s) \<Longrightarrow> pf_payload f"
    "ob_failure s \<noteq> None \<Longrightarrow> ob_controls s = [] \<and> ob_payloads s = [] \<and> ob_sending s = [] \<and> \<not> ob_polling s"
    "\<And>i. i \<in> set (ob_issued s) \<Longrightarrow> promise_kept s i"
  shows "queue_ok s"
  using assms unfolding queue_ok_def by blast

lemma queue_okD:
  assumes "queue_ok s"
  shows "ob_controlBytes s = frame_bytes (ob_controls s)" "ob_sendingBytes s = frame_bytes (ob_sending s)"
    "ob_controlBytes s \<le> int (ob_maxQueuedBytes s)" "ob_sendingBytes s \<le> int (max (ob_maxQueuedBytes s) (ob_payloadLimit s))"
    "in_order (of_class False (ob_sent s) @ ob_controls s)" "in_order (of_class True (ob_sent s) @ ob_payloads s)"
    "\<And>f. f \<in> set (ob_sent s) \<Longrightarrow> pf_id f < ob_next s" "\<And>f. f \<in> set (ob_controls s) \<Longrightarrow> pf_id f < ob_next s"
    "\<And>f. f \<in> set (ob_payloads s) \<Longrightarrow> pf_id f < ob_next s"
    "\<And>f. f \<in> set (ob_controls s) \<Longrightarrow> \<not> pf_payload f" "\<And>f. f \<in> set (ob_payloads s) \<Longrightarrow> pf_payload f"
    "ob_failure s \<noteq> None \<Longrightarrow> ob_controls s = [] \<and> ob_payloads s = [] \<and> ob_sending s = [] \<and> \<not> ob_polling s"
    "\<And>i. i \<in> set (ob_issued s) \<Longrightarrow> promise_kept s i"
  using assms unfolding queue_ok_def by blast+

lemma frame_bytes_simps [simp]:
  "frame_bytes [] = 0" "frame_bytes (f # fs) = int (pf_bytes f) + frame_bytes fs" "frame_bytes (fs @ gs) = frame_bytes fs + frame_bytes gs"
  by (simp_all add: frame_bytes_def)

lemma frame_bytes_nonneg: "0 \<le> frame_bytes fs"
  unfolding frame_bytes_def by (rule sum_list_nonneg) auto

lemma frame_bytes_remove: "f \<in> set fs \<Longrightarrow> frame_bytes (remove1 f fs) = frame_bytes fs - int (pf_bytes f)"
  by (induction fs) auto

lemma of_class_simps [simp]:
  "of_class p [] = []" "of_class p (f # fs) = (if pf_payload f = p then f # of_class p fs else of_class p fs)"
  "of_class p (fs @ gs) = of_class p fs @ of_class p gs" "set (of_class p fs) = {f \<in> set fs. pf_payload f = p}"
  by (auto simp: of_class_def)

lemma in_order_snoc: "in_order (fs @ [f]) \<longleftrightarrow> in_order fs \<and> (\<forall>g \<in> set fs. pf_id g < pf_id f)"
  by (auto simp: in_order_def sorted_wrt_append)

lemma in_order_remove: "in_order (fs @ gs) \<Longrightarrow> in_order (fs @ remove1 g gs)"
proof -
  have "sorted_wrt (<) (map pf_id gs) \<Longrightarrow> sorted_wrt (<) (map pf_id (remove1 g gs))"
    by (induction gs) (auto dest: notin_set_remove1 [rotated] set_remove1_subset [THEN subsetD])
  then show "in_order (fs @ gs) \<Longrightarrow> in_order (fs @ remove1 g gs)"
    by (auto simp: in_order_def sorted_wrt_append dest: set_remove1_subset [THEN subsetD])
qed

text \<open>Settling promises touches nothing else and loses no promise.\<close>

lemma settle_frame_fields [simp]:
  "ob_controls (settle_frame f r s) = ob_controls s" "ob_payloads (settle_frame f r s) = ob_payloads s"
  "ob_sending (settle_frame f r s) = ob_sending s" "ob_controlBytes (settle_frame f r s) = ob_controlBytes s"
  "ob_sendingBytes (settle_frame f r s) = ob_sendingBytes s" "ob_failure (settle_frame f r s) = ob_failure s"
  "ob_polling (settle_frame f r s) = ob_polling s" "ob_payloadLimit (settle_frame f r s) = ob_payloadLimit s"
  "ob_maxFrameBytes (settle_frame f r s) = ob_maxFrameBytes s" "ob_maxQueuedBytes (settle_frame f r s) = ob_maxQueuedBytes s"
  "ob_next (settle_frame f r s) = ob_next s" "ob_turn (settle_frame f r s) = ob_turn s"
  "ob_sent (settle_frame f r s) = ob_sent s" "ob_issued (settle_frame f r s) = ob_issued s"
  by (simp_all add: settle_frame_def)

lemma settle_frame_has: "jhas (ob_settled (settle_frame f r s)) i \<longleftrightarrow> jhas (ob_settled s) i \<or> pf_payload f \<and> pf_id f = i"
  by (auto simp: settle_frame_def)

lemma settle_frame_keeps: "jget (ob_settled s) i = Some r' \<Longrightarrow> jget (ob_settled (settle_frame f r s)) i = Some r'"
  by (auto simp: settle_frame_def)

lemma settle_frames_fields [simp]:
  "ob_controls (settle_frames r fs s) = ob_controls s" "ob_payloads (settle_frames r fs s) = ob_payloads s"
  "ob_sending (settle_frames r fs s) = ob_sending s" "ob_controlBytes (settle_frames r fs s) = ob_controlBytes s"
  "ob_sendingBytes (settle_frames r fs s) = ob_sendingBytes s" "ob_failure (settle_frames r fs s) = ob_failure s"
  "ob_polling (settle_frames r fs s) = ob_polling s" "ob_payloadLimit (settle_frames r fs s) = ob_payloadLimit s"
  "ob_maxFrameBytes (settle_frames r fs s) = ob_maxFrameBytes s" "ob_maxQueuedBytes (settle_frames r fs s) = ob_maxQueuedBytes s"
  "ob_next (settle_frames r fs s) = ob_next s" "ob_turn (settle_frames r fs s) = ob_turn s"
  "ob_sent (settle_frames r fs s) = ob_sent s" "ob_issued (settle_frames r fs s) = ob_issued s"
  by (induction fs arbitrary: s) (simp_all add: settle_frames_def)

lemma settle_frames_has:
  "jhas (ob_settled (settle_frames r fs s)) i \<longleftrightarrow> jhas (ob_settled s) i \<or> (\<exists>f \<in> set fs. pf_payload f \<and> pf_id f = i)"
proof (induction fs arbitrary: s)
  case (Cons f fs)
  have "settle_frames r (f # fs) s = settle_frames r fs (settle_frame f r s)" by (simp add: settle_frames_def)
  then show ?case by (simp only: Cons.IH settle_frame_has) auto
qed (simp add: settle_frames_def)

lemma settle_frames_keeps: "jget (ob_settled s) i = Some r' \<Longrightarrow> jget (ob_settled (settle_frames r fs s)) i = Some r'"
  by (induction fs arbitrary: s) (simp_all add: settle_frames_def settle_frame_keeps)

lemma new_outbound_ok: "queue_ok (new_outbound frame queued) \<and> awake (new_outbound frame queued)"
  by (simp add: queue_ok_def awake_def new_outbound_def in_order_def)

lemma close_outbound_ok: "queue_ok s \<Longrightarrow> queue_ok (close_outbound e s)"
proof (cases "ob_failure s")
  case None
  assume "queue_ok s"
  note ok = queue_okD [OF this]
  show ?thesis
  proof (rule queue_okI)
    fix i assume "i \<in> set (ob_issued (close_outbound e s))"
    with None have "promise_kept s i" using ok(13) by (simp add: close_outbound_def)
    then show "promise_kept (close_outbound e s) i"
      using None by (simp add: promise_kept_def close_outbound_def settle_frames_has del: not_None_eq) blast
  next
    fix f assume "f \<in> set (ob_sent (close_outbound e s)) \<union> set (ob_controls (close_outbound e s)) \<union> set (ob_payloads (close_outbound e s))"
    with None ok(7) show "pf_id f < ob_next (close_outbound e s)" by (simp add: close_outbound_def)
  qed (use None ok(5,6) in \<open>auto simp: close_outbound_def in_order_def sorted_wrt_append\<close>)
qed (simp add: close_outbound_def)

lemma close_awake: "queue_ok s \<Longrightarrow> awake (close_outbound e s)"
  by (cases "ob_failure s") (simp_all add: close_outbound_def awake_def queue_ok_def)

lemma next_frameE:
  assumes "next_frame s = Some (c, item)"
  obtains (control) rest where "c" "ob_controls s = item # rest"
    | (payload) rest where "\<not> c" "ob_controls s = []" "ob_payloads s = item # rest"
  using assms by (auto simp: next_frame_def split: list.splits)

lemma take_frame_ok:
  assumes "queue_ok s" "next_frame s = Some (c, item)" "frame_fits reply c item s" "ob_failure s = None"
  shows "queue_ok (take_frame c item s)"
  using assms(2)
proof (cases rule: next_frameE)
  case (control rest)
  note ok = queue_okD [OF assms(1)]
  show ?thesis
  proof (rule queue_okI)
    fix i assume "i \<in> set (ob_issued (take_frame c item s))"
    with ok(13) [of i] control show "promise_kept (take_frame c item s) i" by (auto simp: take_frame_def promise_kept_def Let_def)
  qed (use control ok(1-10) assms(3,4) frame_bytes_nonneg [of rest] in \<open>auto simp: take_frame_def Let_def frame_fits_def ok(11) in_order_def\<close>)
next
  case (payload rest)
  note ok = queue_okD [OF assms(1)]
  show ?thesis
  proof (rule queue_okI)
    fix i assume "i \<in> set (ob_issued (take_frame c item s))"
    with ok(13) [of i] payload show "promise_kept (take_frame c item s) i" by (auto simp: take_frame_def promise_kept_def Let_def)
  qed (use payload ok(1-10) ok(11) [of item] ok(11) assms(3,4) in \<open>auto simp: take_frame_def Let_def frame_fits_def in_order_def\<close>)
qed


lemma take_frame_fields [simp]:
  "ob_failure (take_frame c item s) = ob_failure s" "ob_polling (take_frame c item s) = ob_polling s"
  "ob_settled (take_frame c item s) = ob_settled s" "ob_issued (take_frame c item s) = ob_issued s"
  "ob_next (take_frame c item s) = ob_next s" "ob_maxQueuedBytes (take_frame c item s) = ob_maxQueuedBytes s"
  "ob_payloadLimit (take_frame c item s) = ob_payloadLimit s" "ob_maxFrameBytes (take_frame c item s) = ob_maxFrameBytes s"
  "ob_sending (take_frame c item s) = ob_sending s @ [item]"
  by (simp_all add: take_frame_def Let_def)

lemma promise_settled:
  assumes "promise_kept s i" "ob_settled t = ob_settled s"
    and "\<And>f. f \<in> set (ob_payloads s) \<union> set (ob_sending s) \<Longrightarrow> f \<noteq> item \<Longrightarrow> f \<in> set (ob_payloads t) \<union> set (ob_sending t)"
  shows "promise_kept (settle_frame item r t) i"
proof (cases "jhas (ob_settled s) i")
  case True
  then show ?thesis using assms(2) unfolding promise_kept_def settle_frame_has by simp
next
  case False
  with assms(1) obtain f where f: "f \<in> set (ob_payloads s) \<union> set (ob_sending s)" "pf_payload f" "pf_id f = i"
    unfolding promise_kept_def by blast
  show ?thesis
  proof (cases "f = item")
    case True
    with f show ?thesis unfolding promise_kept_def settle_frame_has by simp
  next
    case False
    from assms(3) [OF f(1) False] f(2,3) show ?thesis unfolding promise_kept_def by auto
  qed
qed

lemma leave_sending_ok:
  assumes "queue_ok s" "item \<in> set (ob_sending s)"
  shows "queue_ok (settle_frame item r (s\<lparr>ob_sending := remove1 item (ob_sending s), ob_sendingBytes := ob_sendingBytes s - int (pf_bytes item)\<rparr>))"
proof -
  note ok = queue_okD [OF assms(1)]
  show ?thesis
  proof (rule queue_okI)
    fix i assume "i \<in> set (ob_issued (settle_frame item r (s\<lparr>ob_sending := remove1 item (ob_sending s), ob_sendingBytes := ob_sendingBytes s - int (pf_bytes item)\<rparr>)))"
    then have "promise_kept s i" using ok(13) by simp
    then show "promise_kept (settle_frame item r (s\<lparr>ob_sending := remove1 item (ob_sending s), ob_sendingBytes := ob_sendingBytes s - int (pf_bytes item)\<rparr>)) i"
      by (rule promise_settled) auto
  qed (use ok(1-12) assms(2) in \<open>auto simp: frame_bytes_remove\<close>)
qed

lemma fail_send_ok: "queue_ok s \<Longrightarrow> queue_ok (fail_send item e s)"
  using leave_sending_ok close_outbound_ok by (simp add: fail_send_def)

lemma fail_send_awake: "queue_ok s \<Longrightarrow> item \<in> set (ob_sending s) \<Longrightarrow> awake (fail_send item e s)"
  using leave_sending_ok close_awake by (simp add: fail_send_def)

lemma wait_for_room_ok: "queue_ok s \<Longrightarrow> ob_failure s = None \<Longrightarrow> queue_ok (wait_for_room s)"
  by (simp add: queue_ok_def wait_for_room_def promise_kept_def)

lemma send_loop_ok: "queue_ok s \<Longrightarrow> ob_failure s = None \<Longrightarrow> queue_ok (send_loop socket s) \<and> awake (send_loop socket s)"
proof (induction socket s rule: send_loop.induct)
  case (1 socket s)
  show ?case
  proof (cases "next_frame s")
    case None
    with 1 show ?thesis by (subst (1 2) send_loop.simps) (auto simp: awake_def next_frame_def split: list.splits)
  next
    case (Some p)
    then obtain c item where n: "next_frame s = Some (c, item)" by (cases p) auto
    show ?thesis
    proof (cases "frame_fits (socket (ob_turn s)) c item s")
      case False
      with n 1(2,3) show ?thesis
        by (subst (1 2) send_loop.simps) (simp add: Let_def wait_for_room_ok, simp add: awake_def wait_for_room_def)
    next
      case fits: True
      from take_frame_ok [OF 1(2) n fits 1(3)] have ok: "queue_ok (take_frame c item s)" .
      show ?thesis
      proof (cases "sr_error (socket (ob_turn s))")
        case None
        with 1(1) [OF n refl refl] fits ok 1(3) n show ?thesis
          by (subst (1 2) send_loop.simps) (simp add: Let_def)
      next
        case (Some e)
        with n fits fail_send_ok [OF ok] fail_send_awake [OF ok] show ?thesis
          by (subst (1 2) send_loop.simps) (simp add: Let_def)
      qed
    qed
  qed
qed

lemma drain_ok: "queue_ok s \<Longrightarrow> queue_ok (drain_outbound socket s) \<and> awake (drain_outbound socket s)"
proof (cases "ob_failure s")
  case None
  assume "queue_ok s"
  from send_loop_ok [OF this None, of socket] None show ?thesis
    by (auto simp: drain_outbound_def Let_def queue_ok_def awake_def promise_kept_def)
next
  case (Some e)
  assume "queue_ok s"
  with Some queue_okD(12) [OF this] show ?thesis by (simp add: drain_outbound_def awake_def)
qed

lemma queue_control_ok:
  assumes "queue_ok s" "encode_frame False frame signal s = Inr item" "ob_failure s = None"
    "ob_controlBytes s + int (pf_bytes item) \<le> int (ob_maxQueuedBytes s)"
  shows "queue_ok (s\<lparr>ob_controlBytes := ob_controlBytes s + int (pf_bytes item), ob_controls := ob_controls s @ [item], ob_next := Suc (ob_next s)\<rparr>)"
proof -
  note ok = queue_okD [OF assms(1)]
  from assms(2) have item: "pf_id item = ob_next s" "\<not> pf_payload item"
    by (auto simp: encode_frame_def split: sum.splits) (cases "encodeTunnelFrame (ob_maxFrameBytes s) frame"; auto)+
  show ?thesis
  proof (rule queue_okI)
    show "in_order (of_class False (ob_sent (s\<lparr>ob_controlBytes := ob_controlBytes s + int (pf_bytes item), ob_controls := ob_controls s @ [item], ob_next := Suc (ob_next s)\<rparr>)) @
      ob_controls (s\<lparr>ob_controlBytes := ob_controlBytes s + int (pf_bytes item), ob_controls := ob_controls s @ [item], ob_next := Suc (ob_next s)\<rparr>))"
      using ok(5,7,8) item by (auto simp: append_assoc [symmetric] in_order_snoc simp del: append_assoc)
  qed (use ok assms(3,4) item in \<open>auto simp: promise_kept_def less_Suc_eq\<close>)
qed

lemma queue_payload_ok:
  assumes "queue_ok s" "encode_frame True frame signal s = Inr item" "ob_failure s = None"
  shows "queue_ok (s\<lparr>ob_payloads := ob_payloads s @ [item], ob_next := Suc (ob_next s), ob_issued := ob_issued s @ [pf_id item]\<rparr>)"
proof -
  note ok = queue_okD [OF assms(1)]
  from assms(2) have item: "pf_id item = ob_next s" "pf_payload item"
    by (auto simp: encode_frame_def split: sum.splits) (cases "encodeTunnelFrame (ob_maxFrameBytes s) frame"; auto)+
  show ?thesis
  proof (rule queue_okI)
    show "in_order (of_class True (ob_sent (s\<lparr>ob_payloads := ob_payloads s @ [item], ob_next := Suc (ob_next s), ob_issued := ob_issued s @ [pf_id item]\<rparr>)) @
      ob_payloads (s\<lparr>ob_payloads := ob_payloads s @ [item], ob_next := Suc (ob_next s), ob_issued := ob_issued s @ [pf_id item]\<rparr>))"
      using ok(6,7,9) item by (auto simp: append_assoc [symmetric] in_order_snoc simp del: append_assoc)
  next
    fix i assume "i \<in> set (ob_issued (s\<lparr>ob_payloads := ob_payloads s @ [item], ob_next := Suc (ob_next s), ob_issued := ob_issued s @ [pf_id item]\<rparr>))"
    then have "i = pf_id item \<or> promise_kept s i" using ok(13) by auto
    then show "promise_kept (s\<lparr>ob_payloads := ob_payloads s @ [item], ob_next := Suc (ob_next s), ob_issued := ob_issued s @ [pf_id item]\<rparr>) i"
      using item(2) by (auto simp: promise_kept_def)
  qed (use ok(1-12) assms(3) item in \<open>auto simp: less_Suc_eq\<close>)
qed

lemma drop_control_ok:
  assumes "queue_ok s" "item \<in> set (ob_controls s)"
  shows "queue_ok (s\<lparr>ob_controls := remove1 item (ob_controls s), ob_controlBytes := ob_controlBytes s - int (pf_bytes item)\<rparr>)"
  by (rule queue_okI) (use queue_okD [OF assms(1)] assms(2) in
    \<open>auto simp: frame_bytes_remove in_order_remove promise_kept_def dest: set_remove1_subset [THEN subsetD]\<close>)

lemma drop_payload_ok:
  assumes "queue_ok s" "pf_payload item"
  shows "queue_ok (settle_frame item r (s\<lparr>ob_payloads := remove1 item (ob_payloads s)\<rparr>))"
proof -
  note ok = queue_okD [OF assms(1)]
  show ?thesis
  proof (rule queue_okI)
    fix i assume "i \<in> set (ob_issued (settle_frame item r (s\<lparr>ob_payloads := remove1 item (ob_payloads s)\<rparr>)))"
    then have "promise_kept s i" using ok(13) by simp
    then show "promise_kept (settle_frame item r (s\<lparr>ob_payloads := remove1 item (ob_payloads s)\<rparr>)) i"
      by (rule promise_settled) auto
  qed (use ok(1-12) in \<open>auto simp: in_order_remove dest: set_remove1_subset [THEN subsetD]\<close>)
qed

lemma outbound_step_ok:
  assumes "queue_ok s \<and> awake s"
  shows "queue_ok (outbound_step socket s event) \<and> awake (outbound_step socket s event)"
proof (cases event)
  case (SendControl f signal aborted)
  with assms show ?thesis
    by (auto simp: send_control_def drain_ok queue_control_ok split: option.split sum.split)
next
  case (SendPayload f signal aborted)
  with assms show ?thesis
    by (auto simp: send_payload_def drain_ok queue_payload_ok split: option.split sum.split)
next
  case (SendCompleted item failure)
  with assms show ?thesis
    by (cases failure; cases "item \<in> set (ob_sending s)")
      (simp_all add: complete_send_def drain_ok leave_sending_ok fail_send_ok fail_send_awake, simp_all add: fail_send_def)
next
  case (SignalAborted item)
  have "queue_ok (abort_frame socket item s) \<and> awake (abort_frame socket item s)"
    using assms drop_control_ok [of s item] drop_payload_ok [of s item]
    by (auto simp: abort_frame_def abort_control_def abort_payload_def intro!: drain_ok)
  with assms SignalAborted show ?thesis by simp
next
  case PollFired
  have "queue_ok (s\<lparr>ob_polling := False\<rparr>)" using assms by (auto simp: queue_ok_def promise_kept_def)
  with PollFired assms show ?thesis by (simp add: poll_outbound_def drain_ok)
next
  case (CloseOutbound e)
  with assms show ?thesis by (simp add: close_outbound_ok close_awake)
qed

interpretation outbound_machine: machine "\<lambda>s. queue_ok s \<and> awake s" "outbound_step socket" for socket
  by unfold_locales (rule outbound_step_ok)

end
