(* ===== verification/Tunnel_Flow.thy ===== *)
theory Tunnel_Flow
  imports Tunnel_Outbound
begin

text \<open>
  The parts of \<open>agent-remote-tunnel/src/peer.ts\<close> that carry one stream: the credit window of a
  sender, the body receiver behind a \<open>ReadableStream\<close> and the local end of a WebSocket. A promise
  is cut where the code awaits: a task that waits for credit is a number in \<open>cw_waiters\<close>, one that
  was woken and has not run yet is in \<open>cw_woken\<close>. What a stream consumer or a listener gets is
  recorded in order.
\<close>

section \<open>Credit\<close>

record credit_window =
  cw_available :: int
  cw_waiters :: "nat list"
  cw_woken :: "nat list"
  cw_closed :: bool

definition new_credit :: credit_window where
  "new_credit = \<lparr>cw_available = 0, cw_waiters = [], cw_woken = [], cw_closed = False\<rparr>"

text \<open>
  A woken task runs only after \<open>grant\<close> has returned, so the loop wakes every waiter as soon as
  there is any credit.
\<close>

definition credit_grant :: "int \<Rightarrow> credit_window \<Rightarrow> credit_window" where
  "credit_grant bytes w =
     (let w = w\<lparr>cw_available := cw_available w + bytes\<rparr> in
      if 0 < cw_available w then w\<lparr>cw_waiters := [], cw_woken := cw_woken w @ cw_waiters w\<rparr> else w)"

datatype take_result = CreditTaken | CreditAwaited | CreditRefused js_error

text \<open>One pass of the loop in \<open>take\<close>, on entry and after each wake-up.\<close>

definition credit_take :: "nat \<Rightarrow> nat \<Rightarrow> credit_window \<Rightarrow> take_result \<times> credit_window" where
  "credit_take task bytes w =
     (let w = w\<lparr>cw_woken := removeAll task (cw_woken w)\<rparr> in
      if cw_available w < int bytes \<and> \<not> cw_closed w then (CreditAwaited, w\<lparr>cw_waiters := cw_waiters w @ [task]\<rparr>)
      else if cw_closed w then (CreditRefused (tunnel_error ''cancelled'' ''Tunnel stream ended.''), w)
      else (CreditTaken, w\<lparr>cw_available := cw_available w - int bytes\<rparr>))"

definition credit_close :: "credit_window \<Rightarrow> credit_window" where
  "credit_close w = w\<lparr>cw_closed := True, cw_waiters := [], cw_woken := cw_woken w @ cw_waiters w\<rparr>"

section \<open>Bodies\<close>

datatype stream_output = StreamChunk "byte list" | StreamClosed | StreamErrored js_error

record body_receiver =
  br_queue :: "byte list list"
  br_waiting :: bool
  br_ended :: bool
  br_failure :: "js_error option"
  br_queuedBytes :: int
  br_maxBytes :: nat
  br_output :: "stream_output list"

definition new_receiver :: "nat \<Rightarrow> body_receiver" where
  "new_receiver maxBytes =
     \<lparr>br_queue = [], br_waiting = False, br_ended = False, br_failure = None, br_queuedBytes = 0,
      br_maxBytes = maxBytes, br_output = []\<rparr>"

text \<open>\<open>pull\<close> and \<open>push\<close> report the bytes consumed, for which the receiver returns credit.\<close>

definition receiver_pull :: "body_receiver \<Rightarrow> nat option \<times> body_receiver" where
  "receiver_pull b =
     (case br_failure b of
        Some e \<Rightarrow> (None, b\<lparr>br_output := br_output b @ [StreamErrored e]\<rparr>)
      | None \<Rightarrow>
          (case br_queue b of
             chunk # rest \<Rightarrow>
               (Some (length chunk), b\<lparr>br_queue := rest, br_queuedBytes := br_queuedBytes b - int (length chunk),
                                       br_output := br_output b @ [StreamChunk chunk]\<rparr>)
           | [] \<Rightarrow>
               if br_ended b then (None, b\<lparr>br_output := br_output b @ [StreamClosed]\<rparr>)
               else (None, b\<lparr>br_waiting := True\<rparr>)))"

definition receiver_cancel :: "body_receiver \<Rightarrow> body_receiver" where
  "receiver_cancel b = b\<lparr>br_ended := True, br_queue := [], br_queuedBytes := 0, br_waiting := False\<rparr>"

definition receiver_push :: "byte list \<Rightarrow> body_receiver \<Rightarrow> (nat option \<times> body_receiver) js_result" where
  "receiver_push chunk b =
     (if br_ended b then Inl (tunnel_error ''state'' ''Body chunk arrived after end.'')
      else if br_waiting b
        then Inr (Some (length chunk), b\<lparr>br_waiting := False, br_output := br_output b @ [StreamChunk chunk]\<rparr>)
      else if int (br_maxBytes b) < br_queuedBytes b + int (length chunk)
        then Inl (tunnel_error ''backpressure'' ''Tunnel inbound body queue is full.'')
      else Inr (None, b\<lparr>br_queue := br_queue b @ [chunk], br_queuedBytes := br_queuedBytes b + int (length chunk)\<rparr>))"

definition receiver_close :: "body_receiver \<Rightarrow> body_receiver" where
  "receiver_close b =
     (let b = b\<lparr>br_ended := True\<rparr> in
      if br_waiting b then b\<lparr>br_waiting := False, br_output := br_output b @ [StreamClosed]\<rparr> else b)"

definition receiver_error :: "js_error \<Rightarrow> body_receiver \<Rightarrow> body_receiver" where
  "receiver_error e b =
     (let b = b\<lparr>br_failure := Some e, br_ended := True, br_queue := [], br_queuedBytes := 0\<rparr> in
      b\<lparr>br_waiting := False, br_output := br_output b @ (if br_waiting b then [StreamErrored e] else [])\<rparr>)"

text \<open>The chunks \<open>sendBody\<close> cuts a piece of a body into.\<close>

definition chunk_size :: "nat \<Rightarrow> nat \<Rightarrow> nat" where
  "chunk_size maxFrameBytes initialCreditBytes = min (maxFrameBytes - 512) initialCreditBytes"

function body_chunks :: "nat \<Rightarrow> byte list \<Rightarrow> byte list list" where
  "body_chunks width data = (if data = [] \<or> width = 0 then [] else take width data # body_chunks width (drop width data))"
  by pat_completeness auto

termination body_chunks
  by (relation "measure (\<lambda>(_, data). length data)") auto

declare body_chunks.simps [simp del]

section \<open>The local end of a WebSocket\<close>

text \<open>
  \<open>we_outgoing\<close> is the chain of messages that wait for their transmission, \<open>we_delivered\<close> what the
  message listeners were called with (with the number of listeners), \<open>we_closes\<close> what the close
  listeners were called with. An operation that terminates the socket returns the code and reason.
\<close>

record ws_endpoint =
  we_listeners :: nat
  we_closeListeners :: nat
  we_pending :: "(tunnel_data \<times> bool) list"
  we_pendingBytes :: int
  we_sendingBytes :: int
  we_outgoing :: "(tunnel_data \<times> bool) list"
  we_maxPendingBytes :: nat
  we_maxMessageBytes :: nat
  we_delivered :: "(tunnel_data \<times> bool) list"
  we_closes :: "(int \<times> string) list"

definition new_endpoint :: "nat \<Rightarrow> nat \<Rightarrow> ws_endpoint" where
  "new_endpoint maxPendingBytes maxMessageBytes =
     \<lparr>we_listeners = 0, we_closeListeners = 0, we_pending = [], we_pendingBytes = 0, we_sendingBytes = 0, we_outgoing = [],
      we_maxPendingBytes = maxPendingBytes, we_maxMessageBytes = maxMessageBytes, we_delivered = [], we_closes = []\<rparr>"

definition endpoint_send :: "tunnel_data \<Rightarrow> bool \<Rightarrow> ws_endpoint \<Rightarrow> (int \<times> string) option \<times> ws_endpoint" where
  "endpoint_send data binary e =
     (let bytes = data_size data in
      if we_maxMessageBytes e < bytes then (Some (1009, ''WebSocket message is too large''), e)
      else if int (we_maxPendingBytes e) < we_sendingBytes e + int bytes then (Some (1013, ''WebSocket sender is too fast''), e)
      else (None, e\<lparr>we_sendingBytes := we_sendingBytes e + int bytes, we_outgoing := we_outgoing e @ [(data, binary)]\<rparr>))"

definition endpoint_sent :: "bool \<Rightarrow> ws_endpoint \<Rightarrow> (int \<times> string) option \<times> ws_endpoint" where
  "endpoint_sent ok e =
     (case we_outgoing e of
        [] \<Rightarrow> (None, e)
      | m # rest \<Rightarrow>
          (if ok then None else Some (1011, ''WebSocket send failed''),
           e\<lparr>we_outgoing := rest, we_sendingBytes := we_sendingBytes e - int (data_size (fst m))\<rparr>))"

definition endpoint_listen :: "ws_endpoint \<Rightarrow> ws_endpoint" where
  "endpoint_listen e =
     e\<lparr>we_listeners := Suc (we_listeners e), we_delivered := we_delivered e @ we_pending e, we_pending := [], we_pendingBytes := 0\<rparr>"

definition endpoint_listen_close :: "ws_endpoint \<Rightarrow> ws_endpoint" where
  "endpoint_listen_close e = e\<lparr>we_closeListeners := Suc (we_closeListeners e)\<rparr>"

definition endpoint_receive :: "tunnel_data \<Rightarrow> bool \<Rightarrow> ws_endpoint \<Rightarrow> (int \<times> string) option \<times> ws_endpoint" where
  "endpoint_receive data binary e =
     (if 0 < we_listeners e then (None, e\<lparr>we_delivered := we_delivered e @ [(data, binary)]\<rparr>)
      else let bytes = data_size data in
        if int (we_maxPendingBytes e) < we_pendingBytes e + int bytes then (Some (1013, ''WebSocket consumer is too slow''), e)
        else (None, e\<lparr>we_pending := we_pending e @ [(data, binary)], we_pendingBytes := we_pendingBytes e + int bytes\<rparr>))"

definition endpoint_closed :: "int \<Rightarrow> string \<Rightarrow> ws_endpoint \<Rightarrow> ws_endpoint" where
  "endpoint_closed code reason e =
     e\<lparr>we_closes := we_closes e @ replicate (we_closeListeners e) (code, reason), we_listeners := 0, we_closeListeners := 0\<rparr>"

definition normalizeCloseCode :: "int \<Rightarrow> int" where
  "normalizeCloseCode code =
     (if code = 1000 \<or> 3000 \<le> code \<and> code \<le> 4999 \<or> 1001 \<le> code \<and> code \<le> 1014 \<and> code \<notin> {1004, 1005, 1006} then code else 1011)"

definition endpoint_close :: "int \<Rightarrow> string \<Rightarrow> int \<times> string" where
  "endpoint_close code reason = (normalizeCloseCode code, take 123 reason)"

end
