(* ===== verification/Tunnel_Flow_Properties.thy ===== *)
theory Tunnel_Flow_Properties
  imports Tunnel_Flow
begin

text \<open>
  One HTTP body on its way through the tunnel: the sender's loop (\<open>sendBody\<close>) takes credit for a
  chunk and sends it, the receiver queues it or hands it to the reader, and returns the credit of
  what the reader took. Chunks and credits travel in order and arrive at any later time (the events
  of the flow come in any order). The end of the body is sent after the last chunk's send completed.
\<close>

section \<open>The flow of one body\<close>

record body_flow =
  fl_unsent :: "byte list list"
  fl_finished :: bool
  fl_window :: credit_window
  fl_wire :: "byte list option list"
  fl_receiver :: body_receiver
  fl_credits :: "nat list"
  fl_error :: "js_error option"

definition start_flow :: "nat \<Rightarrow> byte list list \<Rightarrow> body_flow" where
  "start_flow initial chunks =
     \<lparr>fl_unsent = chunks, fl_finished = False, fl_window = new_credit, fl_wire = [], fl_receiver = new_receiver initial,
      fl_credits = [initial], fl_error = None\<rparr>"

datatype flow_event = FlowTake | FlowFinish | FlowArrive | FlowPull | FlowCredit

definition return_credit :: "nat option \<Rightarrow> body_flow \<Rightarrow> body_flow" where
  "return_credit n s = (case n of None \<Rightarrow> s | Some k \<Rightarrow> s\<lparr>fl_credits := fl_credits s @ [k]\<rparr>)"

fun flow_step :: "body_flow \<Rightarrow> flow_event \<Rightarrow> body_flow" where
  "flow_step s FlowTake =
     (case fl_unsent s of
        [] \<Rightarrow> s
      | c # cs \<Rightarrow>
          if 0 \<in> set (cw_waiters (fl_window s)) then s
          else (case credit_take 0 (length c) (fl_window s) of
              (CreditTaken, w) \<Rightarrow> s\<lparr>fl_unsent := cs, fl_window := w, fl_wire := fl_wire s @ [Some c]\<rparr>
            | (CreditAwaited, w) \<Rightarrow> s\<lparr>fl_window := w\<rparr>
            | (CreditRefused e, w) \<Rightarrow> s\<lparr>fl_window := w, fl_error := Some e\<rparr>))"
| "flow_step s FlowFinish =
     (if fl_unsent s = [] \<and> \<not> fl_finished s then s\<lparr>fl_finished := True, fl_wire := fl_wire s @ [None]\<rparr> else s)"
| "flow_step s FlowArrive =
     (case fl_wire s of
        [] \<Rightarrow> s
      | None # wire \<Rightarrow> s\<lparr>fl_wire := wire, fl_receiver := receiver_close (fl_receiver s)\<rparr>
      | Some c # wire \<Rightarrow>
          (case receiver_push c (fl_receiver s) of
             Inl e \<Rightarrow> s\<lparr>fl_wire := wire, fl_error := Some e\<rparr>
           | Inr (n, r) \<Rightarrow> return_credit n (s\<lparr>fl_wire := wire, fl_receiver := r\<rparr>)))"
| "flow_step s FlowPull =
     (if br_waiting (fl_receiver s) \<or> StreamClosed \<in> set (br_output (fl_receiver s)) then s
      else let (n, r) = receiver_pull (fl_receiver s) in return_credit n (s\<lparr>fl_receiver := r\<rparr>))"
| "flow_step s FlowCredit =
     (case fl_credits s of
        [] \<Rightarrow> s
      | n # ns \<Rightarrow> s\<lparr>fl_credits := ns, fl_window := credit_grant (int n) (fl_window s)\<rparr>)"

section \<open>Conservation of bytes and of credit\<close>

definition received_chunks :: "body_receiver \<Rightarrow> byte list list" where
  "received_chunks b = concat (map (\<lambda>x. case x of StreamChunk c \<Rightarrow> [c] | _ \<Rightarrow> []) (br_output b))"

definition wire_chunks :: "body_flow \<Rightarrow> byte list list" where
  "wire_chunks s = concat (map (\<lambda>x. case x of Some c \<Rightarrow> [c] | None \<Rightarrow> []) (fl_wire s))"

definition total_bytes :: "byte list list \<Rightarrow> int" where
  "total_bytes cs = sum_list (map (\<lambda>c. int (length c)) cs)"

definition flow_ok :: "nat \<Rightarrow> byte list list \<Rightarrow> body_flow \<Rightarrow> bool" where
  "flow_ok initial chunks s \<longleftrightarrow>
     received_chunks (fl_receiver s) @ br_queue (fl_receiver s) @ wire_chunks s @ fl_unsent s = chunks
     \<and> cw_available (fl_window s) + total_bytes (wire_chunks s) + total_bytes (br_queue (fl_receiver s))
         + int (sum_list (fl_credits s)) = int initial
     \<and> 0 \<le> cw_available (fl_window s)
     \<and> br_queuedBytes (fl_receiver s) = total_bytes (br_queue (fl_receiver s)) \<and> br_maxBytes (fl_receiver s) = initial
     \<and> \<not> cw_closed (fl_window s) \<and> set (cw_waiters (fl_window s)) \<subseteq> {0}
     \<and> (0 \<in> set (cw_waiters (fl_window s)) \<longrightarrow> fl_unsent s \<noteq> [] \<and> cw_available (fl_window s) < int (length (hd (fl_unsent s))))
     \<and> br_failure (fl_receiver s) = None \<and> fl_error s = None
     \<and> (if fl_finished s then fl_unsent s = [] \<and> (if br_ended (fl_receiver s) then fl_wire s = [] else \<exists>w. fl_wire s = map Some w @ [None])
        else (\<exists>w. fl_wire s = map Some w) \<and> \<not> br_ended (fl_receiver s))
     \<and> (br_waiting (fl_receiver s) \<longrightarrow> br_queue (fl_receiver s) = [] \<and> \<not> br_ended (fl_receiver s))
     \<and> (StreamClosed \<in> set (br_output (fl_receiver s)) \<longrightarrow> br_ended (fl_receiver s) \<and> br_queue (fl_receiver s) = [])
     \<and> \<not> (\<exists>e. StreamErrored e \<in> set (br_output (fl_receiver s)))"

lemma flow_okI:
  assumes "received_chunks (fl_receiver s) @ br_queue (fl_receiver s) @ wire_chunks s @ fl_unsent s = chunks"
    "cw_available (fl_window s) + total_bytes (wire_chunks s) + total_bytes (br_queue (fl_receiver s)) + int (sum_list (fl_credits s)) = int initial"
    "0 \<le> cw_available (fl_window s)"
    "br_queuedBytes (fl_receiver s) = total_bytes (br_queue (fl_receiver s))" "br_maxBytes (fl_receiver s) = initial"
    "\<not> cw_closed (fl_window s)" "set (cw_waiters (fl_window s)) \<subseteq> {0}"
    "0 \<in> set (cw_waiters (fl_window s)) \<Longrightarrow> fl_unsent s \<noteq> [] \<and> cw_available (fl_window s) < int (length (hd (fl_unsent s)))"
    "br_failure (fl_receiver s) = None" "fl_error s = None"
    "if fl_finished s then fl_unsent s = [] \<and> (if br_ended (fl_receiver s) then fl_wire s = [] else \<exists>w. fl_wire s = map Some w @ [None])
        else (\<exists>w. fl_wire s = map Some w) \<and> \<not> br_ended (fl_receiver s)"
    "br_waiting (fl_receiver s) \<Longrightarrow> br_queue (fl_receiver s) = [] \<and> \<not> br_ended (fl_receiver s)"
    "StreamClosed \<in> set (br_output (fl_receiver s)) \<Longrightarrow> br_ended (fl_receiver s) \<and> br_queue (fl_receiver s) = []"
    "\<not> (\<exists>e. StreamErrored e \<in> set (br_output (fl_receiver s)))"
  shows "flow_ok initial chunks s"
  using assms unfolding flow_ok_def by blast

lemma flow_okD:
  assumes "flow_ok initial chunks s"
  shows "received_chunks (fl_receiver s) @ br_queue (fl_receiver s) @ wire_chunks s @ fl_unsent s = chunks"
    "cw_available (fl_window s) + total_bytes (wire_chunks s) + total_bytes (br_queue (fl_receiver s)) + int (sum_list (fl_credits s)) = int initial"
    "0 \<le> cw_available (fl_window s)"
    "br_queuedBytes (fl_receiver s) = total_bytes (br_queue (fl_receiver s))" "br_maxBytes (fl_receiver s) = initial"
    "\<not> cw_closed (fl_window s)" "set (cw_waiters (fl_window s)) \<subseteq> {0}"
    "0 \<in> set (cw_waiters (fl_window s)) \<Longrightarrow> fl_unsent s \<noteq> [] \<and> cw_available (fl_window s) < int (length (hd (fl_unsent s)))"
    "br_failure (fl_receiver s) = None" "fl_error s = None"
    "if fl_finished s then fl_unsent s = [] \<and> (if br_ended (fl_receiver s) then fl_wire s = [] else \<exists>w. fl_wire s = map Some w @ [None])
        else (\<exists>w. fl_wire s = map Some w) \<and> \<not> br_ended (fl_receiver s)"
    "br_waiting (fl_receiver s) \<Longrightarrow> br_queue (fl_receiver s) = [] \<and> \<not> br_ended (fl_receiver s)"
    "StreamClosed \<in> set (br_output (fl_receiver s)) \<Longrightarrow> br_ended (fl_receiver s) \<and> br_queue (fl_receiver s) = []"
    "\<not> (\<exists>e. StreamErrored e \<in> set (br_output (fl_receiver s)))"
  using assms unfolding flow_ok_def by blast+

lemma total_bytes_simps [simp]:
  "total_bytes [] = 0" "total_bytes (c # cs) = int (length c) + total_bytes cs" "total_bytes (cs @ ds) = total_bytes cs + total_bytes ds"
  by (simp_all add: total_bytes_def)

lemma total_bytes_nonneg [simp]: "0 \<le> total_bytes cs"
  unfolding total_bytes_def by (rule sum_list_nonneg) auto

lemma wire_of_map [simp]: "concat (map (\<lambda>x. case x of Some c \<Rightarrow> [c] | None \<Rightarrow> []) (map Some w)) = w"
  by (induction w) auto

lemma wire_of_map' [simp]: "concat (map (case_option [] (\<lambda>c. [c]) \<circ> Some) w) = w"
  by (induction w) auto

lemma start_ok: "flow_ok initial chunks (start_flow initial chunks)"
  by (rule flow_okI) (simp_all add: start_flow_def new_credit_def new_receiver_def received_chunks_def wire_chunks_def)

lemma take_ok: "flow_ok initial chunks s \<Longrightarrow> flow_ok initial chunks (flow_step s FlowTake)"
proof (cases "fl_unsent s")
  case (Cons c cs)
  assume ok: "flow_ok initial chunks s"
  note f = flow_okD [OF this]
  have unfinished: "\<not> fl_finished s" "\<not> br_ended (fl_receiver s)" using f(11) Cons by (auto split: if_splits)
  obtain w where w: "fl_wire s = map Some w" using f(11) unfinished by auto
  show ?thesis
  proof (cases "0 \<in> set (cw_waiters (fl_window s))")
    case True
    with ok Cons show ?thesis by simp
  next
    case False
    show ?thesis
    proof (cases "cw_available (fl_window s) < int (length c)")
      case True
      with Cons False f(6) have eq: "flow_step s FlowTake = s\<lparr>fl_window := (fl_window s)\<lparr>cw_woken := removeAll 0 (cw_woken (fl_window s)),
          cw_waiters := cw_waiters (fl_window s) @ [0]\<rparr>\<rparr>" by (simp add: credit_take_def Let_def)
      show ?thesis unfolding eq
        by (rule flow_okI) (use f(1-5,7,9-14) Cons True unfinished w in \<open>simp_all add: wire_chunks_def f(6)\<close>)
    next
      case enough: False
      with Cons False f(6) have eq: "flow_step s FlowTake = s\<lparr>fl_unsent := cs, fl_window := (fl_window s)\<lparr>cw_woken := removeAll 0 (cw_woken (fl_window s)),
          cw_available := cw_available (fl_window s) - int (length c)\<rparr>, fl_wire := fl_wire s @ [Some c]\<rparr>" by (simp add: credit_take_def Let_def)
      have "map Some w @ [Some c] = map Some (w @ [c])" by simp
      then have "\<exists>v. map Some w @ [Some c] = map Some v" by blast
      then show ?thesis unfolding eq
        by (intro flow_okI) (use f(1-5,7,9-14) Cons enough False unfinished w in \<open>simp_all add: wire_chunks_def f(6)\<close>)
    qed
  qed
qed simp

lemma finish_ok: "flow_ok initial chunks s \<Longrightarrow> flow_ok initial chunks (flow_step s FlowFinish)"
proof -
  assume ok: "flow_ok initial chunks s"
  note f = flow_okD [OF this]
  show ?thesis
  proof (cases "fl_unsent s = [] \<and> \<not> fl_finished s")
    case True
    then obtain w where "fl_wire s = map Some w" "\<not> br_ended (fl_receiver s)" using f(11) by auto
    with True have eq: "flow_step s FlowFinish = s\<lparr>fl_finished := True, fl_wire := map Some w @ [None]\<rparr>" "wire_chunks s = w"
      by (simp_all add: wire_chunks_def)
    show ?thesis unfolding eq
      by (rule flow_okI) (use f(1-10,12-14) True eq(2) \<open>\<not> br_ended (fl_receiver s)\<close> in \<open>auto simp: wire_chunks_def\<close>)
  qed (use ok in auto)
qed

lemma end_arrives_ok:
  assumes "flow_ok initial chunks s" "fl_wire s = None # wire"
  shows "flow_ok initial chunks (flow_step s FlowArrive)"
proof -
  note f = flow_okD [OF assms(1)]
  have "fl_finished s" using f(11) assms(2) by (cases "fl_finished s") (auto simp: Cons_eq_map_conv)
  then have st: "fl_unsent s = []" "\<not> br_ended (fl_receiver s)" "\<exists>w. None # wire = map Some w @ [None]"
    using f(11) assms(2) by (auto split: if_splits)
  then have "wire = []" by (auto simp: Cons_eq_append_conv)
  have closed: "StreamClosed \<notin> set (br_output (fl_receiver s))" using f(13) st(2) by blast
  have eq: "flow_step s FlowArrive = s\<lparr>fl_wire := [], fl_receiver := (fl_receiver s)\<lparr>br_ended := True, br_waiting := False,
      br_output := br_output (fl_receiver s) @ (if br_waiting (fl_receiver s) then [StreamClosed] else [])\<rparr>\<rparr>"
    using assms(2) \<open>wire = []\<close> by (auto simp: receiver_close_def Let_def)
  show ?thesis unfolding eq
    by (rule flow_okI) (use f st(1) closed \<open>fl_finished s\<close> assms(2) \<open>wire = []\<close> in
      \<open>auto simp: wire_chunks_def received_chunks_def split: if_splits\<close>)
qed

lemma wire_tail:
  assumes "flow_ok initial chunks s" "fl_wire s = Some c # wire"
  shows "\<not> br_ended (fl_receiver s)"
    "if fl_finished s then fl_unsent s = [] \<and> (\<exists>w. wire = map Some w @ [None]) else \<exists>w. wire = map Some w"
proof -
  note f = flow_okD [OF assms(1)]
  show e: "\<not> br_ended (fl_receiver s)" using f(11) assms(2) by (auto split: if_splits)
  show "if fl_finished s then fl_unsent s = [] \<and> (\<exists>w. wire = map Some w @ [None]) else \<exists>w. wire = map Some w"
  proof (cases "fl_finished s")
    case True
    with f(11) e assms(2) obtain w where "fl_unsent s = []" "Some c # wire = map Some w @ [None]" by auto
    with True show ?thesis by (cases w) auto
  next
    case False
    with f(11) assms(2) show ?thesis by (auto simp: Cons_eq_map_conv)
  qed
qed

lemma chunk_arrives:
  assumes "flow_ok initial chunks s" "fl_wire s = Some c # wire"
  shows "flow_ok initial chunks (flow_step s FlowArrive)"
    "\<exists>n r. receiver_push c (fl_receiver s) = Inr (n, r)"
proof -
  note f = flow_okD [OF assms(1)]
  note tail = wire_tail [OF assms]
  define rest where "rest = concat (map (\<lambda>x. case x of Some c \<Rightarrow> [c] | None \<Rightarrow> []) wire)"
  have chunks: "wire_chunks s = c # rest" using assms(2) by (simp add: wire_chunks_def rest_def)
  have "cw_available (fl_window s) + (int (length c) + total_bytes rest) + total_bytes (br_queue (fl_receiver s))
      + int (sum_list (fl_credits s)) = int initial" using f(2) chunks by simp
  with f(3) total_bytes_nonneg [of rest] of_nat_0_le_iff [of "sum_list (fl_credits s)", where ?'a = int]
  have fits: "\<not> int initial < total_bytes (br_queue (fl_receiver s)) + int (length c)" by linarith
  have "flow_ok initial chunks (flow_step s FlowArrive) \<and> (\<exists>n r. receiver_push c (fl_receiver s) = Inr (n, r))"
  proof (cases "br_waiting (fl_receiver s)")
    case True
    with f(12) have q: "br_queue (fl_receiver s) = []" by simp
    from True tail(1) assms(2) have eq: "flow_step s FlowArrive = s\<lparr>fl_wire := wire, fl_receiver := (fl_receiver s)\<lparr>br_waiting := False,
        br_output := br_output (fl_receiver s) @ [StreamChunk c]\<rparr>, fl_credits := fl_credits s @ [length c]\<rparr>"
      "receiver_push c (fl_receiver s) = Inr (Some (length c), (fl_receiver s)\<lparr>br_waiting := False, br_output := br_output (fl_receiver s) @ [StreamChunk c]\<rparr>)"
      by (simp_all add: receiver_push_def return_credit_def)
    have "flow_ok initial chunks (flow_step s FlowArrive)" unfolding eq
      by (rule flow_okI) (use f(1-10,13,14) chunks q tail in \<open>auto simp: wire_chunks_def rest_def received_chunks_def\<close>)
    with eq(2) show ?thesis by blast
  next
    case False
    from False tail(1) assms(2) fits f(4,5) have eq: "flow_step s FlowArrive = s\<lparr>fl_wire := wire, fl_receiver := (fl_receiver s)\<lparr>
        br_queue := br_queue (fl_receiver s) @ [c], br_queuedBytes := br_queuedBytes (fl_receiver s) + int (length c)\<rparr>\<rparr>"
      "receiver_push c (fl_receiver s) = Inr (None, (fl_receiver s)\<lparr>br_queue := br_queue (fl_receiver s) @ [c],
        br_queuedBytes := br_queuedBytes (fl_receiver s) + int (length c)\<rparr>)"
      by (simp_all add: receiver_push_def return_credit_def)
    have "StreamClosed \<notin> set (br_output (fl_receiver s))" using f(13) tail(1) by blast
    then have "flow_ok initial chunks (flow_step s FlowArrive)" unfolding eq
      by (intro flow_okI) (use f(1-10,14) False chunks tail in \<open>auto simp: wire_chunks_def rest_def received_chunks_def\<close>)
    with eq(2) show ?thesis by blast
  qed
  then show "flow_ok initial chunks (flow_step s FlowArrive)" "\<exists>n r. receiver_push c (fl_receiver s) = Inr (n, r)" by blast+
qed

lemma arrive_ok: "flow_ok initial chunks s \<Longrightarrow> flow_ok initial chunks (flow_step s FlowArrive)"
proof (cases "fl_wire s")
  case (Cons x wire)
  assume "flow_ok initial chunks s"
  with Cons end_arrives_ok chunk_arrives(1) show ?thesis by (cases x) blast+
qed simp

lemma pull_ok: "flow_ok initial chunks s \<Longrightarrow> flow_ok initial chunks (flow_step s FlowPull)"
proof (cases "br_waiting (fl_receiver s) \<or> StreamClosed \<in> set (br_output (fl_receiver s))")
  case False
  assume ok: "flow_ok initial chunks s"
  note f = flow_okD [OF this]
  show ?thesis
  proof (cases "br_queue (fl_receiver s)")
    case Nil
    show ?thesis
    proof (cases "br_ended (fl_receiver s)")
      case True
      with Nil False f(9) have eq: "flow_step s FlowPull = s\<lparr>fl_receiver := (fl_receiver s)\<lparr>br_output := br_output (fl_receiver s) @ [StreamClosed]\<rparr>\<rparr>"
        by (simp add: receiver_pull_def return_credit_def)
      show ?thesis unfolding eq by (rule flow_okI) (use f Nil True in \<open>auto simp: wire_chunks_def received_chunks_def split: if_splits\<close>)
    next
      case open_r: False
      with Nil False f(9) have eq: "flow_step s FlowPull = s\<lparr>fl_receiver := (fl_receiver s)\<lparr>br_waiting := True\<rparr>\<rparr>"
        by (simp add: receiver_pull_def return_credit_def)
      show ?thesis unfolding eq by (rule flow_okI) (use f Nil open_r in \<open>auto simp: wire_chunks_def received_chunks_def split: if_splits\<close>)
    qed
  next
    case (Cons c q)
    with False f(9) have eq: "flow_step s FlowPull = s\<lparr>fl_receiver := (fl_receiver s)\<lparr>br_queue := q,
        br_queuedBytes := br_queuedBytes (fl_receiver s) - int (length c), br_output := br_output (fl_receiver s) @ [StreamChunk c]\<rparr>,
        fl_credits := fl_credits s @ [length c]\<rparr>"
      by (simp add: receiver_pull_def return_credit_def)
    show ?thesis unfolding eq
      by (rule flow_okI) (use f(1-11,14) Cons False in \<open>auto simp: wire_chunks_def received_chunks_def split: if_splits\<close>)
  qed
qed auto

lemma credit_ok: "flow_ok initial chunks s \<Longrightarrow> flow_ok initial chunks (flow_step s FlowCredit)"
proof (cases "fl_credits s")
  case (Cons n ns)
  assume "flow_ok initial chunks s"
  note f = flow_okD [OF this]
  show ?thesis
  proof (cases "0 < cw_available (fl_window s) + int n")
    case True
    with Cons have eq: "flow_step s FlowCredit = s\<lparr>fl_credits := ns, fl_window := (fl_window s)\<lparr>cw_available := cw_available (fl_window s) + int n,
        cw_waiters := [], cw_woken := cw_woken (fl_window s) @ cw_waiters (fl_window s)\<rparr>\<rparr>"
      by (simp add: credit_grant_def Let_def)
    show ?thesis unfolding eq by (rule flow_okI) (use f Cons in \<open>simp_all add: wire_chunks_def\<close>)
  next
    case False
    with Cons f(3) have eq: "flow_step s FlowCredit = s\<lparr>fl_credits := ns\<rparr>" "n = 0"
      by (simp_all add: credit_grant_def Let_def)
    show ?thesis unfolding eq(1) by (rule flow_okI) (use f Cons eq(2) in \<open>simp_all add: wire_chunks_def\<close>)
  qed
qed simp

lemma flow_step_ok: "flow_ok initial chunks s \<Longrightarrow> flow_ok initial chunks (flow_step s e)"
  by (cases e) (simp_all only: take_ok finish_ok arrive_ok pull_ok credit_ok)

interpretation flow_machine: machine "flow_ok initial chunks" flow_step for initial chunks
  by unfold_locales (rule flow_step_ok)


section \<open>Progress\<close>

definition flow_done :: "body_flow \<Rightarrow> bool" where
  "flow_done s \<longleftrightarrow> fl_unsent s = [] \<and> fl_finished s \<and> fl_wire s = [] \<and> br_queue (fl_receiver s) = []"

definition flow_work :: "body_flow \<Rightarrow> nat" where
  "flow_work s = 4 * length (fl_unsent s) + (if fl_finished s then 0 else 4) + 3 * length (fl_wire s)
     + 2 * length (br_queue (fl_receiver s)) + length (fl_credits s)"

text \<open>
  While something is left to do, some event makes progress: a chunk or a credit that is under way
  arrives, the reader takes a chunk, or, when nothing is under way, the sender has all its credit.
\<close>

lemma take_proceeds:
  assumes "flow_ok initial chunks s" "fl_unsent s = c # cs" "length c \<le> initial"
    "fl_wire s = []" "br_queue (fl_receiver s) = []" "fl_credits s = []"
  shows "fl_unsent (flow_step s FlowTake) = cs \<and> fl_wire (flow_step s FlowTake) = [Some c]
    \<and> fl_finished (flow_step s FlowTake) = fl_finished s \<and> fl_receiver (flow_step s FlowTake) = fl_receiver s
    \<and> fl_credits (flow_step s FlowTake) = []"
proof -
  note f = flow_okD [OF assms(1)]
  have "cw_available (fl_window s) = int initial" using f(2) assms(4-6) by (simp add: wire_chunks_def)
  moreover from this f(8) assms(2,3) have "0 \<notin> set (cw_waiters (fl_window s))" by auto
  ultimately show ?thesis using assms f(6) by (simp add: credit_take_def Let_def)
qed

lemma flow_progress:
  assumes ok: "flow_ok initial chunks s" and small: "\<forall>c \<in> set chunks. length c \<le> initial" and left: "\<not> flow_done s"
  shows "\<exists>e. flow_work (flow_step s e) < flow_work s"
proof -
  note f = flow_okD [OF ok]
  consider (credit) n ns where "fl_credits s = n # ns" | (queue) c q where "br_queue (fl_receiver s) = c # q"
    | (wire) x w where "fl_wire s = x # w" "br_queue (fl_receiver s) = []"
    | (take) c cs where "fl_credits s = []" "br_queue (fl_receiver s) = []" "fl_wire s = []" "fl_unsent s = c # cs"
    | (finish) "fl_unsent s = []" "fl_wire s = []" "br_queue (fl_receiver s) = []" "\<not> fl_finished s"
    using left by (cases "fl_credits s"; cases "br_queue (fl_receiver s)"; cases "fl_wire s"; cases "fl_unsent s") (auto simp: flow_done_def)
  then show ?thesis
  proof cases
    case credit
    then have "flow_work (flow_step s FlowCredit) < flow_work s" by (simp add: flow_work_def)
    then show ?thesis ..
  next
    case queue
    then have "\<not> br_waiting (fl_receiver s)" "StreamClosed \<notin> set (br_output (fl_receiver s))" using f(12,13) by auto
    with queue f(9) have "flow_work (flow_step s FlowPull) < flow_work s"
      by (simp add: receiver_pull_def return_credit_def flow_work_def)
    then show ?thesis ..
  next
    case wire
    have "flow_work (flow_step s FlowArrive) < flow_work s"
    proof (cases x)
      case None
      with wire show ?thesis by (simp add: flow_work_def receiver_close_def Let_def)
    next
      case (Some c)
      with wire chunk_arrives(2) [OF ok] obtain n r where "receiver_push c (fl_receiver s) = Inr (n, r)" by blast
      moreover from this have "length (br_queue r) + (case n of None \<Rightarrow> 0 | Some _ \<Rightarrow> 1) = 1"
        using wire by (auto simp: receiver_push_def split: if_splits)
      ultimately show ?thesis using wire Some by (cases n) (auto simp: flow_work_def return_credit_def)
    qed
    then show ?thesis ..
  next
    case take
    have "c \<in> set chunks" using f(1) take(4) by auto
    with small have "length c \<le> initial" by simp
    from take_proceeds [OF ok take(4) this take(3,2,1)] take have "flow_work (flow_step s FlowTake) < flow_work s"
      unfolding flow_work_def by simp
    then show ?thesis ..
  next
    case finish
    then have "flow_work (flow_step s FlowFinish) < flow_work s" by (simp add: flow_work_def)
    then show ?thesis ..
  qed
qed

lemma flow_completes:
  assumes "flow_ok initial chunks s" and "\<forall>c \<in> set chunks. length c \<le> initial"
  shows "\<exists>more. flow_done (foldl flow_step s more)"
  using assms(1)
proof (induction "flow_work s" arbitrary: s rule: less_induct)
  case less
  show ?case
  proof (cases "flow_done s")
    case True
    then show ?thesis by (intro exI [of _ "[]"]) simp
  next
    case False
    from flow_progress [OF less.prems assms(2) this] obtain e where "flow_work (flow_step s e) < flow_work s" ..
    from less.hyps [OF this flow_step_ok [OF less.prems]] obtain more where "flow_done (foldl flow_step (flow_step s e) more)" ..
    then show ?thesis by (intro exI [of _ "e # more"]) simp
  qed
qed

lemma concat_body_chunks: "0 < width \<Longrightarrow> concat (body_chunks width data) = data"
proof (induction width data rule: body_chunks.induct)
  case (1 width data)
  then show ?case by (subst body_chunks.simps) simp
qed

lemma body_chunks_width: "c \<in> set (body_chunks width data) \<Longrightarrow> length c \<le> width"
proof (induction width data rule: body_chunks.induct)
  case (1 width data)
  then show ?case by (subst (asm) (2) body_chunks.simps) (auto split: if_splits)
qed

section \<open>Properties\<close>

text \<open>C10: With the chunk size of the sender at most the credit the receiver starts with, a body crosses
  the tunnel intact in every order of events: no chunk is ever refused for lack of room, what the
  reader got is the front of the body, in order, what is unconfirmed never exceeds the credit, and from
  every reachable state the transfer can be completed, after which the reader has the whole body.\<close>

theorem body_crosses_the_tunnel:
  assumes "0 < chunk_size maxFrameBytes credit" and "chunk_size maxFrameBytes credit \<le> initial"
    and "s = foldl flow_step (start_flow initial (body_chunks (chunk_size maxFrameBytes credit) data)) events"
  shows "fl_error s = None \<and> total_bytes (wire_chunks s) + total_bytes (br_queue (fl_receiver s)) \<le> int initial
    \<and> (\<exists>rest. data = concat (received_chunks (fl_receiver s)) @ rest)
    \<and> (\<exists>more. flow_done (foldl flow_step s more) \<and> concat (received_chunks (fl_receiver (foldl flow_step s more))) = data)"
proof -
  define chunks where "chunks = body_chunks (chunk_size maxFrameBytes credit) data"
  have whole: "concat chunks = data" unfolding chunks_def by (rule concat_body_chunks [OF assms(1)])
  have small: "\<forall>c \<in> set chunks. length c \<le> initial"
    using body_chunks_width [of _ "chunk_size maxFrameBytes credit" data] assms(2) unfolding chunks_def by fastforce
  have ok: "flow_ok initial chunks s" unfolding assms(3) chunks_def [symmetric] by (rule flow_machine.run_inv [OF start_ok])
  note f = flow_okD [OF ok]
  have bound: "total_bytes (wire_chunks s) + total_bytes (br_queue (fl_receiver s)) \<le> int initial"
    using f(2,3) of_nat_0_le_iff [of "sum_list (fl_credits s)", where ?'a = int] by linarith
  have front: "\<exists>rest. data = concat (received_chunks (fl_receiver s)) @ rest"
    using f(1) whole by (metis concat_append)
  from flow_completes [OF ok small] obtain more where fin: "flow_done (foldl flow_step s more)" ..
  have "flow_ok initial chunks (foldl flow_step s more)" by (rule flow_machine.run_inv [OF ok])
  from flow_okD(1) [OF this] fin have "received_chunks (fl_receiver (foldl flow_step s more)) = chunks"
    by (simp add: flow_done_def wire_chunks_def)
  with whole fin have "\<exists>more. flow_done (foldl flow_step s more) \<and> concat (received_chunks (fl_receiver (foldl flow_step s more))) = data"
    by (intro exI [of _ more]) simp
  with f(10) bound front show ?thesis by simp
qed

lemma body_crosses_the_tunnel_witness:
  "\<exists>more. concat (received_chunks (fl_receiver (foldl flow_step (start_flow 2 (body_chunks (chunk_size 1024 2) [1, 2, 3])) more))) = [1, 2, 3]"
  using body_crosses_the_tunnel [of 1024 2 2 _ "[1, 2, 3]" "[]", OF _ _ refl] by (auto simp: chunk_size_def)

end
