(* ===== verification/Tunnel_Peer.thy ===== *)
theory Tunnel_Peer
  imports Tunnel_Flow
begin

text \<open>
  \<open>createTunnelPeer\<close> of \<open>agent-remote-tunnel/src/peer.ts\<close>: the streams of one end of the tunnel,
  the frames it handles and the operations it offers. Every operation takes the reply function of the
  socket (\<open>Tunnel_Outbound\<close>) and, where the code reads the clock, the time.

  \<^item> Bodies and WebSocket endpoints outlive their stream (a reader still holds them), so they are
    kept in maps of their own, by number.
  \<^item> \<open>pe_opened\<close> are the promises of open requests, \<open>pe_answers\<close> how each was settled (once).
  \<^item> An operation that may throw returns the error with the state it leaves.
  \<^item> The work of a request handler, of the reader of a body, of timers and of abort signals is in the
    events of \<open>peer_step\<close>.
  \<^item> A control object from the other side is read by \<open>read_control\<close>; an object that is no frame is
    ignored like a frame of an unknown type.
\<close>

section \<open>State\<close>

record peer_limits =
  pl_maxStreams :: nat
  pl_maxFrameBytes :: nat
  pl_maxQueuedBytes :: nat
  pl_initialCreditBytes :: nat
  pl_heartbeatTimeoutMs :: int

definition default_limits :: peer_limits where
  "default_limits = \<lparr>pl_maxStreams = 64, pl_maxFrameBytes = 262144, pl_maxQueuedBytes = 1048576,
     pl_initialCreditBytes = 65536, pl_heartbeatTimeoutMs = 45000\<rparr>"

record http_stream =
  hs_previewId :: string
  hs_client :: bool
  hs_requestReceiver :: "nat option"
  hs_responseReceiver :: "nat option"
  hs_requestCredit :: credit_window
  hs_responseCredit :: credit_window
  hs_timer :: bool

record ws_stream =
  vs_previewId :: string
  vs_client :: bool
  vs_endpoint :: nat
  vs_credit :: credit_window
  vs_timer :: bool
  vs_remote :: bool

datatype stream_state = HttpStream http_stream | WsStream ws_stream

datatype open_answer =
    HttpAnswered int header_list "nat option"
  | WsAccepted "string option" nat
  | OpenFailed js_error

record peer =
  pe_limits :: peer_limits
  pe_streams :: "(string, stream_state) jmap"
  pe_sequence :: nat
  pe_closed :: bool
  pe_lastReceived :: int
  pe_out :: outbound
  pe_bodies :: "(nat, body_receiver) jmap"
  pe_endpoints :: "(nat, ws_endpoint) jmap"
  pe_next :: nat
  pe_opened :: "string list"
  pe_answers :: "(string, open_answer) jmap"
  pe_aborted :: "string list"
  pe_socketCloses :: "(int \<times> string) list"

type_synonym socket = "nat \<Rightarrow> socket_reply"

definition create_peer :: "peer_limits \<Rightarrow> int \<Rightarrow> peer js_result" where
  "create_peer limits now =
     (if pl_maxFrameBytes limits < 1024 \<or> pl_initialCreditBytes limits < 1 \<or> pl_maxQueuedBytes limits < pl_maxFrameBytes limits
      then throw_plain ''Tunnel peer limits are invalid.''
      else Inr \<lparr>pe_limits = limits, pe_streams = [], pe_sequence = 0, pe_closed = False, pe_lastReceived = now,
                pe_out = new_outbound (pl_maxFrameBytes limits) (pl_maxQueuedBytes limits), pe_bodies = [], pe_endpoints = [],
                pe_next = 0, pe_opened = [], pe_answers = [], pe_aborted = [], pe_socketCloses = []\<rparr>)"

section \<open>Bodies, endpoints and answers\<close>

definition change_body :: "nat \<Rightarrow> (body_receiver \<Rightarrow> body_receiver) \<Rightarrow> peer \<Rightarrow> peer" where
  "change_body b f p = (case jget (pe_bodies p) b of None \<Rightarrow> p | Some r \<Rightarrow> p\<lparr>pe_bodies := jset (pe_bodies p) b (f r)\<rparr>)"

definition change_optional_body :: "nat option \<Rightarrow> (body_receiver \<Rightarrow> body_receiver) \<Rightarrow> peer \<Rightarrow> peer" where
  "change_optional_body b f p = (case b of None \<Rightarrow> p | Some n \<Rightarrow> change_body n f p)"

definition change_endpoint :: "nat \<Rightarrow> (ws_endpoint \<Rightarrow> ws_endpoint) \<Rightarrow> peer \<Rightarrow> peer" where
  "change_endpoint n f p = (case jget (pe_endpoints p) n of None \<Rightarrow> p | Some e \<Rightarrow> p\<lparr>pe_endpoints := jset (pe_endpoints p) n (f e)\<rparr>)"

definition add_body :: "peer \<Rightarrow> nat \<times> peer" where
  "add_body p = (pe_next p, p\<lparr>pe_bodies := jset (pe_bodies p) (pe_next p) (new_receiver (pl_initialCreditBytes (pe_limits p))),
     pe_next := Suc (pe_next p)\<rparr>)"

definition add_endpoint :: "peer \<Rightarrow> nat \<times> peer" where
  "add_endpoint p = (pe_next p, p\<lparr>pe_endpoints := jset (pe_endpoints p) (pe_next p)
     (new_endpoint (pl_maxQueuedBytes (pe_limits p)) (pl_maxFrameBytes (pe_limits p) - 512)), pe_next := Suc (pe_next p)\<rparr>)"

definition answer_open :: "string \<Rightarrow> bool \<Rightarrow> open_answer \<Rightarrow> peer \<Rightarrow> peer" where
  "answer_open i client a p =
     (if client \<and> jget (pe_answers p) i = None then p\<lparr>pe_answers := jset (pe_answers p) i a\<rparr> else p)"

definition set_stream :: "string \<Rightarrow> stream_state \<Rightarrow> peer \<Rightarrow> peer" where
  "set_stream i st p = p\<lparr>pe_streams := jset (pe_streams p) i st\<rparr>"

definition close_socket :: "int \<Rightarrow> string \<Rightarrow> peer \<Rightarrow> peer" where
  "close_socket code reason p = p\<lparr>pe_socketCloses := pe_socketCloses p @ [(code, reason)]\<rparr>"

section \<open>Ending streams\<close>

text \<open>The abort signal of a stream: its listeners are the frames that were queued under it.\<close>

definition signal_frames :: "string \<Rightarrow> outbound \<Rightarrow> pending_frame list" where
  "signal_frames i out = filter (\<lambda>f. pf_signal f = Some i) (ob_controls out @ ob_payloads out @ ob_sending out)"

definition abort_stream_frames :: "socket \<Rightarrow> string \<Rightarrow> outbound \<Rightarrow> outbound" where
  "abort_stream_frames sock i out = foldl (\<lambda>out f. abort_frame sock f out) out (sort_key pf_id (signal_frames i out))"

text \<open>
  \<open>finish\<close>: the stream is forgotten and its controller aborted. Its credit windows go with it: a
  task that waited for credit finds no stream and is refused.
\<close>

definition finish_core :: "socket \<Rightarrow> string \<Rightarrow> peer \<Rightarrow> peer" where
  "finish_core sock i p =
     (if jhas (pe_streams p) i
      then p\<lparr>pe_streams := jdelete (pe_streams p) i, pe_aborted := pe_aborted p @ [i],
             pe_out := abort_stream_frames sock i (pe_out p)\<rparr>
      else p)"

definition fail_code :: "string \<Rightarrow> int" where
  "fail_code code = (if code = ''preview_revoked'' then 1008 else 1011)"

definition fail_quiet :: "socket \<Rightarrow> string \<Rightarrow> string \<Rightarrow> string \<Rightarrow> peer \<Rightarrow> peer" where
  "fail_quiet sock i code message p =
     (case jget (pe_streams p) i of
        None \<Rightarrow> p
      | Some (HttpStream h) \<Rightarrow>
          change_optional_body (hs_responseReceiver h) (receiver_error (tunnel_error code message))
            (change_optional_body (hs_requestReceiver h) (receiver_error (tunnel_error code message))
              (answer_open i (hs_client h) (OpenFailed (tunnel_error code message)) (finish_core sock i p)))
      | Some (WsStream w) \<Rightarrow>
          change_endpoint (vs_endpoint w) (endpoint_closed (fail_code code) (take 123 message))
            (answer_open i (vs_client w) (OpenFailed (tunnel_error code message)) (finish_core sock i p)))"

definition shutdown :: "socket \<Rightarrow> int \<Rightarrow> string \<Rightarrow> bool \<Rightarrow> peer \<Rightarrow> peer" where
  "shutdown sock code reason closeSocket p =
     (if pe_closed p then p
      else let p = p\<lparr>pe_closed := True, pe_out := close_outbound (tunnel_error ''disconnected'' reason) (pe_out p)\<rparr>;
               p = foldl (\<lambda>p i. fail_quiet sock i ''disconnected'' reason p) p (jkeys (pe_streams p))
           in if closeSocket then close_socket code reason p else p)"

text \<open>The callback of the send queue: a failed send ends the tunnel.\<close>

definition notice_failure :: "socket \<Rightarrow> peer \<Rightarrow> peer" where
  "notice_failure sock p =
     (if ob_failure (pe_out p) \<noteq> None \<and> \<not> pe_closed p then shutdown sock 1011 ''Tunnel send failed'' True p else p)"

definition finish_stream :: "socket \<Rightarrow> string \<Rightarrow> peer \<Rightarrow> peer" where
  "finish_stream sock i p = notice_failure sock (finish_core sock i p)"

section \<open>Sending\<close>

definition transmit :: "socket \<Rightarrow> control_frame \<Rightarrow> string option \<Rightarrow> peer \<Rightarrow> js_error option \<times> peer" where
  "transmit sock frame signal p =
     (case send_control sock (ControlFrame frame) signal False (pe_out p) of
        (Some e, out) \<Rightarrow> (Some e, shutdown sock 1011 ''Tunnel control send failed'' True (p\<lparr>pe_out := out\<rparr>))
      | (None, out) \<Rightarrow> (None, notice_failure sock (p\<lparr>pe_out := out\<rparr>)))"

definition transmit_payload :: "socket \<Rightarrow> binary_frame \<Rightarrow> string \<Rightarrow> peer \<Rightarrow> nat js_result \<times> peer" where
  "transmit_payload sock frame i p =
     (case send_payload sock (BinaryFrame frame) i (i \<in> set (pe_aborted p)) (pe_out p) of
        (r, out) \<Rightarrow> (r, notice_failure sock (p\<lparr>pe_out := out\<rparr>)))"

definition fail_stream :: "socket \<Rightarrow> string \<Rightarrow> string \<Rightarrow> string \<Rightarrow> bool \<Rightarrow> peer \<Rightarrow> js_error option \<times> peer" where
  "fail_stream sock i code message notify p =
     (if \<not> jhas (pe_streams p) i then (None, p)
      else let p = notice_failure sock (fail_quiet sock i code message p) in
        if notify \<and> \<not> pe_closed p then transmit sock (Cancel i code (take 256 message)) None p else (None, p))"

definition closeWebSocket :: "socket \<Rightarrow> string \<Rightarrow> int \<Rightarrow> string \<Rightarrow> peer \<Rightarrow> js_error option \<times> peer" where
  "closeWebSocket sock i code reason p =
     (case jget (pe_streams p) i of
        Some (WsStream w) \<Rightarrow>
          if pe_closed p then (None, p)
          else (case transmit sock (WsClose i code reason) None p of
              (Some e, p) \<Rightarrow> (Some e, p)
            | (None, p) \<Rightarrow> (None, change_endpoint (vs_endpoint w) (endpoint_closed code reason) (finish_stream sock i p)))
      | _ \<Rightarrow> (None, p))"

section \<open>Opening streams\<close>

function base36 :: "nat \<Rightarrow> string" where
  "base36 n =
     (let d = (if n mod 36 < 10 then char_of (48 + n mod 36) else char_of (87 + n mod 36)) in
      if n < 36 then [d] else base36 (n div 36) @ [d])"
  by pat_completeness auto

termination base36
  by (relation "measure id") auto

declare base36.simps [simp del]

definition allocate :: "nat \<Rightarrow> peer \<Rightarrow> (string \<times> peer) js_result" where
  "allocate now p =
     (if pe_closed p then Inl (tunnel_error ''closed'' ''Tunnel connection is closed.'')
      else if pl_maxStreams (pe_limits p) \<le> length (pe_streams p)
        then Inl (tunnel_error ''capacity'' ''Tunnel stream capacity is exhausted.'')
      else Inr (base36 now @ ''-'' @ base36 (Suc (pe_sequence p)), p\<lparr>pe_sequence := Suc (pe_sequence p)\<rparr>))"

record http_request =
  rq_previewId :: string
  rq_method :: string
  rq_path :: string
  rq_headers :: header_list
  rq_hasBody :: bool

text \<open>
  \<open>openHttp\<close>: refused, or a promise under the id of the stream. When the open frame cannot be sent
  the promise is refused as well (the tunnel has shut down).
\<close>

definition openHttp :: "socket \<Rightarrow> nat \<Rightarrow> bool \<Rightarrow> http_request \<Rightarrow> peer \<Rightarrow> string js_result \<times> peer" where
  "openHttp sock now aborted request p =
     (if aborted then (Inl (tunnel_error ''cancelled'' ''HTTP request cancelled.''), p)
      else case allocate now p of
        Inl e \<Rightarrow> (Inl e, p)
      | Inr (i, p) \<Rightarrow>
          let st = HttpStream \<lparr>hs_previewId = rq_previewId request, hs_client = True, hs_requestReceiver = None, hs_responseReceiver = None,
                     hs_requestCredit = new_credit, hs_responseCredit = new_credit, hs_timer = True\<rparr>;
              p = set_stream i st (p\<lparr>pe_opened := pe_opened p @ [i]\<rparr>)
          in case transmit sock (HttpOpen i (rq_previewId request) (rq_method request) (rq_path request) (rq_headers request) (rq_hasBody request)) (Some i) p of
               (Some e, p) \<Rightarrow> (Inr i, answer_open i True (OpenFailed e) p)
             | (None, p) \<Rightarrow> (Inr i, p))"

definition openWebSocket :: "socket \<Rightarrow> nat \<Rightarrow> bool \<Rightarrow> string \<Rightarrow> string \<Rightarrow> header_list \<Rightarrow> string list \<Rightarrow> peer \<Rightarrow> string js_result \<times> peer" where
  "openWebSocket sock now aborted previewId path headers protocols p =
     (if aborted then (Inl (tunnel_error ''cancelled'' ''WebSocket handshake cancelled.''), p)
      else case allocate now p of
        Inl e \<Rightarrow> (Inl e, p)
      | Inr (i, p) \<Rightarrow>
          let (n, p) = add_endpoint p;
              st = WsStream \<lparr>vs_previewId = previewId, vs_client = True, vs_endpoint = n, vs_credit = new_credit, vs_timer = True, vs_remote = False\<rparr>;
              p = set_stream i st (p\<lparr>pe_opened := pe_opened p @ [i]\<rparr>)
          in case transmit sock (WsOpen i previewId path headers protocols) (Some i) p of
               (Some e, p) \<Rightarrow> (Inr i, answer_open i True (OpenFailed e) p)
             | (None, p) \<Rightarrow>
                 (case transmit sock (Credit i SocketCredit (int (pl_maxFrameBytes (pe_limits p)))) None p of
                    (Some e, p) \<Rightarrow> (Inr i, answer_open i True (OpenFailed e) p)
                  | (None, p) \<Rightarrow> (Inr i, p)))"

fun fail_streams :: "socket \<Rightarrow> string list \<Rightarrow> string \<Rightarrow> string \<Rightarrow> peer \<Rightarrow> js_error option \<times> peer" where
  "fail_streams sock [] code message p = (None, p)"
| "fail_streams sock (i # is) code message p =
     (case fail_stream sock i code message True p of
        (Some e, p) \<Rightarrow> (Some e, p)
      | (None, p) \<Rightarrow> fail_streams sock is code message p)"

definition preview_of :: "stream_state \<Rightarrow> string" where
  "preview_of st = (case st of HttpStream h \<Rightarrow> hs_previewId h | WsStream w \<Rightarrow> vs_previewId w)"

definition cancelPreview :: "socket \<Rightarrow> string \<Rightarrow> string \<Rightarrow> string \<Rightarrow> peer \<Rightarrow> js_error option \<times> peer" where
  "cancelPreview sock previewId code message p =
     fail_streams sock (map fst (filter (\<lambda>e. preview_of (snd e) = previewId) (pe_streams p))) code message p"

definition close_peer :: "socket \<Rightarrow> int \<Rightarrow> string \<Rightarrow> peer \<Rightarrow> peer" where
  "close_peer sock code reason p = shutdown sock code reason True p"

end
