(* ===== verification/Tunnel_Frames.thy ===== *)
theory Tunnel_Frames
  imports Tunnel_Peer
begin

text \<open>
  The frames a tunnel peer handles, the bodies it sends and receives and the WebSockets it forwards
  (the rest of \<open>createTunnelPeer\<close>). A handler of the peer's user (\<open>handlers.http\<close>,
  \<open>handlers.webSocket\<close>) is called by the open frame; its answer is an operation of its own.
  \<open>text_of\<close> is the lossy text decoder for WebSocket messages.
\<close>

section \<open>Reading a control object\<close>

definition read_header :: "js_value \<Rightarrow> (string \<times> string) option" where
  "read_header v = (case v of JsArray [JsString k, JsString x] \<Rightarrow> Some (k, x) | _ \<Rightarrow> None)"

definition read_string :: "js_value \<Rightarrow> string option" where
  "read_string v = (case v of JsString s \<Rightarrow> Some s | _ \<Rightarrow> None)"

definition read_bool :: "js_value \<Rightarrow> bool option" where
  "read_bool v = (case v of JsBool b \<Rightarrow> Some b | _ \<Rightarrow> None)"

definition read_int :: "js_value \<Rightarrow> int option" where
  "read_int v = (case v of JsInt i \<Rightarrow> Some i | _ \<Rightarrow> None)"

definition read_list :: "(js_value \<Rightarrow> 'a option) \<Rightarrow> js_value \<Rightarrow> 'a list option" where
  "read_list f v = (case v of JsArray xs \<Rightarrow> if list_all (\<lambda>x. f x \<noteq> None) xs then Some (map (\<lambda>x. the (f x)) xs) else None | _ \<Rightarrow> None)"

definition read_credit :: "js_value \<Rightarrow> credit_direction option" where
  "read_credit v = (if v = JsString ''ws'' then Some SocketCredit else map_option BodyCredit (value_direction v))"

definition read_frame_fields :: "string \<Rightarrow> (string \<Rightarrow> js_value) \<Rightarrow> control_frame option" where
  "read_frame_fields t g =
     (if t = ''http_open'' then
        (case (read_string (g ''streamId''), read_string (g ''previewId''), read_string (g ''method''), read_string (g ''path''),
               read_list read_header (g ''headers''), read_bool (g ''hasBody'')) of
           (Some i, Some p, Some m, Some u, Some hs, Some b) \<Rightarrow> Some (HttpOpen i p m u hs b) | _ \<Rightarrow> None)
      else if t = ''http_response'' then
        (case (read_string (g ''streamId''), read_int (g ''status''), read_list read_header (g ''headers''), read_bool (g ''hasBody'')) of
           (Some i, Some s, Some hs, Some b) \<Rightarrow> Some (HttpResponse i s hs b) | _ \<Rightarrow> None)
      else if t = ''body_end'' then
        (case (read_string (g ''streamId''), value_direction (g ''direction'')) of (Some i, Some d) \<Rightarrow> Some (BodyEnd i d) | _ \<Rightarrow> None)
      else if t = ''credit'' then
        (case (read_string (g ''streamId''), read_credit (g ''direction''), read_int (g ''bytes'')) of
           (Some i, Some d, Some n) \<Rightarrow> Some (Credit i d n) | _ \<Rightarrow> None)
      else if t = ''cancel'' then
        (case (read_string (g ''streamId''), read_string (g ''code''), read_string (g ''message'')) of
           (Some i, Some c, Some m) \<Rightarrow> Some (Cancel i c m) | _ \<Rightarrow> None)
      else if t = ''ws_open'' then
        (case (read_string (g ''streamId''), read_string (g ''previewId''), read_string (g ''path''), read_list read_header (g ''headers''),
               read_list read_string (g ''protocols'')) of
           (Some i, Some p, Some u, Some hs, Some ps) \<Rightarrow> Some (WsOpen i p u hs ps) | _ \<Rightarrow> None)
      else if t = ''ws_accept'' then map_option (\<lambda>i. WsAccept i (read_string (g ''protocol''))) (read_string (g ''streamId''))
      else if t = ''ws_close'' then
        (case (read_string (g ''streamId''), read_int (g ''code''), read_string (g ''reason'')) of
           (Some i, Some c, Some r) \<Rightarrow> Some (WsClose i c r) | _ \<Rightarrow> None)
      else if t = ''ping'' then map_option Ping (read_string (g ''nonce''))
      else if t = ''pong'' then map_option Pong (read_string (g ''nonce''))
      else None)"

definition read_control :: "js_value \<Rightarrow> control_frame option" where
  "read_control v = (case js_property v ''type'' of JsString t \<Rightarrow> read_frame_fields t (js_property v) | _ \<Rightarrow> None)"

section \<open>HTTP\<close>

definition refuse_open :: "socket \<Rightarrow> string \<Rightarrow> string \<Rightarrow> peer \<Rightarrow> js_error option \<times> peer" where
  "refuse_open sock i message p = transmit sock (Cancel i ''capacity'' message) None p"

definition handle_http_open :: "socket \<Rightarrow> bool \<Rightarrow> string \<Rightarrow> string \<Rightarrow> bool \<Rightarrow> peer \<Rightarrow> js_error option \<times> peer" where
  "handle_http_open sock hasHandler i previewId hasBody p =
     (if \<not> hasHandler \<or> pl_maxStreams (pe_limits p) \<le> length (pe_streams p)
      then refuse_open sock i ''HTTP forwarding is unavailable.'' p
      else
        let (b, p) = (if hasBody then (case add_body p of (n, p) \<Rightarrow> (Some n, p)) else (None, p));
            p = set_stream i (HttpStream \<lparr>hs_previewId = previewId, hs_client = False, hs_requestReceiver = b, hs_responseReceiver = None,
                  hs_requestCredit = new_credit, hs_responseCredit = new_credit, hs_timer = False\<rparr>) p
        in if hasBody then transmit sock (Credit i (BodyCredit RequestBody) (int (pl_initialCreditBytes (pe_limits p)))) None p else (None, p))"

definition end_body :: "socket \<Rightarrow> string \<Rightarrow> body_direction \<Rightarrow> peer \<Rightarrow> js_error option \<times> peer" where
  "end_body sock i d p = (if \<not> pe_closed p \<and> jhas (pe_streams p) i then transmit sock (BodyEnd i d) None p else (None, p))"

text \<open>
  What follows when a step of the handler's answer throws: the stream fails, as cancelled when its
  controller was aborted before.
\<close>

definition upstream_failed :: "socket \<Rightarrow> string \<Rightarrow> string \<Rightarrow> peer \<Rightarrow> js_error option \<times> peer" where
  "upstream_failed sock i message p =
     fail_stream sock i (if i \<in> set (pe_aborted p) then ''cancelled'' else ''upstream_error'') message True p"

definition http_answered :: "socket \<Rightarrow> string \<Rightarrow> int \<Rightarrow> header_list \<Rightarrow> bool \<Rightarrow> peer \<Rightarrow> js_error option \<times> peer" where
  "http_answered sock i status headers hasBody p =
     (if \<not> jhas (pe_streams p) i then (None, p)
      else case transmit sock (HttpResponse i status headers hasBody) None p of
        (Some e, p) \<Rightarrow> upstream_failed sock i (err_message e) p
      | (None, p) \<Rightarrow>
          if hasBody then (None, p)
          else (case end_body sock i ResponseBody p of
              (Some e, p) \<Rightarrow> upstream_failed sock i (err_message e) p
            | (None, p) \<Rightarrow> (None, finish_stream sock i p)))"

text \<open>The end of the loop of \<open>sendBody\<close>, for the answer and for the request.\<close>

definition response_sent :: "socket \<Rightarrow> string \<Rightarrow> peer \<Rightarrow> js_error option \<times> peer" where
  "response_sent sock i p =
     (case end_body sock i ResponseBody p of
        (Some e, p) \<Rightarrow> upstream_failed sock i (err_message e) p
      | (None, p) \<Rightarrow> (None, finish_stream sock i p))"

definition request_sent :: "socket \<Rightarrow> string \<Rightarrow> peer \<Rightarrow> js_error option \<times> peer" where
  "request_sent sock i p =
     (case end_body sock i RequestBody p of
        (Some e, p) \<Rightarrow> fail_stream sock i ''body_error'' (err_message e) True p
      | (None, p) \<Rightarrow> (None, p))"

datatype chunk_result = ChunkAwaitsCredit | ChunkQueued nat | ChunkFailed js_error

text \<open>One chunk of \<open>sendBody\<close>: the stream is looked up, credit taken, the chunk queued.\<close>

definition send_chunk :: "socket \<Rightarrow> string \<Rightarrow> body_direction \<Rightarrow> nat \<Rightarrow> byte list \<Rightarrow> peer \<Rightarrow> chunk_result \<times> peer" where
  "send_chunk sock i d task data p =
     (case jget (pe_streams p) i of
        Some (HttpStream h) \<Rightarrow>
          (case credit_take task (length data) (case d of RequestBody \<Rightarrow> hs_requestCredit h | ResponseBody \<Rightarrow> hs_responseCredit h) of
             (r, w) \<Rightarrow>
               let h = (case d of RequestBody \<Rightarrow> h\<lparr>hs_requestCredit := w\<rparr> | ResponseBody \<Rightarrow> h\<lparr>hs_responseCredit := w\<rparr>);
                   p = set_stream i (HttpStream h) p
               in case r of
                    CreditAwaited \<Rightarrow> (ChunkAwaitsCredit, p)
                  | CreditRefused e \<Rightarrow> (ChunkFailed e, p)
                  | CreditTaken \<Rightarrow>
                      (case transmit_payload sock (BodyChunk i d data) i p of
                         (Inl e, p) \<Rightarrow> (ChunkFailed e, p)
                       | (Inr n, p) \<Rightarrow> (ChunkQueued n, p)))
      | _ \<Rightarrow> (ChunkFailed (tunnel_error ''cancelled'' ''HTTP stream ended.''), p))"

definition handle_http_response :: "socket \<Rightarrow> string \<Rightarrow> http_stream \<Rightarrow> int \<Rightarrow> header_list \<Rightarrow> bool \<Rightarrow> peer \<Rightarrow> js_error option \<times> peer" where
  "handle_http_response sock i h status headers hasBody p =
     (let (b, p) = (if hasBody then (case add_body p of (n, p) \<Rightarrow> (Some n, p)) else (None, p));
          p = set_stream i (HttpStream (h\<lparr>hs_timer := False, hs_responseReceiver := b\<rparr>)) p;
          p = answer_open i (hs_client h) (HttpAnswered status headers b) p
      in if hasBody then transmit sock (Credit i (BodyCredit ResponseBody) (int (pl_initialCreditBytes (pe_limits p)))) None p
         else (None, finish_stream sock i p))"

text \<open>The reader of a body asks for more, or gives up; \<open>client\<close> tells whose body it is.\<close>

definition read_body :: "socket \<Rightarrow> string \<Rightarrow> body_direction \<Rightarrow> nat \<Rightarrow> peer \<Rightarrow> js_error option \<times> peer" where
  "read_body sock i d b p =
     (case jget (pe_bodies p) b of
        None \<Rightarrow> (None, p)
      | Some r \<Rightarrow>
          (case receiver_pull r of
             (consumed, r) \<Rightarrow>
               let p = p\<lparr>pe_bodies := jset (pe_bodies p) b r\<rparr> in
               (case consumed of None \<Rightarrow> (None, p) | Some n \<Rightarrow> transmit sock (Credit i (BodyCredit d) (int n)) None p)))"

definition cancel_body :: "socket \<Rightarrow> string \<Rightarrow> body_direction \<Rightarrow> nat \<Rightarrow> peer \<Rightarrow> js_error option \<times> peer" where
  "cancel_body sock i d b p =
     (let p = change_body b receiver_cancel p in
      case d of
        RequestBody \<Rightarrow> (None, notice_failure sock (p\<lparr>pe_aborted := pe_aborted p @ [i], pe_out := abort_stream_frames sock i (pe_out p)\<rparr>))
      | ResponseBody \<Rightarrow> fail_stream sock i ''cancelled'' ''Response consumer cancelled.'' True p)"

definition receive_chunk :: "socket \<Rightarrow> string \<Rightarrow> body_direction \<Rightarrow> nat option \<Rightarrow> byte list \<Rightarrow> peer \<Rightarrow> js_error option \<times> peer" where
  "receive_chunk sock i d b data p =
     (case b of
        None \<Rightarrow> (None, p)
      | Some n \<Rightarrow>
          (case jget (pe_bodies p) n of
             None \<Rightarrow> (None, p)
           | Some r \<Rightarrow>
               (case receiver_push data r of
                  Inl e \<Rightarrow> (Some e, p)
                | Inr (consumed, r) \<Rightarrow>
                    let p = p\<lparr>pe_bodies := jset (pe_bodies p) n r\<rparr> in
                    (case consumed of None \<Rightarrow> (None, p) | Some k \<Rightarrow> transmit sock (Credit i (BodyCredit d) (int k)) None p))))"

section \<open>WebSockets\<close>

text \<open>
  A message of the local end in its turn of the sending chain: credit is taken and the message
  queued. \<open>None\<close> is a stream that has ended (its window is closed).
\<close>

definition message_payload :: "tunnel_data \<Rightarrow> byte list" where
  "message_payload data = (case data of TextData s \<Rightarrow> utf8_encode s | BinaryData bs \<Rightarrow> bs)"

definition send_message :: "socket \<Rightarrow> string \<Rightarrow> nat \<Rightarrow> tunnel_data \<Rightarrow> bool \<Rightarrow> peer \<Rightarrow> chunk_result \<times> peer" where
  "send_message sock i task data binary p =
     (case jget (pe_streams p) i of
        Some (WsStream w) \<Rightarrow>
          (case credit_take task (length (message_payload data)) (vs_credit w) of
             (r, c) \<Rightarrow>
               let p = set_stream i (WsStream (w\<lparr>vs_credit := c\<rparr>)) p in
               (case r of
                  CreditAwaited \<Rightarrow> (ChunkAwaitsCredit, p)
                | CreditRefused e \<Rightarrow> (ChunkFailed e, p)
                | CreditTaken \<Rightarrow>
                    (case transmit_payload sock (WsMessage i binary (message_payload data)) i p of
                       (Inl e, p) \<Rightarrow> (ChunkFailed e, p)
                     | (Inr n, p) \<Rightarrow> (ChunkQueued n, p))))
      | _ \<Rightarrow> (ChunkFailed (tunnel_error ''cancelled'' ''Tunnel stream ended.''), p))"

text \<open>An operation of the endpoint that may terminate it.\<close>

definition with_endpoint :: "socket \<Rightarrow> string \<Rightarrow> nat \<Rightarrow> (ws_endpoint \<Rightarrow> (int \<times> string) option \<times> ws_endpoint) \<Rightarrow> peer \<Rightarrow> js_error option \<times> peer" where
  "with_endpoint sock i n f p =
     (case jget (pe_endpoints p) n of
        None \<Rightarrow> (None, p)
      | Some e \<Rightarrow>
          (case f e of
             (terminated, e) \<Rightarrow>
               let p = p\<lparr>pe_endpoints := jset (pe_endpoints p) n e\<rparr> in
               (case terminated of None \<Rightarrow> (None, p) | Some (code, reason) \<Rightarrow> closeWebSocket sock i code reason p)))"

definition handle_ws_message :: "socket \<Rightarrow> (byte list \<Rightarrow> string) \<Rightarrow> string \<Rightarrow> ws_stream \<Rightarrow> bool \<Rightarrow> byte list \<Rightarrow> peer \<Rightarrow> js_error option \<times> peer" where
  "handle_ws_message sock text_of i w binary data p =
     (case with_endpoint sock i (vs_endpoint w)
             (endpoint_receive (if binary then BinaryData data else TextData (text_of data)) binary) p of
        (Some e, p) \<Rightarrow> (Some e, p)
      | (None, p) \<Rightarrow>
          if jhas (pe_streams p) i then transmit sock (Credit i SocketCredit (int (length data))) None p else (None, p))"

definition handle_ws_open :: "socket \<Rightarrow> bool \<Rightarrow> string \<Rightarrow> string \<Rightarrow> peer \<Rightarrow> js_error option \<times> peer" where
  "handle_ws_open sock hasHandler i previewId p =
     (if \<not> hasHandler \<or> pl_maxStreams (pe_limits p) \<le> length (pe_streams p)
      then refuse_open sock i ''WebSocket forwarding is unavailable.'' p
      else
        let (n, p) = add_endpoint p;
            p = set_stream i (WsStream \<lparr>vs_previewId = previewId, vs_client = False, vs_endpoint = n, vs_credit = new_credit,
                  vs_timer = False, vs_remote = False\<rparr>) p
        in transmit sock (Credit i SocketCredit (int (pl_maxFrameBytes (pe_limits p)))) None p)"

text \<open>The handler accepted; the remote end is closed when the stream is no longer the same.\<close>

definition ws_accepted :: "socket \<Rightarrow> string \<Rightarrow> nat \<Rightarrow> string option \<Rightarrow> peer \<Rightarrow> js_error option \<times> peer" where
  "ws_accepted sock i n protocol p =
     (case jget (pe_streams p) i of
        Some (WsStream w) \<Rightarrow>
          if vs_endpoint w \<noteq> n then (None, p)
          else
            let p = set_stream i (WsStream (w\<lparr>vs_remote := True\<rparr>)) p;
                p = change_endpoint n (\<lambda>e. endpoint_listen_close (endpoint_listen e)) p
            in (case transmit sock (WsAccept i protocol) None p of
                  (Some e, p) \<Rightarrow> fail_stream sock i ''ws_rejected'' (err_message e) True p
                | (None, p) \<Rightarrow> (None, p))
      | _ \<Rightarrow> (None, p))"

definition ws_rejected :: "socket \<Rightarrow> string \<Rightarrow> string \<Rightarrow> peer \<Rightarrow> js_error option \<times> peer" where
  "ws_rejected sock i message p = fail_stream sock i ''ws_rejected'' message True p"

text \<open>A message and the closing of the accepted remote socket.\<close>

definition remote_message :: "socket \<Rightarrow> string \<Rightarrow> nat \<Rightarrow> nat \<Rightarrow> tunnel_data \<Rightarrow> bool \<Rightarrow> peer \<Rightarrow> chunk_result \<times> peer" where
  "remote_message sock i n task data binary p =
     (if pl_maxFrameBytes (pe_limits p) - 512 < length (message_payload data)
      then (ChunkFailed (tunnel_error ''frame_too_large'' ''WebSocket message is too large.''),
            snd (fail_stream sock i ''frame_too_large'' ''WebSocket message is too large.'' True p))
      else case jget (pe_streams p) i of
        Some (WsStream w) \<Rightarrow>
          if vs_endpoint w = n then send_message sock i task data binary p
          else (ChunkFailed (tunnel_error ''cancelled'' ''Tunnel stream ended.''), p)
      | _ \<Rightarrow> (ChunkFailed (tunnel_error ''cancelled'' ''Tunnel stream ended.''), p))"

definition remote_closed :: "socket \<Rightarrow> string \<Rightarrow> int \<Rightarrow> string \<Rightarrow> peer \<Rightarrow> js_error option \<times> peer" where
  "remote_closed sock i code reason p = closeWebSocket sock i (normalizeCloseCode code) (take 123 reason) p"

section \<open>Incoming frames\<close>

definition credit_stream :: "credit_direction \<Rightarrow> int \<Rightarrow> stream_state \<Rightarrow> stream_state" where
  "credit_stream d n st =
     (case (st, d) of
        (WsStream w, SocketCredit) \<Rightarrow> WsStream (w\<lparr>vs_credit := credit_grant n (vs_credit w)\<rparr>)
      | (HttpStream h, BodyCredit RequestBody) \<Rightarrow> HttpStream (h\<lparr>hs_requestCredit := credit_grant n (hs_requestCredit h)\<rparr>)
      | (HttpStream h, BodyCredit ResponseBody) \<Rightarrow> HttpStream (h\<lparr>hs_responseCredit := credit_grant n (hs_responseCredit h)\<rparr>)
      | _ \<Rightarrow> st)"

definition body_of :: "body_direction \<Rightarrow> http_stream \<Rightarrow> nat option" where
  "body_of d h = (case d of RequestBody \<Rightarrow> hs_requestReceiver h | ResponseBody \<Rightarrow> hs_responseReceiver h)"

definition frame_stream :: "tunnel_frame \<Rightarrow> string option" where
  "frame_stream frame =
     (case frame of
        BinaryFrame (BodyChunk i _ _) \<Rightarrow> Some i
      | BinaryFrame (WsMessage i _ _) \<Rightarrow> Some i
      | ControlFrame (HttpOpen i _ _ _ _ _) \<Rightarrow> Some i
      | ControlFrame (HttpResponse i _ _ _) \<Rightarrow> Some i
      | ControlFrame (BodyEnd i _) \<Rightarrow> Some i
      | ControlFrame (Credit i _ _) \<Rightarrow> Some i
      | ControlFrame (Cancel i _ _) \<Rightarrow> Some i
      | ControlFrame (WsOpen i _ _ _ _) \<Rightarrow> Some i
      | ControlFrame (WsAccept i _) \<Rightarrow> Some i
      | ControlFrame (WsClose i _ _) \<Rightarrow> Some i
      | ControlFrame (Ping _) \<Rightarrow> None
      | ControlFrame (Pong _) \<Rightarrow> None)"

definition handle_control :: "socket \<Rightarrow> string \<Rightarrow> stream_state \<Rightarrow> control_frame \<Rightarrow> peer \<Rightarrow> js_error option \<times> peer" where
  "handle_control sock i st frame p =
     (case frame of
        Credit _ d n \<Rightarrow> (None, set_stream i (credit_stream d n st) p)
      | BodyEnd _ d \<Rightarrow>
          (case st of
             HttpStream h \<Rightarrow>
               let p = change_optional_body (body_of d h) receiver_close p in
               (None, if d = ResponseBody then finish_stream sock i p else p)
           | WsStream w \<Rightarrow> (None, p))
      | HttpResponse _ status headers hasBody \<Rightarrow>
          (case st of HttpStream h \<Rightarrow> handle_http_response sock i h status headers hasBody p | WsStream w \<Rightarrow> (None, p))
      | Cancel _ code message \<Rightarrow> fail_stream sock i code message False p
      | WsAccept _ protocol \<Rightarrow>
          (case st of
             WsStream w \<Rightarrow> (None, answer_open i (vs_client w) (WsAccepted protocol (vs_endpoint w)) (set_stream i (WsStream (w\<lparr>vs_timer := False\<rparr>)) p))
           | HttpStream h \<Rightarrow> (None, p))
      | WsClose _ code reason \<Rightarrow>
          (case st of
             WsStream w \<Rightarrow> (None, change_endpoint (vs_endpoint w) (endpoint_closed code reason) (finish_stream sock i p))
           | HttpStream h \<Rightarrow> (None, p))
      | _ \<Rightarrow> (None, p))"

definition handle_stream_frame :: "socket \<Rightarrow> (byte list \<Rightarrow> string) \<Rightarrow> string \<Rightarrow> stream_state \<Rightarrow> tunnel_frame \<Rightarrow> peer \<Rightarrow> js_error option \<times> peer" where
  "handle_stream_frame sock text_of i st frame p =
     (case frame of
        ControlFrame f \<Rightarrow> handle_control sock i st f p
      | BinaryFrame (BodyChunk _ d data) \<Rightarrow>
          (case st of HttpStream h \<Rightarrow> receive_chunk sock i d (body_of d h) data p | WsStream w \<Rightarrow> (None, p))
      | BinaryFrame (WsMessage _ binary data) \<Rightarrow>
          (case st of WsStream w \<Rightarrow> handle_ws_message sock text_of i w binary data p | HttpStream h \<Rightarrow> (None, p)))"

record peer_handlers =
  hd_http :: bool
  hd_webSocket :: bool

definition handle_open_stream :: "socket \<Rightarrow> (byte list \<Rightarrow> string) \<Rightarrow> tunnel_frame \<Rightarrow> peer \<Rightarrow> js_error option \<times> peer" where
  "handle_open_stream sock text_of frame p =
     (case frame_stream frame of
        None \<Rightarrow> (None, p)
      | Some i \<Rightarrow> (case jget (pe_streams p) i of None \<Rightarrow> (None, p) | Some st \<Rightarrow> handle_stream_frame sock text_of i st frame p))"

definition handle :: "socket \<Rightarrow> peer_handlers \<Rightarrow> (byte list \<Rightarrow> string) \<Rightarrow> int \<Rightarrow> tunnel_frame \<Rightarrow> peer \<Rightarrow> js_error option \<times> peer" where
  "handle sock handlers text_of now frame p =
     (case frame of
        ControlFrame f \<Rightarrow>
          (case f of
             WsOpen i previewId _ _ _ \<Rightarrow> handle_ws_open sock (hd_webSocket handlers) i previewId p
           | Ping nonce \<Rightarrow> transmit sock (Pong nonce) None (p\<lparr>pe_lastReceived := now\<rparr>)
           | Pong _ \<Rightarrow> (None, p\<lparr>pe_lastReceived := now\<rparr>)
           | HttpOpen i previewId _ _ _ hasBody \<Rightarrow> handle_http_open sock (hd_http handlers) i previewId hasBody (p\<lparr>pe_lastReceived := now\<rparr>)
           | _ \<Rightarrow> handle_open_stream sock text_of frame (p\<lparr>pe_lastReceived := now\<rparr>))
      | BinaryFrame _ \<Rightarrow> handle_open_stream sock text_of frame (p\<lparr>pe_lastReceived := now\<rparr>))"

definition decoded_view :: "decoded_frame \<Rightarrow> tunnel_frame option" where
  "decoded_view d = (case d of DecodedBinary f \<Rightarrow> Some (BinaryFrame f) | DecodedControl v \<Rightarrow> map_option ControlFrame (read_control v))"

text \<open>The message listener of the tunnel's socket, removed by the shutdown.\<close>

definition on_message :: "socket \<Rightarrow> peer_handlers \<Rightarrow> (byte list \<Rightarrow> string) \<Rightarrow> int \<Rightarrow> tunnel_data \<Rightarrow> peer \<Rightarrow> peer" where
  "on_message sock handlers text_of now data p =
     (if pe_closed p then p
      else case decodeTunnelFrame (pl_maxFrameBytes (pe_limits p)) data of
        Inl e \<Rightarrow> close_socket 1002 ''Invalid tunnel frame'' p
      | Inr d \<Rightarrow>
          (case decoded_view d of
             None \<Rightarrow> p\<lparr>pe_lastReceived := now\<rparr>
           | Some frame \<Rightarrow>
               (case handle sock handlers text_of now frame p of
                  (Some e, p) \<Rightarrow> close_socket 1011 ''Tunnel frame handling failed'' p
                | (None, p) \<Rightarrow> p)))"

definition heartbeat :: "socket \<Rightarrow> int \<Rightarrow> peer \<Rightarrow> peer" where
  "heartbeat sock now p =
     (if pe_closed p then p
      else if pl_heartbeatTimeoutMs (pe_limits p) < now - pe_lastReceived p then close_socket 1011 ''Tunnel heartbeat timeout'' p
      else case transmit sock (Ping (base36 (nat now))) None p of
        (Some e, p) \<Rightarrow> close_socket 1013 ''Tunnel backpressure'' p
      | (None, p) \<Rightarrow> p)"

definition socket_closed :: "socket \<Rightarrow> string \<Rightarrow> peer \<Rightarrow> peer" where
  "socket_closed sock reason p = shutdown sock 1011 (if reason = [] then ''Tunnel disconnected.'' else reason) False p"

definition open_timed_out :: "socket \<Rightarrow> string \<Rightarrow> peer \<Rightarrow> js_error option \<times> peer" where
  "open_timed_out sock i p =
     (case jget (pe_streams p) i of
        Some (HttpStream h) \<Rightarrow> if hs_timer h then fail_stream sock i ''timeout'' ''HTTP response headers timed out.'' True p else (None, p)
      | Some (WsStream w) \<Rightarrow> if vs_timer w then fail_stream sock i ''timeout'' ''WebSocket handshake timed out.'' True p else (None, p)
      | None \<Rightarrow> (None, p))"

definition open_aborted :: "socket \<Rightarrow> string \<Rightarrow> peer \<Rightarrow> js_error option \<times> peer" where
  "open_aborted sock i p =
     (case jget (pe_streams p) i of
        Some (HttpStream h) \<Rightarrow> if hs_client h then fail_stream sock i ''cancelled'' ''HTTP request cancelled.'' True p else (None, p)
      | Some (WsStream w) \<Rightarrow> if vs_client w then fail_stream sock i ''cancelled'' ''WebSocket handshake cancelled.'' True p else (None, p)
      | None \<Rightarrow> (None, p))"

definition frame_sent :: "socket \<Rightarrow> pending_frame \<Rightarrow> js_error option \<Rightarrow> peer \<Rightarrow> peer" where
  "frame_sent sock item failure p = notice_failure sock (p\<lparr>pe_out := complete_send sock item failure (pe_out p)\<rparr>)"

definition poll_peer :: "socket \<Rightarrow> peer \<Rightarrow> peer" where
  "poll_peer sock p = notice_failure sock (p\<lparr>pe_out := poll_outbound sock (pe_out p)\<rparr>)"


section \<open>The peer as a machine\<close>

datatype peer_event =
    OpenHttp nat bool http_request
  | OpenWebSocket nat bool string string header_list "string list"
  | CancelPreview string string string
  | ClosePeer int string
  | MessageArrived int tunnel_data
  | SocketClosed string
  | HeartbeatFired int
  | OpenTimedOut string
  | OpenAborted string
  | FrameSent pending_frame "js_error option"
  | QueuePolled
  | HandlerAnswered string int header_list bool
  | HandlerFailed string string
  | ResponseSent string
  | RequestSent string
  | RequestFailed string string
  | ChunkRead string body_direction nat "byte list"
  | BodyPulled string body_direction nat
  | BodyCancelled string body_direction nat
  | EndpointSend string nat tunnel_data bool
  | EndpointSent string nat bool
  | EndpointListen nat
  | EndpointClose string int string
  | MessageTurn string nat tunnel_data bool
  | SocketAccepted string nat "string option"
  | SocketRejected string string
  | RemoteMessage string nat nat tunnel_data bool
  | RemoteClosed string int string

fun peer_step :: "socket \<Rightarrow> peer_handlers \<Rightarrow> (byte list \<Rightarrow> string) \<Rightarrow> peer \<Rightarrow> peer_event \<Rightarrow> peer" where
  "peer_step sock serve text_of p (OpenHttp now aborted request) = snd (openHttp sock now aborted request p)"
| "peer_step sock serve text_of p (OpenWebSocket now aborted previewId path headers protocols) =
     snd (openWebSocket sock now aborted previewId path headers protocols p)"
| "peer_step sock serve text_of p (CancelPreview previewId code message) = snd (cancelPreview sock previewId code message p)"
| "peer_step sock serve text_of p (ClosePeer code reason) = close_peer sock code reason p"
| "peer_step sock serve text_of p (MessageArrived now data) = on_message sock serve text_of now data p"
| "peer_step sock serve text_of p (SocketClosed reason) = socket_closed sock reason p"
| "peer_step sock serve text_of p (HeartbeatFired now) = heartbeat sock now p"
| "peer_step sock serve text_of p (OpenTimedOut i) = snd (open_timed_out sock i p)"
| "peer_step sock serve text_of p (OpenAborted i) = snd (open_aborted sock i p)"
| "peer_step sock serve text_of p (FrameSent item failure) = frame_sent sock item failure p"
| "peer_step sock serve text_of p QueuePolled = poll_peer sock p"
| "peer_step sock serve text_of p (HandlerAnswered i status headers hasBody) = snd (http_answered sock i status headers hasBody p)"
| "peer_step sock serve text_of p (HandlerFailed i message) = snd (upstream_failed sock i message p)"
| "peer_step sock serve text_of p (ResponseSent i) = snd (response_sent sock i p)"
| "peer_step sock serve text_of p (RequestSent i) = snd (request_sent sock i p)"
| "peer_step sock serve text_of p (RequestFailed i message) = snd (fail_stream sock i ''body_error'' message True p)"
| "peer_step sock serve text_of p (ChunkRead i d task data) = snd (send_chunk sock i d task data p)"
| "peer_step sock serve text_of p (BodyPulled i d b) = snd (read_body sock i d b p)"
| "peer_step sock serve text_of p (BodyCancelled i d b) = snd (cancel_body sock i d b p)"
| "peer_step sock serve text_of p (EndpointSend i n data binary) = snd (with_endpoint sock i n (endpoint_send data binary) p)"
| "peer_step sock serve text_of p (EndpointSent i n ok) = snd (with_endpoint sock i n (endpoint_sent ok) p)"
| "peer_step sock serve text_of p (EndpointListen n) = change_endpoint n endpoint_listen p"
| "peer_step sock serve text_of p (EndpointClose i code reason) =
     snd (closeWebSocket sock i (fst (endpoint_close code reason)) (snd (endpoint_close code reason)) p)"
| "peer_step sock serve text_of p (MessageTurn i task data binary) = snd (send_message sock i task data binary p)"
| "peer_step sock serve text_of p (SocketAccepted i n protocol) = snd (ws_accepted sock i n protocol p)"
| "peer_step sock serve text_of p (SocketRejected i message) = snd (ws_rejected sock i message p)"
| "peer_step sock serve text_of p (RemoteMessage i n task data binary) = snd (remote_message sock i n task data binary p)"
| "peer_step sock serve text_of p (RemoteClosed i code reason) = snd (remote_closed sock i code reason p)"

text \<open>
  What the surroundings of a peer keep to. New stream ids are not in use (both ends draw their ids
  from clock and counter; the code does not check). The other end answers a stream before it sends
  bodies, messages or the end of it, and the user of the peer has the socket of a stream only after
  the answer.
\<close>

definition client_of :: "stream_state \<Rightarrow> bool" where
  "client_of st = (case st of HttpStream h \<Rightarrow> hs_client h | WsStream w \<Rightarrow> vs_client w)"

definition timer_of :: "stream_state \<Rightarrow> bool" where
  "timer_of st = (case st of HttpStream h \<Rightarrow> hs_timer h | WsStream w \<Rightarrow> vs_timer w)"

definition answered_stream :: "peer \<Rightarrow> string \<Rightarrow> bool" where
  "answered_stream p i = (case jget (pe_streams p) i of Some st \<Rightarrow> client_of st \<longrightarrow> jhas (pe_answers p) i | None \<Rightarrow> True)"

definition fresh_stream :: "peer \<Rightarrow> string \<Rightarrow> bool" where
  "fresh_stream p i \<longleftrightarrow> jget (pe_streams p) i = None"

definition frame_admissible :: "peer \<Rightarrow> tunnel_frame \<Rightarrow> bool" where
  "frame_admissible p frame =
     (case frame of
        ControlFrame (HttpOpen i _ _ _ _ _) \<Rightarrow> fresh_stream p i
      | ControlFrame (WsOpen i _ _ _ _) \<Rightarrow> fresh_stream p i
      | ControlFrame (BodyEnd i _) \<Rightarrow> answered_stream p i
      | ControlFrame (WsClose i _ _) \<Rightarrow> answered_stream p i
      | BinaryFrame (WsMessage i _ _) \<Rightarrow> answered_stream p i
      | _ \<Rightarrow> True)"

definition event_admissible :: "peer \<Rightarrow> peer_event \<Rightarrow> bool" where
  "event_admissible p e =
     (case e of
        OpenHttp now _ _ \<Rightarrow> fresh_stream p (base36 now @ ''-'' @ base36 (Suc (pe_sequence p)))
      | OpenWebSocket now _ _ _ _ _ \<Rightarrow> fresh_stream p (base36 now @ ''-'' @ base36 (Suc (pe_sequence p)))
      | MessageArrived _ data \<Rightarrow>
          (case decodeTunnelFrame (pl_maxFrameBytes (pe_limits p)) data of
             Inr d \<Rightarrow> (case decoded_view d of Some frame \<Rightarrow> frame_admissible p frame | None \<Rightarrow> True)
           | Inl _ \<Rightarrow> True)
      | HandlerAnswered i _ _ _ \<Rightarrow> answered_stream p i
      | ResponseSent i \<Rightarrow> answered_stream p i
      | EndpointSend i _ _ _ \<Rightarrow> answered_stream p i
      | EndpointSent i _ _ \<Rightarrow> answered_stream p i
      | EndpointClose i _ _ \<Rightarrow> answered_stream p i
      | RemoteClosed i _ _ \<Rightarrow> answered_stream p i
      | _ \<Rightarrow> True)"

inductive peer_run :: "socket \<Rightarrow> peer_handlers \<Rightarrow> (byte list \<Rightarrow> string) \<Rightarrow> peer \<Rightarrow> peer \<Rightarrow> bool"
  for sock serve text_of where
  run_refl: "peer_run sock serve text_of p p"
| run_step: "peer_run sock serve text_of p q \<Longrightarrow> event_admissible q e \<Longrightarrow> peer_run sock serve text_of p (peer_step sock serve text_of q e)"

inductive_cases peer_runE: "peer_run sock serve text_of p q"

end
