(* ===== verification/Tunnel_Outbound_Properties.thy ===== *)
theory Tunnel_Outbound_Properties
  imports Tunnel_Outbound
begin

text \<open>What the send queue of the tunnel guarantees: bounds, no lost wake-up, order, promises.\<close>

section \<open>Frame conditions\<close>

text \<open>A later state has the same limits and every promise settled before is settled the same way.\<close>

definition later_queue :: "outbound \<Rightarrow> outbound \<Rightarrow> bool" where
  "later_queue s t \<longleftrightarrow> ob_maxQueuedBytes t = ob_maxQueuedBytes s \<and> ob_payloadLimit t = ob_payloadLimit s
     \<and> (\<forall>i r. jget (ob_settled s) i = Some r \<longrightarrow> jget (ob_settled t) i = Some r)"

lemma later_refl [simp]: "later_queue s s"
  by (simp add: later_queue_def)

lemma later_trans [trans]: "later_queue s t \<Longrightarrow> later_queue t u \<Longrightarrow> later_queue s u"
  by (simp add: later_queue_def)

lemma later_settle: "later_queue s (settle_frame f r s)"
  by (simp add: later_queue_def settle_frame_keeps)

lemma later_same:
  "ob_maxQueuedBytes t = ob_maxQueuedBytes s \<Longrightarrow> ob_payloadLimit t = ob_payloadLimit s \<Longrightarrow> ob_settled t = ob_settled s \<Longrightarrow> later_queue s t"
  by (simp add: later_queue_def)

lemma later_settle_same:
  "ob_maxQueuedBytes t = ob_maxQueuedBytes s \<Longrightarrow> ob_payloadLimit t = ob_payloadLimit s \<Longrightarrow> ob_settled t = ob_settled s \<Longrightarrow>
   later_queue s (settle_frame f r t)"
  by (rule later_trans [OF later_same later_settle])

lemma later_close: "later_queue s (close_outbound e s)"
  by (cases "ob_failure s") (simp_all add: close_outbound_def later_queue_def settle_frames_keeps)

lemma later_fail: "later_queue s (fail_send item e s)"
proof (cases "item \<in> set (ob_sending s)")
  case True
  show ?thesis unfolding fail_send_def if_P [OF True] by (rule later_trans [OF later_settle_same later_close]) simp_all
qed (simp add: fail_send_def)

lemma later_take: "later_queue s (take_frame c item s)"
  by (rule later_same) simp_all

lemma later_send_loop: "later_queue s (send_loop socket s)"
proof (induction socket s rule: send_loop.induct)
  case (1 socket s)
  show ?case
  proof (cases "next_frame s")
    case (Some p)
    then obtain c item where n: "next_frame s = Some (c, item)" by (cases p) auto
    show ?thesis
    proof (cases "frame_fits (socket (ob_turn s)) c item s")
      case False
      with n show ?thesis by (subst send_loop.simps) (simp add: Let_def wait_for_room_def later_same)
    next
      case True
      with n 1 [OF n refl refl] later_trans [OF later_take later_fail] later_trans [OF later_take] show ?thesis
        by (subst send_loop.simps) (auto simp: Let_def split: option.split)
    qed
  qed (subst send_loop.simps, simp)
qed

lemma later_drain: "later_queue s (drain_outbound socket s)"
  using later_send_loop [of s socket] by (auto simp: drain_outbound_def Let_def later_queue_def)

lemma later_drain_from: "later_queue s t \<Longrightarrow> later_queue s (drain_outbound socket t)"
  by (rule later_trans [OF _ later_drain])

lemma later_step: "later_queue s (outbound_step socket s event)"
  by (cases event)
    (auto simp: send_control_def send_payload_def complete_send_def abort_frame_def abort_control_def abort_payload_def poll_outbound_def
      later_close later_fail later_same later_settle_same intro!: later_drain_from split: option.split sum.split)

text \<open>A promise is resolved only when the socket was given its frame.\<close>

definition resolved_sent :: "outbound \<Rightarrow> bool" where
  "resolved_sent s \<longleftrightarrow> set (ob_sending s) \<subseteq> set (ob_sent s)
     \<and> (\<forall>i. jget (ob_settled s) i = Some (Inr ()) \<longrightarrow> (\<exists>f \<in> set (ob_sent s). pf_payload f \<and> pf_id f = i))"

lemma resolved_settle:
  assumes "resolved_sent s" "r = Inr () \<Longrightarrow> item \<in> set (ob_sent s)"
  shows "resolved_sent (settle_frame item r s)"
  using assms by (auto simp: resolved_sent_def settle_frame_def)

lemma resolved_settle_errors: "resolved_sent s \<Longrightarrow> resolved_sent (settle_frames (Inl e) fs s)"
proof (induction fs arbitrary: s)
  case (Cons f fs)
  have "resolved_sent (settle_frame f (Inl e) s)" by (rule resolved_settle [OF Cons.prems]) simp
  from Cons.IH [OF this] show ?case by (simp add: settle_frames_def)
qed (simp add: settle_frames_def)

lemma resolved_subset:
  "resolved_sent s \<Longrightarrow> set (ob_sending t) \<subseteq> set (ob_sending s) \<Longrightarrow> ob_sent t = ob_sent s \<Longrightarrow> ob_settled t = ob_settled s \<Longrightarrow> resolved_sent t"
  by (auto simp: resolved_sent_def)

lemma resolved_close: "resolved_sent s \<Longrightarrow> resolved_sent (close_outbound e s)"
proof (cases "ob_failure s")
  case None
  assume "resolved_sent s"
  then have "resolved_sent (s\<lparr>ob_failure := Some e, ob_polling := False\<rparr>)" by (simp add: resolved_sent_def)
  from resolved_settle_errors [OF this] None show ?thesis by (simp add: close_outbound_def resolved_sent_def)
qed (simp add: close_outbound_def)

lemma resolved_leave:
  assumes "resolved_sent s" "item \<in> set (ob_sending s)"
  shows "resolved_sent (settle_frame item r (s\<lparr>ob_sending := remove1 item (ob_sending s), ob_sendingBytes := b\<rparr>))"
proof (rule resolved_settle)
  show "resolved_sent (s\<lparr>ob_sending := remove1 item (ob_sending s), ob_sendingBytes := b\<rparr>)"
    by (rule resolved_subset [OF assms(1)]) (simp_all add: set_remove1_subset)
  show "item \<in> set (ob_sent (s\<lparr>ob_sending := remove1 item (ob_sending s), ob_sendingBytes := b\<rparr>))"
    using assms by (auto simp: resolved_sent_def)
qed

lemma resolved_fail: "resolved_sent s \<Longrightarrow> resolved_sent (fail_send item e s)"
  by (simp add: fail_send_def resolved_close resolved_leave)

lemma resolved_take: "resolved_sent s \<Longrightarrow> resolved_sent (take_frame c item s)"
  by (auto simp: resolved_sent_def take_frame_def Let_def)

lemma resolved_send_loop: "resolved_sent s \<Longrightarrow> resolved_sent (send_loop socket s)"
proof (induction socket s rule: send_loop.induct)
  case (1 socket s)
  show ?case
  proof (cases "next_frame s")
    case None
    with 1(2) show ?thesis by (subst send_loop.simps) simp
  next
    case (Some p)
    then obtain c item where n: "next_frame s = Some (c, item)" by (cases p) auto
    have "resolved_sent (wait_for_room s)" using 1(2) by (simp add: resolved_sent_def wait_for_room_def)
    with n 1(1) [OF n refl refl] resolved_take [OF 1(2)] resolved_fail show ?thesis
      by (subst send_loop.simps) (auto simp: Let_def split: option.split)
  qed
qed

lemma resolved_drain: "resolved_sent s \<Longrightarrow> resolved_sent (drain_outbound socket s)"
  using resolved_send_loop [of s socket] by (auto simp: drain_outbound_def Let_def resolved_sent_def)

lemma resolved_step: "resolved_sent s \<Longrightarrow> resolved_sent (outbound_step socket s event)"
proof (cases event)
  case (SendCompleted item failure)
  assume "resolved_sent s"
  then show ?thesis using SendCompleted
    by (cases failure) (auto simp: complete_send_def resolved_fail intro!: resolved_drain resolved_leave)
qed
    (auto simp: send_control_def send_payload_def complete_send_def abort_frame_def abort_control_def abort_payload_def poll_outbound_def
      resolved_close resolved_fail resolved_leave intro!: resolved_drain resolved_settle elim: resolved_subset split: option.split sum.split)+

interpretation resolved_machine: machine resolved_sent "outbound_step socket" for socket
  by unfold_locales (rule resolved_step)

lemma later_run: "queue_ok s \<and> awake s \<Longrightarrow> later_queue s (foldl (outbound_step socket) s events)"
  by (rule outbound_machine.run_rel [where R = later_queue]) (auto simp: later_step intro: reflpI transpI elim: later_trans)

lemma reachable_queue:
  assumes "s = foldl (outbound_step socket) (new_outbound frame queued) events"
  shows "queue_ok s" "awake s" "resolved_sent s" "later_queue (new_outbound frame queued) s"
proof -
  show "queue_ok s" "awake s" using outbound_machine.run_inv [OF new_outbound_ok, of socket] assms by blast+
  have "resolved_sent (new_outbound frame queued)" by (simp add: resolved_sent_def new_outbound_def)
  from resolved_machine.run_inv [OF this, of socket] assms show "resolved_sent s" by blast
  show "later_queue (new_outbound frame queued) s" unfolding assms
    by (rule later_run [OF new_outbound_ok])
qed

section \<open>Properties\<close>

text \<open>C33: The bytes handed to the socket and not yet confirmed, and the bytes of waiting control
  frames, are counted exactly and stay within the queue limit; and no wake-up is lost: while a frame
  waits in an open queue, a send is outstanding or the polling timer is set.\<close>

theorem outbound_bounded_and_awake:
  assumes "s = foldl (outbound_step socket) (new_outbound frame queued) events" and "frame \<le> queued"
  shows "ob_sendingBytes s = frame_bytes (ob_sending s) \<and> ob_sendingBytes s \<le> int queued
    \<and> ob_controlBytes s = frame_bytes (ob_controls s) \<and> ob_controlBytes s \<le> int queued
    \<and> (ob_controls s \<noteq> [] \<or> ob_payloads s \<noteq> [] \<longrightarrow> ob_failure s = None \<and> (ob_sending s \<noteq> [] \<or> ob_polling s))"
proof -
  note reach = reachable_queue [OF assms(1)]
  have "ob_maxQueuedBytes s = queued" "ob_payloadLimit s \<le> queued"
    using reach(4) assms(2) by (auto simp: later_queue_def new_outbound_def)
  with queue_okD(1-4,12) [OF reach(1)] reach(2) show ?thesis by (cases "ob_failure s") (auto simp: awake_def max_def split: if_splits)
qed

text \<open>C34: The socket is given the control frames in the order they were queued and the payload frames
  in the order they were queued, each at most once. Every promise of a payload is settled or its frame
  is still queued or in flight, all are settled once the queue failed or closed, a promise resolves
  only after its frame was sent, and a settled promise never changes.\<close>

theorem outbound_order_and_promises:
  assumes "s = foldl (outbound_step socket) (new_outbound frame queued) events"
  shows "in_order (of_class False (ob_sent s)) \<and> in_order (of_class True (ob_sent s))
    \<and> (\<forall>i \<in> set (ob_issued s). jhas (ob_settled s) i
         \<or> ob_failure s = None \<and> (\<exists>f \<in> set (ob_payloads s) \<union> set (ob_sending s). pf_payload f \<and> pf_id f = i))
    \<and> (\<forall>i. jget (ob_settled s) i = Some (Inr ()) \<longrightarrow> (\<exists>f \<in> set (ob_sent s). pf_payload f \<and> pf_id f = i))
    \<and> (\<forall>i r more. jget (ob_settled s) i = Some r \<longrightarrow> jget (ob_settled (foldl (outbound_step socket) s more)) i = Some r)"
proof -
  note reach = reachable_queue [OF assms]
  note ok = queue_okD [OF reach(1)]
  have order: "in_order (of_class False (ob_sent s))" "in_order (of_class True (ob_sent s))"
    using ok(5,6) by (simp_all add: in_order_def sorted_wrt_append)
  have promises: "jhas (ob_settled s) i \<or> ob_failure s = None \<and> (\<exists>f \<in> set (ob_payloads s) \<union> set (ob_sending s). pf_payload f \<and> pf_id f = i)"
    if "i \<in> set (ob_issued s)" for i
    using ok(13) [OF that] ok(12) unfolding promise_kept_def by (cases "ob_failure s") auto
  have "later_queue s (foldl (outbound_step socket) s more)" for more
    by (rule later_run) (use reach in simp)
  then have kept: "jget (ob_settled (foldl (outbound_step socket) s more)) i = Some r" if "jget (ob_settled s) i = Some r" for i r more
    using that by (simp add: later_queue_def)
  from order promises reach(3) kept show ?thesis unfolding resolved_sent_def by blast
qed

section \<open>An example\<close>

definition free_socket :: "nat \<Rightarrow> socket_reply" where
  "free_socket n = \<lparr>sr_buffered = 0, sr_error = None\<rparr>"

definition sample_sends :: "outbound_event list" where
  "sample_sends = [SendControl (ControlFrame (Ping ''1'')) None False, CloseOutbound (tunnel_error ''closed'' ''bye'')]"

lemma outbound_bounded_and_awake_witness:
  "ob_sendingBytes (foldl (outbound_step free_socket) (new_outbound 1024 4096) sample_sends) \<le> 4096"
  using outbound_bounded_and_awake [OF refl, of 1024 4096 free_socket sample_sends] by simp

lemma outbound_order_and_promises_witness:
  "in_order (of_class True (ob_sent (foldl (outbound_step free_socket) (new_outbound 1024 4096) sample_sends)))"
  using outbound_order_and_promises [OF refl, of free_socket 1024 4096 sample_sends] by simp

end
