(* ===== verification/Tunnel_Peer_Properties.thy ===== *)
theory Tunnel_Peer_Properties
  imports Tunnel_Frames Tunnel_Outbound_Properties
begin

text \<open>
  What a tunnel peer guarantees: the stream limit, the end of every stream with the tunnel, nothing
  sent after the end, and an answer to every open request.
\<close>

section \<open>The queue after its failure\<close>

text \<open>A failed queue stays failed and sends nothing.\<close>

definition queue_ends :: "outbound \<Rightarrow> outbound \<Rightarrow> bool" where
  "queue_ends s t \<longleftrightarrow> (\<forall>e. ob_failure s = Some e \<longrightarrow> ob_failure t = Some e \<and> ob_sent t = ob_sent s)"

lemma queue_ends_refl [simp]: "queue_ends s s"
  by (simp add: queue_ends_def)

lemma queue_ends_trans: "queue_ends s t \<Longrightarrow> queue_ends t u \<Longrightarrow> queue_ends s u"
  by (simp add: queue_ends_def)

lemma queue_ends_drain: "ob_failure t = ob_failure s \<Longrightarrow> ob_sent t = ob_sent s \<Longrightarrow> queue_ends s (drain_outbound sock t)"
  by (simp add: queue_ends_def drain_outbound_def)

lemma queue_ends_close: "queue_ends s (close_outbound e s)"
  by (cases "ob_failure s") (simp_all add: queue_ends_def close_outbound_def)

lemma close_fails: "ob_failure (close_outbound e s) \<noteq> None"
  by (cases "ob_failure s") (simp_all add: close_outbound_def)

lemma queue_ends_control: "queue_ends s (snd (send_control sock f i a s))"
  by (auto simp: queue_ends_def send_control_def split: option.split)

lemma queue_ends_payload: "queue_ends s (snd (send_payload sock f i a s))"
  by (auto simp: queue_ends_def send_payload_def split: option.split)

lemma queue_ends_abort: "queue_ends s (abort_frame sock f s)"
  by (auto simp: abort_frame_def abort_control_def abort_payload_def intro!: queue_ends_drain)

lemma queue_ends_stream: "queue_ends s (abort_stream_frames sock i s)"
proof -
  have "queue_ends t (foldl (\<lambda>out f. abort_frame sock f out) t fs)" for t fs
    by (induction fs arbitrary: t) (auto intro: queue_ends_trans queue_ends_abort)
  then show ?thesis by (simp add: abort_stream_frames_def)
qed

lemma queue_ends_complete: "queue_ends s (complete_send sock item e s)"
  by (cases e) (auto simp: complete_send_def fail_send_def queue_ends_def close_outbound_def drain_outbound_def split: option.splits)

lemma queue_ends_poll: "queue_ends s (poll_outbound sock s)"
  by (simp add: poll_outbound_def queue_ends_drain)

section \<open>The invariant\<close>

definition streams_ok :: "peer \<Rightarrow> bool" where
  "streams_ok p \<longleftrightarrow> wf_jmap (pe_streams p) \<and> length (pe_streams p) \<le> pl_maxStreams (pe_limits p)
     \<and> (\<forall>i st. jget (pe_streams p) i = Some st \<longrightarrow> client_of st \<longrightarrow> jget (pe_answers p) i = None \<longrightarrow> timer_of st)
     \<and> (\<forall>i \<in> set (pe_opened p). jhas (pe_answers p) i \<or> (\<exists>st. jget (pe_streams p) i = Some st \<and> client_of st))"

definition peer_ok :: "peer \<Rightarrow> bool" where
  "peer_ok p \<longleftrightarrow> streams_ok p \<and> (pe_closed p \<longrightarrow> pe_streams p = [] \<and> ob_failure (pe_out p) \<noteq> None)"

text \<open>
  A good step keeps the invariant, the limits and the answers, and a closed peer closed and silent.
\<close>

definition peer_later :: "peer \<Rightarrow> peer \<Rightarrow> bool" where
  "peer_later p q \<longleftrightarrow> pe_limits q = pe_limits p
     \<and> (\<forall>i a. jget (pe_answers p) i = Some a \<longrightarrow> jget (pe_answers q) i = Some a)
     \<and> set (pe_opened p) \<subseteq> set (pe_opened q)
     \<and> (pe_closed p \<longrightarrow> pe_closed q) \<and> queue_ends (pe_out p) (pe_out q)"

definition good :: "peer \<Rightarrow> peer \<Rightarrow> bool" where
  "good p q \<longleftrightarrow> (peer_ok p \<longrightarrow> peer_ok q) \<and> peer_later p q"

lemma peer_later_refl [simp]: "peer_later p p"
  by (simp add: peer_later_def)

lemma peer_later_trans: "peer_later p q \<Longrightarrow> peer_later q r \<Longrightarrow> peer_later p r"
  by (auto simp: peer_later_def intro: queue_ends_trans)

lemma good_refl [simp, intro]: "good p p"
  by (simp add: good_def)

lemma good_trans: "good p q \<Longrightarrow> good q r \<Longrightarrow> good p r"
  by (auto simp: good_def intro: peer_later_trans)

text \<open>A step that changes only the records behind the streams.\<close>

lemma good_same:
  assumes "pe_streams q = pe_streams p" "pe_limits q = pe_limits p" "pe_answers q = pe_answers p" "pe_opened q = pe_opened p"
    "pe_closed q = pe_closed p" "queue_ends (pe_out p) (pe_out q)" "pe_closed p \<longrightarrow> ob_failure (pe_out p) \<noteq> None \<longrightarrow> ob_failure (pe_out q) \<noteq> None"
  shows "good p q"
  using assms by (auto simp: good_def peer_ok_def streams_ok_def peer_later_def)

lemma good_body [simp]: "good p (change_body b f p)"
  by (rule good_same) (simp_all add: change_body_def split: option.split)

lemma good_optional_body [simp]: "good p (change_optional_body b f p)"
  by (simp add: change_optional_body_def split: option.split)

lemma good_endpoint [simp]: "good p (change_endpoint n f p)"
  by (rule good_same) (simp_all add: change_endpoint_def split: option.split)

lemma good_add_body: "good p (snd (add_body p))"
  by (rule good_same) (simp_all add: add_body_def)

lemma good_add_endpoint: "good p (snd (add_endpoint p))"
  by (rule good_same) (simp_all add: add_endpoint_def)

lemma good_close_socket [simp]: "good p (close_socket code reason p)"
  by (rule good_same) (simp_all add: close_socket_def)

lemma good_answer: "good p (answer_open i c a p)"
  by (auto simp: good_def peer_ok_def streams_ok_def peer_later_def answer_open_def)

lemma good_streams:
  assumes "jget (pe_streams p) i = Some st" "client_of st' = client_of st" "timer_of st' = timer_of st"
  shows "good p (set_stream i st' p)"
proof -
  have "length (jset (pe_streams p) i st') = length (pe_streams p)" "pe_streams p \<noteq> []"
    using assms(1) by (auto simp: length_jset)
  with assms show ?thesis
    by (auto simp: good_def peer_ok_def streams_ok_def peer_later_def set_stream_def)
qed

section \<open>Ending streams\<close>

lemma finish_fields:
  "pe_limits (finish_core sock i p) = pe_limits p" "pe_answers (finish_core sock i p) = pe_answers p"
  "pe_opened (finish_core sock i p) = pe_opened p" "pe_closed (finish_core sock i p) = pe_closed p"
  "jget (pe_streams (finish_core sock i p)) = (jget (pe_streams p))(i := None)" "queue_ends (pe_out p) (pe_out (finish_core sock i p))"
  by (auto simp: finish_core_def queue_ends_stream fun_eq_iff)

lemma finish_wf: "wf_jmap (pe_streams p) \<Longrightarrow> wf_jmap (pe_streams (finish_core sock i p))
    \<and> length (pe_streams (finish_core sock i p)) \<le> length (pe_streams p) \<and> set (jkeys (pe_streams (finish_core sock i p))) = set (jkeys (pe_streams p)) - {i}"
proof -
  assume wf: "wf_jmap (pe_streams p)"
  show ?thesis
  proof (cases "jget (pe_streams p) i")
    case None
    then have "i \<notin> fst ` set (pe_streams p)" by (simp add: map_of_eq_None_iff)
    with None wf show ?thesis by (auto simp: finish_core_def)
  next
    case (Some st)
    with wf length_jdelete [OF wf Some] show ?thesis by (auto simp: finish_core_def delete_keys)
  qed
qed

lemma finish_streams_ok:
  assumes "streams_ok p" "answered_stream p i"
  shows "streams_ok (finish_core sock i p)"
proof -
  have "jhas (pe_answers p) i" if "i \<in> set (pe_opened p)"
    using assms that by (auto simp: streams_ok_def answered_stream_def split: option.splits)
  with assms(1) finish_wf [of p sock i] show ?thesis
    unfolding streams_ok_def finish_fields by (auto simp: finish_fields)
qed

lemma good_finish_core: "answered_stream p i \<Longrightarrow> good p (finish_core sock i p)"
proof -
  assume a: "answered_stream p i"
  have "pe_streams p = [] \<Longrightarrow> finish_core sock i p = p" by (simp add: finish_core_def)
  with a finish_streams_ok show ?thesis
    by (auto simp: good_def peer_ok_def peer_later_def finish_fields)
qed

lemma fail_quiet_unfold:
  "fail_quiet sock i code message p =
     (case jget (pe_streams p) i of
        None \<Rightarrow> p
      | Some st \<Rightarrow>
          let q = answer_open i (client_of st) (OpenFailed (tunnel_error code message)) (finish_core sock i p) in
          (case st of
             HttpStream h \<Rightarrow> change_optional_body (hs_responseReceiver h) (receiver_error (tunnel_error code message))
                (change_optional_body (hs_requestReceiver h) (receiver_error (tunnel_error code message)) q)
           | WsStream w \<Rightarrow> change_endpoint (vs_endpoint w) (endpoint_closed (fail_code code) (take 123 message)) q))"
  by (simp add: fail_quiet_def client_of_def split: option.split stream_state.split)


lemma answered_same: "pe_streams q = pe_streams p \<Longrightarrow> pe_answers q = pe_answers p \<Longrightarrow> answered_stream q i = answered_stream p i"
  by (simp add: answered_stream_def cong: option.case_cong)

lemma answer_fields [simp]:
  "pe_streams (answer_open i c a p) = pe_streams p" "pe_limits (answer_open i c a p) = pe_limits p" "pe_opened (answer_open i c a p) = pe_opened p"
  "pe_closed (answer_open i c a p) = pe_closed p" "pe_out (answer_open i c a p) = pe_out p"
  by (simp_all add: answer_open_def)

lemma answer_has: "jhas (pe_answers (answer_open i c a p)) j \<longleftrightarrow> jhas (pe_answers p) j \<or> c \<and> i = j"
  by (auto simp: answer_open_def)

lemma answer_keeps: "jget (pe_answers p) j = Some r \<Longrightarrow> jget (pe_answers (answer_open i c a p)) j = Some r"
  by (auto simp: answer_open_def)

lemma answered_finish:
  assumes "streams_ok p" "jget (pe_streams p) i = Some st"
  shows "streams_ok (answer_open i (client_of st) a (finish_core sock i p))"
proof -
  have "streams_ok (answer_open i (client_of st) a p)" using good_answer [of p] assms(1)
    by (auto simp: streams_ok_def answer_open_def)
  moreover have "answered_stream (answer_open i (client_of st) a p) i" using assms(2)
    unfolding answered_stream_def answer_fields by (simp add: answer_has del: not_None_eq)
  ultimately have "streams_ok (finish_core sock i (answer_open i (client_of st) a p))" by (rule finish_streams_ok)
  moreover have "finish_core sock i (answer_open i (client_of st) a p) = answer_open i (client_of st) a (finish_core sock i p)"
    by (auto simp: finish_core_def answer_open_def)
  ultimately show ?thesis by simp
qed

text \<open>The streams of a state, whatever the records behind them are.\<close>

definition same_streams :: "peer \<Rightarrow> peer \<Rightarrow> bool" where
  "same_streams p q \<longleftrightarrow> pe_streams q = pe_streams p \<and> pe_limits q = pe_limits p \<and> pe_answers q = pe_answers p
     \<and> pe_opened q = pe_opened p \<and> pe_closed q = pe_closed p \<and> pe_out q = pe_out p"

lemma same_streams_body: "same_streams p (change_optional_body b f q) \<longleftrightarrow> same_streams p q"
  by (simp add: same_streams_def change_optional_body_def change_body_def split: option.split)

lemma same_streams_endpoint: "same_streams p (change_endpoint n f q) \<longleftrightarrow> same_streams p q"
  by (simp add: same_streams_def change_endpoint_def split: option.split)

lemma fail_quiet_streams:
  assumes "jget (pe_streams p) i = Some st"
  shows "same_streams (answer_open i (client_of st) (OpenFailed (tunnel_error code message)) (finish_core sock i p)) (fail_quiet sock i code message p)"
  using assms by (simp add: fail_quiet_unfold Let_def same_streams_body same_streams_endpoint split: stream_state.split)
    (simp add: same_streams_def)

lemma fail_quiet_none: "jget (pe_streams p) i = None \<Longrightarrow> fail_quiet sock i code message p = p"
  by (simp add: fail_quiet_def)

lemma fail_quiet_ok:
  assumes "streams_ok p"
  shows "streams_ok (fail_quiet sock i code message p)"
    "set (jkeys (pe_streams (fail_quiet sock i code message p))) = set (jkeys (pe_streams p)) - {i}"
proof -
  have wf: "wf_jmap (pe_streams p)" using assms by (simp add: streams_ok_def)
  have "streams_ok (fail_quiet sock i code message p) \<and>
    set (jkeys (pe_streams (fail_quiet sock i code message p))) = set (jkeys (pe_streams p)) - {i}"
  proof (cases "jget (pe_streams p) i")
    case None
    then have "i \<notin> set (jkeys (pe_streams p))" by (simp add: map_of_eq_None_iff)
    with assms None show ?thesis by (simp add: fail_quiet_none)
  next
    case (Some st)
    have "same_streams (answer_open i (client_of st) (OpenFailed (tunnel_error code message)) (finish_core sock i p)) (fail_quiet sock i code message p)"
      by (rule fail_quiet_streams [OF Some])
    with answered_finish [OF assms Some, of "OpenFailed (tunnel_error code message)" sock] finish_wf [OF wf, of sock i] show ?thesis
      by (simp add: same_streams_def streams_ok_def)
  qed
  then show "streams_ok (fail_quiet sock i code message p)"
    "set (jkeys (pe_streams (fail_quiet sock i code message p))) = set (jkeys (pe_streams p)) - {i}" by blast+
qed

lemma fail_quiet_later: "peer_later p (fail_quiet sock i code message p)"
proof (cases "jget (pe_streams p) i")
  case None
  then show ?thesis by (simp add: fail_quiet_none)
next
  case (Some st)
  from fail_quiet_streams [OF Some, of code message sock] show ?thesis
    by (simp add: same_streams_def peer_later_def finish_fields) (metis answer_keeps finish_fields(2))
qed

lemma fail_quiet_good: "good p (fail_quiet sock i code message p)"
proof (cases "jget (pe_streams p) i")
  case None
  then show ?thesis by (simp add: fail_quiet_none)
next
  case (Some st)
  then have "pe_streams p \<noteq> []" by auto
  with fail_quiet_ok(1) fail_quiet_later [of p sock i code message] fail_quiet_streams [OF Some, of code message sock] show ?thesis
    by (auto simp: good_def peer_ok_def same_streams_def finish_fields)
qed

lemma shutdown_fold:
  "streams_ok p \<Longrightarrow> streams_ok (foldl (\<lambda>p i. fail_quiet sock i code reason p) p is)
    \<and> set (jkeys (pe_streams (foldl (\<lambda>p i. fail_quiet sock i code reason p) p is))) = set (jkeys (pe_streams p)) - set is"
proof (induction "is" arbitrary: p)
  case (Cons i "is")
  from Cons.IH [OF fail_quiet_ok(1) [OF Cons.prems, of sock i code reason]] fail_quiet_ok(2) [OF Cons.prems, of sock i code reason]
  show ?case by (simp del: set_map) blast
qed simp

lemma fold_later: "peer_later p (foldl (\<lambda>p i. fail_quiet sock i code reason p) p is)"
  by (induction "is" arbitrary: p) (auto intro: peer_later_trans fail_quiet_later)

lemma close_socket_later [simp]: "peer_later p (close_socket code reason q) \<longleftrightarrow> peer_later p q"
  by (simp add: peer_later_def close_socket_def)

lemma close_socket_ok [simp]: "peer_ok (close_socket code reason q) \<longleftrightarrow> peer_ok q"
  by (simp add: peer_ok_def streams_ok_def close_socket_def)

lemma close_socket_closed [simp]: "pe_closed (close_socket code reason q) = pe_closed q"
  by (simp add: close_socket_def)

text \<open>The shutdown needs only the streams to be in order: the queue may have failed before.\<close>

lemma shutdown_ok:
  assumes "streams_ok p" "\<not> pe_closed p"
  shows "peer_ok (shutdown sock code reason c p)" "pe_closed (shutdown sock code reason c p)"
proof -
  define q where "q = p\<lparr>pe_closed := True, pe_out := close_outbound (tunnel_error ''disconnected'' reason) (pe_out p)\<rparr>"
  define r where "r = foldl (\<lambda>p i. fail_quiet sock i ''disconnected'' reason p) q (jkeys (pe_streams q))"
  have "streams_ok q" using assms(1) by (simp add: streams_ok_def q_def)
  from shutdown_fold [OF this, of sock "''disconnected''" reason "jkeys (pe_streams q)"]
  have r: "streams_ok r" "pe_streams r = []" by (simp_all add: r_def)
  have later: "peer_later q r" unfolding r_def by (rule fold_later)
  then have closed: "pe_closed r" by (simp add: peer_later_def q_def)
  obtain e where "ob_failure (pe_out q) = Some e" using close_fails by (auto simp: q_def)
  with later have "ob_failure (pe_out r) = Some e" by (simp add: peer_later_def queue_ends_def)
  with r closed have ok: "peer_ok r" by (simp add: peer_ok_def)
  have eq: "shutdown sock code reason c p = (if c then close_socket code reason r else r)"
    using assms(2) by (simp add: shutdown_def Let_def q_def r_def)
  from ok closed show "peer_ok (shutdown sock code reason c p)" "pe_closed (shutdown sock code reason c p)" by (auto simp: eq)
qed

lemma shutdown_later: "peer_later p (shutdown sock code reason c p)"
proof (cases "pe_closed p")
  case False
  define q where "q = p\<lparr>pe_closed := True, pe_out := close_outbound (tunnel_error ''disconnected'' reason) (pe_out p)\<rparr>"
  have "peer_later p q" by (simp add: peer_later_def q_def queue_ends_close)
  from peer_later_trans [OF this fold_later] False show ?thesis by (simp add: shutdown_def Let_def q_def)
qed (simp add: shutdown_def)

lemma shutdown_good: "good p (shutdown sock code reason c p)"
  using shutdown_ok(1) [of p] shutdown_later [of p]
  by (cases "pe_closed p") (simp add: shutdown_def, auto simp: good_def peer_ok_def)

lemma notice_good: "good p (notice_failure sock p)"
  using shutdown_good by (simp add: notice_failure_def)

lemma finish_good: "answered_stream p i \<Longrightarrow> good p (finish_stream sock i p)"
  unfolding finish_stream_def by (rule good_trans [OF good_finish_core notice_good])

section \<open>Sending\<close>

text \<open>A change of the queue alone.\<close>

lemma queue_good:
  assumes "queue_ends (pe_out p) out"
  shows "good p (p\<lparr>pe_out := out\<rparr>)"
  using assms by (auto simp: good_def peer_ok_def streams_ok_def peer_later_def queue_ends_def)

lemma transmit_good: "good p (snd (transmit sock f i p))"
proof -
  have "queue_ends (pe_out p) (snd (send_control sock (ControlFrame f) i False (pe_out p)))" by (rule queue_ends_control)
  from queue_good [OF this] show ?thesis
    by (auto simp: transmit_def split: prod.split option.split intro: good_trans shutdown_good notice_good)
qed

lemma payload_good: "good p (snd (transmit_payload sock f i p))"
proof -
  have "queue_ends (pe_out p) (snd (send_payload sock (BinaryFrame f) i (i \<in> set (pe_aborted p)) (pe_out p)))" by (rule queue_ends_payload)
  from queue_good [OF this] show ?thesis
    by (auto simp: transmit_payload_def split: prod.split intro: good_trans notice_good)
qed

lemma fail_good: "good p (snd (fail_stream sock i code message notify p))"
proof -
  have "good p (notice_failure sock (fail_quiet sock i code message p))"
    by (rule good_trans [OF fail_quiet_good notice_good])
  then show ?thesis
    by (auto simp: fail_stream_def Let_def intro: good_trans transmit_good)
qed

lemma fail_streams_good: "good p (snd (fail_streams sock is code message p))"
proof (induction "is" arbitrary: p)
  case (Cons i "is")
  show ?case
    using fail_good [of p sock i code message True] Cons.IH
    by (auto split: prod.split option.split intro: good_trans)
qed simp


text \<open>
  Sending a frame changes no stream, except that the peer may shut down: the streams that are left
  are streams of before.
\<close>

definition streams_left :: "peer \<Rightarrow> peer \<Rightarrow> bool" where
  "streams_left p q \<longleftrightarrow> (\<forall>i st. jget (pe_streams q) i = Some st \<longrightarrow> jget (pe_streams p) i = Some st)"

lemma left_refl [simp]: "streams_left p p"
  by (simp add: streams_left_def)

lemma left_trans: "streams_left p q \<Longrightarrow> streams_left q r \<Longrightarrow> streams_left p r"
  by (simp add: streams_left_def)

lemma left_fail_quiet: "streams_left p (fail_quiet sock i code message p)"
proof (cases "jget (pe_streams p) i")
  case None
  then show ?thesis by (simp add: fail_quiet_none)
next
  case (Some st)
  from fail_quiet_streams [OF Some, of code message sock] show ?thesis
    by (simp add: same_streams_def streams_left_def finish_fields)
qed

lemma left_shutdown: "streams_left p (shutdown sock code reason c p)"
proof -
  have fold: "streams_left q (foldl (\<lambda>p i. fail_quiet sock i ''disconnected'' reason p) q is)" for q "is"
    by (induction "is" arbitrary: q) (auto intro: left_trans left_fail_quiet)
  show ?thesis
  proof (cases "pe_closed p")
    case False
    define q where "q = p\<lparr>pe_closed := True, pe_out := close_outbound (tunnel_error ''disconnected'' reason) (pe_out p)\<rparr>"
    have "streams_left p q" by (simp add: streams_left_def q_def)
    from left_trans [OF this fold] False show ?thesis by (simp add: shutdown_def Let_def q_def close_socket_def streams_left_def)
  qed (simp add: shutdown_def)
qed

lemma left_notice: "streams_left p (notice_failure sock p)"
  using left_shutdown by (simp add: notice_failure_def)

lemma left_transmit: "streams_left p (snd (transmit sock f i p))"
proof -
  have out: "streams_left p (p\<lparr>pe_out := out\<rparr>)" for out by (simp add: streams_left_def)
  show ?thesis
    using left_trans [OF out left_shutdown] left_trans [OF out left_notice]
    by (auto simp: transmit_def split: prod.split option.split)
qed

lemma answered_left: "answered_stream p i \<Longrightarrow> peer_later p q \<Longrightarrow> streams_left p q \<Longrightarrow> answered_stream q i"
proof (unfold answered_stream_def, cases "jget (pe_streams q) i")
  case (Some st)
  assume a: "case jget (pe_streams p) i of None \<Rightarrow> True | Some st \<Rightarrow> client_of st \<longrightarrow> jhas (pe_answers p) i" "peer_later p q" "streams_left p q"
  with Some have "jget (pe_streams p) i = Some st" by (simp add: streams_left_def)
  with a Some show "case jget (pe_streams q) i of None \<Rightarrow> True | Some st \<Rightarrow> client_of st \<longrightarrow> jhas (pe_answers q) i"
    by (auto simp: peer_later_def)
qed simp

lemma transmit_answered: "answered_stream p i \<Longrightarrow> transmit sock f s p = (r, q) \<Longrightarrow> answered_stream q i"
  using answered_left [of p i q] transmit_good [of p sock f s] left_transmit [of p sock f s] by (simp add: good_def)

section \<open>Operations\<close>

lemma closeWebSocket_good:
  assumes "answered_stream p i"
  shows "good p (snd (closeWebSocket sock i code reason p))"
proof (cases "jget (pe_streams p) i")
  case (Some st)
  show ?thesis
  proof (cases st)
    case (WsStream w)
    show ?thesis
    proof (cases "pe_closed p")
      case False
      obtain r q where t: "transmit sock (WsClose i code reason) None p = (r, q)" by force
      have q: "good p q" using transmit_good [of p sock "WsClose i code reason" None] t by simp
      then have "answered_stream q i" using transmit_answered [OF assms t] by simp
      from good_trans [OF q good_trans [OF finish_good [OF this] good_endpoint]] q t Some WsStream False show ?thesis
        by (auto simp: closeWebSocket_def split: option.split)
    qed (use Some WsStream in \<open>simp add: closeWebSocket_def\<close>)
  qed (use Some in \<open>simp add: closeWebSocket_def\<close>)
qed (simp add: closeWebSocket_def)


lemma new_stream_good:
  assumes "\<not> pe_closed p" "length (pe_streams p) < pl_maxStreams (pe_limits p)" "fresh_stream p i"
    and "client_of st \<Longrightarrow> timer_of st" "set os \<subseteq> (if client_of st then {i} else {})"
  shows "good p (set_stream i st (p\<lparr>pe_opened := pe_opened p @ os\<rparr>))"
proof -
  have "length (jset (pe_streams p) i st) = Suc (length (pe_streams p))" using assms(3) by (simp add: length_jset fresh_stream_def)
  with assms show ?thesis
    by (auto simp: good_def peer_ok_def streams_ok_def peer_later_def set_stream_def fresh_stream_def split: if_splits)
qed

lemma server_stream_good:
  assumes "\<not> pe_closed p" "length (pe_streams p) < pl_maxStreams (pe_limits p)" "fresh_stream p i" "\<not> client_of st"
  shows "good p (set_stream i st p)"
proof -
  have "good p (set_stream i st (p\<lparr>pe_opened := pe_opened p @ []\<rparr>))"
    by (rule new_stream_good) (use assms in simp_all)
  then show ?thesis by simp
qed

lemma allocate_Inr:
  assumes "allocate now p = Inr (i, q)"
  shows "\<not> pe_closed p" "length (pe_streams p) < pl_maxStreams (pe_limits p)"
    "i = base36 now @ ''-'' @ base36 (Suc (pe_sequence p))" "q = p\<lparr>pe_sequence := Suc (pe_sequence p)\<rparr>"
  using assms by (auto simp: allocate_def split: if_splits)

lemma sequence_good: "good p (p\<lparr>pe_sequence := n\<rparr>)"
  by (rule good_same) simp_all

lemma openHttp_good:
  assumes "fresh_stream p (base36 now @ ''-'' @ base36 (Suc (pe_sequence p)))"
  shows "good p (snd (openHttp sock now aborted request p))"
proof (cases "aborted \<or> (\<exists>e. allocate now p = Inl e)")
  case True
  then show ?thesis by (auto simp: openHttp_def)
next
  case False
  then obtain i q where a: "\<not> aborted" "allocate now p = Inr (i, q)" by (cases "allocate now p") auto
  define st where "st = HttpStream \<lparr>hs_previewId = rq_previewId request, hs_client = True, hs_requestReceiver = None, hs_responseReceiver = None,
                     hs_requestCredit = new_credit, hs_responseCredit = new_credit, hs_timer = True\<rparr>"
  define r where "r = set_stream i st (q\<lparr>pe_opened := pe_opened q @ [i]\<rparr>)"
  note al = allocate_Inr [OF a(2)]
  have "good q r" unfolding r_def
    by (rule new_stream_good) (use al assms in \<open>auto simp: st_def client_of_def timer_of_def fresh_stream_def\<close>)
  with good_trans [OF sequence_good] al(4) have pr: "good p r" by blast
  obtain e t where t: "transmit sock (HttpOpen i (rq_previewId request) (rq_method request) (rq_path request) (rq_headers request) (rq_hasBody request)) (Some i) r = (e, t)" by force
  with good_trans [OF pr transmit_good] have pt: "good p t" by (metis snd_conv)
  have "snd (openHttp sock now aborted request p) = (case e of None \<Rightarrow> t | Some x \<Rightarrow> answer_open i True (OpenFailed x) t)"
    using a t by (simp add: openHttp_def Let_def r_def st_def split: option.split)
  with pt good_trans [OF pt good_answer] show ?thesis by (simp split: option.split)
qed

lemma openWebSocket_good:
  assumes "fresh_stream p (base36 now @ ''-'' @ base36 (Suc (pe_sequence p)))"
  shows "good p (snd (openWebSocket sock now aborted previewId path headers protocols p))"
proof (cases "aborted \<or> (\<exists>e. allocate now p = Inl e)")
  case True
  then show ?thesis by (auto simp: openWebSocket_def)
next
  case False
  then obtain i q where a: "\<not> aborted" "allocate now p = Inr (i, q)" by (cases "allocate now p") auto
  obtain n q' where n: "add_endpoint q = (n, q')" by force
  define st where "st = WsStream \<lparr>vs_previewId = previewId, vs_client = True, vs_endpoint = n, vs_credit = new_credit, vs_timer = True, vs_remote = False\<rparr>"
  define r where "r = set_stream i st (q'\<lparr>pe_opened := pe_opened q' @ [i]\<rparr>)"
  note al = allocate_Inr [OF a(2)]
  have qq: "good q q'" using good_add_endpoint [of q] n by simp
  have "good q' r" unfolding r_def
    by (rule new_stream_good) (use al n assms in \<open>auto simp: st_def client_of_def timer_of_def fresh_stream_def add_endpoint_def\<close>)
  moreover have "good p q" using sequence_good al(4) by simp
  ultimately have pr: "good p r" using qq good_trans by blast
  obtain e t where t: "transmit sock (WsOpen i previewId path headers protocols) (Some i) r = (e, t)" by force
  with good_trans [OF pr transmit_good] have pt: "good p t" by (metis snd_conv)
  obtain e' u where u: "transmit sock (Credit i SocketCredit (int (pl_maxFrameBytes (pe_limits t)))) None t = (e', u)" by force
  with good_trans [OF pt transmit_good] have pu: "good p u" by (metis snd_conv)
  have "snd (openWebSocket sock now aborted previewId path headers protocols p) =
      (case e of Some x \<Rightarrow> answer_open i True (OpenFailed x) t | None \<Rightarrow> (case e' of Some x \<Rightarrow> answer_open i True (OpenFailed x) u | None \<Rightarrow> u))"
    using a n t u by (simp add: openWebSocket_def Let_def r_def st_def split: option.split)
  with pt pu good_trans [OF pt good_answer] good_trans [OF pu good_answer] show ?thesis by (simp split: option.split)
qed

lemma end_body_good: "good p (snd (end_body sock i d p))"
  by (simp add: end_body_def transmit_good)

lemma end_body_answered: "answered_stream p i \<Longrightarrow> end_body sock i d p = (e, q) \<Longrightarrow> answered_stream q i"
  using transmit_answered by (auto simp: end_body_def split: if_splits)

lemma response_sent_good: "answered_stream p i \<Longrightarrow> good p (snd (response_sent sock i p))"
proof -
  assume a: "answered_stream p i"
  obtain e q where q: "end_body sock i ResponseBody p = (e, q)" by force
  have pq: "good p q" using end_body_good [of p sock i ResponseBody] q by simp
  show ?thesis
  proof (cases e)
    case None
    with good_trans [OF pq finish_good [OF end_body_answered [OF a q]]] q show ?thesis by (simp add: response_sent_def)
  next
    case (Some x)
    with good_trans [OF pq fail_good] q show ?thesis by (simp add: response_sent_def upstream_failed_def)
  qed
qed

lemma http_answered_good: "answered_stream p i \<Longrightarrow> good p (snd (http_answered sock i status headers hasBody p))"
proof -
  assume a: "answered_stream p i"
  obtain e q where q: "transmit sock (HttpResponse i status headers hasBody) None p = (e, q)" by force
  have pq: "good p q" using transmit_good [of p sock "HttpResponse i status headers hasBody" None] q by simp
  have aq: "answered_stream q i" by (rule transmit_answered [OF a q])
  have "http_answered sock i status headers hasBody p =
    (if \<not> jhas (pe_streams p) i then (None, p)
     else case e of Some x \<Rightarrow> upstream_failed sock i (err_message x) q
       | None \<Rightarrow> if hasBody then (None, q) else response_sent sock i q)"
    by (simp add: http_answered_def response_sent_def q split: option.split)
  with pq good_trans [OF pq fail_good] good_trans [OF pq response_sent_good [OF aq]] show ?thesis
    by (simp add: upstream_failed_def split: option.split)
qed

lemma request_sent_good: "good p (snd (request_sent sock i p))"
proof -
  obtain e q where q: "end_body sock i RequestBody p = (e, q)" by force
  have pq: "good p q" using end_body_good [of p sock i RequestBody] q by simp
  with good_trans [OF pq fail_good] q show ?thesis by (simp add: request_sent_def split: option.split)
qed

lemma payload_after:
  assumes "good p q"
  shows "good p (snd (case transmit_payload sock f i q of (Inl e, r) \<Rightarrow> (ChunkFailed e, r) | (Inr n, r) \<Rightarrow> (ChunkQueued n, r)))"
  using good_trans [OF assms payload_good [of q sock f i]] by (cases "transmit_payload sock f i q") (auto split: sum.split)

lemma send_chunk_good: "good p (snd (send_chunk sock i d task data p))"
proof (cases "jget (pe_streams p) i")
  case (Some st)
  show ?thesis
  proof (cases st)
    case (HttpStream h)
    have keep: "good p (set_stream i (HttpStream (case d of RequestBody \<Rightarrow> h\<lparr>hs_requestCredit := w\<rparr> | ResponseBody \<Rightarrow> h\<lparr>hs_responseCredit := w\<rparr>)) p)" for w
      by (rule good_streams [OF Some]) (simp_all add: HttpStream client_of_def timer_of_def split: body_direction.split)
    obtain r w where c: "credit_take task (length data) (case d of RequestBody \<Rightarrow> hs_requestCredit h | ResponseBody \<Rightarrow> hs_responseCredit h) = (r, w)" by force
    show ?thesis using payload_after [OF keep] keep Some HttpStream c
      by (cases r) (simp_all add: send_chunk_def Let_def)
  qed (use Some in \<open>simp add: send_chunk_def\<close>)
qed (simp add: send_chunk_def)

lemma send_message_good: "good p (snd (send_message sock i task data binary p))"
proof (cases "jget (pe_streams p) i")
  case (Some st)
  show ?thesis
  proof (cases st)
    case (WsStream v)
    have keep: "good p (set_stream i (WsStream (v\<lparr>vs_credit := c\<rparr>)) p)" for c
      by (rule good_streams [OF Some]) (simp_all add: WsStream client_of_def timer_of_def)
    obtain r w where c: "credit_take task (length (message_payload data)) (vs_credit v) = (r, w)" by force
    show ?thesis using payload_after [OF keep] keep Some WsStream c
      by (cases r) (simp_all add: send_message_def Let_def)
  qed (use Some in \<open>simp add: send_message_def\<close>)
qed (simp add: send_message_def)

lemma bodies_good: "good p (p\<lparr>pe_bodies := m\<rparr>)" "good p (p\<lparr>pe_endpoints := es\<rparr>)" "good p (p\<lparr>pe_lastReceived := n\<rparr>)"
  by (rule good_same, simp_all)+

lemma read_body_good: "good p (snd (read_body sock i d b p))"
  using good_trans [OF bodies_good(1) transmit_good]
  by (auto simp: read_body_def Let_def bodies_good split: option.split prod.split)

lemma receive_chunk_good: "good p (snd (receive_chunk sock i d b data p))"
  using good_trans [OF bodies_good(1) transmit_good]
  by (auto simp: receive_chunk_def Let_def bodies_good split: option.split prod.split sum.split)

lemma abort_good: "good p (notice_failure sock (p\<lparr>pe_aborted := l, pe_out := abort_stream_frames sock i (pe_out p)\<rparr>))"
proof -
  have "good p (p\<lparr>pe_aborted := l, pe_out := abort_stream_frames sock i (pe_out p)\<rparr>)"
    using queue_ends_stream [of "pe_out p" sock i]
    by (auto simp: good_def peer_ok_def streams_ok_def peer_later_def queue_ends_def)
  then show ?thesis by (rule good_trans [OF _ notice_good])
qed

lemma cancel_body_good: "good p (snd (cancel_body sock i d b p))"
  using good_trans [OF good_body abort_good] good_trans [OF good_body fail_good]
  by (cases d) (simp_all add: cancel_body_def Let_def)

lemma with_endpoint_good:
  assumes "answered_stream p i"
  shows "good p (snd (with_endpoint sock i n f p))"
proof -
  have a: "answered_stream (p\<lparr>pe_endpoints := m\<rparr>) i" for m using assms by (simp add: answered_stream_def cong: option.case_cong)
  show ?thesis using good_trans [OF bodies_good(2) closeWebSocket_good [OF a]]
    by (auto simp: with_endpoint_def Let_def bodies_good split: option.split prod.split)
qed

lemma answered_set:
  assumes "jget (pe_streams p) i = Some st" "client_of st' = client_of st"
  shows "good p (answer_open i (client_of st) a (set_stream i st' p))"
proof -
  have "length (jset (pe_streams p) i st') = length (pe_streams p)" "pe_streams p \<noteq> []"
    using assms(1) by (auto simp: length_jset)
  with assms show ?thesis
    by (auto simp: good_def peer_ok_def streams_ok_def peer_later_def set_stream_def answer_open_def)
qed


lemma handle_http_response_good:
  assumes "jget (pe_streams p) i = Some (HttpStream h)"
  shows "good p (snd (handle_http_response sock i h status headers hasBody p))"
proof -
  obtain b q where b: "(if hasBody then (case add_body p of (n, p) \<Rightarrow> (Some n, p)) else (None, p)) = (b, q)" by force
  have pq: "good p q" "pe_streams q = pe_streams p" using b good_add_body [of p] by (auto simp: add_body_def split: if_splits)
  define r where "r = answer_open i (hs_client h) (HttpAnswered status headers b) (set_stream i (HttpStream (h\<lparr>hs_timer := False, hs_responseReceiver := b\<rparr>)) q)"
  have "good q r" using answered_set [of q i "HttpStream h" "HttpStream (h\<lparr>hs_timer := False, hs_responseReceiver := b\<rparr>)"] assms pq(2)
    by (simp add: client_of_def r_def)
  with pq(1) have pr: "good p r" by (rule good_trans)
  have "answered_stream r i" unfolding answered_stream_def r_def answer_fields
    by (simp add: set_stream_def client_of_def answer_has del: not_None_eq)
  from good_trans [OF pr finish_good [OF this]] good_trans [OF pr transmit_good] b show ?thesis
    by (simp add: handle_http_response_def Let_def r_def)
qed

lemma refuse_good: "good p (snd (refuse_open sock i message p))"
  by (simp add: refuse_open_def transmit_good)

lemma handle_http_open_good:
  assumes "\<not> pe_closed p" "fresh_stream p i"
  shows "good p (snd (handle_http_open sock has i previewId hasBody p))"
proof (cases "\<not> has \<or> pl_maxStreams (pe_limits p) \<le> length (pe_streams p)")
  case False
  obtain b q where b: "(if hasBody then (case add_body p of (n, p) \<Rightarrow> (Some n, p)) else (None, p)) = (b, q)" by force
  have pq: "good p q" "pe_streams q = pe_streams p" "pe_closed q = pe_closed p" "pe_limits q = pe_limits p"
    using b good_add_body [of p] by (auto simp: add_body_def split: if_splits)
  define r where "r = set_stream i (HttpStream \<lparr>hs_previewId = previewId, hs_client = False, hs_requestReceiver = b, hs_responseReceiver = None,
      hs_requestCredit = new_credit, hs_responseCredit = new_credit, hs_timer = False\<rparr>) q"
  have "good q r" unfolding r_def
    by (rule server_stream_good) (use assms pq False in \<open>auto simp: fresh_stream_def client_of_def\<close>)
  with pq(1) have pr: "good p r" by (rule good_trans)
  with good_trans [OF pr transmit_good] b False show ?thesis by (simp add: handle_http_open_def Let_def r_def)
qed (simp add: handle_http_open_def refuse_good)

lemma handle_ws_open_good:
  assumes "\<not> pe_closed p" "fresh_stream p i"
  shows "good p (snd (handle_ws_open sock has i previewId p))"
proof (cases "\<not> has \<or> pl_maxStreams (pe_limits p) \<le> length (pe_streams p)")
  case False
  obtain n q where n: "add_endpoint p = (n, q)" by force
  have pq: "good p q" "pe_streams q = pe_streams p" "pe_closed q = pe_closed p" "pe_limits q = pe_limits p"
    using n good_add_endpoint [of p] by (auto simp: add_endpoint_def)
  define r where "r = set_stream i (WsStream \<lparr>vs_previewId = previewId, vs_client = False, vs_endpoint = n, vs_credit = new_credit,
                  vs_timer = False, vs_remote = False\<rparr>) q"
  have "good q r" unfolding r_def
    by (rule server_stream_good) (use assms pq False in \<open>auto simp: fresh_stream_def client_of_def\<close>)
  with pq(1) have pr: "good p r" by (rule good_trans)
  with good_trans [OF pr transmit_good] n False show ?thesis by (simp add: handle_ws_open_def Let_def r_def)
qed (simp add: handle_ws_open_def refuse_good)

lemma ws_accepted_good: "good p (snd (ws_accepted sock i n protocol p))"
proof (cases "jget (pe_streams p) i")
  case (Some st)
  show ?thesis
  proof (cases st)
    case (WsStream w)
    define q where "q = change_endpoint n (\<lambda>e. endpoint_listen_close (endpoint_listen e)) (set_stream i (WsStream (w\<lparr>vs_remote := True\<rparr>)) p)"
    have "good p (set_stream i (WsStream (w\<lparr>vs_remote := True\<rparr>)) p)"
      by (rule good_streams [OF Some]) (simp_all add: WsStream client_of_def timer_of_def)
    then have pq: "good p q" unfolding q_def by (rule good_trans [OF _ good_endpoint])
    obtain e r where r: "transmit sock (WsAccept i protocol) None q = (e, r)" by force
    have pr: "good p r" using good_trans [OF pq transmit_good [of q sock "WsAccept i protocol" None]] r by simp
    show ?thesis using Some WsStream r pr good_trans [OF pr fail_good]
      by (simp add: ws_accepted_def Let_def q_def split: option.split)
  qed (use Some in \<open>simp add: ws_accepted_def\<close>)
qed (simp add: ws_accepted_def)

lemma remote_message_good: "good p (snd (remote_message sock i n task data binary p))"
  using fail_good send_message_good by (simp add: remote_message_def split: option.split stream_state.split)

lemma with_endpoint_answered:
  assumes "answered_stream p i" "with_endpoint sock i n f p = (e, q)"
  shows "good p q"
  using with_endpoint_good [OF assms(1), of sock n f] assms(2) by simp

lemma handle_ws_message_good:
  assumes "answered_stream p i"
  shows "good p (snd (handle_ws_message sock text_of i w binary data p))"
proof -
  obtain e q where q: "with_endpoint sock i (vs_endpoint w) (endpoint_receive (if binary then BinaryData data else TextData (text_of data)) binary) p = (e, q)"
    by force
  with with_endpoint_answered [OF assms] have pq: "good p q" by blast
  with good_trans [OF pq transmit_good] q show ?thesis by (simp add: handle_ws_message_def split: option.split)
qed

lemma stream_frame_good:
  assumes "jget (pe_streams p) i = Some st" "frame_stream frame = Some i" "frame_admissible p frame"
  shows "good p (snd (handle_stream_frame sock text_of i st frame p))"
proof -
  have credit: "good p (set_stream i (credit_stream d n st) p)" for d n
    by (rule good_streams [OF assms(1)])
      (simp_all add: credit_stream_def client_of_def timer_of_def split: stream_state.split credit_direction.split body_direction.split)
  have body_end: "good p (finish_stream sock i (change_optional_body b receiver_close p))" "good p (change_endpoint n g (finish_stream sock i p))"
    if "answered_stream p i" for b n g
  proof -
    have "pe_streams (change_optional_body b receiver_close p) = pe_streams p" "pe_answers (change_optional_body b receiver_close p) = pe_answers p"
      by (simp_all add: change_optional_body_def change_body_def split: option.split)
    from answered_same [OF this] that have "answered_stream (change_optional_body b receiver_close p) i" by blast
    then show "good p (finish_stream sock i (change_optional_body b receiver_close p))" by (rule good_trans [OF good_optional_body finish_good])
    show "good p (change_endpoint n g (finish_stream sock i p))" by (rule good_trans [OF finish_good [OF that] good_endpoint])
  qed
  show ?thesis
  proof (cases frame)
    case (ControlFrame f)
    have end_ok: "answered_stream p i" if "f = BodyEnd j d \<or> f = WsClose j code reason" for j d code reason
      using assms(2,3) that ControlFrame by (auto simp: frame_stream_def frame_admissible_def)
    have "good p (snd (handle_control sock i st f p))"
    proof (cases st)
      case (HttpStream h)
      note response = handle_http_response_good [OF assms(1) [unfolded HttpStream]]
      show ?thesis
        by (cases f) (simp_all add: handle_control_def credit [unfolded HttpStream] HttpStream response fail_good Let_def body_end(1) end_ok)
    next
      case (WsStream w)
      have accept: "good p (answer_open i (vs_client w) a (set_stream i (WsStream (w\<lparr>vs_timer := False\<rparr>)) p))" for a
        using answered_set [OF assms(1), of "WsStream (w\<lparr>vs_timer := False\<rparr>)"] WsStream by (simp add: client_of_def)
      show ?thesis
        by (cases f) (simp_all add: handle_control_def credit [unfolded WsStream] WsStream accept fail_good body_end(2) end_ok)
    qed
    then show ?thesis by (simp add: handle_stream_frame_def ControlFrame)
  next
    case (BinaryFrame f)
    show ?thesis
    proof (cases f)
      case (BodyChunk j d data)
      with BinaryFrame receive_chunk_good show ?thesis by (cases st) (simp_all add: handle_stream_frame_def)
    next
      case (WsMessage j b data)
      with BinaryFrame assms(2,3) have "answered_stream p i" by (simp add: frame_stream_def frame_admissible_def)
      with handle_ws_message_good BinaryFrame WsMessage show ?thesis by (cases st) (simp_all add: handle_stream_frame_def)
    qed
  qed
qed

lemma handle_good:
  assumes "\<not> pe_closed p" "frame_admissible p frame"
  shows "good p (snd (handle sock serve text_of now frame p))"
proof -
  define q where "q = p\<lparr>pe_lastReceived := now\<rparr>"
  have "answered_stream q i = answered_stream p i" for i by (rule answered_same) (simp_all add: q_def)
  moreover have "fresh_stream q i = fresh_stream p i" for i by (simp add: q_def fresh_stream_def)
  ultimately have "answered_stream q = answered_stream p" "fresh_stream q = fresh_stream p" by blast+
  then have "frame_admissible q frame = frame_admissible p frame" by (simp only: frame_admissible_def)
  then have "frame_admissible q frame" using assms(2) by simp
  then have pq: "good p q" "pe_streams q = pe_streams p" "\<not> pe_closed q" "frame_admissible q frame"
    using assms(1) bodies_good(3) [of p now] by (simp_all add: q_def)
  have stream: "good p (snd (handle_open_stream sock text_of frame q))"
  proof (cases "frame_stream frame")
    case (Some i)
    show ?thesis
    proof (cases "jget (pe_streams q) i")
      case st: (Some st)
      from good_trans [OF pq(1) stream_frame_good [OF st Some pq(4)]] Some st show ?thesis by (simp add: handle_open_stream_def)
    qed (use Some pq(1) in \<open>simp add: handle_open_stream_def\<close>)
  qed (use pq(1) in \<open>simp add: handle_open_stream_def\<close>)
  show ?thesis
  proof (cases frame)
    case (BinaryFrame f)
    with stream show ?thesis by (simp add: handle_def q_def)
  next
    case (ControlFrame f)
    show ?thesis
    proof (cases f)
      case (HttpOpen i a b s c e)
      with pq(4) ControlFrame have "fresh_stream q i" by (simp add: frame_admissible_def)
      from good_trans [OF pq(1) handle_http_open_good [OF pq(3) this]] ControlFrame HttpOpen show ?thesis
        by (simp add: handle_def q_def)
    next
      case (WsOpen i a b c d)
      with assms(2) ControlFrame have "fresh_stream p i" by (simp add: frame_admissible_def)
      from handle_ws_open_good [OF assms(1) this] ControlFrame WsOpen show ?thesis by (simp add: handle_def)
    next
      case (Ping n)
      with ControlFrame good_trans [OF pq(1) transmit_good] show ?thesis by (simp add: handle_def q_def)
    next
      case (Pong n)
      with ControlFrame pq(1) show ?thesis by (simp add: handle_def q_def)
    qed (use stream ControlFrame in \<open>simp_all add: handle_def q_def\<close>)
  qed
qed

lemma on_message_good:
  assumes "event_admissible p (MessageArrived now data)"
  shows "good p (on_message sock serve text_of now data p)"
proof (cases "pe_closed p")
  case False
  show ?thesis
  proof (cases "decodeTunnelFrame (pl_maxFrameBytes (pe_limits p)) data")
    case (Inl e)
    with False show ?thesis by (simp add: on_message_def)
  next
    case (Inr d)
    show ?thesis
    proof (cases "decoded_view d")
      case None
      with False Inr bodies_good(3) show ?thesis by (simp add: on_message_def)
    next
      case (Some frame)
      with assms Inr have "frame_admissible p frame" by (simp add: event_admissible_def)
      from handle_good [OF False this] have h: "good p (snd (handle sock serve text_of now frame p))" .
      from good_trans [OF h good_close_socket] h False Inr Some show ?thesis
        by (auto simp: on_message_def split: prod.split option.split)
    qed
  qed
qed (simp add: on_message_def)

lemma heartbeat_good: "good p (heartbeat sock now p)"
proof -
  obtain e q where q: "transmit sock (Ping (base36 (nat now))) None p = (e, q)" by force
  have pq: "good p q" using transmit_good [of p sock "Ping (base36 (nat now))" None] q by simp
  with good_trans [OF pq good_close_socket] q show ?thesis by (simp add: heartbeat_def split: option.split)
qed

lemma frame_sent_good: "good p (frame_sent sock item e p)"
  unfolding frame_sent_def by (rule good_trans [OF queue_good [OF queue_ends_complete] notice_good])

lemma poll_good: "good p (poll_peer sock p)"
  unfolding poll_peer_def by (rule good_trans [OF queue_good [OF queue_ends_poll] notice_good])

lemma peer_step_good: "event_admissible p e \<Longrightarrow> good p (peer_step sock serve text_of p e)"
proof (cases e)
  case (OpenTimedOut i)
  then show ?thesis using fail_good by (simp add: open_timed_out_def split: option.split stream_state.split)
next
  case (OpenAborted i)
  then show ?thesis using fail_good by (simp add: open_aborted_def split: option.split stream_state.split)
next
  case (MessageArrived now data)
  assume "event_admissible p e"
  with MessageArrived on_message_good show ?thesis by simp
qed (simp_all add: event_admissible_def openHttp_good openWebSocket_good fail_streams_good cancelPreview_def close_peer_def shutdown_good
    socket_closed_def heartbeat_good frame_sent_good poll_good http_answered_good upstream_failed_def fail_good response_sent_good
    request_sent_good send_chunk_good read_body_good cancel_body_good with_endpoint_good closeWebSocket_good send_message_good
    ws_accepted_good ws_rejected_def remote_message_good remote_closed_def)

lemma run_good: "peer_run sock serve text_of p q \<Longrightarrow> good p q"
  by (induction rule: peer_run.induct) (auto intro: good_trans peer_step_good)

lemma created_peer_ok: "create_peer limits now = Inr p \<Longrightarrow> peer_ok p \<and> pe_limits p = limits \<and> pe_opened p = []"
  by (auto simp: create_peer_def peer_ok_def streams_ok_def split: if_splits)

section \<open>Properties\<close>


text \<open>Closing the tunnel, or losing it, ends every stream and answers every open request; no
  stream is opened and nothing is handed to the socket afterwards.\<close>

theorem closed_tunnel_is_silent:
  assumes "create_peer limits now = Inr p0" "peer_run sock serve text_of p0 p" "pe_closed p"
  shows "pe_streams p = [] \<and> (\<forall>i \<in> set (pe_opened p). jhas (pe_answers p) i)
    \<and> (\<forall>q. peer_run sock serve text_of p q \<longrightarrow> pe_closed q \<and> pe_streams q = [] \<and> ob_sent (pe_out q) = ob_sent (pe_out p))"
proof -
  note c = created_peer_ok [OF assms(1)]
  from run_good [OF assms(2)] c have ok: "peer_ok p" by (simp add: good_def)
  with assms(3) have s: "pe_streams p = []" and f: "ob_failure (pe_out p) \<noteq> None" by (simp_all add: peer_ok_def)
  have answered: "\<forall>i \<in> set (pe_opened p). jhas (pe_answers p) i"
    using ok s by (simp add: peer_ok_def streams_ok_def)
  have silent: "pe_closed q \<and> pe_streams q = [] \<and> ob_sent (pe_out q) = ob_sent (pe_out p)" if "peer_run sock serve text_of p q" for q
    using run_good [OF that] ok assms(3) f by (auto simp: good_def peer_later_def peer_ok_def queue_ends_def)
  from s answered silent show ?thesis by blast
qed

section \<open>An example\<close>

definition sample_peer_request :: http_request where
  "sample_peer_request = \<lparr>rq_previewId = ''p'', rq_method = ''GET'', rq_path = ''/'', rq_headers = [], rq_hasBody = False\<rparr>"

definition sample_peer :: peer where
  "sample_peer = (case create_peer default_limits 0 of Inr p \<Rightarrow> p | Inl _ \<Rightarrow> undefined)"

lemma sample_peer_created: "create_peer default_limits 0 = Inr sample_peer"
  by (simp add: sample_peer_def create_peer_def default_limits_def)

definition no_handlers :: peer_handlers where
  "no_handlers = \<lparr>hd_http = False, hd_webSocket = False\<rparr>"

abbreviation sample_opened :: peer where
  "sample_opened \<equiv> peer_step free_socket no_handlers (\<lambda>_. []) sample_peer (OpenHttp 0 False sample_peer_request)"

lemma sample_opened_run: "peer_run free_socket no_handlers (\<lambda>_. []) sample_peer sample_opened"
proof (rule run_step [OF run_refl])
  show "event_admissible sample_peer (OpenHttp 0 False sample_peer_request)"
    by (simp add: event_admissible_def fresh_stream_def sample_peer_def create_peer_def default_limits_def)
qed


abbreviation sample_shut :: peer where
  "sample_shut \<equiv> peer_step free_socket no_handlers (\<lambda>_. []) sample_opened (ClosePeer 1000 [])"

lemma sample_shut_run: "peer_run free_socket no_handlers (\<lambda>_. []) sample_peer sample_shut" "pe_closed sample_shut"
proof -
  show "peer_run free_socket no_handlers (\<lambda>_. []) sample_peer sample_shut"
    by (rule run_step [OF sample_opened_run]) (simp add: event_admissible_def)
  have "streams_ok sample_opened"
    using run_good [OF sample_opened_run] created_peer_ok [OF sample_peer_created] by (simp add: good_def peer_ok_def)
  then show "pe_closed sample_shut"
    using shutdown_ok(2) [of sample_opened free_socket 1000 "[]" True] by (cases "pe_closed sample_opened") (simp_all add: close_peer_def shutdown_def)
qed

lemma closed_tunnel_is_silent_witness: "pe_streams sample_shut = []"
  using closed_tunnel_is_silent [OF sample_peer_created sample_shut_run] by simp

end
