(* ===== verification/Http_Admission.thy ===== *)
theory Http_Admission
  imports Tunnel_Outbound
begin

text \<open>
  \<open>agent-remote-tunnel/src/http-admission.ts\<close>: at most \<open>concurrency\<close> requests hold a slot, at most
  \<open>maxWaiting\<close> wait for one, in order. A request is a number; \<open>ad_held\<close> are the slots whose release
  function was not called yet and \<open>ad_results\<close> how each request was answered.
\<close>

section \<open>Operations\<close>

record admission =
  ad_active :: int
  ad_closed :: bool
  ad_waiting :: "nat list"
  ad_held :: "nat list"
  ad_concurrency :: nat
  ad_maxWaiting :: nat
  ad_next :: nat
  ad_results :: "(nat, unit js_result) jmap"

definition new_admission :: "nat \<Rightarrow> nat \<Rightarrow> admission" where
  "new_admission concurrency maxWaiting =
     \<lparr>ad_active = 0, ad_closed = False, ad_waiting = [], ad_held = [], ad_concurrency = concurrency, ad_maxWaiting = maxWaiting,
      ad_next = 0, ad_results = []\<rparr>"

definition answer_request :: "nat \<Rightarrow> unit js_result \<Rightarrow> admission \<Rightarrow> admission" where
  "answer_request i r s = s\<lparr>ad_results := jset (ad_results s) i r\<rparr>"

definition reserve_slot :: "nat \<Rightarrow> admission \<Rightarrow> admission" where
  "reserve_slot i s = answer_request i (Inr ()) (s\<lparr>ad_active := ad_active s + 1, ad_held := ad_held s @ [i]\<rparr>)"

definition start_waiter :: "nat \<Rightarrow> admission \<Rightarrow> admission" where
  "start_waiter i s = reserve_slot i (s\<lparr>ad_waiting := removeAll i (ad_waiting s)\<rparr>)"

definition reject_waiter :: "js_error \<Rightarrow> nat \<Rightarrow> admission \<Rightarrow> admission" where
  "reject_waiter e i s = answer_request i (Inl e) (s\<lparr>ad_waiting := removeAll i (ad_waiting s)\<rparr>)"

definition acquire_slot :: "bool \<Rightarrow> admission \<Rightarrow> admission" where
  "acquire_slot aborted s0 =
     (let i = ad_next s0; s = s0\<lparr>ad_next := Suc (ad_next s0)\<rparr> in
      if ad_closed s then answer_request i (Inl (tunnel_error ''closed'' ''Tunnel connection is closed.'')) s
      else if aborted then answer_request i (Inl (tunnel_error ''cancelled'' ''Preview request was cancelled.'')) s
      else if ad_active s < int (ad_concurrency s) then reserve_slot i s
      else if ad_maxWaiting s \<le> length (ad_waiting s)
        then answer_request i (Inl (tunnel_error ''capacity'' ''Preview request queue is full.'')) s
      else s\<lparr>ad_waiting := ad_waiting s @ [i]\<rparr>)"

definition release_slot :: "nat \<Rightarrow> admission \<Rightarrow> admission" where
  "release_slot i s =
     (if i \<notin> set (ad_held s) then s
      else let s = s\<lparr>ad_held := remove1 i (ad_held s), ad_active := ad_active s - 1\<rparr> in
        if ad_closed s then s
        else case ad_waiting s of [] \<Rightarrow> s | w # _ \<Rightarrow> start_waiter w s)"

definition abort_waiter :: "nat \<Rightarrow> admission \<Rightarrow> admission" where
  "abort_waiter i s =
     (if i \<in> set (ad_waiting s) then reject_waiter (tunnel_error ''cancelled'' ''Preview request was cancelled.'') i s else s)"

definition time_out_waiter :: "nat \<Rightarrow> admission \<Rightarrow> admission" where
  "time_out_waiter i s =
     (if i \<in> set (ad_waiting s) then reject_waiter (tunnel_error ''timeout'' ''Preview request queue timed out.'') i s else s)"

definition close_admission :: "admission \<Rightarrow> admission" where
  "close_admission s =
     foldl (\<lambda>s i. reject_waiter (tunnel_error ''closed'' ''Tunnel connection is closed.'') i s) (s\<lparr>ad_closed := True\<rparr>) (ad_waiting s)"

datatype admission_event = Acquire bool | Release nat | WaiterAborted nat | WaiterTimedOut nat | CloseAdmission

fun admission_step :: "admission \<Rightarrow> admission_event \<Rightarrow> admission" where
  "admission_step s (Acquire aborted) = acquire_slot aborted s"
| "admission_step s (Release i) = release_slot i s"
| "admission_step s (WaiterAborted i) = abort_waiter i s"
| "admission_step s (WaiterTimedOut i) = time_out_waiter i s"
| "admission_step s CloseAdmission = close_admission s"

section \<open>The invariant\<close>

definition admission_ok :: "admission \<Rightarrow> bool" where
  "admission_ok s \<longleftrightarrow>
     ad_active s = int (length (ad_held s)) \<and> length (ad_held s) \<le> ad_concurrency s
     \<and> length (ad_waiting s) \<le> ad_maxWaiting s
     \<and> (ad_waiting s \<noteq> [] \<longrightarrow> length (ad_held s) = ad_concurrency s \<and> \<not> ad_closed s)
     \<and> sorted_wrt (<) (ad_waiting s) \<and> (\<forall>i \<in> set (ad_waiting s). i < ad_next s \<and> jget (ad_results s) i = None)
     \<and> (\<forall>i < ad_next s. i \<in> set (ad_waiting s) \<or> jhas (ad_results s) i)
     \<and> (\<forall>i. jhas (ad_results s) i \<longrightarrow> i < ad_next s)
     \<and> distinct (ad_held s) \<and> (\<forall>i \<in> set (ad_held s). jget (ad_results s) i = Some (Inr ()))"

lemma admission_okI:
  assumes "ad_active s = int (length (ad_held s))" "length (ad_held s) \<le> ad_concurrency s"
    "length (ad_waiting s) \<le> ad_maxWaiting s"
    "ad_waiting s \<noteq> [] \<Longrightarrow> length (ad_held s) = ad_concurrency s \<and> \<not> ad_closed s" "sorted_wrt (<) (ad_waiting s)"
    "\<And>i. i \<in> set (ad_waiting s) \<Longrightarrow> i < ad_next s \<and> jget (ad_results s) i = None"
    "\<And>i. i < ad_next s \<Longrightarrow> i \<in> set (ad_waiting s) \<or> jhas (ad_results s) i"
    "\<And>i. jhas (ad_results s) i \<Longrightarrow> i < ad_next s"
    "distinct (ad_held s)" "\<And>i. i \<in> set (ad_held s) \<Longrightarrow> jget (ad_results s) i = Some (Inr ())"
  shows "admission_ok s"
  using assms unfolding admission_ok_def by blast

lemma admission_okD:
  assumes "admission_ok s"
  shows "ad_active s = int (length (ad_held s))" "length (ad_held s) \<le> ad_concurrency s"
    "length (ad_waiting s) \<le> ad_maxWaiting s"
    "ad_waiting s \<noteq> [] \<Longrightarrow> length (ad_held s) = ad_concurrency s \<and> \<not> ad_closed s" "sorted_wrt (<) (ad_waiting s)"
    "\<And>i. i \<in> set (ad_waiting s) \<Longrightarrow> i < ad_next s \<and> jget (ad_results s) i = None"
    "\<And>i. i < ad_next s \<Longrightarrow> i \<in> set (ad_waiting s) \<or> jhas (ad_results s) i"
    "\<And>i. jhas (ad_results s) i \<Longrightarrow> i < ad_next s"
    "distinct (ad_held s)" "\<And>i. i \<in> set (ad_held s) \<Longrightarrow> jget (ad_results s) i = Some (Inr ())"
  using assms unfolding admission_ok_def by blast+

lemma new_admission_ok: "admission_ok (new_admission concurrency maxWaiting)"
  by (simp add: admission_ok_def new_admission_def)

lemma sorted_removeAll: "sorted_wrt (<) xs \<Longrightarrow> sorted_wrt (<) (removeAll x xs)" for xs :: "nat list"
  by (induction xs) auto

lemma removeAll_shorter: "length (removeAll x xs) \<le> length xs"
  by (induction xs) (auto intro: le_SucI)

lemma removeAll_hd: "sorted_wrt (<) (x # xs) \<Longrightarrow> removeAll x (x # xs) = xs" for xs :: "nat list"
  by (simp add: removeAll_id) (metis less_irrefl removeAll_id)

lemma acquire_ok: "admission_ok s \<Longrightarrow> admission_ok (acquire_slot aborted s)"
proof -
  assume "admission_ok s"
  note ok = admission_okD [OF this]
  have fresh: "jget (ad_results s) (ad_next s) = None" using ok(8) [of "ad_next s"] by (cases "jget (ad_results s) (ad_next s)") auto
  then have unheld: "ad_next s \<notin> set (ad_held s)" using ok(10) [of "ad_next s"] by auto
  have waiting: "i \<noteq> ad_next s" if "i \<in> set (ad_waiting s)" for i using ok(6) [OF that] by simp
  consider (answered) e where "acquire_slot aborted s = answer_request (ad_next s) (Inl e) (s\<lparr>ad_next := Suc (ad_next s)\<rparr>)"
    | (slot) "ad_active s < int (ad_concurrency s)" "acquire_slot aborted s = reserve_slot (ad_next s) (s\<lparr>ad_next := Suc (ad_next s)\<rparr>)"
    | (queued) "\<not> ad_closed s" "\<not> ad_active s < int (ad_concurrency s)" "length (ad_waiting s) < ad_maxWaiting s"
        "acquire_slot aborted s = s\<lparr>ad_next := Suc (ad_next s), ad_waiting := ad_waiting s @ [ad_next s]\<rparr>"
  proof -
    assume a: "\<And>e. acquire_slot aborted s = answer_request (ad_next s) (Inl e) (s\<lparr>ad_next := Suc (ad_next s)\<rparr>) \<Longrightarrow> thesis"
      "ad_active s < int (ad_concurrency s) \<Longrightarrow> acquire_slot aborted s = reserve_slot (ad_next s) (s\<lparr>ad_next := Suc (ad_next s)\<rparr>) \<Longrightarrow> thesis"
      "\<not> ad_closed s \<Longrightarrow> \<not> ad_active s < int (ad_concurrency s) \<Longrightarrow> length (ad_waiting s) < ad_maxWaiting s \<Longrightarrow>
        acquire_slot aborted s = s\<lparr>ad_next := Suc (ad_next s), ad_waiting := ad_waiting s @ [ad_next s]\<rparr> \<Longrightarrow> thesis"
    show thesis
    proof (cases "ad_closed s \<or> aborted \<or> \<not> ad_active s < int (ad_concurrency s) \<and> ad_maxWaiting s \<le> length (ad_waiting s)")
      case True
      then have "\<exists>e. acquire_slot aborted s = answer_request (ad_next s) (Inl e) (s\<lparr>ad_next := Suc (ad_next s)\<rparr>)"
        by (cases "ad_closed s"; cases aborted) (auto simp: acquire_slot_def Let_def)
      then show thesis using a(1) by blast
    next
      case False
      show thesis
      proof (cases "ad_active s < int (ad_concurrency s)")
        case True
        with False show thesis by (intro a(2)) (auto simp: acquire_slot_def Let_def)
      next
        case busy: False
        with False show thesis by (intro a(3)) (auto simp: acquire_slot_def Let_def)
      qed
    qed
  qed
  then show ?thesis
  proof cases
    case answered
    show ?thesis unfolding answered
      by (rule admission_okI) (use ok waiting unheld in \<open>auto simp: answer_request_def less_Suc_eq split: if_splits\<close>)
  next
    case slot
    then have w: "ad_waiting s = []" using ok(1,4) by (cases "ad_waiting s") auto
    show ?thesis unfolding slot(2)
      by (rule admission_okI) (use ok slot(1) w fresh unheld in \<open>auto simp: reserve_slot_def answer_request_def less_Suc_eq\<close>)
  next
    case queued
    show ?thesis unfolding queued(4)
      by (rule admission_okI) (use ok queued(1-3) fresh in \<open>auto simp: less_Suc_eq sorted_wrt_append\<close>)
  qed
qed

lemma reject_ok: "admission_ok s \<Longrightarrow> i \<in> set (ad_waiting s) \<Longrightarrow> admission_ok (reject_waiter e i s)"
proof -
  assume "admission_ok s" and i: "i \<in> set (ad_waiting s)"
  note ok = admission_okD [OF this(1)]
  have "length (removeAll i (ad_waiting s)) \<le> ad_maxWaiting s" by (rule le_trans [OF removeAll_shorter ok(3)])
  moreover have "i \<notin> set (ad_held s)" using ok(6) [OF i] ok(10) [of i] by auto
  moreover have "ad_waiting s \<noteq> []" using i by auto
  ultimately show ?thesis unfolding reject_waiter_def answer_request_def
    by (intro admission_okI) (use ok ok(6) [OF i] in \<open>auto simp: sorted_removeAll split: if_splits\<close>)
qed

lemma admission_release_ok: "admission_ok s \<Longrightarrow> admission_ok (release_slot i s)"
proof -
  assume a: "admission_ok s"
  note ok = admission_okD [OF a]
  show ?thesis
  proof (cases "i \<in> set (ad_held s)")
    case False
    with a show ?thesis by (simp add: release_slot_def)
  next
    case True
    then have len: "int (length (remove1 i (ad_held s))) = int (length (ad_held s)) - 1"
      by (cases "length (ad_held s)") (auto simp: length_remove1)
    have sub: "set (remove1 i (ad_held s)) \<subseteq> set (ad_held s)" by (rule set_remove1_subset)
    show ?thesis
    proof (cases "ad_waiting s")
      case Nil
      with True have "release_slot i s = s\<lparr>ad_held := remove1 i (ad_held s), ad_active := ad_active s - 1\<rparr>"
        by (simp add: release_slot_def Let_def)
      then show ?thesis by (simp only:) (rule admission_okI, use ok len sub Nil in \<open>auto simp: distinct_remove1\<close>)
    next
      case (Cons w ws)
      then have w: "w < ad_next s" "jget (ad_results s) w = None" "\<not> ad_closed s" "length (ad_held s) = ad_concurrency s"
        using ok(4) ok(6) [of w] by auto
      have held: "w \<notin> set (ad_held s)" using w(2) ok(10) [of w] by auto
      have rest: "removeAll w (ad_waiting s) = ws" using Cons ok(5) removeAll_hd by simp
      have eq: "release_slot i s = start_waiter w (s\<lparr>ad_held := remove1 i (ad_held s), ad_active := ad_active s - 1\<rparr>)"
        using True Cons w(3) by (simp add: release_slot_def Let_def)
      show ?thesis unfolding eq
        by (rule admission_okI) (use ok len sub w held rest Cons in
          \<open>auto simp: start_waiter_def reserve_slot_def answer_request_def distinct_remove1 less_Suc_eq split: if_splits\<close>)
    qed
  qed
qed

lemma close_admission_ok: "admission_ok s \<Longrightarrow> admission_ok (close_admission s) \<and> ad_waiting (close_admission s) = []"
proof -
  assume a: "admission_ok s"
  let ?R = "\<lambda>s i. reject_waiter (tunnel_error ''closed'' ''Tunnel connection is closed.'') i s"
  have fold: "admission_ok t \<Longrightarrow> sorted_wrt (<) (ad_waiting t) \<Longrightarrow> admission_ok (foldl ?R t (ad_waiting t)) \<and> ad_waiting (foldl ?R t (ad_waiting t)) = []
      \<and> ad_held (foldl ?R t (ad_waiting t)) = ad_held t \<and> ad_closed (foldl ?R t (ad_waiting t)) = ad_closed t" for t
  proof (induction "ad_waiting t" arbitrary: t)
    case (Cons w ws)
    have w: "w \<in> set (ad_waiting t)" using Cons(2) by (metis list.set_intros(1))
    have next_state: "ad_waiting (?R t w) = ws" "ad_held (?R t w) = ad_held t" "ad_closed (?R t w) = ad_closed t"
      using Cons(2) Cons.prems(2) removeAll_hd [of w ws] by (simp_all add: reject_waiter_def answer_request_def Cons(2) [symmetric])
    have "sorted_wrt (<) (ad_waiting (?R t w))" using Cons(2) Cons.prems(2) next_state(1) by (metis sorted_wrt.simps(2))
    from Cons(1) [OF next_state(1) [symmetric] reject_ok [OF Cons.prems(1) w] this] next_state Cons(2) [symmetric] show ?case
      by simp
  qed simp
  have eq: "foldl ?R (s\<lparr>ad_closed := True\<rparr>) (ad_waiting s) = (foldl ?R s (ad_waiting s))\<lparr>ad_closed := True\<rparr>"
  proof -
    have "foldl ?R (u\<lparr>ad_closed := True\<rparr>) xs = (foldl ?R u xs)\<lparr>ad_closed := True\<rparr>" for u xs
    proof (induction xs arbitrary: u)
      case (Cons x xs)
      have "?R (u\<lparr>ad_closed := True\<rparr>) x = (?R u x)\<lparr>ad_closed := True\<rparr>" by (simp add: reject_waiter_def answer_request_def)
      with Cons show ?case by simp
    qed simp
    then show ?thesis .
  qed
  from fold [OF a admission_okD(5) [OF a]] have "admission_ok (foldl ?R s (ad_waiting s))" "ad_waiting (foldl ?R s (ad_waiting s)) = []" by auto
  then show ?thesis unfolding close_admission_def eq admission_ok_def by simp
qed

lemma admission_step_ok: "admission_ok s \<Longrightarrow> admission_ok (admission_step s e)"
  by (cases e) (simp_all add: acquire_ok admission_release_ok reject_ok close_admission_ok abort_waiter_def time_out_waiter_def)

interpretation admission_machine: machine admission_ok admission_step
  by unfold_locales (rule admission_step_ok)

definition same_limits :: "admission \<Rightarrow> admission \<Rightarrow> bool" where
  "same_limits s t \<longleftrightarrow> ad_concurrency t = ad_concurrency s \<and> ad_maxWaiting t = ad_maxWaiting s"

lemma same_limits_step: "same_limits s (admission_step s e)"
proof -
  have "same_limits u (foldl (\<lambda>s i. reject_waiter err i s) u xs)" for u err xs
    by (induction xs arbitrary: u) (auto simp: same_limits_def reject_waiter_def answer_request_def)
  then show ?thesis
    by (cases e) (auto simp: same_limits_def acquire_slot_def release_slot_def abort_waiter_def time_out_waiter_def close_admission_def
        reserve_slot_def start_waiter_def reject_waiter_def answer_request_def Let_def split: list.split)
qed



end
