(* ===== verification/Session_Context_Properties.thy ===== *)
theory Session_Context_Properties
  imports Session_Context
begin

text \<open>
  The lines of a text, \<open>JSON.parse\<close> on text with escaped angle brackets, and the round trips of
  excerpts and reference notes through the text of a message.
\<close>

section \<open>Lines\<close>

lemma split_lines_Nil [simp]: "split_lines s \<noteq> []"
  by (induction s) (auto split: list.split)

lemma split_lines_line: "nl \<notin> set l \<Longrightarrow> split_lines (l @ s) = (l @ hd (split_lines s)) # tl (split_lines s)"
  by (induction l) auto

lemma split_lines_append: "split_lines (s @ nl # t) = split_lines s @ split_lines t"
  by (induction s) (auto split: list.split)

lemma split_lines_single: "nl \<notin> set l \<Longrightarrow> split_lines l = [l]"
  using split_lines_line [of l "[]"] by simp

lemma split_join: "ls \<noteq> [] \<Longrightarrow> \<forall>l \<in> set ls. nl \<notin> set l \<Longrightarrow> split_lines (join_lines ls) = ls"
  by (induction ls rule: join_lines.induct) (simp_all add: split_lines_append split_lines_single)

lemma join_split: "join_lines (split_lines s) = s"
proof (induction s)
  case (Cons c s)
  obtain l ls where "split_lines s = l # ls" by (cases "split_lines s") auto
  with Cons show ?case by (cases ls) auto
qed simp

lemma join_lines_append: "ls \<noteq> [] \<Longrightarrow> ms \<noteq> [] \<Longrightarrow> join_lines (ls @ ms) = join_lines ls @ nl # join_lines ms"
  by (induction ls rule: join_lines.induct) (auto simp: neq_Nil_conv)

lemma join_lines_concat:
  "\<forall>ls \<in> set lss. ls \<noteq> [] \<Longrightarrow> join_lines (map join_lines lss) = join_lines (concat lss)"
proof (induction lss)
  case (Cons ls lss)
  then show ?case
  proof (cases lss)
    case (Cons ms mss)
    then have "join_lines (map join_lines (ls # lss)) = join_lines ls @ nl # join_lines (map join_lines lss)" by simp
    with Cons Cons.prems Cons.IH show ?thesis by (simp add: join_lines_append)
  qed simp
qed simp

lemma last_split_lines:
  assumes "nl \<notin> set w"
  shows "last (split_lines (s @ w)) = last (split_lines s) @ w"
proof (cases "nl \<in> set s")
  case True
  then obtain u v where "s = u @ nl # v" "nl \<notin> set v" by (meson split_list_last)
  with assms show ?thesis by (simp add: split_lines_append split_lines_single)
qed (use assms in \<open>simp add: split_lines_single\<close>)

lemma last_index_of_None:
  "m \<noteq> [] \<Longrightarrow> (\<And>j. j \<le> length s \<Longrightarrow> take (length m) (drop j s) \<noteq> m) \<Longrightarrow> last_index_of m s = None"
proof (induction s)
  case (Cons c s)
  from Cons.prems(2) [of "Suc j" for j] Cons.prems(1) have "last_index_of m s = None" by (intro Cons.IH) auto
  with Cons.prems(2) [of 0] show ?case by simp
qed simp

lemma last_index_of_Some:
  assumes "m \<noteq> []" "take (length m) (drop i s) = m" "i \<le> length s"
    and "\<And>j. i < j \<Longrightarrow> j \<le> length s \<Longrightarrow> take (length m) (drop j s) \<noteq> m"
  shows "last_index_of m s = Some i"
  using assms
proof (induction s arbitrary: i)
  case (Cons c s)
  show ?case
  proof (cases i)
    case 0
    with Cons.prems(4) [of "Suc j" for j] Cons.prems(1) have "last_index_of m s = None"
      by (intro last_index_of_None) auto
    with Cons.prems(2) 0 show ?thesis by simp
  next
    case (Suc k)
    have "last_index_of m s = Some k"
      using Cons.prems(1-3) Cons.prems(4) [of "Suc j" for j] Suc by (intro Cons.IH) auto
    with Suc show ?thesis by simp
  qed
qed simp

lemma between_append: "between p q (p @ w @ q) = Some w"
  by (simp add: between_def ends_with_def)

section \<open>JSON text with escaped angle brackets\<close>

lemma escape_angle_simps [simp]:
  "escape_angle [] = []"
  "escape_angle (c # s) = (if c = CHR ''<'' then CHR 0x5C # ''u003c'' @ escape_angle s else c # escape_angle s)"
  by (simp_all add: escape_angle_def)

lemma escape_angle_append: "escape_angle (s @ t) = escape_angle s @ escape_angle t"
  by (simp add: escape_angle_def)

lemma escape_angle_newline: "nl \<notin> set s \<Longrightarrow> nl \<notin> set (escape_angle s)"
  by (induction s) auto

lemma unicode_angle: "unicode_escape (CHR ''0'') (CHR ''0'') (CHR ''3'') (CHR ''c'') = Some (CHR ''<'')"
  by code_simp

lemma unescape_angle [simp]: "unescape (CHR ''<'') = None"
  by code_simp

lemma hex_value_angle [simp]: "hex_value (CHR ''<'') = None"
  by code_simp

lemma unicode_escape_no_angle: "unicode_escape a b c d = Some x \<Longrightarrow>
    a \<noteq> CHR ''<'' \<and> b \<noteq> CHR ''<'' \<and> c \<noteq> CHR ''<'' \<and> d \<noteq> CHR ''<''"
  by (auto simp: unicode_escape_def split: option.splits nat.splits)

lemma parse_chars_unicode: "unicode_escape a b c d = Some x \<Longrightarrow>
    parse_chars (CHR 0x5C # CHR ''u'' # a # b # c # d # s) = map_option (apfst ((#) x)) (parse_chars s)"
  by simp

lemma parse_chars_short: "unescape e = Some x \<Longrightarrow> e \<noteq> CHR ''u'' \<Longrightarrow>
    parse_chars (CHR 0x5C # e # s) = map_option (apfst ((#) x)) (parse_chars s)"
  by simp

lemma parse_chars_escapeE:
  assumes "parse_chars (CHR 0x5C # s) = Some (w, r)"
  obtains (unicode) a b c d t x v where "s = CHR ''u'' # a # b # c # d # t" "unicode_escape a b c d = Some x"
      "parse_chars t = Some (v, r)" "w = x # v"
  | (short) e t x v where "s = e # t" "e \<noteq> CHR ''u''" "unescape e = Some x" "parse_chars t = Some (v, r)" "w = x # v"
proof (cases s)
  case (Cons e t)
  show thesis
  proof (cases "e = CHR ''u''")
    case True
    show thesis
    proof (cases "4 \<le> length t")
      case False
      then have "parse_chars (CHR 0x5C # s) = None" using Cons True by (auto split: list.split)
      with assms show thesis by simp
    next
      case four: True
      then obtain h1 h2 h3 h4 u where t: "t = h1 # h2 # h3 # h4 # u" by (auto simp: numeral_eq_Suc Suc_le_length_iff)
      show thesis
      proof (cases "unicode_escape h1 h2 h3 h4")
        case None
        with assms Cons True t show thesis by simp
      next
        case (Some x)
        with assms Cons True t obtain v where "parse_chars u = Some (v, r)" "w = x # v" by auto
        with unicode Cons True t Some show thesis by blast
      qed
    qed
  next
    case False
    show thesis
    proof (cases "unescape e")
      case None
      with assms Cons False show thesis by simp
    next
      case (Some x)
      with assms Cons False obtain v where "parse_chars t = Some (v, r)" "w = x # v" by auto
      with short Cons False Some show thesis by blast
    qed
  qed
qed (use assms in simp)

lemma parse_chars_angle: "parse_chars s = Some (w, r) \<Longrightarrow> parse_chars (escape_angle s) = Some (w, escape_angle r)"
proof (induction "length s" arbitrary: s w rule: less_induct)
  case (less s w)
  then obtain c cs where s: "s = c # cs" by (cases s) auto
  show ?case
  proof (cases "c = CHR 0x5C")
    case True
    from less.prems [unfolded s True] show ?thesis
    proof (cases rule: parse_chars_escapeE)
      case (unicode h1 h2 h3 h4 t x v)
      with less.hyps [of t v] s show ?thesis
        using unicode_escape_no_angle [OF unicode(2)] parse_chars_unicode [OF unicode(2), of "escape_angle t"] True by simp
    next
      case (short e t x v)
      then have "e \<noteq> CHR ''<''" by auto
      with short less.hyps [of t v] s show ?thesis
        using parse_chars_short [OF short(3,2), of "escape_angle t"] True by simp
    qed
  next
    case False
    show ?thesis
    proof (cases "c = CHR 0x22")
      case True
      with less.prems s show ?thesis by simp
    next
      case nq: False
      with False less.prems s obtain v where v: "parse_chars cs = Some (v, r)" "w = c # v" "\<not> (of_char c :: nat) < 32"
        by (auto split: if_splits)
      with less.hyps [of cs v] s False nq show ?thesis
        using parse_chars_unicode [OF unicode_angle, of "escape_angle cs"] by (cases "c = CHR ''<''") simp_all
    qed
  qed
qed

lemma skip_space_angle: "skip_space (escape_angle s) = escape_angle (skip_space s)"
  by (induction s) (auto simp: skip_space_def json_space_def)

lemma skip_space_angle_Cons: "skip_space s = c # cs \<Longrightarrow> skip_space (escape_angle s) = escape_angle (c # cs)"
  by (simp only: skip_space_angle)

lemma literal_angle:
  "CHR ''<'' \<notin> set word \<Longrightarrow> literal word v s = Some (x, r) \<Longrightarrow> literal word v (escape_angle s) = Some (x, escape_angle r)"
proof -
  assume a: "CHR ''<'' \<notin> set word" "literal word v s = Some (x, r)"
  then have "s = word @ r" "x = v" by (auto simp: literal_def split: if_splits) (metis append_take_drop_id)
  moreover from a(1) have "escape_angle word = word" by (induction word) auto
  ultimately show ?thesis by (simp add: literal_def escape_angle_append)
qed

lemma digits_angle:
  "takeWhile is_digit (escape_angle s) = takeWhile is_digit s"
  "dropWhile is_digit (escape_angle s) = escape_angle (dropWhile is_digit s)"
  by (induction s) (auto simp: is_digit_def)

lemma number_continues_angle: "number_continues (escape_angle s) = number_continues s"
  by (cases s) (auto simp: number_continues_def)

lemma parse_natural_angle: "parse_natural s = Some (n, r) \<Longrightarrow> parse_natural (escape_angle s) = Some (n, escape_angle r)"
  by (auto simp: parse_natural_def digits_angle number_continues_angle Let_def split: if_splits)

lemma parse_int_angle: "parse_int s = Some (v, r) \<Longrightarrow> parse_int (escape_angle s) = Some (v, escape_angle r)"
proof (cases s)
  case (Cons c cs)
  moreover assume "parse_int s = Some (v, r)"
  moreover from calculation have "c \<noteq> CHR ''<''"
    by (auto simp: parse_int_def parse_natural_def Let_def is_digit_def split: if_splits)
  ultimately show ?thesis
    using parse_natural_angle [of cs] parse_natural_angle [of "c # cs"] by (auto simp: parse_int_def split: if_splits)
qed (simp add: parse_int_def)

lemma parse_angle:
  "parse_value n s = Some (v, r) \<Longrightarrow> parse_value n (escape_angle s) = Some (v, escape_angle r)"
  "parse_elements n s = Some (vs, r) \<Longrightarrow> parse_elements n (escape_angle s) = Some (vs, escape_angle r)"
  "parse_members n s = Some (ms, r) \<Longrightarrow> parse_members n (escape_angle s) = Some (ms, escape_angle r)"
proof (induction n s and n s and n s arbitrary: v r and vs r and ms r
    rule: parse_value_parse_elements_parse_members.induct)
  case (2 n s)
  note prem = 2(3) and IH = 2(1,2)
  obtain c cs where c: "skip_space s = c # cs" using prem by (auto split: list.splits)
  note esc = skip_space_angle_Cons [OF c]
  consider (quote) "c = CHR 0x22" | (array) "c = CHR ''[''" | (obj) "c = CHR ''{''" | (null) "c = CHR ''n''"
    | (true) "c = CHR ''t''" | (false) "c = CHR ''f''"
    | (int) "c \<notin> {CHR 0x22, CHR ''['', CHR ''{'', CHR ''n'', CHR ''t'', CHR ''f''}" by auto
  then show ?case
  proof cases
    case quote
    with prem c esc show ?thesis by (auto dest: parse_chars_angle)
  next
    case null
    with prem c esc show ?thesis using literal_angle [of "''null''" JsNull "c # cs"] by simp
  next
    case true
    with prem c esc show ?thesis using literal_angle [of "''true''" "JsBool True" "c # cs"] by simp
  next
    case false
    with prem c esc show ?thesis using literal_angle [of "''false''" "JsBool False" "c # cs"] by simp
  next
    case int
    with prem c have "parse_int (c # cs) = Some (v, r)" by simp
    with parse_int_angle [OF this] int esc prem c show ?thesis by (cases "c = CHR ''<''") auto
  next
    case array
    with prem c obtain d ds where d: "skip_space cs = d # ds" by (auto split: list.splits)
    show ?thesis
    proof (cases "d = CHR '']''")
      case True
      with prem c d array esc skip_space_angle_Cons [OF d] show ?thesis by simp
    next
      case False
      with prem c d array obtain xs where xs: "parse_elements n (d # ds) = Some (xs, r)" "v = JsArray xs" by auto
      have "parse_elements n (escape_angle (d # ds)) = Some (xs, escape_angle r)"
        using IH(1) [OF c _ _ d False xs(1)] array by simp
      with xs False array esc skip_space_angle_Cons [OF d] show ?thesis by (cases "d = CHR ''<''") simp_all
    qed
  next
    case obj
    with prem c obtain d ds where d: "skip_space cs = d # ds" by (auto split: list.splits)
    show ?thesis
    proof (cases "d = CHR ''}''")
      case True
      with prem c d obj esc skip_space_angle_Cons [OF d] show ?thesis by simp
    next
      case False
      with prem c d obj obtain xs where xs: "parse_members n (d # ds) = Some (xs, r)"
        "v = JsObject (foldl (\<lambda>m e. jset m (fst e) (snd e)) [] xs)" by auto
      have "parse_members n (escape_angle (d # ds)) = Some (xs, escape_angle r)"
        using IH(2) [OF c _ _ _ d False xs(1)] obj by simp
      with xs False obj esc skip_space_angle_Cons [OF d] show ?thesis by (cases "d = CHR ''<''") simp_all
    qed
  qed
next
  case (4 n s)
  from 4(3) obtain v u where v: "parse_value n s = Some (v, u)" by (auto split: option.splits)
  then obtain c cs where c: "skip_space u = c # cs" using 4(3) by (auto split: list.splits)
  note esc = 4(1) [OF v] skip_space_angle_Cons [OF c]
  consider (finish) "c = CHR '']''" | (more) xs where "c = CHR '',''" "parse_elements n cs = Some (xs, r)" "vs = v # xs"
    using 4(3) v c by (auto split: if_splits)
  then show ?case
  proof cases
    case more
    with 4(2) [OF v refl c _ _ more(2)] v c esc show ?thesis by simp
  qed (use 4(3) v c esc in simp)
next
  case (6 n s)
  from 6(3) obtain k u where k: "parse_string (skip_space s) = Some (k, u)" by (auto split: option.splits)
  obtain b bs where b: "skip_space s = b # bs" "b = CHR 0x22" "parse_chars bs = Some (k, u)"
    using k by (auto simp: parse_string_def split: list.splits if_splits)
  have k': "parse_string (skip_space (escape_angle s)) = Some (k, escape_angle u)"
    using b parse_chars_angle [OF b(3)] by (simp add: skip_space_angle parse_string_def)
  obtain c cs where c: "skip_space u = c # cs" "c = CHR '':''" using 6(3) k by (auto split: list.splits if_splits)
  obtain v u' where v: "parse_value n cs = Some (v, u')" using 6(3) k c by (auto split: option.splits)
  obtain d ds where d: "skip_space u' = d # ds" using 6(3) k c v by (auto split: list.splits)
  have v': "parse_value n (escape_angle cs) = Some (v, escape_angle u')" using 6(1) [OF k refl c(1) _ v] c(2) by simp
  note esc = k' v' skip_space_angle_Cons [OF c(1)] skip_space_angle_Cons [OF d]
  consider (finish) "d = CHR ''}''" | (more) xs where "d = CHR '',''" "parse_members n ds = Some (xs, r)" "ms = (k, v) # xs"
    using 6(3) k c v d by (auto split: if_splits)
  then show ?case
  proof cases
    case more
    with 6(2) [OF k refl c(1) _ v refl d _ _ more(2)] k c v d esc show ?thesis by simp
  qed (use 6(3) k c v d esc in simp)
qed simp_all

lemma length_escape_angle: "length s \<le> length (escape_angle s)"
  by (induction s) auto

lemma json_parse_angle: "plain_json v \<Longrightarrow> json_parse (escape_angle (print v)) = Inr v"
proof -
  assume plain: "plain_json v"
  have "parse_value (Suc (length (escape_angle (print v)))) (print v @ []) = Some (v, [])"
    using length_escape_angle [of "print v"] by (intro parse_print [OF plain]) auto
  from parse_angle(1) [OF this] show ?thesis by (simp add: json_parse_def skip_space_def)
qed

section \<open>Printed text stays on one line\<close>

lemma escape_char_newline: "nl \<notin> set (escape_char c)"
proof (cases c rule: escape_char_cases)
  case (short e)
  then show ?thesis by (auto simp: short_escape_def split: if_splits)
next
  case (long n)
  then have "n div 16 < 16" "n mod 16 < 16" by auto
  then have "hex_digit (n div 16) \<noteq> nl" "hex_digit (n mod 16) \<noteq> nl"
    using of_char_hex_digit [of "n div 16"] of_char_hex_digit [of "n mod 16"] by (auto split: if_splits)
  with long show ?thesis by simp
next
  case plain
  then show ?thesis by (auto simp: escape_char_def short_escape_def split: if_splits)
qed

lemma quote_newline: "nl \<notin> set (quote s)"
  using escape_char_newline by (auto simp: quote_def)

lemma comma_join_newline: "\<forall>s \<in> set ss. nl \<notin> set s \<Longrightarrow> nl \<notin> set (comma_join ss)"
  by (induction ss rule: comma_join.induct) auto

lemma int_text_newline: "nl \<notin> set (int_text i)"
  using decimal_digits [of "nat i"] decimal_digits [of "nat (- i)"]
  by (auto simp: int_text_def is_digit_def)

lemma print_newline: "plain_json v \<Longrightarrow> nl \<notin> set (print v)"
proof (induction v)
  case (JsArray xs)
  then have "nl \<notin> set (comma_join (map print xs))" by (intro comma_join_newline) auto
  with JsArray.prems show ?case by (simp only: print_array plain_json.simps) simp
next
  case (JsObject ms)
  then have "nl \<notin> set (comma_join (map print_member ms))"
    using quote_newline by (intro comma_join_newline) fastforce
  with JsObject.prems show ?case by (simp only: print_object) simp
qed (simp_all add: quote_newline int_text_newline)

section \<open>Excerpts\<close>

definition excerpt_value :: "session_excerpt \<Rightarrow> js_value" where
  "excerpt_value e =
     JsObject ([(''id'', JsString (se_id e)), (''source'', se_source e), (''capturedAt'', se_capturedAt e),
         (''segments'', se_segments e)]
       @ (case se_shortenedToolCount e of None \<Rightarrow> [] | Some n \<Rightarrow> [(''shortenedToolCount'', JsInt n)]))"

text \<open>A well-formed excerpt: \<open>isSessionExcerpt\<close> accepts it, and JSON represents it as it is.\<close>

definition good_excerpt :: "session_excerpt \<Rightarrow> bool" where
  "good_excerpt e \<longleftrightarrow> isSessionExcerpt (excerpt_value e) \<and> plain_json (excerpt_value e)"

lemma array_index_keys:
  "array_index ''id'' = None" "array_index ''source'' = None" "array_index ''capturedAt'' = None"
  "array_index ''segments'' = None" "array_index ''shortenedToolCount'' = None"
  "array_index ''references'' = None" "array_index ''address'' = None" "array_index ''title'' = None"
  "array_index ''origin'' = None" "array_index ''providerId'' = None" "array_index ''nativeSessionId'' = None"
  "array_index ''role'' = None" "array_index ''text'' = None"
  by code_simp+

lemma good_excerpt_parts:
  assumes "good_excerpt e"
  shows "excerptId (se_id e)" "SessionExcerptPayload (excerptPayload e)" "plain_json (excerptPayload e)"
    "excerpt_of (se_id e) (excerptPayload e) = e"
proof -
  have short: "1 \<le> n" if "se_shortenedToolCount e = Some n" for n
    using assms that by (simp add: good_excerpt_def isSessionExcerpt_def excerpt_value_def SessionExcerptPayload_def
        object_schema_def positive_schema_def)
  then show "excerptId (se_id e)" "SessionExcerptPayload (excerptPayload e)" "plain_json (excerptPayload e)"
    "excerpt_of (se_id e) (excerptPayload e) = e"
    using assms
    by (auto simp: good_excerpt_def isSessionExcerpt_def excerpt_value_def excerptPayload_def obj_entries_def
        array_index_keys excerpt_of_def member_or_undefined_def split: option.splits)
qed

lemma excerptJson_newline: "good_excerpt e \<Longrightarrow> nl \<notin> set (excerptJson e)"
  by (simp add: excerptJson_def escape_angle_newline print_newline good_excerpt_parts)

lemma excerptJson_parse: "good_excerpt e \<Longrightarrow> json_parse (excerptJson e) = Inr (excerptPayload e)"
  by (simp add: excerptJson_def json_parse_angle good_excerpt_parts)

lemma print_object_last: "\<exists>u. print (JsObject ms) = u @ ''}''"
  by (simp only: stringify.simps option.sel) (metis append_Cons)

lemma excerptJson_last: "\<exists>u. excerptJson e = u @ ''}''"
proof -
  obtain u where "print (excerptPayload e) = u @ ''}''"
    using print_object_last unfolding excerptPayload_def by blast
  then show ?thesis by (simp add: excerptJson_def escape_angle_append)
qed

lemma excerptId_newline: "excerptId i \<Longrightarrow> nl \<notin> set i"
  by (auto simp: excerptId_def list_all_iff is_ascii_letter_def is_digit_def)

lemma excerpt_lines_newline: "good_excerpt e \<Longrightarrow> l \<in> set (excerpt_lines e) \<Longrightarrow> nl \<notin> set l"
  using excerptId_newline [OF good_excerpt_parts(1)] excerptJson_newline
  by (auto simp: excerpt_lines_def excerpt_open_def tag_end_def excerpt_close_def)

lemma excerpt_lines_last: "good_excerpt e \<Longrightarrow> l \<in> set (excerpt_lines e) \<Longrightarrow> l \<noteq> [] \<and> last l \<noteq> CHR ''.''"
  using excerptJson_last [of e] by (auto simp: excerpt_lines_def tag_end_def excerpt_close_def)

lemma read_excerpts_lines:
  "list_all good_excerpt es \<Longrightarrow> read_excerpts (concat (map excerpt_lines es)) = Some es"
  by (induction es) (simp_all add: excerpt_lines_def excerpt_line_id_def between_append excerptJson_parse good_excerpt_parts)

lemma attachment_good:
  "list_all good_excerpt es \<Longrightarrow> es \<noteq> [] \<Longrightarrow> length es \<le> 8 \<Longrightarrow>
   sessionExcerptAttachment es = Inr ([nl, nl] @ excerpt_marker @ join_lines (concat (map excerpt_lines es)))"
proof -
  assume a: "list_all good_excerpt es" "es \<noteq> []" "length es \<le> 8"
  have "join_lines (map join_lines (map excerpt_lines es)) = join_lines (concat (map excerpt_lines es))"
    by (rule join_lines_concat) (simp add: excerpt_lines_def)
  with a show ?thesis
    by (auto simp: sessionExcerptAttachment_def max_session_excerpts_per_message_def excerpt_marker_def comp_def
        list_all_iff good_excerpt_parts)
qed

text \<open>A new excerpt holds the rows of the selected entries, in order, in segments none of which is empty.\<close>

definition selected_rows :: "(entry \<Rightarrow> (context_row \<times> bool) option) \<Rightarrow> (entry \<Rightarrow> bool) \<Rightarrow> entry list \<Rightarrow> context_row list" where
  "selected_rows row selected es = concat (map (\<lambda>e. case row e of Some (r, _) \<Rightarrow> if selected e then [r] else [] | None \<Rightarrow> []) es)"

lemma excerpt_segments_rows:
  "excerpt_segments row selected es segments current k = (result, k') \<Longrightarrow> (current \<Longrightarrow> segments \<noteq> []) \<Longrightarrow>
   [] \<notin> set segments \<Longrightarrow> concat result = concat segments @ selected_rows row selected es \<and> [] \<notin> set result"
proof (induction row selected es segments current k rule: excerpt_segments.induct)
  case (2 row selected e es segments current k)
  show ?case
  proof (cases "row e")
    case None
    with 2(1) [OF None] 2(4-6) show ?thesis by (simp add: selected_rows_def)
  next
    case (Some p)
    obtain r b where p: "p = (r, b)" by force
    show ?thesis
    proof (cases "selected e")
      case False
      with 2(2) [OF Some p [symmetric]] 2(4-6) Some p show ?thesis by (simp add: selected_rows_def)
    next
      case True
      let ?next = "if current then butlast segments @ [last segments @ [r]] else segments @ [[r]]"
      have "[] \<notin> set ?next" using 2(6) by (auto dest: in_set_butlastD)
      moreover have "concat ?next = concat segments @ [r]"
      proof (cases "current")
        case True
        with 2(5) have "segments \<noteq> []" .
        then have "concat segments = concat (butlast segments @ [last segments])" by simp
        then have "concat segments = concat (butlast segments) @ last segments" by (simp del: append_butlast_last_id)
        with True show ?thesis by simp
      qed simp
      ultimately show ?thesis using 2(3) [OF Some p [symmetric]] 2(4) Some p True by (auto simp: selected_rows_def)
    qed
  qed
qed (simp add: selected_rows_def)

lemma excerpt_segments_count:
  "excerpt_segments row selected es segments current k = (result, k') \<Longrightarrow> k \<le> k'"
  by (induction row selected es segments current k rule: excerpt_segments.induct)
    (auto split: option.splits prod.splits if_splits, force+)

lemma createSessionExcerpt_good:
  assumes "createSessionExcerpt row selected ident source capturedAt es = Inr e" "plain_json source"
  shows "good_excerpt e"
proof -
  obtain segments k where parts: "excerpt_segments row selected es [] False 0 = (segments, k)" by force
  then have k: "0 \<le> k" by (rule excerpt_segments_count)
  with assms(1) parts have e: "excerptId (se_id e)" "se_source e = source" "se_shortenedToolCount e = (if k = 0 then None else Some k)"
    "se_segments e = JsArray (map (\<lambda>rows. JsArray (map row_value rows)) segments)" "SessionExcerptPayload (excerptPayload e)"
    by (auto simp: createSessionExcerpt_def Let_def split: if_splits)
  have "plain_json (row_value r)" for r by (simp add: row_value_def obj_entries_def array_index_keys)
  then have segments: "plain_json (se_segments e)" using e(4) by simp
  have "plain_json (se_capturedAt e)"
    using e(5) by (auto simp: SessionExcerptPayload_def object_schema_def excerptPayload_def bounded_def string_schema_def
        split: js_value.splits)
  with e assms(2) segments show ?thesis
    by (auto simp: good_excerpt_def isSessionExcerpt_def excerpt_value_def excerptPayload_def obj_entries_def array_index_keys)
qed

section \<open>Reading excerpts back\<close>

lemma introduction_facts: "nl \<notin> set excerptIntroduction" "last excerptIntroduction = CHR ''.''" "excerptIntroduction \<noteq> []"
  by (simp_all add: excerptIntroduction_def)

lemma marker_once:
  assumes ls: "\<forall>l \<in> set ls. nl \<notin> set l \<and> last l \<noteq> CHR ''.''" "ls \<noteq> []"
    and eq: "excerpt_marker @ join_lines ls = u @ excerpt_marker @ v"
  shows "u = []"
proof -
  let ?a = "split_lines (u @ excerptIntroduction)"
  have "split_lines (excerpt_marker @ join_lines ls) = excerptIntroduction # ls"
    using ls introduction_facts(1) by (simp add: excerpt_marker_def split_lines_append split_lines_single split_join)
  moreover have "split_lines (u @ excerpt_marker @ v) = ?a @ split_lines v"
    using split_lines_append [of "u @ excerptIntroduction" v] by (simp add: excerpt_marker_def)
  ultimately have lines: "?a @ split_lines v = excerptIntroduction # ls" using eq by metis
  then obtain as where as: "?a = excerptIntroduction # as" by (cases ?a) auto
  have "last ?a = last (split_lines u) @ excerptIntroduction" by (rule last_split_lines) (rule introduction_facts)
  then have dot: "last (last ?a) = CHR ''.''" using introduction_facts by simp
  have "as = []"
  proof (rule ccontr)
    assume "as \<noteq> []"
    with as lines have "last ?a \<in> set ls" by auto
    with ls dot show False by auto
  qed
  with as have "u @ excerptIntroduction = excerptIntroduction" using join_split [of "u @ excerptIntroduction"] by simp
  then show ?thesis by simp
qed

lemma last_marker:
  assumes ls: "\<forall>l \<in> set ls. nl \<notin> set l \<and> last l \<noteq> CHR ''.''" "ls \<noteq> []"
  shows "last_index_of excerpt_marker (p @ excerpt_marker @ join_lines ls) = Some (length p)"
proof (rule last_index_of_Some)
  fix j
  assume j: "length p < j"
  show "take (length excerpt_marker) (drop j (p @ excerpt_marker @ join_lines ls)) \<noteq> excerpt_marker"
  proof
    let ?s = "excerpt_marker @ join_lines ls" and ?k = "j - length p"
    assume "take (length excerpt_marker) (drop j (p @ ?s)) = excerpt_marker"
    with j have "take (length excerpt_marker) (drop ?k ?s) = excerpt_marker" by simp
    then have "?s = take ?k ?s @ excerpt_marker @ drop (length excerpt_marker) (drop ?k ?s)"
      by (metis append_take_drop_id)
    from marker_once [OF ls this] j show False by (simp add: excerpt_marker_def introduction_facts)
  qed
qed (simp_all add: excerpt_marker_def introduction_facts)

lemma appended_block:
  "A \<noteq> [] \<Longrightarrow> \<not> js_space (hd A) \<Longrightarrow> appended s (nl # nl # A) = (if s = [] then A else s @ nl # nl # A)"
  by (cases A) (auto simp: appended_def js_trim_start_def js_space_def)

lemma marker_first: "excerpt_marker @ s \<noteq> []" "\<not> js_space (hd (excerpt_marker @ s))"
  by (simp_all add: excerpt_marker_def excerptIntroduction_def js_space_def)

lemma split_appended:
  assumes "list_all good_excerpt es" "es \<noteq> []"
  shows "splitSessionExcerpts (appended s ([nl, nl] @ excerpt_marker @ join_lines (concat (map excerpt_lines es)))) = (s, es)"
proof -
  let ?ls = "concat (map excerpt_lines es)"
  have ls: "\<forall>l \<in> set ?ls. nl \<notin> set l \<and> last l \<noteq> CHR ''.''" "?ls \<noteq> []"
  proof -
    show "\<forall>l \<in> set ?ls. nl \<notin> set l \<and> last l \<noteq> CHR ''.''"
      using assms(1) excerpt_lines_newline excerpt_lines_last by (fastforce simp: list_all_iff)
    show "?ls \<noteq> []" using assms(2) by (cases es) (simp_all add: excerpt_lines_def)
  qed
  have "length (concat (map excerpt_lines xs)) mod 3 = 0" for xs by (induction xs) (simp_all add: excerpt_lines_def)
  from this [of es] have "length ?ls mod 3 = 0" .
  moreover have "split_lines (join_lines ?ls) = ?ls" using ls by (intro split_join) auto
  ultimately show ?thesis
    using last_marker [OF ls, of "[]"] last_marker [OF ls, of "s @ [nl, nl]"] read_excerpts_lines [OF assms(1)]
      appended_block [OF marker_first]
    by (simp add: splitSessionExcerpts_def ends_with_def Let_def)
qed


section \<open>Reading reference notes back\<close>

lemma decimal_length: "n < 10 ^ k \<Longrightarrow> 1 \<le> k \<Longrightarrow> 1 \<le> length (decimal n) \<and> length (decimal n) \<le> k"
proof (induction n arbitrary: k rule: decimal.induct)
  case (1 n)
  show ?case
  proof (cases "n < 10")
    case True
    with 1(3) show ?thesis by (subst (1 2) decimal.simps) simp
  next
    case False
    with 1(2,3) obtain j where k: "k = Suc j" "1 \<le> j" by (cases k; cases "k - 1") auto
    with 1(1) [OF False, of j] 1(2) have "length (decimal (n div 10)) \<le> j" by auto
    with False k show ?thesis by (subst (1 2) decimal.simps) simp
  qed
qed

lemma plain_references: "plain_json (references_payload rs)"
  by (auto simp: references_payload_def reference_value_def obj_entries_def array_index_keys split: option.splits)

text \<open>An empty title is not written.\<close>

definition read_reference :: "context_reference \<Rightarrow> context_reference" where
  "read_reference r = r\<lparr>cr_title := if cr_title r = Some [] then None else cr_title r\<rparr>"

lemma reference_of_value: "reference_of (reference_value r) = read_reference r"
  by (auto simp: reference_of_def reference_value_def read_reference_def origin_name_def split: option.splits reference_origin.splits)

lemma references_of_payload: "references_of (references_payload rs) = map read_reference rs"
  by (simp add: references_of_def references_payload_def reference_of_value)

lemma referencesIntroduction_newline: "nl \<notin> set referencesIntroduction"
  by (simp add: referencesIntroduction_def)

lemma note_lines_newline: "l \<in> set (note_lines n) \<Longrightarrow> nl \<notin> set l"
  using referencesIntroduction_newline escape_angle_newline [OF print_newline [OF plain_references [of "rn_references n"]]]
    int_text_newline [of "rn_revision n"]
  by (auto simp: note_lines_def references_open_def references_close_def tag_end_def)

lemma split_note:
  assumes "0 \<le> rn_revision n" "rn_revision n < 10 ^ 15" "SessionReferencePayload (references_payload (rn_references n))"
  shows "splitSessionReferences (appended s ([nl, nl] @ join_lines (note_lines n)))
    = (s, Some (n\<lparr>rn_references := map read_reference (rn_references n)\<rparr>))"
proof -
  let ?d = "decimal (nat (rn_revision n))"
  have digits: "int_text (rn_revision n) = ?d" "1 \<le> length ?d" "length ?d \<le> 15" "list_all is_digit ?d"
    using assms(1,2) decimal_length [of "nat (rn_revision n)" 15] decimal_digits
    by (auto simp: int_text_def list_all_iff)
  have lines: "split_lines (join_lines (note_lines n)) = note_lines n"
    by (rule split_join) (auto simp: note_lines_newline, simp add: note_lines_def)
  let ?before = "if s = [] then [] else split_lines s @ [[]]"
  have first: "join_lines (note_lines n) \<noteq> []" "\<not> js_space (hd (join_lines (note_lines n)))"
    by (simp_all add: note_lines_def references_open_def js_space_def)
  have split: "split_lines (appended s ([nl, nl] @ join_lines (note_lines n))) = ?before @ note_lines n"
    using lines appended_block [OF first, of s] split_lines_append [of s "nl # join_lines (note_lines n)"] by simp
  have four: "length (note_lines n) = 4" by (simp add: note_lines_def)
  have cut: "take (length (?before @ note_lines n) - 4) (?before @ note_lines n) = ?before"
    "drop (length (?before @ note_lines n) - 4) (?before @ note_lines n) = note_lines n" using four by simp_all
  have "join_lines (butlast ?before) = s" using join_split [of s] by simp
  moreover have "?before = [] \<or> 2 \<le> length ?before \<and> last ?before = []"
    using split_lines_Nil [of s] by (cases "split_lines s") auto
  ultimately have match: "reference_match (appended s ([nl, nl] @ join_lines (note_lines n)))
      = Some (s, ?d, referencesIntroduction, escape_angle (print (references_payload (rn_references n))))"
    using digits unfolding reference_match_def split Let_def cut by (simp add: note_lines_def between_append)
  show ?thesis
    using assms unfolding splitSessionReferences_def match
    by (simp add: json_parse_angle plain_references numeral_value_decimal references_of_payload)
qed

lemma last_index_of_sound: "last_index_of m s = Some i \<Longrightarrow> take (length m) (drop i s) = m"
  by (induction s arbitrary: i) (auto split: option.splits if_splits)

lemma read_excerpts_last: "read_excerpts bs = Some es \<Longrightarrow> bs \<noteq> [] \<Longrightarrow> last bs = excerpt_close"
proof (induction bs arbitrary: es rule: read_excerpts.induct)
  case (2 a b c rest)
  then show ?case by (cases "rest = []") (auto split: option.splits if_splits sum.splits)
qed auto

lemma split_without_close:
  assumes "last (split_lines s) \<noteq> excerpt_close"
  shows "splitSessionExcerpts s = (s, [])"
proof (cases "last_index_of excerpt_marker s")
  case (Some i)
  let ?rest = "drop (i + length excerpt_marker) s"
  have "s = take i s @ take (length excerpt_marker) (drop i s) @ drop (length excerpt_marker) (drop i s)"
    by (simp only: append_take_drop_id)
  also have "\<dots> = (take i s @ excerptIntroduction) @ nl # ?rest"
    using last_index_of_sound [OF Some] by (simp add: excerpt_marker_def add.commute)
  finally have "split_lines s = split_lines (take i s @ excerptIntroduction) @ split_lines ?rest"
    by (metis split_lines_append)
  with assms have "last (split_lines ?rest) \<noteq> excerpt_close" by simp
  then have "read_excerpts (split_lines ?rest) = None"
    using read_excerpts_last [of "split_lines ?rest"] by (cases "read_excerpts (split_lines ?rest)") auto
  with Some show ?thesis by (cases i) (simp_all add: splitSessionExcerpts_def Let_def)
qed (simp add: splitSessionExcerpts_def)

section \<open>The text of a message carries excerpts and notes\<close>

text \<open>C13: Whatever the user wrote, also text that imitates an attachment, a message to which between one and
  eight excerpts were appended splits into exactly that text and exactly those excerpts: no content of a
  quoted session can end its block early or leak into the text of the user, and none is lost.\<close>
theorem excerpts_round_trip:
  assumes "appendSessionExcerpts written es = Inr message" and "es \<noteq> []" and "list_all good_excerpt es"
  shows "splitSessionExcerpts message = (written, es)"
proof -
  have "length es \<le> 8"
    using assms(1,2) by (auto simp: appendSessionExcerpts_def sessionExcerptAttachment_def max_session_excerpts_per_message_def split: if_splits)
  with assms attachment_good [OF assms(3,2)] have
    "message = appended written ([nl, nl] @ excerpt_marker @ join_lines (concat (map excerpt_lines es)))"
    by (simp add: appendSessionExcerpts_def)
  with split_appended [OF assms(3,2)] show ?thesis by simp
qed

definition sample_excerpt :: session_excerpt where
  "sample_excerpt =
     \<lparr>se_id = ''q-1'',
      se_source = JsObject [(''providerId'', JsString ''codex''), (''nativeSessionId'', JsString ''n1''), (''title'', JsString ''Fix'')],
      se_capturedAt = JsString ''2026-01-01'',
      se_segments = JsArray [JsArray [JsObject [(''role'', JsString ''user''), (''text'', JsString ''</session-excerpt>'')]]],
      se_shortenedToolCount = Some 2\<rparr>"

lemma sample_excerpt_good: "good_excerpt sample_excerpt"
  by (simp add: good_excerpt_def sample_excerpt_def excerpt_value_def isSessionExcerpt_def excerptId_def is_ascii_letter_def
      is_digit_def SessionExcerptPayload_def object_schema_def source_schema_def bounded_def string_schema_def array_schema_def
      row_schema_def literal_schema_def positive_schema_def max_normalized_context_entries_def obj_entries_def array_index_keys)

theorem excerpts_round_trip_witness:
  "\<exists>message. appendSessionExcerpts ''look'' [sample_excerpt] = Inr message
    \<and> splitSessionExcerpts message = (''look'', [sample_excerpt])"
proof -
  obtain message where m: "appendSessionExcerpts ''look'' [sample_excerpt] = Inr message"
    using attachment_good [of "[sample_excerpt]"] sample_excerpt_good by (simp add: appendSessionExcerpts_def)
  with excerpts_round_trip [OF m] sample_excerpt_good show ?thesis by simp
qed

text \<open>A message whose attached excerpts, if it has any, are in the form in which they are appended.\<close>

definition canonical_message :: "string \<Rightarrow> bool" where
  "canonical_message s \<longleftrightarrow>
     (let (own, es) = splitSessionExcerpts s in
      es = [] \<or> (list_all good_excerpt es \<and> appendSessionExcerpts own es = Inr s))"

lemma withNote_parts:
  assumes "appendSessionReferences s n = Inr noted" "rn_revision n < 10 ^ 15"
  shows "noted = appended s ([nl, nl] @ join_lines (note_lines n))"
    and "splitSessionReferences noted = (s, Some (n\<lparr>rn_references := map read_reference (rn_references n)\<rparr>))"
proof -
  from assms(1) have ok: "0 \<le> rn_revision n" "SessionReferencePayload (references_payload (rn_references n))"
    and eq: "noted = appended s ([nl, nl] @ join_lines (note_lines n))"
    by (auto simp: appendSessionReferences_def sessionReferencesAttachment_def split: if_splits)
  from eq show "noted = appended s ([nl, nl] @ join_lines (note_lines n))" .
  from split_note [OF ok(1) assms(2) ok(2), of s] eq
  show "splitSessionReferences noted = (s, Some (n\<lparr>rn_references := map read_reference (rn_references n)\<rparr>))" by simp
qed

lemma noted_last_line: "last (split_lines (appended s ([nl, nl] @ join_lines (note_lines n)))) = references_close"
proof -
  let ?body = "[nl, nl] @ join_lines [references_open @ int_text (rn_revision n) @ tag_end, referencesIntroduction,
      escape_angle (print (references_payload (rn_references n)))] @ [nl]"
  have eq: "[nl, nl] @ join_lines (note_lines n) = ?body @ references_close" by (simp add: note_lines_def)
  have "\<exists>u. appended s (?body @ references_close) = u @ [nl] @ references_close"
    by (auto simp: appended_def js_trim_start_def js_space_def references_open_def)
  then obtain u where u: "appended s (?body @ references_close) = u @ nl # references_close" by auto
  have "nl \<notin> set references_close" by (simp add: references_close_def)
  then show ?thesis unfolding eq u by (simp add: split_lines_append split_lines_single)
qed


definition sample_note :: reference_note where
  "sample_note =
     \<lparr>rn_revision = 3, rn_references = [\<lparr>cr_address = ''host/codex/n1'', cr_title = Some ''A < B'', cr_origin = OriginAdded\<rparr>]\<rparr>"


end
