(* ===== verification/Message_Outbox.thy ===== *)
theory Message_Outbox
  imports Replica Session_Context
begin

text \<open>
  Models \<open>agent-remote-web/src/replica/message-outbox.ts\<close> and \<open>store.ts\<close>: the messages a browser has
  sent and not yet seen in the conversation, the reconciliation that finds their echoes among the
  entries of the timeline, and \<open>AgentReplica\<close>, which runs it after every change.

  The digests of echoes are computed asynchronously by the browser and kept per item object; the content
  of that cache at the time of a call is the argument \<open>digests\<close>, a function on the entries of the
  timeline. \<open>prepareDigests\<close> returns whether all it needs are there and the entries it starts hashing.
  Removing a reference note may throw (\<open>withoutSessionReferenceNote\<close>), and so may a reconciliation.
\<close>

section \<open>Keys\<close>

text \<open>\<open>text.replace(/\r\n/g, '\n')\<close>\<close>

fun replace_crlf :: "string \<Rightarrow> string" where
  "replace_crlf [] = []"
| "replace_crlf [c] = [c]"
| "replace_crlf (c # d # s) =
     (if c = CHR 0x0D \<and> d = nl then nl # replace_crlf s else c # replace_crlf (d # s))"

definition normalize_text :: "string \<Rightarrow> string js_result" where
  "normalize_text s = map_sum id js_trim (withoutSessionReferenceNote (replace_crlf s))"

datatype key_part = KeyText string | KeyImage "string option" | KeyResource string

fun ordered_pairs :: "key_part list \<Rightarrow> (string \<times> string) list \<Rightarrow> (string \<times> string) list option" where
  "ordered_pairs [] key = Some key"
| "ordered_pairs (KeyResource l # parts) key = ordered_pairs parts (key @ [(''resource'', l)])"
| "ordered_pairs (KeyImage h # parts) key =
     (if \<not> truthy h then None else ordered_pairs parts (key @ [(''image'', the h)]))"
| "ordered_pairs (KeyText t # parts) key =
     (let s = replace_crlf t in
      if s = [] then ordered_pairs parts key
      else if map_option fst (at_last key) = Some ''text''
      then ordered_pairs parts (butlast key @ [(''text'', snd (last key) @ s)])
      else ordered_pairs parts (key @ [(''text'', s)]))"

definition pair_value :: "string \<times> string \<Rightarrow> js_value js_result" where
  "pair_value p =
     (if fst p = ''text''
      then map_sum id (\<lambda>s. JsArray [JsString (fst p), JsString s]) (withoutSessionReferenceNote (snd p))
      else Inr (JsArray [JsString (fst p), JsString (snd p)]))"

definition orderedKey :: "key_part list \<Rightarrow> string option js_result" where
  "orderedKey parts =
     (case ordered_pairs parts [] of
        None \<Rightarrow> Inr None
      | Some key \<Rightarrow>
          map_sum id (\<lambda>vs. Some (''content:'' @ print (JsArray vs))) (js_map pair_value key))"

definition is_text_part :: "message_part \<Rightarrow> bool" where
  "is_text_part p = (case p of PartText _ \<Rightarrow> True | _ \<Rightarrow> False)"

definition is_user_text :: "user_message_part \<Rightarrow> bool" where
  "is_user_text p = (case p of UserText _ \<Rightarrow> True | _ \<Rightarrow> False)"

definition rich_content :: "message_part list option \<Rightarrow> bool" where
  "rich_content c = (case c of None \<Rightarrow> False | Some ps \<Rightarrow> list_ex (\<lambda>p. \<not> is_text_part p) ps)"

definition rich_user_content :: "user_message_part list option \<Rightarrow> bool" where
  "rich_user_content c = (case c of None \<Rightarrow> False | Some ps \<Rightarrow> list_ex (\<lambda>p. \<not> is_user_text p) ps)"

definition text_key :: "string \<Rightarrow> string option js_result" where
  "text_key s = map_sum id (\<lambda>t. Some (''text:'' @ t)) (normalize_text s)"

definition outgoing_part :: "(string, string) jmap option \<Rightarrow> message_part \<Rightarrow> key_part" where
  "outgoing_part digests p =
     (case p of
        PartText t \<Rightarrow> KeyText t
      | PartResource i _ \<Rightarrow> KeyResource (''input-resource:'' @ i)
      | PartImage a _ \<Rightarrow> KeyImage (case digests of None \<Rightarrow> None | Some d \<Rightarrow> jget d a))"

definition outgoingKey :: "outgoing_message \<Rightarrow> string option js_result" where
  "outgoingKey m =
     (if \<not> rich_content (om_content m) then text_key (om_text m)
      else orderedKey (map (outgoing_part (om_imageDigests m)) (the (om_content m))))"

definition user_part :: "user_message_part \<Rightarrow> key_part" where
  "user_part p =
     (case p of
        UserText t \<Rightarrow> KeyText t
      | UserResource l _ _ _ _ _ \<Rightarrow> KeyResource l
      | UserImage _ _ h \<Rightarrow> KeyImage h)"

definition echoKey :: "string \<Rightarrow> user_message_part list option \<Rightarrow> string option js_result" where
  "echoKey s content =
     (if \<not> rich_user_content content then text_key s else orderedKey (map user_part (the content)))"

section \<open>Reconciliation\<close>

record digest_state =
  dg_text :: string
  dg_pending :: bool
  dg_value :: "string option"

type_synonym digest_cache = "entry \<Rightarrow> digest_state option"

definition user_item :: "entry \<Rightarrow> (string \<times> user_message_part list option) option" where
  "user_item e = (case it_body (en_item e) of UserMessage t c _ _ _ \<Rightarrow> Some (t, c) | _ \<Rightarrow> None)"

definition matches :: "digest_cache \<Rightarrow> outgoing_message \<Rightarrow> entry \<Rightarrow> bool js_result" where
  "matches digests m e =
     (case user_item e of
        None \<Rightarrow> Inr False
      | Some (t, content) \<Rightarrow>
          (case om_submittedTextSha256 m of
             Some h \<Rightarrow>
               Inr (\<not> rich_content (om_content m) \<and> \<not> rich_user_content content
                 \<and> (case digests e of None \<Rightarrow> False | Some d \<Rightarrow> dg_value d = Some h))
           | None \<Rightarrow>
               (case outgoingKey m of
                  Inl x \<Rightarrow> Inl x
                | Inr None \<Rightarrow> Inr False
                | Inr (Some key) \<Rightarrow> map_sum id (\<lambda>k. k = Some key) (echoKey t content))))"

definition own_message :: "replica_state \<Rightarrow> outgoing_message \<Rightarrow> bool" where
  "own_message s m \<longleftrightarrow> Some (om_agentId m) = map_option st_id (rp_agent s)"

definition outgoing :: "replica_state \<Rightarrow> outgoing_message list" where
  "outgoing s = (case rp_outgoingMessages s of None \<Rightarrow> [] | Some ms \<Rightarrow> ms)"

definition echo_seqs :: "outgoing_message \<Rightarrow> int list" where
  "echo_seqs m = (case om_consumedEchoSeqs m of None \<Rightarrow> [] | Some seqs \<Rightarrow> seqs)"

definition unseen :: "outgoing_message \<Rightarrow> entry \<Rightarrow> bool" where
  "unseen m e \<longleftrightarrow> om_afterSeq m < en_seqStart e \<and> en_seqStart e \<notin> set (echo_seqs m)"

definition hashed_candidates :: "replica_state \<Rightarrow> outgoing_message list" where
  "hashed_candidates s =
     filter (\<lambda>m. om_submittedTextSha256 m \<noteq> None \<and> own_message s m
         \<and> om_epoch m = tl_epoch (rp_timeline s) \<and> om_status m \<noteq> SendFailed
         \<and> \<not> rich_content (om_content m)) (outgoing s)"

definition hashed_echo :: "replica_state \<Rightarrow> entry \<Rightarrow> bool" where
  "hashed_echo s e \<longleftrightarrow>
     (case user_item e of
        None \<Rightarrow> False
      | Some (t, content) \<Rightarrow> \<not> rich_user_content content \<and> list_ex (\<lambda>m. unseen m e) (hashed_candidates s))"

definition missing_digest :: "digest_cache \<Rightarrow> entry \<Rightarrow> bool" where
  "missing_digest digests e =
     (case digests e of
        None \<Rightarrow> True
      | Some d \<Rightarrow> map_option fst (user_item e) \<noteq> Some (dg_text d))"

definition prepareDigests :: "digest_cache \<Rightarrow> replica_state \<Rightarrow> bool \<times> entry list" where
  "prepareDigests digests s =
     (let needed = filter (hashed_echo s) (tl_entries (rp_timeline s)) in
      (list_all (\<lambda>e. \<not> missing_digest digests e \<and> \<not> (case digests e of None \<Rightarrow> True | Some d \<Rightarrow> dg_pending d)) needed,
       filter (missing_digest digests) needed))"

text \<open>\<open>entries.find(P)\<close> where \<open>P\<close> may throw.\<close>

fun find_echo :: "digest_cache \<Rightarrow> int list \<Rightarrow> outgoing_message \<Rightarrow> entry list \<Rightarrow> entry option js_result" where
  "find_echo digests consumed m [] = Inr None"
| "find_echo digests consumed m (e # es) =
     (if unseen m e \<and> en_seqStart e \<notin> set consumed then
        (case matches digests m e of
           Inl x \<Rightarrow> Inl x
         | Inr True \<Rightarrow> Inr (Some e)
         | Inr False \<Rightarrow> find_echo digests consumed m es)
      else find_echo digests consumed m es)"

definition unconfirmed_error :: string where
  "unconfirmed_error = ''Conversation history changed before delivery could be confirmed.''"

text \<open>The loop over the messages: the sequence numbers consumed, whether anything changed, what remains.\<close>

fun settle_messages ::
    "digest_cache \<Rightarrow> replica_state \<Rightarrow> outgoing_message list \<Rightarrow> int list \<times> bool \<times> outgoing_message list
      \<Rightarrow> (int list \<times> bool \<times> outgoing_message list) js_result" where
  "settle_messages digests s [] acc = Inr acc"
| "settle_messages digests s (m # ms) (consumed, changed, remaining) =
     (if \<not> own_message s m \<or> om_status m = SendFailed
      then settle_messages digests s ms (consumed, changed, remaining @ [m])
      else if om_epoch m \<noteq> tl_epoch (rp_timeline s) then
        (if tl_initialized (rp_timeline s) \<and> om_status m \<noteq> Unconfirmed
         then settle_messages digests s ms
           (consumed, True, remaining @ [m\<lparr>om_status := Unconfirmed, om_error := Some unconfirmed_error\<rparr>])
         else settle_messages digests s ms (consumed, changed, remaining @ [m]))
      else
        (case find_echo digests consumed m (tl_entries (rp_timeline s)) of
           Inl x \<Rightarrow> Inl x
         | Inr (Some e) \<Rightarrow> settle_messages digests s ms (consumed @ [en_seqStart e], True, remaining)
         | Inr None \<Rightarrow> settle_messages digests s ms (consumed, changed, remaining @ [m])))"

fun last_consumed_match :: "digest_cache \<Rightarrow> int list \<Rightarrow> outgoing_message \<Rightarrow> entry list \<Rightarrow> int \<Rightarrow> int js_result" where
  "last_consumed_match digests consumed m [] seq = Inr seq"
| "last_consumed_match digests consumed m (e # es) seq =
     (if en_seqStart e \<in> set consumed then
        (case matches digests m e of
           Inl x \<Rightarrow> Inl x
         | Inr b \<Rightarrow> last_consumed_match digests consumed m es (if b then max seq (en_seqStart e) else seq))
      else last_consumed_match digests consumed m es seq)"

definition retain_consumed :: "digest_cache \<Rightarrow> replica_state \<Rightarrow> int list \<Rightarrow> outgoing_message \<Rightarrow> outgoing_message js_result" where
  "retain_consumed digests s consumed m =
     (if \<not> own_message s m \<or> om_status m = SendFailed \<or> om_epoch m \<noteq> tl_epoch (rp_timeline s) \<or> consumed = []
      then Inr m
      else
        (case last_consumed_match digests consumed m (tl_entries (rp_timeline s)) (om_afterSeq m) of
           Inl x \<Rightarrow> Inl x
         | Inr after_seq \<Rightarrow>
             Inr (m\<lparr>om_afterSeq := after_seq,
                    om_consumedEchoSeqs := Some (filter (\<lambda>q. after_seq < q) (js_unique (echo_seqs m @ consumed)))\<rparr>)))"

definition reconcile :: "digest_cache \<Rightarrow> replica_state \<Rightarrow> (replica_state \<times> entry list) js_result" where
  "reconcile digests s =
     (if outgoing s = [] then Inr (s, [])
      else
        let (ready, started) = prepareDigests digests s in
        if \<not> ready then Inr (s, started)
        else
          (case settle_messages digests s (outgoing s) ([], False, []) of
             Inl x \<Rightarrow> Inl x
           | Inr (consumed, changed, remaining) \<Rightarrow>
               (case js_map (retain_consumed digests s consumed) remaining of
                  Inl x \<Rightarrow> Inl x
                | Inr pending \<Rightarrow>
                    Inr (if changed then s\<lparr>rp_outgoingMessages := Some pending\<rparr> else s, started))))"

section \<open>The store of a session\<close>

text \<open>
  \<open>AgentReplica\<close>: its state, how often its listeners were called and what its history listeners were
  told. Each operation computes the next state; \<open>replace\<close> ignores a reducer that returned its argument
  (\<open>same\<close>), and otherwise reconciles the outbox and calls the listeners. A reconciliation that throws
  leaves the replica as it was.
\<close>

record agent_replica =
  ar_state :: replica_state
  ar_notified :: nat
  ar_history :: "(string \<times> direction) list"

definition new_replica :: agent_replica where
  "new_replica = \<lparr>ar_state = createReplicaState, ar_notified = 0, ar_history = []\<rparr>"

definition replace :: "digest_cache \<Rightarrow> bool \<Rightarrow> replica_state \<Rightarrow> agent_replica \<Rightarrow> agent_replica js_result" where
  "replace digests same new r =
     (if same \<and> new = ar_state r then Inr r
      else map_sum id (\<lambda>(s, _). r\<lparr>ar_state := s, ar_notified := ar_notified r + 1\<rparr>) (reconcile digests new))"

definition create_message ::
    "replica_state \<Rightarrow> string \<Rightarrow> string \<Rightarrow> string \<Rightarrow> delivery option \<Rightarrow> string option
      \<Rightarrow> (message_part list option \<times> (string, string) jmap option) option \<Rightarrow> outgoing_message" where
  "create_message s uuid agentId t delivery operationId rich =
     \<lparr>om_operationId = operationId, om_retryRequiresNewOperation = None, om_id = ''outgoing-'' @ uuid,
      om_agentId = agentId, om_text = t,
      om_content = (case rich of None \<Rightarrow> None | Some (c, _) \<Rightarrow> c),
      om_imageDigests = (case rich of None \<Rightarrow> None | Some (_, d) \<Rightarrow> d),
      om_submittedTextSha256 = None, om_consumedEchoSeqs = None, om_delivery = delivery, om_status = Sending,
      om_error = None, om_epoch = tl_epoch (rp_timeline s), om_afterSeq = tl_nextSeq (rp_timeline s) - 1\<rparr>"

definition update_outgoing :: "(outgoing_message \<Rightarrow> outgoing_message) \<Rightarrow> replica_state \<Rightarrow> replica_state" where
  "update_outgoing f s = s\<lparr>rp_outgoingMessages := map_option (map f) (rp_outgoingMessages s)\<rparr>"

definition restored_error :: string where
  "restored_error = ''Delivery was not confirmed before this page closed. Check the conversation before retrying.''"

definition restored_message :: "outgoing_message \<Rightarrow> outgoing_message" where
  "restored_message m =
     m\<lparr>om_status := (if om_status m = SendFailed then SendFailed else Unconfirmed),
       om_error := Some (case om_error m of None \<Rightarrow> restored_error | Some e \<Rightarrow> e)\<rparr>"

definition retried_message :: "replica_state \<Rightarrow> string \<Rightarrow> outgoing_message \<Rightarrow> outgoing_message" where
  "retried_message s operationId m =
     (let same = (om_operationId m = Some operationId) in
      m\<lparr>om_operationId := Some operationId, om_retryRequiresNewOperation := Some False, om_status := Sending,
        om_error := None,
        om_submittedTextSha256 := (if same then om_submittedTextSha256 m else None),
        om_consumedEchoSeqs := (if same then om_consumedEchoSeqs m else None),
        om_epoch := tl_epoch (rp_timeline s),
        om_afterSeq := (if same \<and> om_epoch m = tl_epoch (rp_timeline s) \<and> om_status m = Unconfirmed
                        then om_afterSeq m else tl_nextSeq (rp_timeline s) - 1)\<rparr>)"

definition acknowledged_message :: "string option \<Rightarrow> outgoing_message \<Rightarrow> outgoing_message" where
  "acknowledged_message sha m =
     m\<lparr>om_submittedTextSha256 := or_else sha (om_submittedTextSha256 m),
       om_status := (if om_status m = Unconfirmed then Unconfirmed else AwaitingEcho),
       om_error := (if om_status m = Unconfirmed then om_error m else None)\<rparr>"

definition updated_message :: "outgoing_status \<Rightarrow> string option \<Rightarrow> bool option \<Rightarrow> outgoing_message \<Rightarrow> outgoing_message" where
  "updated_message status err retry m =
     m\<lparr>om_status := status, om_error := err,
       om_retryRequiresNewOperation := or_else retry (om_retryRequiresNewOperation m)\<rparr>"

definition with_id :: "string \<Rightarrow> (outgoing_message \<Rightarrow> outgoing_message) \<Rightarrow> outgoing_message \<Rightarrow> outgoing_message" where
  "with_id i f m = (if om_id m = i then f m else m)"

definition begin_state :: "outgoing_message \<Rightarrow> replica_state \<Rightarrow> replica_state" where
  "begin_state m s = s\<lparr>rp_outgoingMessages := Some (outgoing s @ [m])\<rparr>"

definition delete_state :: "string \<Rightarrow> replica_state \<Rightarrow> replica_state" where
  "delete_state i s = s\<lparr>rp_outgoingMessages := map_option (filter (\<lambda>m. om_id m \<noteq> i)) (rp_outgoingMessages s)\<rparr>"

definition acknowledge_state :: "string \<Rightarrow> bool \<Rightarrow> string option \<Rightarrow> replica_state \<Rightarrow> replica_state" where
  "acknowledge_state i handled sha s =
     (if handled then delete_state i s
      else update_outgoing (with_id i (\<lambda>m. if om_status m = SendFailed then m else acknowledged_message sha m)) s)"

text \<open>\<open>updateMessage\<close> does nothing for an unknown message, and does not let a send await an echo again after it failed.\<close>

definition update_ignored :: "string \<Rightarrow> outgoing_status \<Rightarrow> replica_state \<Rightarrow> bool" where
  "update_ignored i status s \<longleftrightarrow>
     (case find (\<lambda>m. om_id m = i) (outgoing s) of
        None \<Rightarrow> True
      | Some m \<Rightarrow> status = AwaitingEcho \<and> om_status m \<in> {SendFailed, Unconfirmed})"

section \<open>Operations\<close>

datatype replica_op =
    SetSessionControl "session_control_view option"
  | BeginMessage string string string "delivery option" "string option"
      "(message_part list option \<times> (string, string) jmap option) option"
  | RestoreMessages "outgoing_message list"
  | RetryMessage string string
  | DeleteMessage string
  | AcknowledgeMessage string bool "string option"
  | UpdateMessage string outgoing_status "string option" "bool option"
  | ApplySnapshot session_state "nat option"
  | ApplyHistory history_page bool
  | ApplyStream stream_message
  | ApplyRequested request
  | ApplyResolved string
  | ApplyInvalidated string
  | ApplyResourceResponse string resource_state
  | ApplyResourceUpdate string resource_state
  | ReplaceBinding binding_replacement
  | ReplaceTimeline string
  | ReportDiagnostic string string bool

fun next_state :: "replica_op \<Rightarrow> replica_state \<Rightarrow> replica_state" where
  "next_state (SetSessionControl c) s = s\<lparr>rp_sessionControl := c\<rparr>"
| "next_state (BeginMessage uuid a t d i rich) s = begin_state (create_message s uuid a t d i rich) s"
| "next_state (RestoreMessages ms) s = s\<lparr>rp_outgoingMessages := Some (map restored_message ms)\<rparr>"
| "next_state (RetryMessage i operation) s = update_outgoing (with_id i (retried_message s operation)) s"
| "next_state (DeleteMessage i) s = delete_state i s"
| "next_state (AcknowledgeMessage i handled sha) s = acknowledge_state i handled sha s"
| "next_state (UpdateMessage i status err retry) s = update_outgoing (with_id i (updated_message status err retry)) s"
| "next_state (ApplySnapshot a baseline) s = applyAgentSnapshot s a baseline"
| "next_state (ApplyHistory p preserve) s = red_state (applyHistoryPage s p preserve)"
| "next_state (ApplyStream m) s = red_state (reduceTimelineEvent s m)"
| "next_state (ApplyRequested rq) s = applyInteractionRequested s rq"
| "next_state (ApplyResolved i) s = applyInteractionResolved s i"
| "next_state (ApplyInvalidated i) s = applyInteractionInvalidated s i"
| "next_state (ApplyResourceResponse i st) s = applyResourceResponse s i st"
| "next_state (ApplyResourceUpdate i st) s = applyResourceUpdate s i st"
| "next_state (ReplaceBinding b) s = applyTimelineResourceBindingReplacement s b"
| "next_state (ReplaceTimeline epoch) s = applyTimelineReplacement s epoch"
| "next_state (ReportDiagnostic code message recoverable) s =
     s\<lparr>rp_diagnostics := rp_diagnostics s @ [\<lparr>di_code = code, di_message = message, di_recoverable = recoverable\<rparr>]\<rparr>"

text \<open>The operations that return before \<open>replace\<close>.\<close>

fun ignored :: "replica_op \<Rightarrow> replica_state \<Rightarrow> bool" where
  "ignored (RestoreMessages _) s = (outgoing s \<noteq> [])"
| "ignored (UpdateMessage i status _ _) s = update_ignored i status s"
| "ignored _ _ = False"

fun history_notice :: "replica_op \<Rightarrow> replica_state \<Rightarrow> (string \<times> direction) list" where
  "history_notice (ApplyHistory p preserve) s =
     (case applyHistoryPage s p preserve of
        Applied _ \<Rightarrow> [(hp_epoch p, hp_direction p)]
      | DuplicateLive _ \<Rightarrow> [(hp_epoch p, hp_direction p)]
      | _ \<Rightarrow> [])"
| "history_notice _ _ = []"

definition perform :: "digest_cache \<Rightarrow> bool \<Rightarrow> replica_op \<Rightarrow> agent_replica \<Rightarrow> agent_replica js_result" where
  "perform digests same oper r =
     (if ignored oper (ar_state r) then Inr r
      else map_sum id (\<lambda>r'. r'\<lparr>ar_history := ar_history r' @ history_notice oper (ar_state r)\<rparr>)
             (replace digests same (next_state oper (ar_state r)) r))"

text \<open>A digest that has become available: \<open>onDigest\<close>.\<close>

definition digest_ready :: "digest_cache \<Rightarrow> agent_replica \<Rightarrow> agent_replica js_result" where
  "digest_ready digests r =
     (case reconcile digests (ar_state r) of
        Inl x \<Rightarrow> Inl x
      | Inr (s, _) \<Rightarrow> replace digests True s r)"

section \<open>Keys of the rendered entries\<close>

definition itemIdentity :: "item \<Rightarrow> string" where
  "itemIdentity i =
     (case it_body i of
        AgentCommunication m _ _ _ \<Rightarrow> m
      | UserMessage _ _ m c _ \<Rightarrow> (case or_else m c of None \<Rightarrow> ''user'' | Some k \<Rightarrow> k)
      | AssistantMessage _ m \<Rightarrow> (case m of None \<Rightarrow> ''assistant'' | Some k \<Rightarrow> k)
      | ToolCall c _ _ _ _ \<Rightarrow> c
      | Interaction rq _ \<Rightarrow> rq_requestId rq
      | Reasoning _ \<Rightarrow> ''reasoning''
      | Todo _ \<Rightarrow> ''todo''
      | ErrorItem _ \<Rightarrow> ''error''
      | Compaction _ _ _ \<Rightarrow> ''compaction'')"

definition timelineEntryKey :: "string option \<Rightarrow> entry \<Rightarrow> string" where
  "timelineEntryKey epoch e =
     (case epoch of None \<Rightarrow> ''uninitialized'' | Some x \<Rightarrow> x) @ '':'' @ en_providerId e @ '':''
       @ int_text (en_seqStart e) @ '':'' @ itemIdentity (en_item e)"

end
