(* ===== verification/Message_Outbox_Properties.thy ===== *)
theory Message_Outbox_Properties
  imports Message_Outbox Session_Properties
begin

text \<open>
  A reconciliation pairs each message it removes with an echo of its own, changes nothing the second
  time, and is the only way besides an explicit deletion by which a message leaves the outbox.
\<close>

section \<open>The loop over the messages\<close>

lemma find_echo_Some:
  "find_echo digests consumed m es = Inr (Some e) \<Longrightarrow>
   e \<in> set es \<and> unseen m e \<and> en_seqStart e \<notin> set consumed \<and> matches digests m e = Inr True"
  by (induction es) (auto split: if_splits sum.splits bool.splits)

lemma find_echo_None:
  "find_echo digests consumed m es = Inr None \<longleftrightarrow>
   (\<forall>e \<in> set es. unseen m e \<longrightarrow> en_seqStart e \<notin> set consumed \<longrightarrow> matches digests m e = Inr False)"
  by (induction es) (auto split: if_splits sum.splits bool.splits)

text \<open>A message of this session, not failed, from the present epoch: one that an echo may settle.\<close>

definition settling :: "replica_state \<Rightarrow> outgoing_message \<Rightarrow> bool" where
  "settling s m \<longleftrightarrow> own_message s m \<and> om_status m \<noteq> SendFailed \<and> om_epoch m = tl_epoch (rp_timeline s)"

definition lapsed :: "replica_state \<Rightarrow> outgoing_message \<Rightarrow> bool" where
  "lapsed s m \<longleftrightarrow> own_message s m \<and> om_status m \<noteq> SendFailed \<and> om_epoch m \<noteq> tl_epoch (rp_timeline s)
     \<and> tl_initialized (rp_timeline s) \<and> om_status m \<noteq> Unconfirmed"

definition lapse :: "replica_state \<Rightarrow> outgoing_message \<Rightarrow> outgoing_message" where
  "lapse s m = (if lapsed s m then m\<lparr>om_status := Unconfirmed, om_error := Some unconfirmed_error\<rparr> else m)"

lemma settle_messages_step:
  "settle_messages digests s (m # ms) (consumed, changed, remaining) =
     (if settling s m then
        (case find_echo digests consumed m (tl_entries (rp_timeline s)) of
           Inl x \<Rightarrow> Inl x
         | Inr (Some e) \<Rightarrow> settle_messages digests s ms (consumed @ [en_seqStart e], True, remaining)
         | Inr None \<Rightarrow> settle_messages digests s ms (consumed, changed, remaining @ [m]))
      else settle_messages digests s ms (consumed, changed \<or> lapsed s m, remaining @ [lapse s m]))"
  by (auto simp: settling_def lapsed_def lapse_def)

declare settle_messages.simps(2) [simp del]

text \<open>The messages that an echo settled, each with its echo.\<close>

abbreviation echo_seq :: "outgoing_message \<times> entry \<Rightarrow> int" where
  "echo_seq p \<equiv> en_seqStart (snd p)"

abbreviation settled_id :: "outgoing_message \<times> entry \<Rightarrow> string" where
  "settled_id p \<equiv> om_id (fst p)"

definition settled_by :: "digest_cache \<Rightarrow> replica_state \<Rightarrow> (outgoing_message \<times> entry) list \<Rightarrow> bool" where
  "settled_by digests s ps \<longleftrightarrow>
     distinct (map echo_seq ps)
     \<and> (\<forall>p \<in> set ps. settling s (fst p) \<and> snd p \<in> set (tl_entries (rp_timeline s))
          \<and> unseen (fst p) (snd p) \<and> matches digests (fst p) (snd p) = Inr True)"

text \<open>What the loop leaves: lapsed, foreign or failed messages, and those without an echo of their own.\<close>

definition left_over :: "digest_cache \<Rightarrow> replica_state \<Rightarrow> int list \<Rightarrow> outgoing_message \<Rightarrow> bool" where
  "left_over digests s consumed m \<longleftrightarrow> \<not> lapsed s m \<and>
     (settling s m \<longrightarrow> (\<forall>e \<in> set (tl_entries (rp_timeline s)).
        unseen m e \<longrightarrow> en_seqStart e \<notin> set consumed \<longrightarrow> matches digests m e = Inr False))"

lemma lapse_idem: "\<not> lapsed s (lapse s m)" "\<not> settling s m \<Longrightarrow> \<not> settling s (lapse s m)"
  by (auto simp: lapse_def lapsed_def settling_def own_message_def)

lemma lapse_id [simp]: "om_id (lapse s m) = om_id m"
  by (simp add: lapse_def)

lemma left_over_mono: "left_over digests s consumed m \<Longrightarrow> set consumed \<subseteq> set consumed' \<Longrightarrow> left_over digests s consumed' m"
  by (auto simp: left_over_def)

lemma settle_messages_result:
  assumes "settle_messages digests s ms (consumed, changed, remaining) = Inr (consumed', changed', remaining')"
    and "\<forall>m \<in> set remaining. left_over digests s consumed m"
  shows "\<exists>ps. settled_by digests s ps \<and> consumed' = consumed @ map echo_seq ps
      \<and> set (map echo_seq ps) \<inter> set consumed = {}
      \<and> image_mset om_id (mset remaining') + image_mset settled_id (mset ps) = image_mset om_id (mset (remaining @ ms))
      \<and> (\<forall>p \<in> set ps. fst p \<in> set ms)
      \<and> (\<forall>m \<in> set remaining'. left_over digests s consumed' m)
      \<and> (\<not> changed' \<longrightarrow> ps = [] \<and> \<not> changed \<and> remaining' = remaining @ ms)"
  using assms
proof (induction ms arbitrary: consumed changed remaining)
  case Nil
  then show ?case by (intro exI [of _ "[]"]) (simp add: settled_by_def)
next
  case (Cons m ms)
  show ?case
  proof (cases "settling s m")
    case False
    with Cons.prems have run: "settle_messages digests s ms (consumed, changed \<or> lapsed s m, remaining @ [lapse s m]) = Inr (consumed', changed', remaining')"
      by (simp add: settle_messages_step)
    have "\<forall>m' \<in> set (remaining @ [lapse s m]). left_over digests s consumed m'"
      using Cons.prems(2) lapse_idem [of s m] False by (auto simp: left_over_def)
    from Cons.IH [OF run this] obtain ps where ps: "settled_by digests s ps" "consumed' = consumed @ map echo_seq ps"
      "set (map echo_seq ps) \<inter> set consumed = {}"
      "image_mset om_id (mset remaining') + image_mset settled_id (mset ps) = image_mset om_id (mset ((remaining @ [lapse s m]) @ ms))"
      "\<forall>p \<in> set ps. fst p \<in> set ms" "\<forall>m \<in> set remaining'. left_over digests s consumed' m"
      "\<not> changed' \<longrightarrow> ps = [] \<and> \<not> (changed \<or> lapsed s m) \<and> remaining' = (remaining @ [lapse s m]) @ ms"
      by blast
    have "image_mset om_id (mset ((remaining @ [lapse s m]) @ ms)) = image_mset om_id (mset (remaining @ m # ms))" by simp
    moreover have "\<not> changed' \<longrightarrow> ps = [] \<and> \<not> changed \<and> remaining' = remaining @ m # ms"
      using ps(7) by (auto simp: lapse_def)
    ultimately show ?thesis using ps(1-6) by (intro exI [of _ ps]) auto
  next
    case own: True
    show ?thesis
    proof (cases "find_echo digests consumed m (tl_entries (rp_timeline s))")
      case (Inl x)
      with Cons.prems(1) own show ?thesis by (simp add: settle_messages_step)
    next
      case (Inr found)
      show ?thesis
      proof (cases found)
        case None
        with Inr Cons.prems(1) own have run: "settle_messages digests s ms (consumed, changed, remaining @ [m]) = Inr (consumed', changed', remaining')"
          by (simp add: settle_messages_step)
        have "\<not> lapsed s m" using own by (simp add: settling_def lapsed_def)
        then have "\<forall>m' \<in> set (remaining @ [m]). left_over digests s consumed m'"
          using Cons.prems(2) Inr None find_echo_None [of digests consumed m] by (auto simp: left_over_def)
        from Cons.IH [OF run this] show ?thesis by simp (metis append_Cons append_Nil append_assoc list.set_intros(2))
      next
        case (Some e)
        with Inr Cons.prems(1) own have run: "settle_messages digests s ms (consumed @ [en_seqStart e], True, remaining) = Inr (consumed', changed', remaining')"
          by (simp add: settle_messages_step)
        note e = find_echo_Some [OF Inr [unfolded Some]]
        have "\<forall>m' \<in> set remaining. left_over digests s (consumed @ [en_seqStart e]) m'"
          using Cons.prems(2) left_over_mono [of digests s consumed _ "consumed @ [en_seqStart e]"] by auto
        from Cons.IH [OF run this] obtain ps where ps: "settled_by digests s ps"
          "consumed' = (consumed @ [en_seqStart e]) @ map echo_seq ps"
          "set (map echo_seq ps) \<inter> set (consumed @ [en_seqStart e]) = {}"
          "image_mset om_id (mset remaining') + image_mset settled_id (mset ps) = image_mset om_id (mset (remaining @ ms))"
          "\<forall>p \<in> set ps. fst p \<in> set ms" "\<forall>m \<in> set remaining'. left_over digests s consumed' m" "changed'"
          by blast
        have "settled_by digests s ((m, e) # ps)" using ps(1,3) e own by (auto simp: settled_by_def)
        with ps e show ?thesis by (intro exI [of _ "(m, e) # ps"]) auto
      qed
    qed
  qed
qed

lemma settle_messages_settling:
  "settle_messages digests s ms (consumed, changed, remaining) = Inr (consumed', changed', remaining') \<Longrightarrow>
   m \<in> set remaining' \<Longrightarrow> settling s m \<Longrightarrow> m \<in> set remaining \<union> set ms"
proof (induction ms arbitrary: consumed changed remaining)
  case (Cons x ms)
  show ?case
  proof (cases "settling s x")
    case False
    with Cons.prems have "m \<in> set (remaining @ [lapse s x]) \<union> set ms"
      by (intro Cons.IH) (auto simp: settle_messages_step)
    with lapse_idem(2) [OF False] Cons.prems(3) show ?thesis by auto
  next
    case True
    show ?thesis
    proof (cases "find_echo digests consumed x (tl_entries (rp_timeline s))")
      case (Inr found)
      with Cons.prems True Cons.IH [of consumed changed "remaining @ [x]"] Cons.IH [of "consumed @ _" True remaining] show ?thesis
        by (cases found) (auto simp: settle_messages_step)
    qed (use Cons.prems True in \<open>simp add: settle_messages_step\<close>)
  qed
qed simp

section \<open>What is retained of the echoes of others\<close>

lemma outgoingKey_seqs [simp]: "outgoingKey (m\<lparr>om_afterSeq := a, om_consumedEchoSeqs := c\<rparr>) = outgoingKey m"
  by (simp add: outgoingKey_def)

lemma matches_seqs [simp]:
  "matches digests (m\<lparr>om_afterSeq := a, om_consumedEchoSeqs := c\<rparr>) e = matches digests m e"
  by (simp add: matches_def cong: option.case_cong)

lemma settling_seqs [simp]:
  "settling s (m\<lparr>om_afterSeq := a, om_consumedEchoSeqs := c\<rparr>) = settling s m"
  "lapsed s (m\<lparr>om_afterSeq := a, om_consumedEchoSeqs := c\<rparr>) = lapsed s m"
  by (simp_all add: settling_def lapsed_def own_message_def)

lemma last_consumed_match_ge: "last_consumed_match digests consumed m es q = Inr r \<Longrightarrow> q \<le> r"
  by (induction es arbitrary: q) (force split: if_splits sum.splits)+

lemma retain_consumed_cases:
  assumes "retain_consumed digests s consumed m = Inr m'"
  obtains (kept) "m' = m" "\<not> settling s m \<or> consumed = []"
    | (moved) a where "settling s m" "om_afterSeq m \<le> a"
        "m' = m\<lparr>om_afterSeq := a, om_consumedEchoSeqs := Some (filter (\<lambda>q. a < q) (js_unique (echo_seqs m @ consumed)))\<rparr>"
proof (cases "settling s m \<and> consumed \<noteq> []")
  case True
  with assms obtain a where a: "last_consumed_match digests consumed m (tl_entries (rp_timeline s)) (om_afterSeq m) = Inr a"
    "m' = m\<lparr>om_afterSeq := a, om_consumedEchoSeqs := Some (filter (\<lambda>q. a < q) (js_unique (echo_seqs m @ consumed)))\<rparr>"
    by (auto simp: retain_consumed_def settling_def split: sum.splits)
  with True last_consumed_match_ge [OF a(1)] moved show thesis by blast
next
  case False
  with assms kept show thesis by (auto simp: retain_consumed_def settling_def split: if_splits)
qed

lemma retain_consumed_fields:
  assumes "retain_consumed digests s consumed m = Inr m'"
  shows "om_id m' = om_id m \<and> om_submittedTextSha256 m' = om_submittedTextSha256 m \<and> om_agentId m' = om_agentId m
    \<and> om_epoch m' = om_epoch m \<and> om_status m' = om_status m \<and> om_content m' = om_content m"
  using assms by (rule retain_consumed_cases) simp_all

lemma retain_consumed_unseen:
  assumes "retain_consumed digests s consumed m = Inr m'" "unseen m' e"
  shows "unseen m e \<and> (settling s m \<longrightarrow> en_seqStart e \<notin> set consumed)"
  using assms(1)
proof (rule retain_consumed_cases)
  fix a
  assume "om_afterSeq m \<le> a"
    "m' = m\<lparr>om_afterSeq := a, om_consumedEchoSeqs := Some (filter (\<lambda>q. a < q) (js_unique (echo_seqs m @ consumed)))\<rparr>"
  with assms(2) show ?thesis by (auto simp: unseen_def echo_seqs_def)
qed (use assms(2) in auto)

lemma retain_consumed_left_over:
  assumes "retain_consumed digests s consumed m = Inr m'" "left_over digests s consumed m"
  shows "left_over digests s [] m'"
  using assms(1)
proof (rule retain_consumed_cases)
  fix a
  assume m': "m' = m\<lparr>om_afterSeq := a, om_consumedEchoSeqs := Some (filter (\<lambda>q. a < q) (js_unique (echo_seqs m @ consumed)))\<rparr>"
  have "matches digests m' e = Inr False" if "settling s m'" "e \<in> set (tl_entries (rp_timeline s))" "unseen m' e" for e
    using retain_consumed_unseen [OF assms(1) that(3)] assms(2) that(1,2) m' by (simp add: left_over_def)
  moreover have "\<not> lapsed s m'" using assms(2) m' by (simp add: left_over_def)
  ultimately show ?thesis by (simp add: left_over_def)
qed (use assms(2) in \<open>auto simp: left_over_def\<close>)

lemma settle_nothing:
  "\<forall>m \<in> set ms. left_over digests s [] m \<Longrightarrow>
   settle_messages digests s ms ([], changed, remaining) = Inr ([], changed, remaining @ ms)"
proof (induction ms arbitrary: remaining)
  case (Cons m ms)
  then have m: "left_over digests s [] m" by simp
  show ?case
  proof (cases "settling s m")
    case True
    with m have "find_echo digests [] m (tl_entries (rp_timeline s)) = Inr None"
      by (simp add: find_echo_None left_over_def)
    with True Cons show ?thesis by (simp add: settle_messages_step)
  next
    case False
    with m Cons show ?thesis by (simp add: settle_messages_step left_over_def lapse_def)
  qed
qed simp

lemma left_over_state: "left_over digests (s\<lparr>rp_outgoingMessages := x\<rparr>) c m = left_over digests s c m"
  by (simp add: left_over_def lapsed_def settling_def own_message_def)

lemma retain_nothing: "js_map (retain_consumed digests s []) ms = Inr ms"
  by (induction ms) (simp_all add: retain_consumed_def)

section \<open>A reconciliation\<close>

lemma list_all2_member:
  assumes "list_all2 P xs ys" "y \<in> set ys"
  obtains x where "x \<in> set xs" "P x y"
  using assms by (auto simp: list_all2_conv_all_nth in_set_conv_nth) (metis nth_mem)

text \<open>How a reconciliation that finds its digests ready ends.\<close>

lemma reconcile_cases:
  assumes "reconcile digests s = Inr (s', started)"
  obtains (unchanged) "s' = s"
  | (settled) consumed remaining pending where "fst (prepareDigests digests s)"
      "settle_messages digests s (outgoing s) ([], False, []) = Inr (consumed, True, remaining)"
      "list_all2 (\<lambda>m m'. retain_consumed digests s consumed m = Inr m') remaining pending"
      "s' = s\<lparr>rp_outgoingMessages := Some pending\<rparr>"
proof (cases "outgoing s = [] \<or> \<not> fst (prepareDigests digests s)")
  case True
  with assms unchanged show thesis by (cases "outgoing s = []") (auto simp: reconcile_def split: prod.splits)
next
  case False
  then have run: "(case settle_messages digests s (outgoing s) ([], False, []) of
      Inl x \<Rightarrow> Inl x
    | Inr (consumed, changed, remaining) \<Rightarrow>
        (case js_map (retain_consumed digests s consumed) remaining of
           Inl x \<Rightarrow> Inl x
         | Inr pending \<Rightarrow>
             Inr (if changed then s\<lparr>rp_outgoingMessages := Some pending\<rparr> else s, snd (prepareDigests digests s)))) = Inr (s', started)"
    using assms by (simp add: reconcile_def split_beta Let_def)
  obtain consumed changed remaining where
    settle: "settle_messages digests s (outgoing s) ([], False, []) = Inr (consumed, changed, remaining)"
    using run by (auto split: sum.splits)
  obtain pending where pending: "js_map (retain_consumed digests s consumed) remaining = Inr pending"
    using run settle by (auto split: sum.splits)
  show thesis
  proof (cases changed)
    case True
    with run settle pending False settled [of consumed remaining pending] show thesis by (simp add: js_map_Inr)
  next
    case False
    with run settle pending unchanged show thesis by simp
  qed
qed

lemma hashed_echo_shrinks:
  assumes "list_all2 (\<lambda>m m'. retain_consumed digests s consumed m = Inr m') remaining pending"
    and "set (filter (settling s) remaining) \<subseteq> set (outgoing s)" "hashed_echo (s\<lparr>rp_outgoingMessages := Some pending\<rparr>) e"
  shows "hashed_echo s e"
proof -
  obtain t c m' where c: "user_item e = Some (t, c)" "\<not> rich_user_content c"
    and m': "m' \<in> set (hashed_candidates (s\<lparr>rp_outgoingMessages := Some pending\<rparr>))" "unseen m' e"
    using assms(3) by (auto simp: hashed_echo_def list_ex_iff split: option.splits)
  from m'(1) have pend: "m' \<in> set pending" and own: "om_submittedTextSha256 m' \<noteq> None" "own_message s m'"
    "om_epoch m' = tl_epoch (rp_timeline s)" "om_status m' \<noteq> SendFailed" "\<not> rich_content (om_content m')"
    by (auto simp: hashed_candidates_def outgoing_def own_message_def)
  from assms(1) pend obtain m where m: "m \<in> set remaining" "retain_consumed digests s consumed m = Inr m'"
    by (rule list_all2_member)
  note r = retain_consumed_fields [OF m(2)]
  have "settling s m" using own r by (simp add: settling_def own_message_def)
  with m assms(2) have "m \<in> set (outgoing s)" by auto
  with own r have "m \<in> set (hashed_candidates s)" by (simp add: hashed_candidates_def own_message_def)
  with c retain_consumed_unseen [OF m(2) m'(2)] show ?thesis by (auto simp: hashed_echo_def list_ex_iff)
qed

lemma reconcile_pairs:
  assumes "reconcile digests s = Inr (s', started)"
  shows "s' = s\<lparr>rp_outgoingMessages := rp_outgoingMessages s'\<rparr>
    \<and> (\<exists>ps. settled_by digests s ps \<and> set (map fst ps) \<subseteq> set (outgoing s)
         \<and> mset (map om_id (outgoing s')) + mset (map settled_id ps) = mset (map om_id (outgoing s)))"
  using assms
proof (cases rule: reconcile_cases)
  case unchanged
  then show ?thesis by (intro conjI exI [of _ "[]"]) (simp_all add: settled_by_def)
next
  case (settled consumed remaining pending)
  from settle_messages_result [OF settled(2)] obtain ps where ps: "settled_by digests s ps"
    "image_mset om_id (mset remaining) + image_mset settled_id (mset ps) = image_mset om_id (mset (outgoing s))"
    "\<forall>p \<in> set ps. fst p \<in> set (outgoing s)" by auto
  from settled(3) have "map om_id pending = map om_id remaining"
    using retain_consumed_fields by (induction rule: list_all2_induct) auto
  with ps settled(4) show ?thesis by (intro conjI exI [of _ ps]) (auto simp: outgoing_def simp flip: mset_map)
qed

text \<open>C12: A reconciliation changes nothing but the outbox. Each message that leaves it is settled by an echo
  of its own: an entry of the timeline after the position the message was sent at, with the text and the
  attachments of the message (or its submitted digest), and no entry settles two messages. Every other
  message stays.\<close>
theorem each_echo_settles_one_message:
  assumes "reconcile digests s = Inr (s', started)"
  shows "s' = s\<lparr>rp_outgoingMessages := rp_outgoingMessages s'\<rparr>
    \<and> (\<exists>ps. settled_by digests s ps \<and> set (map fst ps) \<subseteq> set (outgoing s)
         \<and> mset (map om_id (outgoing s')) + mset (map settled_id ps) = mset (map om_id (outgoing s)))"
  by (rule reconcile_pairs [OF assms])

text \<open>A message, and the conversation with its echo.\<close>

definition sample_outgoing :: outgoing_message where
  "sample_outgoing =
     create_message (createReplicaState\<lparr>rp_timeline := empty_timeline (Some ''e1'')\<rparr>) ''u1'' (st_id sample_session)
       '' hi '' None (Some ''op1'') None"

definition sample_echo :: entry where
  "sample_echo =
     \<lparr>en_providerId = ''codex'', en_item = \<lparr>it_body = UserMessage ''hi'' None None None False, it_background = None\<rparr>,
      en_turnId = None, en_timestamp = ''t'', en_seqStart = 4, en_seqEnd = 4, en_ranges = [(4, 4)], en_collapsed = [],
      en_resources = []\<rparr>"

definition sample_replica :: replica_state where
  "sample_replica =
     createReplicaState\<lparr>rp_agent := Some sample_session,
       rp_timeline := (empty_timeline (Some ''e1''))\<lparr>tl_initialized := True, tl_entries := [sample_echo], tl_nextSeq := 5\<rparr>,
       rp_outgoingMessages := Some [sample_outgoing]\<rparr>"

lemma without_note_short: "withoutSessionReferenceNote ''hi'' = Inr ''hi''" "withoutSessionReferenceNote '' hi '' = Inr '' hi ''"
  by (simp_all add: withoutSessionReferenceNote_def splitSessionExcerpts_def excerpt_marker_def excerptIntroduction_def
      splitSessionReferences_def reference_match_def)

lemma sample_reconcile: "reconcile (\<lambda>_. None) sample_replica = Inr (sample_replica\<lparr>rp_outgoingMessages := Some []\<rparr>, [])"
  by (simp add: reconcile_def sample_replica_def outgoing_def prepareDigests_def hashed_echo_def hashed_candidates_def
      sample_outgoing_def create_message_def empty_timeline_def own_message_def unseen_def echo_seqs_def sample_echo_def
      matches_def user_item_def outgoingKey_def rich_content_def text_key_def normalize_text_def echoKey_def rich_user_content_def
      without_note_short js_trim_def js_space_def settle_messages_step settling_def retain_consumed_def)

theorem each_echo_settles_one_message_witness:
  "\<exists>ps. settled_by (\<lambda>_. None) sample_replica ps \<and> mset (map settled_id ps) = {#''outgoing-u1''#}"
proof -
  from each_echo_settles_one_message [OF sample_reconcile] obtain ps where "settled_by (\<lambda>_. None) sample_replica ps"
    "mset (map om_id (outgoing (sample_replica\<lparr>rp_outgoingMessages := Some []\<rparr>))) + mset (map settled_id ps)
      = mset (map om_id (outgoing sample_replica))" by blast
  then show ?thesis by (intro exI [of _ ps]) (simp add: outgoing_def sample_replica_def sample_outgoing_def create_message_def)
qed

text \<open>A second reconciliation finds nothing more to do: what the first one consumed is recorded with the
  messages that remain, also for a message that would have matched the same echo, so repeating it after
  any number of digests, renders or reconnections settles no message twice over.\<close>
theorem reconcile_is_idempotent:
  assumes "reconcile digests s = Inr (s', started)"
  shows "\<exists>started'. reconcile digests s' = Inr (s', started')"
  using assms
proof (cases rule: reconcile_cases)
  case unchanged
  with assms show ?thesis by auto
next
  case (settled consumed remaining pending)
  from settle_messages_result [OF settled(2)] have left: "\<forall>m \<in> set remaining. left_over digests s consumed m" by auto
  have sub: "set (filter (settling s) remaining) \<subseteq> set (outgoing s)"
    using settle_messages_settling [OF settled(2)] by auto
  have out: "outgoing s' = pending" using settled(4) by (simp add: outgoing_def)
  have ready: "fst (prepareDigests digests s')"
    using settled(1) hashed_echo_shrinks [OF settled(3) sub] settled(4)
    by (auto simp: prepareDigests_def Let_def list_all_iff)
  have "left_over digests s [] m'" if "m' \<in> set pending" for m'
    using settled(3) that by (rule list_all2_member) (use left retain_consumed_left_over in blast)
  then have "\<forall>m \<in> set pending. left_over digests s' [] m" using settled(4) by (simp add: left_over_state)
  from settle_nothing [OF this] have "settle_messages digests s' pending ([], False, []) = Inr ([], False, pending)" by simp
  with ready out retain_nothing [of digests s' pending] show ?thesis
    by (simp add: reconcile_def split_beta Let_def)
qed

theorem reconcile_is_idempotent_witness:
  "\<exists>started. reconcile (\<lambda>_. None) (sample_replica\<lparr>rp_outgoingMessages := Some []\<rparr>)
     = Inr (sample_replica\<lparr>rp_outgoingMessages := Some []\<rparr>, started)"
  by (rule reconcile_is_idempotent [OF sample_reconcile])

section \<open>How a message leaves the outbox\<close>

lemma keep_outgoing [simp]:
  "rp_outgoingMessages (applyAgentSnapshot s a baseline) = rp_outgoingMessages s"
  "rp_outgoingMessages (red_state (applyHistoryPage s p preserve)) = rp_outgoingMessages s"
  "rp_outgoingMessages (red_state (reduceTimelineEvent s m)) = rp_outgoingMessages s"
  "rp_outgoingMessages (applyInteractionRequested s rq) = rp_outgoingMessages s"
  "rp_outgoingMessages (applyInteractionResolved s i) = rp_outgoingMessages s"
  "rp_outgoingMessages (applyInteractionInvalidated s i) = rp_outgoingMessages s"
  "rp_outgoingMessages (applyResourceResponse s i st) = rp_outgoingMessages s"
  "rp_outgoingMessages (applyResourceUpdate s i st) = rp_outgoingMessages s"
  "rp_outgoingMessages (applyTimelineResourceBindingReplacement s b) = rp_outgoingMessages s"
  "rp_outgoingMessages (applyTimelineReplacement s epoch) = rp_outgoingMessages s"
proof -
  have outcome [simp]: "rp_outgoingMessages (applyBackgroundOutcome s b) = rp_outgoingMessages s" for s b
    by (simp add: applyBackgroundOutcome_def Let_def)
  have drain [simp]: "rp_outgoingMessages (red_state (drainPending s)) = rp_outgoingMessages s" for s
    by (simp add: drainPending_def Let_def split: option.split)
  have replacement [simp]: "rp_outgoingMessages (applyTimelineReplacement s epoch) = rp_outgoingMessages s" for s epoch
    by (simp add: applyTimelineReplacement_def Let_def)
  have buffer [simp]: "rp_outgoingMessages (bufferLive s m) = rp_outgoingMessages s" for s m
    by (simp add: bufferLive_def Let_def)
  show "rp_outgoingMessages (applyTimelineReplacement s epoch) = rp_outgoingMessages s" by simp
  show "rp_outgoingMessages (applyAgentSnapshot s a baseline) = rp_outgoingMessages s"
    by (simp add: applyAgentSnapshot_def snapshot_outcome_def Let_def split: option.split)
  show "rp_outgoingMessages (red_state (applyHistoryPage s p preserve)) = rp_outgoingMessages s"
    by (simp add: applyHistoryPage_def prepare_page_def Let_def)
  show "rp_outgoingMessages (red_state (reduceTimelineEvent s m)) = rp_outgoingMessages s"
    by (cases m) (simp_all add: reduce_timeline_message_def applyNonTimelineEvent_def appendLive_def Let_def
        split: option.split state_event.split)
  show "rp_outgoingMessages (applyInteractionRequested s rq) = rp_outgoingMessages s"
    "rp_outgoingMessages (applyInteractionResolved s i) = rp_outgoingMessages s"
    "rp_outgoingMessages (applyInteractionInvalidated s i) = rp_outgoingMessages s"
    by (simp_all add: applyInteractionRequested_def applyInteractionInvalidated_def applyInteractionResolved_def Let_def)
  show "rp_outgoingMessages (applyResourceResponse s i st) = rp_outgoingMessages s"
    "rp_outgoingMessages (applyResourceUpdate s i st) = rp_outgoingMessages s"
    "rp_outgoingMessages (applyTimelineResourceBindingReplacement s b) = rp_outgoingMessages s"
    by (simp_all add: applyResourceResponse_def applyResourceUpdate_def applyTimelineResourceBindingReplacement_def Let_def)
qed

fun deletes :: "replica_op \<Rightarrow> string set" where
  "deletes (DeleteMessage i) = {i}"
| "deletes (AcknowledgeMessage i True _) = {i}"
| "deletes _ = {}"

lemma update_outgoing_ids: "\<forall>m. om_id (f m) = om_id m \<Longrightarrow> om_id ` set (outgoing (update_outgoing f s)) = om_id ` set (outgoing s)"
  by (cases "rp_outgoingMessages s") (simp_all add: update_outgoing_def outgoing_def image_image)

lemma delete_state_ids: "om_id ` set (outgoing s) \<subseteq> om_id ` set (outgoing (delete_state i s)) \<union> {i}"
  by (cases "rp_outgoingMessages s") (auto simp: delete_state_def outgoing_def)

lemma next_state_ids:
  "\<not> ignored oper s \<Longrightarrow> om_id ` set (outgoing s) \<subseteq> om_id ` set (outgoing (next_state oper s)) \<union> deletes oper"
proof (cases oper)
  case (AcknowledgeMessage i handled sha)
  then show ?thesis
    using delete_state_ids [of s i] update_outgoing_ids [of "with_id i (\<lambda>m. if om_status m = SendFailed then m else acknowledged_message sha m)" s]
    by (cases handled) (simp_all add: acknowledge_state_def with_id_def acknowledged_message_def)
next
  case (DeleteMessage i)
  then show ?thesis using delete_state_ids [of s i] by simp
next
  case (RetryMessage i operation)
  then show ?thesis
    using update_outgoing_ids [of "with_id i (retried_message s operation)" s] by (simp add: with_id_def retried_message_def Let_def)
next
  case (UpdateMessage i status err retry)
  then show ?thesis
    using update_outgoing_ids [of "with_id i (updated_message status err retry)" s] by (simp add: with_id_def updated_message_def)
qed (auto simp: outgoing_def begin_state_def)

text \<open>C11: No message is lost. After any operation of the replica each message is still there, unless the
  operation deletes it (at the request of the user, or because the agent handled the input without showing
  it), or an echo that arrived settles it. In particular no snapshot, no replaced history, no reconnection
  and no failed send removes a message.\<close>
theorem message_leaves_only_settled:
  assumes "perform digests same oper r = Inr r'" and "m \<in> set (outgoing (ar_state r))"
    and "om_id m \<notin> om_id ` set (outgoing (ar_state r'))"
  shows "om_id m \<in> deletes oper
    \<or> (\<exists>sent echo. sent \<in> set (outgoing (next_state oper (ar_state r))) \<and> om_id sent = om_id m
         \<and> settling (next_state oper (ar_state r)) sent \<and> unseen sent echo
         \<and> echo \<in> set (tl_entries (rp_timeline (next_state oper (ar_state r)))) \<and> matches digests sent echo = Inr True)"
proof -
  let ?n = "next_state oper (ar_state r)"
  have run: "\<not> ignored oper (ar_state r)" using assms by (auto simp: perform_def)
  with assms(1) obtain r1 where r1: "replace digests same ?n r = Inr r1" "ar_state r' = ar_state r1"
    by (cases "replace digests same ?n r") (auto simp: perform_def)
  show ?thesis
  proof (cases "om_id m \<in> deletes oper")
    case False
    with next_state_ids [OF run] assms(2) have present: "om_id m \<in> om_id ` set (outgoing ?n)" by blast
    have "same \<and> ?n = ar_state r \<Longrightarrow> ar_state r1 = ?n" using r1 by (simp add: replace_def)
    with present assms(3) r1(2) have "\<not> (same \<and> ?n = ar_state r)" by auto
    with r1 obtain started where rec: "reconcile digests ?n = Inr (ar_state r1, started)"
      by (cases "reconcile digests ?n") (auto simp: replace_def)
    from reconcile_pairs [OF rec] obtain ps where ps: "settled_by digests ?n ps" "set (map fst ps) \<subseteq> set (outgoing ?n)"
      "mset (map om_id (outgoing (ar_state r1))) + mset (map settled_id ps) = mset (map om_id (outgoing ?n))" by blast
    have "om_id m \<in> set_mset (mset (map om_id (outgoing (ar_state r1))) + mset (map settled_id ps))"
      unfolding ps(3) using present by simp
    with assms(3) r1(2) obtain p where "p \<in> set ps" "settled_id p = om_id m" by auto
    with ps(1,2) show ?thesis by (intro disjI2 exI [of _ "fst p"] exI [of _ "snd p"]) (auto simp: settled_by_def)
  qed simp
qed

definition sample_agent_replica :: agent_replica where
  "sample_agent_replica = \<lparr>ar_state = sample_replica\<lparr>rp_resources := []\<rparr>, ar_notified = 0, ar_history = []\<rparr>"

theorem message_leaves_only_settled_witness:
  "\<exists>r' echo. perform (\<lambda>_. None) False (SetSessionControl None) sample_agent_replica = Inr r'
     \<and> outgoing (ar_state r') = [] \<and> unseen sample_outgoing echo \<and> matches (\<lambda>_. None) sample_outgoing echo = Inr True"
proof -
  have state: "ar_state sample_agent_replica = sample_replica" "next_state (SetSessionControl None) sample_replica = sample_replica"
    by (simp_all add: sample_agent_replica_def sample_replica_def createReplicaState_def)
  have out: "outgoing sample_replica = [sample_outgoing]" by (simp add: outgoing_def sample_replica_def)
  have p: "perform (\<lambda>_. None) False (SetSessionControl None) sample_agent_replica
      = Inr (sample_agent_replica\<lparr>ar_state := sample_replica\<lparr>rp_outgoingMessages := Some []\<rparr>, ar_notified := 1\<rparr>)"
    unfolding perform_def replace_def state using sample_reconcile by (simp add: sample_agent_replica_def)
  have gone: "outgoing (ar_state (sample_agent_replica\<lparr>ar_state := sample_replica\<lparr>rp_outgoingMessages := Some []\<rparr>, ar_notified := 1\<rparr>)) = []"
    by (simp add: outgoing_def)
  have "sample_outgoing \<in> set (outgoing (ar_state sample_agent_replica))" using out state by simp
  from message_leaves_only_settled [OF p this] gone out show ?thesis
    unfolding state using p by auto
qed

end
