(* ===== verification/Agent_Manager.thy ===== *)
theory Agent_Manager
  imports Timeline_Projector Session_State Setting_Changes
begin

text \<open>
  Models \<open>agent-remote-relay/src/agent-manager.ts\<close>: how the relay turns the observations of a native
  session into the timeline, the session snapshot and the events it publishes. The manager owns a
  timeline store (\<open>Timeline_Store\<close>), the session state (\<open>Session_State\<close>) and the pending setting changes
  (\<open>Setting_Changes\<close>).

  A method is an \<open>action\<close>: it returns the exception it throws, if any, and the manager with what it had
  done by then. Emitted events are appended to \<open>am_emitted\<close>. Arguments of the model:
  \<^item> \<open>acquired\<close>: the bindings that resource ingestion starts for an item of an observation
    (\<open>discoverTimelineLocators\<close>, \<open>providerReadLocator\<close> and \<open>ResourceIngestor.acquire\<close>);
  \<^item> \<open>clock\<close>: the text of the current date; the clock returns valid dates;
  \<^item> \<open>print_runtime\<close>: \<open>JSON.stringify\<close> of the runtime information, as in \<open>Setting_Changes\<close>.
\<close>

section \<open>Observations\<close>

datatype observation_delivery = FromHistory | FromLive

datatype agent_event =
    EvBackground background "string option"
  | EvThreadStarted string
  | EvTurnStarted "string option"
  | EvTurnCompleted "usage option" "string option"
  | EvTurnFailed string "string option" "string option" "string option"
  | EvTurnCanceled string "string option"
  | EvTimeline item "string option"
  | EvUsage usage "string option"
  | EvRuntime runtime_info "string option option"
  | EvRequested request "string option"
  | EvResolved string response "string option"
  | EvInvalidated string string "string option"

record observation =
  ob_sourceKey :: string
  ob_occurredAt :: int
  ob_nativeRevision :: "int option"
  ob_delivery :: observation_delivery
  ob_provider :: string
  ob_event :: agent_event
  ob_resourceReferences :: "(string \<times> string) list"

datatype stream_item =
    ObservationItem observation
  | BoundaryItem "string option"
  | ReplacementItem "string option" "observation list"

fun state_event_of :: "agent_event \<Rightarrow> state_event option" where
  "state_event_of (EvBackground b t) = Some (BackgroundActivityUpdated b t)"
| "state_event_of (EvThreadStarted i) = Some (ThreadStarted i)"
| "state_event_of (EvTurnStarted t) = Some (TurnStarted t)"
| "state_event_of (EvTurnCompleted u t) = Some (TurnCompleted t u)"
| "state_event_of (EvTurnFailed e c d t) = Some (TurnFailed t e c d)"
| "state_event_of (EvTurnCanceled r t) = Some (TurnCanceled t r)"
| "state_event_of (EvTimeline i t) = None"
| "state_event_of (EvUsage u t) = Some (UsageUpdated t u)"
| "state_event_of (EvRuntime ri t) = Some (RuntimeUpdated ri t)"
| "state_event_of (EvRequested rq t) = Some (InteractionRequested rq)"
| "state_event_of (EvResolved i rs t) = Some (InteractionResolved i)"
| "state_event_of (EvInvalidated i r t) = Some (InteractionInvalidated i)"

definition is_timeline :: "agent_event \<Rightarrow> bool" where
  "is_timeline ev \<longleftrightarrow> (case ev of EvTimeline _ _ \<Rightarrow> True | _ \<Rightarrow> False)"

definition event_usage :: "agent_event \<Rightarrow> usage option" where
  "event_usage ev = (case ev of EvUsage u _ \<Rightarrow> Some u | EvTurnCompleted u _ \<Rightarrow> u | _ \<Rightarrow> None)"

section \<open>The manager\<close>

datatype manager_event =
    AgentStateEvent session_state cursor
  | AgentStreamEvent agent_event string string "row option" "observation_delivery option"
  | RequestedEvent request
  | ResolvedEvent string response
  | InvalidatedEvent string string "string option"
  | TimelineReplacementEvent string
  | TimelineRebuiltEvent cursor
  | BindingReplacedEvent string int resource_binding resource_binding
  | ResourceUpdateEvent string

datatype seen_domain = EventDomain | UsageDomain

record manager =
  am_agentId :: string
  am_providerId :: string
  am_timeline :: timeline_store
  am_generation :: nat
  am_attentionCursor :: cursor
  am_attentionTurnId :: "string option"
  am_state :: session_state
  am_bufferedLive :: "observation list"
  am_olderHistoryCursor :: "string option"
  am_historyLoading :: "(nat \<times> string) option"
  am_seen :: "(seen_domain \<times> string, int option list) jmap"
  am_claimed :: "string list"
  am_ready :: "js_error option option"
  am_boundarySeen :: bool
  am_closed :: bool
  am_nativeStateRevision :: nat
  am_runtimeReadRevision :: nat
  am_historicalInteractions :: "(string, request) jmap"
  am_nativeStateVersions :: "(seen_domain \<times> string, int) jmap"
  am_settings :: setting_changes
  am_listeners :: nat
  am_pendingCommands :: nat
  am_sessionCapabilities :: capabilities
  am_readsHistory :: bool
  am_imageInput :: bool
  am_resourceInput :: bool
  am_emitted :: "manager_event list"

type_synonym action = "manager \<Rightarrow> js_error option \<times> manager"

definition ok :: action where
  "ok m = (None, m)"

definition fails :: "js_error \<Rightarrow> action" where
  "fails e m = (Some e, m)"

definition doing :: "(manager \<Rightarrow> manager) \<Rightarrow> action" where
  "doing f m = (None, f m)"

definition andThen :: "action \<Rightarrow> action \<Rightarrow> action" where
  "andThen f g m = (case f m of (None, m') \<Rightarrow> g m' | (Some e, m') \<Rightarrow> (Some e, m'))"

definition emit :: "manager_event \<Rightarrow> manager \<Rightarrow> manager" where
  "emit ev m = m\<lparr>am_emitted := am_emitted m @ [ev]\<rparr>"

definition emitStream ::
    "agent_event \<Rightarrow> string \<Rightarrow> string \<Rightarrow> row option \<Rightarrow> observation_delivery option \<Rightarrow> manager \<Rightarrow> manager" where
  "emitStream ev provider timestamp r delivery = emit (AgentStreamEvent ev provider timestamp r delivery)"

definition emit_state :: "manager \<Rightarrow> manager" where
  "emit_state m = emit (AgentStateEvent (am_state m) (store_cursor (am_timeline m))) m"

subsection \<open>Predicates\<close>

definition runtime_connected :: "session_state \<Rightarrow> bool" where
  "runtime_connected s \<longleftrightarrow>
     (case ri_connection (st_runtimeInfo s) of None \<Rightarrow> True | Some c \<Rightarrow> rn_state c = Connected)"

definition at_rest :: "session_state \<Rightarrow> bool" where
  "at_rest s \<longleftrightarrow> (st_status s = Idle \<or> st_status s = Closed) \<and> st_activeTurn s = None"

definition canReleaseIdle :: "manager \<Rightarrow> bool" where
  "canReleaseIdle m \<longleftrightarrow>
     \<not> am_closed m \<and> \<not> hasUnsettledWork (am_settings m) \<and> am_listeners m = 0 \<and> am_historyLoading m = None
     \<and> am_pendingCommands m = 0 \<and> at_rest (am_state m)
     \<and> st_pendingInteractions (am_state m) = [] \<and> runtime_connected (am_state m)"

definition canRestartController :: "bool \<Rightarrow> manager \<Rightarrow> bool" where
  "canRestartController preservesNativeWork m \<longleftrightarrow>
     \<not> am_closed m \<and> \<not> hasUnsettledWork (am_settings m) \<and> am_historyLoading m = None
     \<and> am_pendingCommands m = 0 \<and> st_pendingInteractions (am_state m) = [] \<and> runtime_connected (am_state m)
     \<and> (preservesNativeWork \<or> at_rest (am_state m))"

definition effectiveCapabilities :: "manager \<Rightarrow> capabilities" where
  "effectiveCapabilities m =
     (let c = am_sessionCapabilities m in
      c\<lparr>ca_sessionControl := Some SharedControl,
        ca_imageInput := (if \<not> am_imageInput m \<or> \<not> ca_sendMessage c then None else ca_imageInput c),
        ca_resourceInput := (if \<not> am_resourceInput m \<or> \<not> ca_sendMessage c then None else ca_resourceInput c)\<rparr>)"

definition validateOperation :: "operation_kind \<Rightarrow> string option \<Rightarrow> manager \<Rightarrow> unit js_result" where
  "validateOperation kind interactionId m =
     (case sessionOperationAvailability (Some (am_state m)) kind
        \<lparr>oc_synchronized = Some (am_boundarySeen m), oc_closed = Some (am_closed m), oc_control = None,
         oc_interactionId = interactionId\<rparr> of
        Allowed \<Rightarrow> Inr ()
      | Refused code reason \<Rightarrow> Inl (Thrown OperationRejectedError code reason))"

text \<open>
  \<open>prepareOperation\<close>: the error it throws for an error of the preparation; \<open>has_context\<close> tells whether it
  runs inside \<open>runOperation\<close>, \<open>native\<close> whether the error is the very one the native call ended with.
\<close>

definition preparation_error :: "bool \<Rightarrow> bool \<Rightarrow> bool \<Rightarrow> js_error \<Rightarrow> js_error" where
  "preparation_error has_context dispatched native e =
     (if dispatched \<and> err_class e = OperationRejectedError \<and> \<not> native
      then Thrown PlainError [] ''Operation failed after native dispatch.''
      else if \<not> has_context \<or> dispatched \<or> err_class e = OperationRejectedError then e
      else Thrown OperationRejectedError (if err_code e = [] then ''operation_rejected'' else err_code e) (err_message e))"

subsection \<open>Records already seen\<close>

definition seen_revisions :: "seen_domain \<Rightarrow> observation \<Rightarrow> manager \<Rightarrow> int option list" where
  "seen_revisions d ob m = (case jget (am_seen m) (d, ob_sourceKey ob) of None \<Rightarrow> [] | Some rs \<Rightarrow> rs)"

definition isDuplicate :: "seen_domain \<Rightarrow> observation \<Rightarrow> manager \<Rightarrow> bool" where
  "isDuplicate d ob m \<longleftrightarrow> ob_nativeRevision ob \<in> set (seen_revisions d ob m)"

definition remember :: "seen_domain \<Rightarrow> observation \<Rightarrow> manager \<Rightarrow> manager" where
  "remember d ob m =
     (let rs = seen_revisions d ob m in
      m\<lparr>am_seen := jset (am_seen m) (d, ob_sourceKey ob)
          (if ob_nativeRevision ob \<in> set rs then rs else rs @ [ob_nativeRevision ob])\<rparr>)"

definition acceptNativeStateRevision :: "seen_domain \<Rightarrow> observation \<Rightarrow> manager \<Rightarrow> bool \<times> manager" where
  "acceptNativeStateRevision d ob m =
     (case ob_nativeRevision ob of
        None \<Rightarrow> (True, m)
      | Some revision \<Rightarrow>
          (case jget (am_nativeStateVersions m) (d, ob_sourceKey ob) of
             Some known \<Rightarrow>
               if revision \<le> known then (False, m)
               else (True, m\<lparr>am_nativeStateVersions := jset (am_nativeStateVersions m) (d, ob_sourceKey ob) revision\<rparr>)
           | None \<Rightarrow> (True, m\<lparr>am_nativeStateVersions := jset (am_nativeStateVersions m) (d, ob_sourceKey ob) revision\<rparr>)))"

definition acceptUsageObservation :: "observation \<Rightarrow> manager \<Rightarrow> bool \<times> manager" where
  "acceptUsageObservation ob m =
     (if isDuplicate UsageDomain ob m then (False, m)
      else (case acceptNativeStateRevision UsageDomain ob m of
              (False, m') \<Rightarrow> (False, m')
            | (True, m') \<Rightarrow> (True, remember UsageDomain ob m')))"

subsection \<open>State events\<close>

definition no_background :: "attention \<Rightarrow> attention" where
  "no_background a = a\<lparr>att_background := None\<rparr>"

definition event_turn :: "agent_event \<Rightarrow> string option" where
  "event_turn ev =
     (case ev of
        EvBackground _ t \<Rightarrow> t | EvTurnStarted t \<Rightarrow> t | EvTurnCompleted _ t \<Rightarrow> t | EvTurnFailed _ _ _ t \<Rightarrow> t
      | EvTurnCanceled _ t \<Rightarrow> t | EvTimeline _ t \<Rightarrow> t | EvUsage _ t \<Rightarrow> t | EvRequested _ t \<Rightarrow> t
      | EvResolved _ _ t \<Rightarrow> t | EvInvalidated _ _ t \<Rightarrow> t | _ \<Rightarrow> None)"

definition current_background :: "manager \<Rightarrow> background option" where
  "current_background m =
     (case st_attention (am_state m) of None \<Rightarrow> None | Some a \<Rightarrow> att_background a)"

definition set_attention :: "attention option \<Rightarrow> manager \<Rightarrow> manager" where
  "set_attention a m = m\<lparr>am_state := (am_state m)\<lparr>st_attention := a\<rparr>\<rparr>"

definition background_event :: "background \<Rightarrow> string option \<Rightarrow> manager \<Rightarrow> manager" where
  "background_event b turnId m =
     (let m1 = m\<lparr>am_timeline := updateBackground (am_timeline m) b\<rparr>;
          merged = mergeBackgroundActivity (current_background m1) b;
          m2 = (if bg_status merged = BgVisible \<or> bg_status merged = BgFailed
                then m1\<lparr>am_attentionCursor := store_cursor (am_timeline m1)\<rparr> else m1)
      in (set_attention (Some \<lparr>att_cursor = am_attentionCursor m2, att_background = Some merged\<rparr>) m2)
           \<lparr>am_attentionTurnId := turnId\<rparr>)"

definition other_turn_started :: "agent_event \<Rightarrow> manager \<Rightarrow> manager" where
  "other_turn_started ev m =
     (case (st_attention (am_state m), ev) of
        (Some a, EvTurnStarted t) \<Rightarrow>
          if att_background a \<noteq> None \<and> t \<noteq> am_attentionTurnId m
          then (set_attention (Some (no_background a)) m)\<lparr>am_attentionTurnId := None\<rparr> else m
      | _ \<Rightarrow> m)"

text \<open>The turn of a background activity ended without an outcome: the activity failed.\<close>

definition ends_without_outcome :: "agent_event \<Rightarrow> background \<Rightarrow> bool" where
  "ends_without_outcome ev b =
     (case ev of
        EvTurnFailed _ _ _ _ \<Rightarrow> True | EvTurnCanceled _ _ \<Rightarrow> True
      | EvTurnCompleted _ _ \<Rightarrow> bg_status b = BgPending | _ \<Rightarrow> False)"

definition background_turn_ended :: "agent_event \<Rightarrow> manager \<Rightarrow> manager" where
  "background_turn_ended ev m =
     (case current_background m of
        None \<Rightarrow> m
      | Some b \<Rightarrow>
          if event_turn ev \<noteq> None \<and> event_turn ev = am_attentionTurnId m \<and> ends_without_outcome ev b then
            (let failed = b\<lparr>bg_status := BgFailed\<rparr>;
                 m1 = m\<lparr>am_timeline := updateBackground (am_timeline m) failed\<rparr>;
                 cursor = store_cursor (am_timeline m1)
             in (set_attention (Some \<lparr>att_cursor = cursor, att_background = Some failed\<rparr>) m1)
                  \<lparr>am_attentionCursor := cursor\<rparr>)
          else m)"

definition release_claim :: "agent_event \<Rightarrow> manager \<Rightarrow> manager" where
  "release_claim ev m =
     (case ev of
        EvResolved i _ _ \<Rightarrow> m\<lparr>am_claimed := filter (\<lambda>c. c \<noteq> i) (am_claimed m)\<rparr>
      | EvInvalidated i _ _ \<Rightarrow> m\<lparr>am_claimed := filter (\<lambda>c. c \<noteq> i) (am_claimed m)\<rparr>
      | _ \<Rightarrow> m)"

definition runtime_observed :: "(runtime_info \<Rightarrow> string) \<Rightarrow> string \<Rightarrow> bool \<Rightarrow> runtime_info \<Rightarrow> manager \<Rightarrow> manager" where
  "runtime_observed print_runtime clock native ri m =
     (let s = (am_state m)\<lparr>st_capabilities := effectiveCapabilities m\<rparr>;
          settings = observe print_runtime ri native (am_settings m);
          published = drop (length (sg_published (am_settings m))) (sg_published settings)
      in m\<lparr>am_settings := settings,
           am_state := (case at_last published of
                          None \<Rightarrow> s
                        | Some changes \<Rightarrow> s\<lparr>st_settingChanges := Some changes, st_updatedAt := clock\<rparr>)\<rparr>)"

definition applyStateEvent ::
    "(runtime_info \<Rightarrow> string) \<Rightarrow> string \<Rightarrow> agent_event \<Rightarrow> string \<Rightarrow> bool \<Rightarrow> manager \<Rightarrow> manager" where
  "applyStateEvent print_runtime clock ev timestamp native m =
     (let m1 = (case ev of EvBackground b t \<Rightarrow> background_event b t m | _ \<Rightarrow> m);
          m2 = background_turn_ended ev (other_turn_started ev m1);
          m3 = release_claim ev (m2\<lparr>am_nativeStateRevision := am_nativeStateRevision m2 + 1\<rparr>);
          m4 = (case state_event_of ev of
                  None \<Rightarrow> m3
                | Some se \<Rightarrow> m3\<lparr>am_state := reduceSessionState (am_state m3) se timestamp\<rparr>);
          m5 = (case ev of EvRuntime ri _ \<Rightarrow> runtime_observed print_runtime clock native ri m4 | _ \<Rightarrow> m4)
      in emit_state m5)"

subsection \<open>Attention\<close>

definition actionable :: "item \<Rightarrow> bool" where
  "actionable i =
     (case it_body i of
        Interaction _ _ \<Rightarrow> True | ErrorItem _ \<Rightarrow> True | AgentCommunication _ _ _ _ \<Rightarrow> True
      | ToolCall _ _ _ _ st \<Rightarrow> (case st of ToolFailed _ \<Rightarrow> True | ToolCanceled \<Rightarrow> True | _ \<Rightarrow> False)
      | _ \<Rightarrow> False)"

definition observed_background :: "background option \<Rightarrow> item \<Rightarrow> background option" where
  "observed_background previous i =
     (case it_background i of
        None \<Rightarrow> None
      | Some b \<Rightarrow>
          let merged = mergeBackgroundActivity previous b in
          Some (if actionable i then merged\<lparr>bg_status := BgFailed\<rparr> else merged))"

definition observeAttention :: "item \<Rightarrow> string option \<Rightarrow> cursor \<Rightarrow> manager \<Rightarrow> manager" where
  "observeAttention i turnId cursor m =
     (let m1 = m\<lparr>am_attentionTurnId := (if it_background i = None then None else turnId)\<rparr>;
          previous = st_attention (am_state m1);
          background = observed_background (current_background m1) i;
          m2 = (case background of
                  None \<Rightarrow> m1\<lparr>am_attentionCursor := cursor\<rparr>
                | Some b \<Rightarrow> if bg_status b = BgVisible \<or> bg_status b = BgFailed
                             then m1\<lparr>am_attentionCursor := cursor\<rparr> else m1)
      in if previous = None \<and> background = None then m2
         else
           let m3 = set_attention (Some \<lparr>att_cursor = am_attentionCursor m2, att_background = background\<rparr>) m2
           in if current_background m1 \<noteq> background then emit_state m3 else m3)"

section \<open>Observations become rows, state and events\<close>

definition redacted_item :: "item \<Rightarrow> item" where
  "redacted_item i =
     (case it_body i of
        Interaction rq rs \<Rightarrow> i\<lparr>it_body := Interaction (redactInteractionRequest rq) (redactInteractionResponse rq rs)\<rparr>
      | _ \<Rightarrow> i)"

definition pending_request :: "manager \<Rightarrow> string \<Rightarrow> request option" where
  "pending_request m i = find (\<lambda>rq. rq_requestId rq = i) (st_pendingInteractions (am_state m))"

text \<open>Orphan resolutions have no trusted sensitivity metadata: the empty question hides every answer.\<close>

definition redacted_event :: "manager \<Rightarrow> agent_event \<Rightarrow> agent_event" where
  "redacted_event m ev =
     (case ev of
        EvTimeline i t \<Rightarrow> EvTimeline (redacted_item i) t
      | EvRequested rq t \<Rightarrow> EvRequested (redactInteractionRequest rq) t
      | EvResolved i rs t \<Rightarrow>
          EvResolved i (redactInteractionResponse
            (case pending_request m i of
               Some rq \<Rightarrow> rq
             | None \<Rightarrow> \<lparr>rq_requestId = i, rq_body = QuestionRequest []\<rparr>) rs) t
      | _ \<Rightarrow> ev)"

definition row_of :: "observation \<Rightarrow> item \<Rightarrow> string option \<Rightarrow> row_input" where
  "row_of ob i turnId =
     \<lparr>in_providerId = ob_provider ob, in_sourceKey = ob_sourceKey ob, in_nativeRevision = ob_nativeRevision ob,
      in_occurredAt = ob_occurredAt ob, in_turnId = turnId, in_item = i, in_resources = None\<rparr>"

definition publish_row :: "observation \<Rightarrow> item \<Rightarrow> string option \<Rightarrow> row \<Rightarrow> manager \<Rightarrow> manager" where
  "publish_row ob i turnId r m =
     (let cursor = \<lparr>cu_epoch = ro_epoch r, cu_seq = ro_seq r\<rparr>;
          m1 = (if ob_delivery ob = FromLive then observeAttention i turnId cursor m
                else m\<lparr>am_attentionCursor := cursor\<rparr>)
      in emitStream (EvTimeline i turnId) (ob_provider ob) (ro_timestamp r) (Some r) (Some (ob_delivery ob)) m1)"

definition apply_timeline ::
    "(observation \<Rightarrow> item \<Rightarrow> resource_binding list) \<Rightarrow> bool \<Rightarrow> observation \<Rightarrow> item \<Rightarrow> string option \<Rightarrow> action" where
  "apply_timeline acquired historical ob i turnId m =
     (case (if historical then prepend_row else append_row) (am_timeline m) (row_of ob i turnId) of
        Inl e \<Rightarrow> (Some e, m)
      | Inr (DuplicateRow _, _) \<Rightarrow> (None, m)
      | Inr (Appended r, store) \<Rightarrow>
          let m1 = remember EventDomain ob (m\<lparr>am_timeline := store\<rparr>);
              resources = acquired ob i
          in case (if resources = [] then Inr (r, store) else bindResources store (ro_seq r) resources) of
               Inl e \<Rightarrow> (Some e, m1)
             | Inr (r', store') \<Rightarrow>
                 let m2 = m1\<lparr>am_timeline := store'\<rparr>
                 in (None, if historical then m2 else publish_row ob i turnId r' m2))"

text \<open>A timeline observation, as the nested call of \<open>applyObservation\<close> handles it.\<close>

definition timeline_observation ::
    "(observation \<Rightarrow> item \<Rightarrow> resource_binding list) \<Rightarrow> bool \<Rightarrow> observation \<Rightarrow> item \<Rightarrow> string option \<Rightarrow> action" where
  "timeline_observation acquired historical ob i turnId m =
     (if isDuplicate EventDomain ob m then ok m
      else apply_timeline acquired historical ob (redacted_item i) turnId m)"

definition history_background :: "observation \<Rightarrow> background \<Rightarrow> string option \<Rightarrow> action" where
  "history_background ob b turnId m =
     (let m1 = remember EventDomain ob (m\<lparr>am_timeline := updateBackground (am_timeline m) b\<rparr>)
      in case to_iso_string (ob_occurredAt ob) of
           Inl e \<Rightarrow> (Some e, m1)
         | Inr ts \<Rightarrow> (None, emitStream (EvBackground b turnId) (ob_provider ob) ts None (Some FromHistory) m1))"

definition history_event ::
    "(observation \<Rightarrow> item \<Rightarrow> resource_binding list) \<Rightarrow> bool \<Rightarrow> observation \<Rightarrow> action" where
  "history_event acquired historical ob m =
     (case event_usage (ob_event ob) of
        Some u \<Rightarrow>
          (case acceptUsageObservation ob m of
             (False, m1) \<Rightarrow> (None, m1)
           | (True, m1) \<Rightarrow>
               (None, m1\<lparr>am_state := (am_state m1)\<lparr>st_lastUsage := updateUsageSnapshot (st_lastUsage (am_state m1)) u\<rparr>\<rparr>))
      | None \<Rightarrow>
          (case ob_event ob of
             EvRequested rq _ \<Rightarrow>
               (None, remember EventDomain ob
                  (m\<lparr>am_historicalInteractions := jset (am_historicalInteractions m) (rq_requestId rq) rq\<rparr>))
           | EvResolved i rs turnId \<Rightarrow>
               (let found = jget (am_historicalInteractions m) i;
                    m1 = m\<lparr>am_historicalInteractions := jdelete (am_historicalInteractions m) i\<rparr>
                in case found of
                     None \<Rightarrow> (None, m1)
                   | Some rq \<Rightarrow>
                       if request_kind (rq_body rq) = response_kind rs
                       then timeline_observation acquired historical ob
                              \<lparr>it_body = Interaction rq rs, it_background = None\<rparr> turnId m1
                       else (None, m1))
           | EvInvalidated i _ _ \<Rightarrow>
               (None, m\<lparr>am_historicalInteractions := jdelete (am_historicalInteractions m) i\<rparr>)
           | _ \<Rightarrow> (None, m)))"

definition publish_interaction :: "agent_event \<Rightarrow> manager \<Rightarrow> manager" where
  "publish_interaction ev m =
     (case ev of
        EvRequested rq _ \<Rightarrow> emit (RequestedEvent rq) m
      | EvResolved i rs _ \<Rightarrow> emit (ResolvedEvent i rs) m
      | EvInvalidated i r t \<Rightarrow> emit (InvalidatedEvent i r t) m
      | _ \<Rightarrow> m)"

text \<open>A resolution of a pending interaction becomes a row of the timeline before the interaction is dropped.\<close>

definition complete_interaction :: "observation \<Rightarrow> agent_event \<Rightarrow> action" where
  "complete_interaction ob ev m =
     (case ev of
        EvResolved i rs turnId \<Rightarrow>
          (case find (\<lambda>rq. rq_requestId rq = i \<and> request_kind (rq_body rq) = response_kind rs)
                  (st_pendingInteractions (am_state m)) of
             None \<Rightarrow> ok m
           | Some rq \<Rightarrow>
               let completed = \<lparr>it_body = Interaction rq rs, it_background = None\<rparr>
               in (case append_row (am_timeline m) (row_of ob completed turnId) of
                     Inl e \<Rightarrow> (Some e, m)
                   | Inr (DuplicateRow _, _) \<Rightarrow> (None, m)
                   | Inr (Appended r, store) \<Rightarrow>
                       (None, emitStream (EvTimeline completed turnId) (ob_provider ob) (ro_timestamp r) (Some r) None
                          (m\<lparr>am_timeline := store\<rparr>))))
      | _ \<Rightarrow> ok m)"

definition publish_state ::
    "(runtime_info \<Rightarrow> string) \<Rightarrow> string \<Rightarrow> observation \<Rightarrow> agent_event \<Rightarrow> string \<Rightarrow> manager \<Rightarrow> manager" where
  "publish_state print_runtime clock ob ev timestamp m =
     publish_interaction ev
       (emitStream ev (ob_provider ob) timestamp None None
         (remember EventDomain ob (applyStateEvent print_runtime clock ev timestamp True m)))"

definition state_observation ::
    "(runtime_info \<Rightarrow> string) \<Rightarrow> string \<Rightarrow> observation \<Rightarrow> agent_event \<Rightarrow> action" where
  "state_observation print_runtime clock ob ev m =
     (case to_iso_string (ob_occurredAt ob) of
        Inl e \<Rightarrow> (Some e, m)
      | Inr timestamp \<Rightarrow>
          andThen (complete_interaction ob ev) (doing (publish_state print_runtime clock ob ev timestamp)) m)"

text \<open>A live event: stale revisions and usage already counted are left out, secrets are redacted.\<close>

definition live_event :: "(runtime_info \<Rightarrow> string) \<Rightarrow> string \<Rightarrow> observation \<Rightarrow> action" where
  "live_event print_runtime clock ob m =
     (case acceptNativeStateRevision EventDomain ob m of
        (False, m1) \<Rightarrow> (None, m1)
      | (True, m1) \<Rightarrow>
          let run = (\<lambda>ev m. state_observation print_runtime clock ob (redacted_event m ev) m)
          in case event_usage (ob_event ob) of
               None \<Rightarrow> run (ob_event ob) m1
             | Some _ \<Rightarrow>
                 (case acceptUsageObservation ob m1 of
                    (True, m2) \<Rightarrow> run (ob_event ob) m2
                  | (False, m2) \<Rightarrow>
                      (case ob_event ob of
                         EvTurnCompleted _ turnId \<Rightarrow> run (EvTurnCompleted None turnId) m2
                       | _ \<Rightarrow> (None, remember EventDomain ob m2))))"

definition applyObservation ::
    "(observation \<Rightarrow> item \<Rightarrow> resource_binding list) \<Rightarrow> (runtime_info \<Rightarrow> string) \<Rightarrow> string \<Rightarrow> bool \<Rightarrow> observation \<Rightarrow> action" where
  "applyObservation acquired print_runtime clock historical ob m =
     (if isDuplicate EventDomain ob m then ok m
      else
        (case ob_event ob of
           EvTimeline i turnId \<Rightarrow> timeline_observation acquired historical ob i turnId m
         | EvBackground b turnId \<Rightarrow>
             if ob_delivery ob = FromHistory then history_background ob b turnId m
             else live_event print_runtime clock ob m
         | _ \<Rightarrow>
             if ob_delivery ob = FromHistory then history_event acquired historical ob m
             else live_event print_runtime clock ob m))"

text \<open>
  A resource whose ingestion settles: \<open>resources\<close> is the array of bindings of the observation with the new
  binding at \<open>index\<close>, \<open>generation\<close> the timeline it was read for. A timeline replaced meanwhile keeps its
  row to itself; the events name the old epoch.
\<close>

definition resource_settled ::
    "nat \<Rightarrow> string \<Rightarrow> int \<Rightarrow> resource_binding list \<Rightarrow> resource_binding option \<Rightarrow> resource_binding \<Rightarrow> action" where
  "resource_settled generation epoch seq resources previous binding m =
     (case (if generation = am_generation m then map_sum id snd (bindResources (am_timeline m) seq resources)
            else Inr (am_timeline m)) of
        Inl e \<Rightarrow> (None, m)
      | Inr store \<Rightarrow>
          let m1 = m\<lparr>am_timeline := store\<rparr>;
              m2 = (case previous of
                      None \<Rightarrow> m1
                    | Some p \<Rightarrow> if rb_resourceId p \<noteq> rb_resourceId binding
                                then emit (BindingReplacedEvent epoch seq p binding) m1 else m1)
          in (None, emit (ResourceUpdateEvent (rb_resourceId binding)) m2))"

section \<open>The observation stream\<close>

text \<open>\<open>await\<close> each observation in turn; the first exception ends the loop.\<close>

fun each_observation :: "(observation \<Rightarrow> action) \<Rightarrow> observation list \<Rightarrow> action" where
  "each_observation f [] m = ok m"
| "each_observation f (ob # obs) m = andThen (f ob) (each_observation f obs) m"

definition resetTimeline :: "string \<Rightarrow> manager \<Rightarrow> (js_error + bool) \<times> manager" where
  "resetTimeline epoch m =
     (if epoch = ts_epoch (am_timeline m) then (Inr False, m)
      else (case new_store epoch of
              Inl e \<Rightarrow> (Inl e, m)
            | Inr store \<Rightarrow>
                (Inr True, emit (TimelineReplacementEvent epoch)
                   (set_attention None
                     (m\<lparr>am_timeline := store, am_generation := am_generation m + 1,
                        am_attentionCursor := \<lparr>cu_epoch = epoch, cu_seq = 0\<rparr>, am_attentionTurnId := None,
                        am_seen := [], am_olderHistoryCursor := None, am_historyLoading := None\<rparr>)))))"

definition emit_rebuilt :: "manager \<Rightarrow> manager" where
  "emit_rebuilt m = emit (TimelineRebuiltEvent (store_cursor (am_timeline m))) m"

definition replaceTimeline :: "string \<Rightarrow> action" where
  "replaceTimeline epoch m =
     (case resetTimeline epoch m of
        (Inl e, m1) \<Rightarrow> (Some e, m1)
      | (Inr changed, m1) \<Rightarrow> (None, if changed then emit_rebuilt m1 else m1))"

definition resolveReadiness :: "manager \<Rightarrow> manager" where
  "resolveReadiness m = (if am_ready m \<noteq> None then m else m\<lparr>am_ready := Some None\<rparr>)"

definition rejectReadiness :: "js_error \<Rightarrow> manager \<Rightarrow> manager" where
  "rejectReadiness e m = (if am_ready m \<noteq> None then m else m\<lparr>am_ready := Some (Some e)\<rparr>)"

definition provider_error :: "string \<Rightarrow> js_error" where
  "provider_error message = Thrown PlainError [] message"

definition replacement_item ::
    "(observation \<Rightarrow> action) \<Rightarrow> string \<Rightarrow> string option \<Rightarrow> observation list \<Rightarrow> action" where
  "replacement_item apply_ob uuid older obs m =
     (if \<not> am_boundarySeen m
      then fails (provider_error ''Provider replaced Timeline before history readiness.'') m
      else if list_ex (\<lambda>ob. \<not> is_timeline (ob_event ob)) obs
      then fails (provider_error ''Provider Timeline replacement contains non-Timeline state.'') m
      else
        (case resetTimeline uuid m of
           (Inl e, m1) \<Rightarrow> (Some e, m1)
         | (Inr _, m1) \<Rightarrow>
             andThen (each_observation apply_ob obs) (doing emit_rebuilt) (m1\<lparr>am_olderHistoryCursor := older\<rparr>)))"

definition boundary_item :: "(observation \<Rightarrow> action) \<Rightarrow> string option \<Rightarrow> action" where
  "boundary_item apply_ob older m =
     (if am_boundarySeen m
      then fails (provider_error ''Provider emitted more than one history boundary.'') m
      else andThen (each_observation apply_ob (am_bufferedLive m)) (doing resolveReadiness)
             (m\<lparr>am_historicalInteractions := [], am_boundarySeen := True, am_olderHistoryCursor := older,
                am_bufferedLive := []\<rparr>))"

definition observation_item :: "(observation \<Rightarrow> action) \<Rightarrow> observation \<Rightarrow> action" where
  "observation_item apply_ob ob m =
     (if \<not> am_boundarySeen m \<and> ob_delivery ob = FromLive
      then (None, m\<lparr>am_bufferedLive := am_bufferedLive m @ [ob]\<rparr>)
      else if am_boundarySeen m \<and> ob_delivery ob = FromHistory
      then fails (provider_error ''Provider emitted history after its history boundary.'') m
      else apply_ob ob m)"

fun stream_action :: "(observation \<Rightarrow> action) \<Rightarrow> string \<Rightarrow> stream_item \<Rightarrow> action" where
  "stream_action apply_ob uuid (ReplacementItem older obs) = replacement_item apply_ob uuid older obs"
| "stream_action apply_ob uuid (BoundaryItem older) = boundary_item apply_ob older"
| "stream_action apply_ob uuid (ObservationItem ob) = observation_item apply_ob ob"

definition failed_connection :: "runtime_connection" where
  "failed_connection =
     \<lparr>rn_state = Unavailable, rn_reason = Some ''Provider observation stream failed.'', rn_attempt = None,
      rn_nextRetryAt = None\<rparr>"

definition applyObservationFailure :: "(runtime_info \<Rightarrow> string) \<Rightarrow> string \<Rightarrow> manager \<Rightarrow> manager" where
  "applyObservationFailure print_runtime clock m =
     (let ev = EvRuntime ((st_runtimeInfo (am_state m))\<lparr>ri_connection := Some failed_connection\<rparr>) None
      in emitStream ev (am_providerId m) clock None None (applyStateEvent print_runtime clock ev clock True m))"

text \<open>\<open>consume\<close> for the items of the stream, until it fails (\<open>Some\<close>) or the items are used up.\<close>

definition consume_failed :: "(runtime_info \<Rightarrow> string) \<Rightarrow> string \<Rightarrow> js_error \<Rightarrow> manager \<Rightarrow> manager" where
  "consume_failed print_runtime clock e m =
     (if am_ready m = None then rejectReadiness e m
      else if am_closed m then m else applyObservationFailure print_runtime clock m)"

fun consume_items ::
    "(runtime_info \<Rightarrow> string) \<Rightarrow> string \<Rightarrow> (observation \<Rightarrow> action) \<Rightarrow> (string \<times> stream_item) list \<Rightarrow> action" where
  "consume_items print_runtime clock apply_ob [] m = (None, m)"
| "consume_items print_runtime clock apply_ob ((uuid, i) # items) m =
     (if am_closed m then (None, m)
      else (case stream_action apply_ob uuid i m of
              (Some e, m1) \<Rightarrow> (Some e, consume_failed print_runtime clock e m1)
            | (None, m1) \<Rightarrow> consume_items print_runtime clock apply_ob items m1))"

definition stream_ended :: "(runtime_info \<Rightarrow> string) \<Rightarrow> string \<Rightarrow> manager \<Rightarrow> manager" where
  "stream_ended print_runtime clock m =
     (if am_closed m then m
      else consume_failed print_runtime clock
        (provider_error (if \<not> am_boundarySeen m then ''Provider observation stream ended before history readiness.''
                         else ''Provider observation stream ended unexpectedly.'')) m)"

section \<open>Older history\<close>

definition fetchTimeline :: "page_request \<Rightarrow> manager \<Rightarrow> history_page js_result" where
  "fetchTimeline q m =
     (if pr_agentId q \<noteq> am_agentId m then throw_plain ''Timeline request identifies a different Agent.''
      else map_sum id (\<lambda>p. if \<not> fl_reset (hp_flags p) \<and> \<not> fl_gap (hp_flags p) \<and> truthy (am_olderHistoryCursor m)
                           then p\<lparr>hp_hasOlder := True\<rparr> else p)
             (projectTimelinePage (am_timeline m) q))"

definition needs_older_history :: "page_request \<Rightarrow> int \<Rightarrow> history_page \<Rightarrow> manager \<Rightarrow> bool" where
  "needs_older_history q limit p m \<longleftrightarrow>
     pr_direction q = Before \<and> \<not> fl_reset (hp_flags p) \<and> \<not> fl_gap (hp_flags p) \<and> truthy (am_olderHistoryCursor m)
     \<and> int (length (hp_entries p)) < limit \<and> am_readsHistory m"

definition start_loading :: "manager \<Rightarrow> manager" where
  "start_loading m =
     (case (am_historyLoading m, am_olderHistoryCursor m) of
        (None, Some c) \<Rightarrow> m\<lparr>am_historyLoading := Some (am_generation m, c)\<rparr>
      | _ \<Rightarrow> m)"

record history_chunk =
  hc_nextCursor :: "string option"
  hc_observations :: "observation list"

definition load_error :: "string \<Rightarrow> history_chunk \<Rightarrow> js_error option" where
  "load_error cursor chunk =
     (if hc_nextCursor chunk = Some cursor then Some (provider_error ''Provider history cursor did not advance.'')
      else if list_ex (\<lambda>ob. ob_delivery ob \<noteq> FromHistory \<or> \<not> is_timeline (ob_event ob)) (hc_observations chunk)
      then Some (provider_error ''Provider history page contains live runtime state.'')
      else None)"

text \<open>
  The loop over the observations asks again before each one whether the manager was closed or its timeline
  replaced; within one action nothing else runs, so that the first check decides. Interleavings are runs of
  single observations (\<open>manager_step\<close> in \<open>Agent_Manager_Properties\<close>).
\<close>

definition load_history :: "(observation \<Rightarrow> action) \<Rightarrow> nat \<Rightarrow> string \<Rightarrow> history_chunk \<Rightarrow> action" where
  "load_history apply_ob generation cursor chunk m =
     (if am_closed m \<or> am_generation m \<noteq> generation then ok m
      else (case load_error cursor chunk of
              Some e \<Rightarrow> (Some e, m)
            | None \<Rightarrow>
                andThen (each_observation apply_ob (rev (hc_observations chunk)))
                  (doing (\<lambda>m. if am_generation m = generation then m\<lparr>am_olderHistoryCursor := hc_nextCursor chunk\<rparr> else m)) m))"

definition finish_loading :: "(observation \<Rightarrow> action) \<Rightarrow> nat \<Rightarrow> string \<Rightarrow> history_chunk js_result \<Rightarrow> action" where
  "finish_loading apply_ob generation cursor result m =
     (let (e, m1) = (case result of
                       Inl e \<Rightarrow> (Some e, m)
                     | Inr chunk \<Rightarrow> load_history apply_ob generation cursor chunk m)
      in (e, if am_historyLoading m1 = Some (generation, cursor) then m1\<lparr>am_historyLoading := None\<rparr> else m1))"

section \<open>Runtime information and settings\<close>

definition start_refresh :: "manager \<Rightarrow> (nat \<times> nat) \<times> manager" where
  "start_refresh m =
     ((am_nativeStateRevision m, am_runtimeReadRevision m + 1), m\<lparr>am_runtimeReadRevision := am_runtimeReadRevision m + 1\<rparr>)"

definition finish_refresh :: "(runtime_info \<Rightarrow> string) \<Rightarrow> string \<Rightarrow> nat \<times> nat \<Rightarrow> runtime_info \<Rightarrow> manager \<Rightarrow> manager" where
  "finish_refresh print_runtime clock revisions ri m =
     (if am_closed m \<or> fst revisions \<noteq> am_nativeStateRevision m \<or> snd revisions \<noteq> am_runtimeReadRevision m then m
      else applyStateEvent print_runtime clock (EvRuntime ri None) clock False m)"

text \<open>An event of the setting changes outside \<open>applyStateEvent\<close>: each publication is stored and announced.\<close>

definition publish_settings :: "string \<Rightarrow> setting_change list \<Rightarrow> manager \<Rightarrow> manager" where
  "publish_settings clock changes m =
     emit_state (m\<lparr>am_state := (am_state m)\<lparr>st_settingChanges := Some changes, st_updatedAt := clock\<rparr>\<rparr>)"

definition settings_event :: "(runtime_info \<Rightarrow> string) \<Rightarrow> string \<Rightarrow> change_event \<Rightarrow> manager \<Rightarrow> manager" where
  "settings_event print_runtime clock ev m =
     (let settings = change_step print_runtime (am_settings m) ev;
          published = drop (length (sg_published (am_settings m))) (sg_published settings)
      in foldl (\<lambda>m changes. publish_settings clock changes m) (m\<lparr>am_settings := settings\<rparr>) published)"

section \<open>Responses and closing\<close>

definition stale_interaction :: js_error where
  "stale_interaction = Thrown InteractionResponseErrorClass ''stale_interaction'' ''Interaction request is no longer pending.''"

definition invalid_interaction :: js_error where
  "invalid_interaction =
     Thrown InteractionResponseErrorClass ''invalid_interaction_response''
       ''Interaction response does not satisfy the pending request.''"

definition check_response :: "string \<Rightarrow> response \<Rightarrow> manager \<Rightarrow> unit js_result" where
  "check_response i rs m =
     (case pending_request m i of
        None \<Rightarrow> Inl stale_interaction
      | Some rq \<Rightarrow>
          if i \<in> set (am_claimed m) then Inl stale_interaction
          else (case validateInteractionResponse rq rs of
                  Inl _ \<Rightarrow> Inl invalid_interaction
                | Inr _ \<Rightarrow> Inr ()))"

text \<open>
  \<open>respondToInteraction\<close> up to the native call: \<open>refused\<close> is what the admission of the host throws, if
  anything. A response that is dispatched claims the interaction. When the native call ends with a
  confirmed rejection the claim is given up; a lost receipt keeps it.
\<close>

definition dispatch_response :: "string \<Rightarrow> response \<Rightarrow> js_error option \<Rightarrow> action" where
  "dispatch_response i rs refused m =
     (case validateOperation OpInteractionResponse (Some i) m of
        Inl e \<Rightarrow> (Some e, m)
      | Inr _ \<Rightarrow>
          (case check_response i rs m of
             Inl e \<Rightarrow> (Some e, m)
           | Inr _ \<Rightarrow>
               (case refused of
                  Some e \<Rightarrow> (Some e, m)
                | None \<Rightarrow> (None, m\<lparr>am_claimed := am_claimed m @ [i]\<rparr>))))"

definition response_failed :: "string \<Rightarrow> js_error \<Rightarrow> action" where
  "response_failed i e m =
     (Some e, if err_class e = OperationRejectedError then m\<lparr>am_claimed := filter (\<lambda>c. c \<noteq> i) (am_claimed m)\<rparr> else m)"

definition close_manager :: "manager \<Rightarrow> manager" where
  "close_manager m =
     (if am_closed m then m
      else resolveReadiness (m\<lparr>am_closed := True, am_settings := close_changes (am_settings m), am_listeners := 0\<rparr>))"

definition new_manager ::
    "string \<Rightarrow> string \<Rightarrow> string \<Rightarrow> string \<Rightarrow> runtime_info \<Rightarrow> capabilities \<Rightarrow> bool \<Rightarrow> bool \<Rightarrow> bool \<Rightarrow> manager js_result" where
  "new_manager agentId providerId epoch createdAt ri caps readsHistory imageInput resourceInput =
     (case new_store epoch of
        Inl e \<Rightarrow> Inl e
      | Inr store \<Rightarrow>
          let s = \<lparr>st_attention = None, st_settingChanges = None, st_id = agentId, st_providerId = providerId,
                st_cwd = ri_cwd ri, st_model = ri_model ri, st_createdAt = createdAt, st_updatedAt = createdAt,
                st_status = ri_status ri, st_activeTurn = None, st_capabilities = caps, st_pendingInteractions = [],
                st_runtimeInfo = ri, st_persistence = ri_persistence ri, st_lastUsage = None, st_lastError = None\<rparr>;
              m = \<lparr>am_agentId = agentId, am_providerId = providerId, am_timeline = store, am_generation = 0,
                am_attentionCursor = \<lparr>cu_epoch = epoch, cu_seq = 0\<rparr>, am_attentionTurnId = None, am_state = s,
                am_bufferedLive = [], am_olderHistoryCursor = None, am_historyLoading = None, am_seen = [],
                am_claimed = [], am_ready = None, am_boundarySeen = False, am_closed = False,
                am_nativeStateRevision = 0, am_runtimeReadRevision = 0, am_historicalInteractions = [],
                am_nativeStateVersions = [], am_settings = new_changes ri, am_listeners = 0, am_pendingCommands = 0,
                am_sessionCapabilities = caps, am_readsHistory = readsHistory, am_imageInput = imageInput,
                am_resourceInput = resourceInput, am_emitted = []\<rparr>
          in Inr (m\<lparr>am_state := s\<lparr>st_capabilities := effectiveCapabilities m\<rparr>\<rparr>))"

end
