(* ===== verification/Agent_Manager_Properties.thy ===== *)
theory Agent_Manager_Properties
  imports Agent_Manager Session_Properties
begin

text \<open>
  The observations of a native session are applied at most once, history never speaks for the present,
  nothing that leaves the manager carries a secret, and its cursors stay within its timeline.
\<close>

named_theorems manager_simps \<open>fields that the parts of an action leave alone\<close>

section \<open>Fields left alone\<close>

lemma seen_kept [manager_simps]:
  "am_seen (emit ev m) = am_seen m"
  "am_seen (emitStream e p t r d m) = am_seen m"
  "am_seen (emit_state m) = am_seen m"
  "am_seen (set_attention a m) = am_seen m"
  by (simp_all add: emit_def emitStream_def emit_state_def set_attention_def)

lemma seen_kept_state [manager_simps]:
  "am_seen (background_event b t m) = am_seen m"
  "am_seen (other_turn_started ev m) = am_seen m"
  "am_seen (background_turn_ended ev m) = am_seen m"
  "am_seen (release_claim ev m) = am_seen m"
  "am_seen (runtime_observed pr clock native ri m) = am_seen m"
  "am_seen (publish_interaction ev m) = am_seen m"
  "am_seen (observeAttention i t c m) = am_seen m"
  "am_seen (publish_row ob i t r m) = am_seen m"
  by (simp_all add: manager_simps background_event_def other_turn_started_def background_turn_ended_def release_claim_def
      runtime_observed_def publish_interaction_def observeAttention_def publish_row_def Let_def split: agent_event.split option.split)

lemma seen_kept_event [manager_simps]: "am_seen (applyStateEvent pr clock ev ts native m) = am_seen m"
  by (simp add: manager_simps applyStateEvent_def Let_def split: agent_event.split option.split)

lemma duplicate_cong: "am_seen m' = am_seen m \<Longrightarrow> isDuplicate d ob m' = isDuplicate d ob m"
  by (simp add: isDuplicate_def seen_revisions_def)

lemma remember_duplicate [simp]: "isDuplicate d ob (remember d ob m)"
  by (simp add: isDuplicate_def remember_def seen_revisions_def Let_def)

lemma remember_other: "d \<noteq> d' \<Longrightarrow> isDuplicate d' ob (remember d ob m) = isDuplicate d' ob m"
  by (simp add: isDuplicate_def remember_def seen_revisions_def Let_def)

section \<open>A record is applied once\<close>

lemma applied_duplicate: "isDuplicate EventDomain ob m \<Longrightarrow> applyObservation acquired pr clock h ob m = (None, m)"
  by (simp add: applyObservation_def ok_def)

lemma duplicate_row_stays:
  assumes "(if h then prepend_row else append_row) s i = Inr (DuplicateRow r, s')"
  shows "s' = s \<and> (if h' then prepend_row else append_row) s i = Inr (DuplicateRow r, s)"
  using assms by (auto simp: append_row_def prepend_row_def Let_def split: option.splits if_splits sum.splits)

lemma row_key_only: "existing_row s (row_of ob i t) = existing_row s (row_of ob i' t')"
  by (simp add: existing_row_def row_of_def)

lemma timeline_applied_once:
  assumes "timeline_observation acquired h ob i turnId m = (None, m')"
  shows "isDuplicate EventDomain ob m' \<or> (m' = m \<and> (\<exists>r. existing_row (am_timeline m) (row_of ob i turnId) = Some r))"
proof (cases "isDuplicate EventDomain ob m")
  case True
  with assms show ?thesis by (simp add: timeline_observation_def ok_def)
next
  case False
  with assms have run: "apply_timeline acquired h ob (redacted_item i) turnId m = (None, m')"
    by (simp add: timeline_observation_def)
  let ?add = "(if h then prepend_row else append_row) (am_timeline m) (row_of ob (redacted_item i) turnId)"
  show ?thesis
  proof (cases ?add)
    case (Inl e)
    with run show ?thesis by (simp add: apply_timeline_def)
  next
    case (Inr p)
    obtain res store where p: "p = (res, store)" by force
    show ?thesis
    proof (cases res)
      case (DuplicateRow r)
      with Inr p run have "m' = m" by (simp add: apply_timeline_def)
      moreover have "\<exists>r. existing_row (am_timeline m) (row_of ob (redacted_item i) turnId) = Some r"
        using Inr p DuplicateRow by (auto simp: append_row_def prepend_row_def Let_def split: if_splits option.splits sum.splits)
      ultimately show ?thesis using row_key_only by metis
    next
      case (Appended r)
      let ?m1 = "remember EventDomain ob (m\<lparr>am_timeline := store\<rparr>)"
      have "am_seen m' = am_seen ?m1"
        using run Inr p Appended unfolding apply_timeline_def
        by (auto simp: Let_def manager_simps split: if_splits sum.splits)
      then have "isDuplicate EventDomain ob m' = isDuplicate EventDomain ob ?m1" by (rule duplicate_cong)
      then show ?thesis by simp
    qed
  qed
qed

lemma existing_applied:
  assumes "existing_row (am_timeline m) (row_of ob i turnId) = Some r"
  shows "timeline_observation acquired h ob i' turnId' m = (None, m)"
proof -
  have "existing_row (am_timeline m) (row_of ob (redacted_item i') turnId') = Some r"
    using assms row_key_only by metis
  then show ?thesis
    by (simp add: timeline_observation_def ok_def apply_timeline_def append_row_def prepend_row_def)
qed

lemma acceptRevision_False: "acceptNativeStateRevision d ob m = (False, m') \<Longrightarrow> m' = m"
  by (auto simp: acceptNativeStateRevision_def split: option.splits if_splits)

lemma acceptRevision_seen: "acceptNativeStateRevision d ob m = (b, m') \<Longrightarrow> am_seen m' = am_seen m"
  by (auto simp: acceptNativeStateRevision_def split: option.splits if_splits)

lemma acceptUsage_False: "acceptUsageObservation ob m = (False, m') \<Longrightarrow> m' = m"
  by (auto simp: acceptUsageObservation_def dest: acceptRevision_False split: if_splits prod.splits bool.splits)

lemma acceptUsage_True:
  assumes "acceptUsageObservation ob m = (True, m')"
  shows "isDuplicate UsageDomain ob m'" "isDuplicate EventDomain ob m' = isDuplicate EventDomain ob m"
proof -
  obtain m1 where m1: "acceptNativeStateRevision UsageDomain ob m = (True, m1)" "m' = remember UsageDomain ob m1"
    using assms by (auto simp: acceptUsageObservation_def split: if_splits prod.splits bool.splits)
  then show "isDuplicate UsageDomain ob m'" by simp
  show "isDuplicate EventDomain ob m' = isDuplicate EventDomain ob m"
    using duplicate_cong [OF acceptRevision_seen [OF m1(1)]] by (simp add: m1(2) remember_other)
qed

lemma state_applied_once:
  assumes "state_observation pr clock ob ev m = (None, m')"
  shows "isDuplicate EventDomain ob m'"
proof -
  obtain ts m1 where "m' = publish_state pr clock ob ev ts m1"
    using assms by (auto simp: state_observation_def andThen_def doing_def split: sum.splits prod.splits option.splits)
  then have "am_seen m' = am_seen (remember EventDomain ob (applyStateEvent pr clock ev ts True m1))"
    by (simp add: publish_state_def manager_simps)
  from duplicate_cong [OF this] show ?thesis by simp
qed

lemma live_applied_once:
  assumes "live_event pr clock ob m = (None, m')" "\<not> isDuplicate EventDomain ob m"
  shows "isDuplicate EventDomain ob m' \<or> (m' = m \<and> fst (acceptNativeStateRevision EventDomain ob m) = False)"
proof (cases "acceptNativeStateRevision EventDomain ob m")
  case (Pair b m1)
  show ?thesis
  proof (cases b)
    case False
    with Pair assms(1) acceptRevision_False [of EventDomain ob m m1] show ?thesis by (simp add: live_event_def)
  next
    case True
    show ?thesis
    proof (cases "event_usage (ob_event ob)")
      case None
      with Pair True assms(1) state_applied_once show ?thesis by (auto simp: live_event_def)
    next
      case (Some u)
      obtain b2 m2 where m2: "acceptUsageObservation ob m1 = (b2, m2)" by force
      have "(\<exists>ev. state_observation pr clock ob ev m2 = (None, m')) \<or> m' = remember EventDomain ob m2"
        using assms(1) Pair True Some m2 by (cases b2; cases "ob_event ob") (auto simp: live_event_def event_usage_def)
      with state_applied_once show ?thesis by auto
    qed
  qed
qed

text \<open>C4: A record of the native session takes effect at most once. After an observation has been applied,
  applying a record of the same source and revision again, with whatever arguments and as live or older
  history, changes nothing in the manager and publishes nothing.\<close>
theorem observation_applied_once:
  assumes "applyObservation acquired pr clock h ob m = (None, m')"
  shows "applyObservation acquired' pr' clock' h' ob m' = (None, m')"
proof (cases "isDuplicate EventDomain ob m \<or> isDuplicate EventDomain ob m'")
  case True
  with assms show ?thesis by (auto simp: applied_duplicate)
next
  case False
  then have new: "\<not> isDuplicate EventDomain ob m" "\<not> isDuplicate EventDomain ob m'" by auto
  have timeline: ?thesis if "timeline_observation acquired h ob i t m = (None, m')" "ob_event ob = EvTimeline i t" for i t
  proof -
    from timeline_applied_once [OF that(1)] new obtain r where r: "m' = m" "existing_row (am_timeline m) (row_of ob i t) = Some r"
      by auto
    with that(2) new show ?thesis by (simp add: applyObservation_def existing_applied [OF r(2)])
  qed
  have live: ?thesis if "live_event pr clock ob m = (None, m')" "ob_delivery ob = FromLive" "\<not> is_timeline (ob_event ob)"
  proof -
    from live_applied_once [OF that(1) new(1)] new(2) have "m' = m" "fst (acceptNativeStateRevision EventDomain ob m) = False" by auto
    then obtain m1 where "m' = m" "acceptNativeStateRevision EventDomain ob m = (False, m1)" by (cases "acceptNativeStateRevision EventDomain ob m") auto
    with acceptRevision_False that(2,3) new(1) show ?thesis
      by (auto simp: applyObservation_def live_event_def is_timeline_def split: agent_event.splits)
  qed
  have history: ?thesis if run: "history_event acquired h ob m = (None, m')"
    and kind: "ob_delivery ob = FromHistory" "\<not> is_timeline (ob_event ob)" "\<forall>b t. ob_event ob \<noteq> EvBackground b t"
  proof -
    have eq: "applyObservation acquired' pr' clock' h' ob m' = history_event acquired' h' ob m'"
      using new(2) kind by (simp add: applyObservation_def is_timeline_def split: agent_event.splits)
    show ?thesis unfolding eq
    proof (cases "event_usage (ob_event ob)")
      case (Some u)
      obtain b m1 where accept: "acceptUsageObservation ob m = (b, m1)" by force
      show "history_event acquired' h' ob m' = (None, m')"
      proof (cases b)
        case False
        with accept acceptUsage_False [of ob m m1] run Some show ?thesis by (simp add: history_event_def)
      next
        case True
        with accept run Some have m': "am_seen m' = am_seen m1" by (auto simp: history_event_def)
        have "isDuplicate UsageDomain ob m'"
          using acceptUsage_True(1) [of ob m m1] accept True duplicate_cong [OF m'] by simp
        with Some show ?thesis by (simp add: history_event_def acceptUsageObservation_def)
      qed
    next
      case None
      show "history_event acquired' h' ob m' = (None, m')"
      proof (cases "ob_event ob")
        case (EvRequested rq t)
        with run have "m' = remember EventDomain ob
            (m\<lparr>am_historicalInteractions := jset (am_historicalInteractions m) (rq_requestId rq) rq\<rparr>)"
          by (simp add: history_event_def event_usage_def)
        with new(2) show ?thesis by simp
      next
        case (EvInvalidated i r t)
        with run show ?thesis by (auto simp: history_event_def event_usage_def delete_idem)
      next
        case (EvResolved i rs t)
        let ?m1 = "m\<lparr>am_historicalInteractions := jdelete (am_historicalInteractions m) i\<rparr>"
        have again: "history_event acquired' h' ob ?m1 = (None, ?m1)"
          using EvResolved by (simp add: history_event_def event_usage_def delete_idem Let_def)
        have "m' = ?m1 \<or> (\<exists>it. timeline_observation acquired h ob it t ?m1 = (None, m'))"
          using run EvResolved by (auto simp: history_event_def event_usage_def Let_def split: option.splits if_splits)
        with again timeline_applied_once [of acquired h ob _ t ?m1 m'] new(2) show ?thesis by auto
      qed (use run kind None in \<open>auto simp: history_event_def event_usage_def is_timeline_def\<close>)
    qed
  qed
  show ?thesis
  proof (cases "ob_delivery ob")
    case FromHistory
    show ?thesis
    proof (cases "\<exists>b t. ob_event ob = EvBackground b t")
      case True
      with FromHistory assms new obtain b t where run: "history_background ob b t m = (None, m')"
        by (auto simp: applyObservation_def)
      then have "am_seen m' = am_seen (remember EventDomain ob (m\<lparr>am_timeline := updateBackground (am_timeline m) b\<rparr>))"
        by (auto simp: history_background_def Let_def manager_simps split: sum.splits)
      from duplicate_cong [OF this] new(2) show ?thesis by simp
    next
      case False
      with FromHistory assms new(1) timeline history show ?thesis
        by (auto simp: applyObservation_def is_timeline_def split: agent_event.splits)
    qed
  next
    case FromLive
    with assms new(1) timeline live show ?thesis
      by (auto simp: applyObservation_def is_timeline_def split: agent_event.splits)
  qed
qed

section \<open>What the timeline store gains\<close>

abbreviation row_body :: "row \<Rightarrow> item_body" where
  "row_body r \<equiv> it_body (ro_item r)"

definition extends :: "item_body set \<Rightarrow> timeline_store \<Rightarrow> timeline_store \<Rightarrow> bool" where
  "extends B s s' \<longleftrightarrow> wf_store s' \<and> ts_epoch s' = ts_epoch s \<and> last_seq (ts_rows s) \<le> last_seq (ts_rows s')
     \<and> row_body ` set (ts_rows s') \<subseteq> row_body ` set (ts_rows s) \<union> B"

lemma row_epoch: "wf_store s \<Longrightarrow> r \<in> set (ts_rows s) \<Longrightarrow> ro_epoch r = ts_epoch s"
  by (simp add: wf_store_def)

lemma row_seq_le: "wf_store s \<Longrightarrow> r \<in> set (ts_rows s) \<Longrightarrow> ro_seq r \<le> last_seq (ts_rows s)"
proof -
  assume "wf_store s" "r \<in> set (ts_rows s)"
  then have "ro_seq r \<in> set [first_seq (ts_rows s) .. last_seq (ts_rows s)]"
    by (metis wf_store_def consecutive_def image_eqI list.set_map)
  then show ?thesis by simp
qed

lemma append_extends:
  assumes "wf_store s" "append_row s i = Inr (Appended r, s')"
  shows "extends {it_body (in_item i)} s s'" "r \<in> set (ts_rows s')" "row_body r = it_body (in_item i)"
proof -
  from assms(2) show body: "row_body r = it_body (in_item i)" and mem: "r \<in> set (ts_rows s')"
    by (auto elim: append_row_cases)
  from assms(2) have "row_body ` set (ts_rows s') \<subseteq> row_body ` set (ts_rows s) \<union> {it_body (in_item i)}"
    and "ts_epoch s' = ts_epoch s"
    by (auto elim!: append_row_cases)
  with append_row_wf [OF assms] store_step_cursor [OF step_append [OF assms(2)] assms(1)]
  show "extends {it_body (in_item i)} s s'" by (simp add: extends_def)
qed

lemma prepend_extends:
  assumes "wf_store s" "prepend_row s i = Inr (Appended r, s')"
  shows "extends {it_body (in_item i)} s s'" "r \<in> set (ts_rows s')" "row_body r = it_body (in_item i)"
proof -
  from assms(2) show body: "row_body r = it_body (in_item i)" and mem: "r \<in> set (ts_rows s')"
    by (auto elim: prepend_row_cases)
  from assms(2) have "row_body ` set (ts_rows s') \<subseteq> row_body ` set (ts_rows s) \<union> {it_body (in_item i)}"
    and "ts_epoch s' = ts_epoch s"
    by (auto elim!: prepend_row_cases)
  with prepend_row_wf [OF assms] store_step_cursor [OF step_prepend [OF assms(2)] assms(1)]
  show "extends {it_body (in_item i)} s s'" by (simp add: extends_def)
qed

lemma update_extends: "wf_store s \<Longrightarrow> extends {} s (updateBackground s b)"
  using updateBackground_wf [of s b] store_step_cursor [OF step_background, of s b]
  by (auto simp: extends_def updateBackground_rows)

lemma bind_extends:
  assumes "wf_store s" "bindResources s seq rs = Inr (r, s')"
  shows "extends {} s s'" "r \<in> set (ts_rows s')"
proof -
  from assms obtain r0 where r0: "r0 \<in> set (ts_rows s)" "ro_seq r0 = seq" "r = r0\<lparr>ro_resources := rs\<rparr>"
    and s': "s' = s\<lparr>ts_rows := map (\<lambda>x. if ro_seq x = seq then x\<lparr>ro_resources := rs\<rparr> else x) (ts_rows s)\<rparr>"
    by (rule bindResources_cases)
  then show "r \<in> set (ts_rows s')" by (auto intro: rev_image_eqI)
  show "extends {} s s'"
    using bindResources_wf [OF assms] store_step_cursor [OF step_bind [OF assms(2)] assms(1)] s'
    by (auto simp: extends_def)
qed

lemma extends_trans: "extends A s s' \<Longrightarrow> extends B s' s'' \<Longrightarrow> extends (A \<union> B) s s''"
  unfolding extends_def by (elim conjE, intro conjI) (simp_all, blast)

section \<open>Redacted interactions and cursors\<close>

definition request_safe :: "request \<Rightarrow> bool" where
  "request_safe rq \<longleftrightarrow> (\<exists>rq0. rq = redactInteractionRequest rq0)"

definition response_safe :: "response \<Rightarrow> bool" where
  "response_safe rs \<longleftrightarrow> (\<exists>rq0 rs0. rs = redactInteractionResponse rq0 rs0)"

definition body_safe :: "item_body \<Rightarrow> bool" where
  "body_safe b \<longleftrightarrow>
     (case b of
        Interaction rq rs \<Rightarrow> \<exists>rq0 rs0. rq = redactInteractionRequest rq0 \<and> rs = redactInteractionResponse rq0 rs0
      | _ \<Rightarrow> True)"

definition agent_event_safe :: "agent_event \<Rightarrow> bool" where
  "agent_event_safe ev \<longleftrightarrow>
     (case ev of
        EvTimeline i _ \<Rightarrow> body_safe (it_body i) | EvRequested rq _ \<Rightarrow> request_safe rq
      | EvResolved _ rs _ \<Rightarrow> response_safe rs | _ \<Rightarrow> True)"

definition cursor_within :: "cursor \<Rightarrow> timeline_store \<Rightarrow> bool" where
  "cursor_within c s \<longleftrightarrow> cu_epoch c = ts_epoch s \<and> cu_seq c \<le> last_seq (ts_rows s)"

definition attention_within :: "session_state \<Rightarrow> cursor \<Rightarrow> bool" where
  "attention_within s c \<longleftrightarrow>
     (case st_attention s of
        None \<Rightarrow> True
      | Some a \<Rightarrow> cu_epoch (att_cursor a) = cu_epoch c \<and> cu_seq (att_cursor a) \<le> cu_seq c)"

definition state_safe :: "session_state \<Rightarrow> bool" where
  "state_safe s \<longleftrightarrow> (\<forall>rq \<in> set (st_pendingInteractions s). request_safe rq)
     \<and> distinct (map rq_requestId (st_pendingInteractions s))"

definition emitted_safe :: "manager_event \<Rightarrow> bool" where
  "emitted_safe ev \<longleftrightarrow>
     (case ev of
        AgentStateEvent s c \<Rightarrow> state_safe s \<and> attention_within s c
      | AgentStreamEvent e _ _ r _ \<Rightarrow> agent_event_safe e \<and> (case r of None \<Rightarrow> True | Some x \<Rightarrow> body_safe (row_body x))
      | RequestedEvent rq \<Rightarrow> request_safe rq
      | ResolvedEvent _ rs \<Rightarrow> response_safe rs
      | _ \<Rightarrow> True)"

definition manager_ok :: "manager \<Rightarrow> bool" where
  "manager_ok m \<longleftrightarrow> wf_store (am_timeline m)
     \<and> cursor_within (am_attentionCursor m) (am_timeline m)
     \<and> attention_within (am_state m) (store_cursor (am_timeline m))
     \<and> (\<forall>b \<in> row_body ` set (ts_rows (am_timeline m)). body_safe b)
     \<and> state_safe (am_state m) \<and> (\<forall>ev \<in> set (am_emitted m). emitted_safe ev)"

lemma attention_later: "attention_within s (store_cursor t) \<Longrightarrow> extends B t t' \<Longrightarrow> attention_within s (store_cursor t')"
  by (auto simp: attention_within_def extends_def store_cursor_def split: option.splits)

lemma cursor_later: "cursor_within c t \<Longrightarrow> extends B t t' \<Longrightarrow> cursor_within c t'"
  by (auto simp: cursor_within_def extends_def)

lemma cursor_self [simp]: "cursor_within (store_cursor t) t"
  by (simp add: cursor_within_def store_cursor_def)

lemma timeline_ok:
  "manager_ok m \<Longrightarrow> extends B (am_timeline m) t \<Longrightarrow> \<forall>b \<in> B. body_safe b \<Longrightarrow> manager_ok (m\<lparr>am_timeline := t\<rparr>)"
  using attention_later [of "am_state m" "am_timeline m" B t] cursor_later [of "am_attentionCursor m" "am_timeline m" B t]
  by (auto simp: manager_ok_def extends_def)

lemma emit_ok: "manager_ok m \<Longrightarrow> emitted_safe ev \<Longrightarrow> manager_ok (emit ev m)"
  by (simp add: manager_ok_def emit_def)

lemma emit_state_ok: "manager_ok m \<Longrightarrow> manager_ok (emit_state m)"
  unfolding emit_state_def by (rule emit_ok) (simp_all add: manager_ok_def emitted_safe_def)

text \<open>Updates of fields the invariant does not mention.\<close>

lemma other_fields_ok [simp]:
  "manager_ok (m\<lparr>am_generation := a\<rparr>) = manager_ok m"
  "manager_ok (m\<lparr>am_attentionTurnId := b\<rparr>) = manager_ok m"
  "manager_ok (m\<lparr>am_bufferedLive := c\<rparr>) = manager_ok m"
  "manager_ok (m\<lparr>am_olderHistoryCursor := d\<rparr>) = manager_ok m"
  "manager_ok (m\<lparr>am_historyLoading := e\<rparr>) = manager_ok m"
  "manager_ok (m\<lparr>am_seen := f\<rparr>) = manager_ok m"
  "manager_ok (m\<lparr>am_claimed := g\<rparr>) = manager_ok m"
  "manager_ok (m\<lparr>am_ready := h\<rparr>) = manager_ok m"
  "manager_ok (m\<lparr>am_boundarySeen := i\<rparr>) = manager_ok m"
  "manager_ok (m\<lparr>am_closed := j\<rparr>) = manager_ok m"
  "manager_ok (m\<lparr>am_nativeStateRevision := k\<rparr>) = manager_ok m"
  "manager_ok (m\<lparr>am_runtimeReadRevision := k\<rparr>) = manager_ok m"
  "manager_ok (m\<lparr>am_historicalInteractions := l\<rparr>) = manager_ok m"
  "manager_ok (m\<lparr>am_nativeStateVersions := n\<rparr>) = manager_ok m"
  "manager_ok (m\<lparr>am_settings := p\<rparr>) = manager_ok m"
  "manager_ok (m\<lparr>am_listeners := q\<rparr>) = manager_ok m"
  "manager_ok (m\<lparr>am_pendingCommands := q\<rparr>) = manager_ok m"
  by (simp_all add: manager_ok_def)

lemma attention_cursor_ok:
  "manager_ok m \<Longrightarrow> cursor_within c (am_timeline m) \<Longrightarrow> manager_ok (m\<lparr>am_attentionCursor := c\<rparr>)"
  by (simp add: manager_ok_def)

lemma set_attention_ok:
  "manager_ok m \<Longrightarrow> (\<And>x. a = Some x \<Longrightarrow> cursor_within (att_cursor x) (am_timeline m)) \<Longrightarrow> manager_ok (set_attention a m)"
  by (auto simp: manager_ok_def set_attention_def attention_within_def cursor_within_def store_cursor_def state_safe_def
      split: option.splits)

section \<open>Every part of an action keeps them\<close>

lemma update_ok: "manager_ok m \<Longrightarrow> manager_ok (m\<lparr>am_timeline := updateBackground (am_timeline m) b\<rparr>)"
  by (rule timeline_ok [where B = "{}"]) (simp_all add: update_extends manager_ok_def)

lemma background_event_ok: "manager_ok m \<Longrightarrow> manager_ok (background_event b t m)"
  by (auto simp: background_event_def Let_def intro!: set_attention_ok attention_cursor_ok update_ok)
    (use update_ok [of m b] in \<open>auto simp: manager_ok_def\<close>)

lemma attention_held: "manager_ok m \<Longrightarrow> st_attention (am_state m) = Some a \<Longrightarrow> cursor_within (att_cursor a) (am_timeline m)"
  by (simp add: manager_ok_def attention_within_def cursor_within_def store_cursor_def)

lemma other_turn_started_ok: "manager_ok m \<Longrightarrow> manager_ok (other_turn_started ev m)"
  using attention_held [of m] by (auto simp: other_turn_started_def no_background_def intro!: set_attention_ok split: option.split agent_event.split)

lemma set_attention_timeline [simp]: "am_timeline (set_attention a m) = am_timeline m"
  by (simp add: set_attention_def)

lemma background_turn_ended_ok:
  assumes "manager_ok m"
  shows "manager_ok (background_turn_ended ev m)"
proof (cases "current_background m")
  case (Some b)
  let ?failed = "b\<lparr>bg_status := BgFailed\<rparr>"
  let ?m1 = "m\<lparr>am_timeline := updateBackground (am_timeline m) ?failed\<rparr>"
  let ?c = "store_cursor (am_timeline ?m1)"
  have "manager_ok (set_attention (Some \<lparr>att_cursor = ?c, att_background = Some ?failed\<rparr>) ?m1)"
    by (rule set_attention_ok [OF update_ok [OF assms]]) (auto simp del: updateBackground_other)
  from attention_cursor_ok [OF this, of ?c] assms Some show ?thesis by (simp add: background_turn_ended_def Let_def)
qed (use assms in \<open>simp add: background_turn_ended_def\<close>)

lemma release_claim_ok [simp]: "manager_ok (release_claim ev m) = manager_ok m"
  by (simp add: release_claim_def split: agent_event.split)

text \<open>The state may change in all but its attention and its pending interactions.\<close>

lemma state_ok:
  "manager_ok m \<Longrightarrow> st_attention s = st_attention (am_state m) \<Longrightarrow> state_safe s \<Longrightarrow> manager_ok (m\<lparr>am_state := s\<rparr>)"
  by (simp add: manager_ok_def attention_within_def)

lemma runtime_observed_ok: "manager_ok m \<Longrightarrow> manager_ok (runtime_observed pr clock native ri m)"
  unfolding runtime_observed_def Let_def
  by (rule state_ok [of "m\<lparr>am_settings := _\<rparr>", simplified])
    (auto simp: manager_ok_def state_safe_def split: option.split)

lemma transition_attention [simp]: "st_attention (reduceSessionState s ev t) = st_attention s"
  by (cases ev) (simp_all add: reduceSessionState_def withSessionInteractions_def apply_runtime_def Let_def)

lemma jset_values: "set (jvalues (jset m k v)) \<subseteq> Set.insert v (set (jvalues m))"
  using set_jset [where m = m and k = k and v = v] by auto

lemma index_by_values: "set (jvalues (index_by f xs)) \<subseteq> set xs"
proof (induction xs rule: rev_induct)
  case (snoc x xs)
  with jset_values [where m = "index_by f xs" and k = "f x" and v = x] show ?case by (simp only: index_by_snoc) auto
qed simp

lemma upsert_values: "set (upsert_request rq pending) \<subseteq> Set.insert rq (set pending)"
  using index_by_values [of rq_requestId pending] jset_values [where m = "index_by rq_requestId pending" and k = "rq_requestId rq" and v = rq]
  unfolding upsert_request_def by blast

lemma reduced_pending:
  "set (st_pendingInteractions (reduceSessionState s ev t)) \<subseteq> set (st_pendingInteractions s)
     \<union> {rq. ev = InteractionRequested rq}"
proof (cases ev)
  case (InteractionRequested rq)
  then show ?thesis using upsert_values [of rq "st_pendingInteractions s"]
    by (auto simp: reduceSessionState_def withSessionInteractions_def Let_def)
qed (auto simp: reduceSessionState_def withSessionInteractions_def apply_runtime_def Let_def drop_request_def)

lemma reduce_distinct:
  "distinct (map rq_requestId (st_pendingInteractions s)) \<Longrightarrow>
   distinct (map rq_requestId (st_pendingInteractions (reduceSessionState s ev t)))"
  by (cases ev) (simp_all add: reduceSessionState_def withSessionInteractions_def apply_runtime_def Let_def)

lemma reduce_safe: "state_safe s \<Longrightarrow> agent_event_safe ev \<Longrightarrow> state_event_of ev = Some se \<Longrightarrow> state_safe (reduceSessionState s se t)"
  using reduced_pending [of s se t] reduce_distinct [of s se t] by (cases ev) (auto simp: state_safe_def agent_event_safe_def)

lemma applyStateEvent_ok:
  assumes "manager_ok m" "agent_event_safe ev"
  shows "manager_ok (applyStateEvent pr clock ev ts native m)"
proof -
  define m1 where "m1 = (case ev of EvBackground b t \<Rightarrow> background_event b t m | _ \<Rightarrow> m)"
  define m2 where "m2 = background_turn_ended ev (other_turn_started ev m1)"
  define m3 where "m3 = release_claim ev (m2\<lparr>am_nativeStateRevision := am_nativeStateRevision m2 + 1\<rparr>)"
  define m4 where "m4 = (case state_event_of ev of None \<Rightarrow> m3 | Some se \<Rightarrow> m3\<lparr>am_state := reduceSessionState (am_state m3) se ts\<rparr>)"
  define m5 where "m5 = (case ev of EvRuntime ri _ \<Rightarrow> runtime_observed pr clock native ri m4 | _ \<Rightarrow> m4)"
  note stages = m1_def m2_def m3_def m4_def m5_def
  have "manager_ok m1" using assms(1) background_event_ok by (cases ev) (auto simp: m1_def)
  then have "manager_ok m2" unfolding m2_def by (intro background_turn_ended_ok other_turn_started_ok)
  then have m3: "manager_ok m3" by (simp add: m3_def)
  have m4: "manager_ok m4"
  proof (cases "state_event_of ev")
    case (Some se)
    have "state_safe (am_state m3)" using m3 by (simp add: manager_ok_def)
    from state_ok [OF m3 transition_attention reduce_safe [OF this assms(2) Some]] Some show ?thesis by (simp add: m4_def)
  qed (use m3 in \<open>simp add: m4_def\<close>)
  then have "manager_ok m5" using runtime_observed_ok by (cases ev) (simp_all add: m5_def)
  from emit_state_ok [OF this] show ?thesis unfolding applyStateEvent_def Let_def stages .
qed

lemma observeAttention_ok:
  assumes "manager_ok m" "cursor_within c (am_timeline m)"
  shows "manager_ok (observeAttention i t c m)"
proof -
  define m1 where "m1 = m\<lparr>am_attentionTurnId := (if it_background i = None then None else t)\<rparr>"
  define b where "b = observed_background (current_background m1) i"
  define m2 where "m2 = (case b of None \<Rightarrow> m1\<lparr>am_attentionCursor := c\<rparr>
    | Some b \<Rightarrow> if bg_status b = BgVisible \<or> bg_status b = BgFailed then m1\<lparr>am_attentionCursor := c\<rparr> else m1)"
  define m3 where "m3 = set_attention (Some \<lparr>att_cursor = am_attentionCursor m2, att_background = b\<rparr>) m2"
  have m1: "manager_ok m1" "cursor_within c (am_timeline m1)" using assms by (simp_all add: m1_def)
  then have m2: "manager_ok m2" by (auto simp: m2_def split: option.split intro: attention_cursor_ok)
  then have "manager_ok m3" unfolding m3_def by (intro set_attention_ok) (auto simp: manager_ok_def)
  with m2 emit_state_ok have "manager_ok (if st_attention (am_state m1) = None \<and> b = None then m2
      else if current_background m1 \<noteq> b then emit_state m3 else m3)" by simp
  then show ?thesis unfolding observeAttention_def Let_def m3_def m2_def b_def m1_def .
qed

lemma emitStream_ok:
  "manager_ok m \<Longrightarrow> agent_event_safe ev \<Longrightarrow> (\<And>x. r = Some x \<Longrightarrow> body_safe (row_body x)) \<Longrightarrow> manager_ok (emitStream ev p ts r d m)"
  unfolding emitStream_def by (rule emit_ok) (auto simp: emitted_safe_def split: option.split)

lemma publish_row_ok:
  assumes "manager_ok m" "r \<in> set (ts_rows (am_timeline m))" "body_safe (it_body i)"
  shows "manager_ok (publish_row ob i t r m)"
proof -
  let ?c = "\<lparr>cu_epoch = ro_epoch r, cu_seq = ro_seq r\<rparr>"
  have wf: "wf_store (am_timeline m)" using assms(1) by (simp add: manager_ok_def)
  have c: "cursor_within ?c (am_timeline m)"
    using row_epoch [OF wf assms(2)] row_seq_le [OF wf assms(2)] by (simp add: cursor_within_def)
  have body: "body_safe (row_body r)" using assms(1,2) by (auto simp: manager_ok_def)
  show ?thesis unfolding publish_row_def Let_def
    by (rule emitStream_ok)
      (use assms(1,3) c body observeAttention_ok attention_cursor_ok in \<open>auto simp: agent_event_safe_def\<close>)
qed

section \<open>Actions\<close>

text \<open>A redacted request hides the same answers and fields as the request.\<close>

lemma find_field_redacted: "find_field (redactInteractionRequest rq) k = map_option redact_field (find_field rq k)"
proof -
  have "find (\<lambda>f. ff_fieldId f = k) (map redact_field fs) = map_option redact_field (find (\<lambda>f. ff_fieldId f = k) fs)" for fs
    by (induction fs) simp_all
  then show ?thesis by (simp add: find_field_def redactInteractionRequest_def split: request_body.split)
qed

lemma redact_values_request: "redact_values (redactInteractionRequest rq) ks vals rs = redact_values rq ks vals rs"
proof (induction rq ks vals rs rule: redact_values.induct)
  case (2 rq k ks vals rs)
  have "hide_field (redactInteractionRequest rq) rs k = hide_field rq rs k"
    by (simp add: hide_field_def find_field_redacted split: option.split)
  with 2 show ?case by simp
qed simp

lemma redact_response_request: "redactInteractionResponse (redactInteractionRequest rq) rs = redactInteractionResponse rq rs"
proof -
  have "hide_answer (redactInteractionRequest rq) a = hide_answer rq a" for a
    by (simp add: hide_answer_def redactInteractionRequest_def split: request_body.split)
  then have "redact_answer (redactInteractionRequest rq) = redact_answer rq" by (simp add: redact_answer_def fun_eq_iff)
  then show ?thesis by (simp add: redactInteractionResponse_def redact_values_request split: response.split)
qed

definition keeps :: "action \<Rightarrow> bool" where
  "keeps f \<longleftrightarrow> (\<forall>m e m'. manager_ok m \<longrightarrow> f m = (e, m') \<longrightarrow> manager_ok m')"

lemma keepsI: "(\<And>m e m'. manager_ok m \<Longrightarrow> f m = (e, m') \<Longrightarrow> manager_ok m') \<Longrightarrow> keeps f"
  by (simp add: keeps_def)

lemma keepsD: "keeps f \<Longrightarrow> manager_ok m \<Longrightarrow> f m = (e, m') \<Longrightarrow> manager_ok m'"
  by (simp add: keeps_def)

lemma keeps_doing: "(\<And>m. manager_ok m \<Longrightarrow> manager_ok (f m)) \<Longrightarrow> keeps (doing f)"
  by (auto simp: keeps_def doing_def)

lemma keeps_andThen: "keeps f \<Longrightarrow> keeps g \<Longrightarrow> keeps (andThen f g)"
  by (rule keepsI) (auto simp: andThen_def split: prod.splits option.splits dest: keepsD)

lemma keeps_each: "(\<And>ob. keeps (f ob)) \<Longrightarrow> keeps (each_observation f obs)"
proof (induction obs)
  case Nil
  then show ?case by (simp add: keeps_def ok_def)
next
  case (Cons ob obs)
  then have "keeps (andThen (f ob) (each_observation f obs))" by (intro keeps_andThen) auto
  then show ?case by (simp add: keeps_def)
qed

lemma remember_ok [simp]: "manager_ok (remember d ob m) = manager_ok m"
  by (simp add: remember_def Let_def)

lemma remember_timeline [simp]: "am_timeline (remember d ob m) = am_timeline m"
  by (simp add: remember_def Let_def)

lemma redacted_body_safe: "body_safe (it_body (redacted_item i))"
  by (auto simp: redacted_item_def body_safe_def split: item_body.splits)

lemma apply_timeline_ok: "body_safe (it_body i) \<Longrightarrow> keeps (apply_timeline acquired h ob i t)"
proof (rule keepsI)
  fix m e m'
  assume safe: "body_safe (it_body i)" and ok: "manager_ok m" and run: "apply_timeline acquired h ob i t m = (e, m')"
  have wf: "wf_store (am_timeline m)" using ok by (simp add: manager_ok_def)
  let ?add = "(if h then prepend_row else append_row) (am_timeline m) (row_of ob i t)"
  show "manager_ok m'"
  proof (cases "\<exists>r store. ?add = Inr (Appended r, store)")
    case False
    then have "m' = m" using run by (auto simp: apply_timeline_def split: sum.splits append_result.splits prod.splits)
    with ok show ?thesis by simp
  next
    case True
    then obtain r store where add: "?add = Inr (Appended r, store)" by blast
    have ext: "extends {it_body i} (am_timeline m) store" and mem: "r \<in> set (ts_rows store)"
      using append_extends [OF wf, of "row_of ob i t" r store] prepend_extends [OF wf, of "row_of ob i t" r store] add
      by (auto simp: row_of_def split: if_splits)
    define m1 where "m1 = remember EventDomain ob (m\<lparr>am_timeline := store\<rparr>)"
    have m1: "manager_ok m1" "am_timeline m1 = store" using timeline_ok [OF ok ext] safe by (simp_all add: m1_def)
    then have wf1: "wf_store store" by (simp add: manager_ok_def)
    define bound where "bound = (if acquired ob i = [] then Inr (r, store) else bindResources store (ro_seq r) (acquired ob i))"
    have result: "(e, m') = (case bound of Inl e \<Rightarrow> (Some e, m1)
        | Inr (r', store') \<Rightarrow> (None, if h then m1\<lparr>am_timeline := store'\<rparr> else publish_row ob i t r' (m1\<lparr>am_timeline := store'\<rparr>)))"
      using run unfolding apply_timeline_def add bound_def m1_def by (simp only: sum.case prod.case append_result.case Let_def)
    show ?thesis
    proof (cases bound)
      case (Inl x)
      with result m1 show ?thesis by simp
    next
      case (Inr p)
      obtain r' store' where p: "p = (r', store')" by force
      have "extends {} store store' \<and> r' \<in> set (ts_rows store')"
        using Inr p bind_extends [OF wf1, of "ro_seq r" "acquired ob i" r' store'] mem wf1
        by (auto simp: bound_def extends_def split: if_splits)
      then have "manager_ok (m1\<lparr>am_timeline := store'\<rparr>)" "r' \<in> set (ts_rows (am_timeline (m1\<lparr>am_timeline := store'\<rparr>)))"
        using timeline_ok [OF m1(1), of "{}" store'] m1(2) by auto
      with publish_row_ok [OF this safe] result Inr p show ?thesis by (cases h) simp_all
    qed
  qed
qed

lemma timeline_observation_ok: "keeps (timeline_observation acquired h ob i t)"
  using apply_timeline_ok [OF redacted_body_safe, of acquired h ob i t]
  by (auto simp: keeps_def timeline_observation_def ok_def split: if_splits)

lemma history_background_ok: "keeps (history_background ob b t)"
proof (rule keepsI)
  fix m e m'
  assume "manager_ok m" and run: "history_background ob b t m = (e, m')"
  then have "manager_ok (remember EventDomain ob (m\<lparr>am_timeline := updateBackground (am_timeline m) b\<rparr>))"
    by (simp add: update_ok)
  with run show "manager_ok m'"
    by (auto simp: history_background_def Let_def agent_event_safe_def intro: emitStream_ok split: sum.splits)
qed

lemma revision_ok: "acceptNativeStateRevision d ob m = (b, m') \<Longrightarrow> manager_ok m' = manager_ok m"
  by (auto simp: acceptNativeStateRevision_def split: option.splits if_splits)

lemma accept_usage_ok: "acceptUsageObservation ob m = (b, m') \<Longrightarrow> manager_ok m' = manager_ok m"
  by (auto simp: acceptUsageObservation_def dest: revision_ok split: if_splits prod.splits bool.splits)

lemma usage_ok: "manager_ok m \<Longrightarrow> manager_ok (m\<lparr>am_state := (am_state m)\<lparr>st_lastUsage := u\<rparr>\<rparr>)"
  by (rule state_ok) (simp_all add: manager_ok_def state_safe_def)

lemma history_event_ok: "keeps (history_event acquired h ob)"
proof (rule keepsI)
  fix m e m'
  assume ok: "manager_ok m" and run: "history_event acquired h ob m = (e, m')"
  show "manager_ok m'"
  proof (cases "event_usage (ob_event ob)")
    case (Some u)
    obtain b m1 where m1: "acceptUsageObservation ob m = (b, m1)" by force
    with accept_usage_ok [OF m1] ok have "manager_ok m1" by simp
    with run Some m1 usage_ok show ?thesis by (cases b) (auto simp: history_event_def)
  next
    case None
    show ?thesis
    proof (cases "ob_event ob")
      case (EvResolved i rs t)
      let ?m1 = "m\<lparr>am_historicalInteractions := jdelete (am_historicalInteractions m) i\<rparr>"
      have "m' = ?m1 \<or> (\<exists>it. timeline_observation acquired h ob it t ?m1 = (e, m'))"
        using run EvResolved by (auto simp: history_event_def event_usage_def Let_def split: option.splits if_splits)
      with ok keepsD [OF timeline_observation_ok, of ?m1] show ?thesis by auto
    qed (use run ok None in \<open>auto simp: history_event_def event_usage_def\<close>)
  qed
qed

lemma redacted_event_safe: "agent_event_safe (redacted_event m ev)"
  by (cases ev) (auto simp: redacted_event_def agent_event_safe_def redacted_body_safe request_safe_def response_safe_def)

lemma find_by_id: "distinct (map f xs) \<Longrightarrow> x \<in> set xs \<Longrightarrow> find (\<lambda>y. f y = f x) xs = Some x"
  by (induction xs) (auto simp: rev_image_eqI)

lemma complete_interaction_ok:
  assumes "manager_ok m" "complete_interaction ob (redacted_event m ev) m = (e, m')"
  shows "manager_ok m'"
proof (cases ev)
  case (EvResolved i rs t)
  define rq1 where "rq1 = (case pending_request m i of Some rq \<Rightarrow> rq | None \<Rightarrow> \<lparr>rq_requestId = i, rq_body = QuestionRequest []\<rparr>)"
  define rs' where "rs' = redactInteractionResponse rq1 rs"
  have ev: "redacted_event m ev = EvResolved i rs' t" by (simp add: EvResolved redacted_event_def rs'_def rq1_def)
  define found where "found = find (\<lambda>rq. rq_requestId rq = i \<and> request_kind (rq_body rq) = response_kind rs') (st_pendingInteractions (am_state m))"
  show ?thesis
  proof (cases found)
    case None
    with assms show ?thesis unfolding ev by (simp add: complete_interaction_def found_def ok_def)
  next
    case (Some rq)
    then have rq: "rq \<in> set (st_pendingInteractions (am_state m))" "rq_requestId rq = i"
      by (auto simp: found_def find_Some_iff)
    have "request_safe rq" and dist: "distinct (map rq_requestId (st_pendingInteractions (am_state m)))"
      using assms(1) rq(1) by (auto simp: manager_ok_def state_safe_def)
    then obtain rq0 where rq0: "rq = redactInteractionRequest rq0" by (auto simp: request_safe_def)
    have "pending_request m i = Some rq"
      using find_by_id [of rq_requestId, OF dist rq(1)] rq(2) by (simp add: pending_request_def)
    then have "rs' = redactInteractionResponse rq0 rs" by (simp add: rs'_def rq1_def rq0 redact_response_request)
    with rq0 have safe: "body_safe (Interaction rq rs')" by (auto simp: body_safe_def)
    let ?item = "\<lparr>it_body = Interaction rq rs', it_background = None\<rparr>"
    have wf: "wf_store (am_timeline m)" using assms(1) by (simp add: manager_ok_def)
    have run: "(e, m') = (case append_row (am_timeline m) (row_of ob ?item t) of
          Inl e \<Rightarrow> (Some e, m)
        | Inr (DuplicateRow _, _) \<Rightarrow> (None, m)
        | Inr (Appended r, store) \<Rightarrow>
            (None, emitStream (EvTimeline ?item t) (ob_provider ob) (ro_timestamp r) (Some r) None (m\<lparr>am_timeline := store\<rparr>)))"
      using assms(2) Some unfolding ev found_def by (simp add: complete_interaction_def Let_def)
    show ?thesis
    proof (cases "\<exists>r store. append_row (am_timeline m) (row_of ob ?item t) = Inr (Appended r, store)")
      case False
      with run assms(1) show ?thesis by (auto split: sum.splits prod.splits append_result.splits)
    next
      case True
      then obtain r store where add: "append_row (am_timeline m) (row_of ob ?item t) = Inr (Appended r, store)" by blast
      from append_extends [OF wf add] safe have ext: "extends {Interaction rq rs'} (am_timeline m) store" "row_body r = Interaction rq rs'"
        by (simp_all add: row_of_def)
      from timeline_ok [OF assms(1) ext(1)] safe have "manager_ok (m\<lparr>am_timeline := store\<rparr>)" by simp
      from emitStream_ok [OF this, of "EvTimeline ?item t" "Some r" "ob_provider ob" "ro_timestamp r" None] safe ext(2)
      show ?thesis using run add by (simp add: agent_event_safe_def)
    qed
  qed
qed (use assms in \<open>auto simp: complete_interaction_def redacted_event_def ok_def\<close>)

lemma publish_interaction_ok: "manager_ok m \<Longrightarrow> agent_event_safe ev \<Longrightarrow> manager_ok (publish_interaction ev m)"
  by (cases ev) (auto simp: publish_interaction_def agent_event_safe_def emitted_safe_def intro: emit_ok)

lemma publish_state_ok: "manager_ok m \<Longrightarrow> agent_event_safe ev \<Longrightarrow> manager_ok (publish_state pr clock ob ev ts m)"
  unfolding publish_state_def
  by (intro publish_interaction_ok emitStream_ok remember_ok [THEN iffD2] applyStateEvent_ok) auto

lemma state_observation_ok:
  assumes "manager_ok m" "state_observation pr clock ob (redacted_event m ev) m = (e, m')"
  shows "manager_ok m'"
  using assms redacted_event_safe [of m ev]
  by (auto simp: state_observation_def andThen_def doing_def dest: complete_interaction_ok intro: publish_state_ok
      split: sum.splits prod.splits option.splits)

lemma live_event_ok: "keeps (live_event pr clock ob)"
proof (rule keepsI)
  fix m e m'
  assume ok: "manager_ok m" and run: "live_event pr clock ob m = (e, m')"
  obtain b m1 where m1: "acceptNativeStateRevision EventDomain ob m = (b, m1)" by force
  with revision_ok [OF m1] ok have ok1: "manager_ok m1" by simp
  show "manager_ok m'"
  proof (cases "b \<and> event_usage (ob_event ob) \<noteq> None")
    case False
    with run m1 ok1 state_observation_ok [OF ok1] show ?thesis by (cases b) (auto simp: live_event_def)
  next
    case True
    obtain b2 m2 where m2: "acceptUsageObservation ob m1 = (b2, m2)" by force
    with accept_usage_ok [OF m2] ok1 have ok2: "manager_ok m2" by simp
    have "(\<exists>ev. state_observation pr clock ob (redacted_event m2 ev) m2 = (e, m')) \<or> m' = remember EventDomain ob m2"
      using run m1 m2 True by (cases b2; cases "ob_event ob") (auto simp: live_event_def event_usage_def)
    with state_observation_ok [OF ok2] ok2 show ?thesis by auto
  qed
qed

lemma applyObservation_ok: "keeps (applyObservation acquired pr clock h ob)"
proof (rule keepsI)
  fix m e m'
  assume ok: "manager_ok m" and run: "applyObservation acquired pr clock h ob m = (e, m')"
  have "m' = m \<or> live_event pr clock ob m = (e, m') \<or> history_event acquired h ob m = (e, m')
      \<or> (\<exists>i t. timeline_observation acquired h ob i t m = (e, m')) \<or> (\<exists>b t. history_background ob b t m = (e, m'))"
    using run by (cases "ob_event ob") (auto simp: applyObservation_def ok_def split: if_splits)
  then show "manager_ok m'"
    by (elim disjE exE) (use ok keepsD [OF live_event_ok ok] keepsD [OF history_event_ok ok]
      keepsD [OF timeline_observation_ok ok] keepsD [OF history_background_ok ok] in auto)
qed


section \<open>The stream of items and older history\<close>

lemma keeps_const: "(\<And>m. manager_ok m \<Longrightarrow> manager_ok (snd (f m))) \<Longrightarrow> keeps f"
  by (simp add: keeps_def) (metis snd_conv)

lemma emit_silent_ok: "manager_ok m \<Longrightarrow> (\<And>s c. ev \<noteq> AgentStateEvent s c) \<Longrightarrow> (\<And>e p t r d. ev \<noteq> AgentStreamEvent e p t r d)
    \<Longrightarrow> (\<And>rq. ev \<noteq> RequestedEvent rq) \<Longrightarrow> (\<And>i rs. ev \<noteq> ResolvedEvent i rs) \<Longrightarrow> manager_ok (emit ev m)"
  by (rule emit_ok) (auto simp: emitted_safe_def split: manager_event.split)

lemma emit_rebuilt_ok: "manager_ok m \<Longrightarrow> manager_ok (emit_rebuilt m)"
  unfolding emit_rebuilt_def by (rule emit_silent_ok) simp_all

lemma resetTimeline_ok:
  assumes "manager_ok m" "resetTimeline epoch m = (r, m')"
  shows "manager_ok m'"
proof (cases "epoch = ts_epoch (am_timeline m)")
  case True
  with assms show ?thesis by (auto simp: resetTimeline_def)
next
  case False
  show ?thesis
  proof (cases "new_store epoch")
    case (Inl e)
    with assms False show ?thesis by (auto simp: resetTimeline_def)
  next
    case (Inr store)
    have store: "wf_store store" "ts_epoch store = epoch" "ts_rows store = []"
      using new_store_wf [OF Inr] Inr by (auto simp: new_store_def split: if_splits)
    let ?m = "set_attention None (m\<lparr>am_timeline := store, am_generation := am_generation m + 1,
      am_attentionCursor := \<lparr>cu_epoch = epoch, cu_seq = 0\<rparr>, am_attentionTurnId := None,
      am_seen := [], am_olderHistoryCursor := None, am_historyLoading := None\<rparr>)"
    have "manager_ok ?m" using assms(1) store
      by (simp add: manager_ok_def set_attention_def cursor_within_def attention_within_def state_safe_def)
    then have "manager_ok (emit (TimelineReplacementEvent epoch) ?m)" by (rule emit_silent_ok) simp_all
    with assms(2) False Inr show ?thesis by (simp add: resetTimeline_def)
  qed
qed

lemma keeps_doing_rebuilt: "keeps (doing emit_rebuilt)"
  by (rule keeps_doing) (rule emit_rebuilt_ok)

lemma resolveReadiness_ok [simp]: "manager_ok (resolveReadiness m) = manager_ok m"
  by (simp add: resolveReadiness_def)

lemma rejectReadiness_ok [simp]: "manager_ok (rejectReadiness e m) = manager_ok m"
  by (simp add: rejectReadiness_def)

lemma keeps_resolve: "keeps (doing resolveReadiness)"
  by (rule keeps_doing) simp

text \<open>The items of the stream, for any treatment of an observation that keeps the manager.\<close>

lemma replacement_item_ok:
  assumes "\<And>ob. keeps (f ob)"
  shows "keeps (replacement_item f uuid older obs)"
proof (rule keepsI)
  fix m e m'
  assume ok: "manager_ok m" and run: "replacement_item f uuid older obs m = (e, m')"
  note reload = keepsD [OF keeps_andThen [OF keeps_each [OF assms] keeps_doing_rebuilt]]
  obtain r m1 where reset: "resetTimeline uuid m = (r, m1)" by force
  have "manager_ok (m1\<lparr>am_olderHistoryCursor := older\<rparr>)" using resetTimeline_ok [OF ok reset] by simp
  from reload [OF this] run ok resetTimeline_ok [OF ok reset] reset show "manager_ok m'"
    by (auto simp: replacement_item_def fails_def split: if_splits sum.splits)
qed

lemma boundary_item_ok:
  assumes "\<And>ob. keeps (f ob)"
  shows "keeps (boundary_item f older)"
proof (rule keepsI)
  fix m e m'
  assume ok: "manager_ok m" and run: "boundary_item f older m = (e, m')"
  let ?m = "m\<lparr>am_historicalInteractions := [], am_boundarySeen := True, am_olderHistoryCursor := older, am_bufferedLive := []\<rparr>"
  have "manager_ok ?m" using ok by simp
  from keepsD [OF keeps_andThen [OF keeps_each [OF assms] keeps_resolve] this] run ok show "manager_ok m'"
    by (auto simp: boundary_item_def fails_def split: if_splits)
qed

lemma observation_item_ok: "keeps (f ob) \<Longrightarrow> keeps (observation_item f ob)"
  by (auto simp: keeps_def observation_item_def fails_def)

lemma stream_action_ok: "(\<And>ob. keeps (f ob)) \<Longrightarrow> keeps (stream_action f uuid i)"
  by (cases i) (simp_all add: keeps_def [of "stream_action _ _ _"] flip: keeps_def,
      metis keepsD observation_item_ok, metis keepsD boundary_item_ok, metis keepsD replacement_item_ok)

lemma applyObservationFailure_ok: "manager_ok m \<Longrightarrow> manager_ok (applyObservationFailure pr clock m)"
  unfolding applyObservationFailure_def Let_def
  by (intro emitStream_ok applyStateEvent_ok) (simp_all add: agent_event_safe_def)

lemma consume_failed_ok: "manager_ok m \<Longrightarrow> manager_ok (consume_failed pr clock e m)"
  by (simp add: consume_failed_def applyObservationFailure_ok)

lemma consume_items_ok: "(\<And>ob. keeps (f ob)) \<Longrightarrow> keeps (consume_items pr clock f items)"
proof (rule keepsI)
  fix m e m'
  assume f: "\<And>ob. keeps (f ob)" and "manager_ok m" "consume_items pr clock f items m = (e, m')"
  then show "manager_ok m'"
  proof (induction items arbitrary: m)
    case (Cons item items)
    obtain uuid i where item: "item = (uuid, i)" by force
    obtain x m1 where x: "stream_action f uuid i m = (x, m1)" by force
    have "manager_ok m1" by (rule keepsD [OF stream_action_ok [OF f] Cons.prems(2) x])
    with Cons x item consume_failed_ok show ?case by (cases x) (auto split: if_splits)
  qed simp
qed

lemma load_history_ok: "(\<And>ob. keeps (f ob)) \<Longrightarrow> keeps (load_history f g c chunk)"
proof (rule keepsI)
  fix m e m'
  assume f: "\<And>ob. keeps (f ob)" and ok: "manager_ok m" and run: "load_history f g c chunk m = (e, m')"
  let ?move = "\<lambda>m. if am_generation m = g then m\<lparr>am_olderHistoryCursor := hc_nextCursor chunk\<rparr> else m"
  have "keeps (doing ?move)" by (rule keeps_doing) simp
  from keepsD [OF keeps_andThen [OF keeps_each [OF f] this] ok] run ok show "manager_ok m'"
    by (auto simp: load_history_def ok_def split: if_splits option.splits)
qed

lemma finish_loading_ok: "(\<And>ob. keeps (f ob)) \<Longrightarrow> keeps (finish_loading f g c result)"
proof (rule keepsI)
  fix m e m'
  assume f: "\<And>ob. keeps (f ob)" and ok: "manager_ok m" and run: "finish_loading f g c result m = (e, m')"
  show "manager_ok m'"
  proof (cases result)
    case (Inl x)
    with run ok show ?thesis by (auto simp: finish_loading_def Let_def split: if_splits)
  next
    case (Inr chunk)
    obtain x m1 where x: "load_history f g c chunk m = (x, m1)" by force
    have "manager_ok m1" by (rule keepsD [OF load_history_ok [OF f] ok x])
    with Inr x run show ?thesis by (auto simp: finish_loading_def Let_def split: if_splits)
  qed
qed

lemma resource_settled_ok: "keeps (resource_settled g epoch seq rs prev b)"
proof (rule keepsI)
  fix m e m'
  assume ok: "manager_ok m" and run: "resource_settled g epoch seq rs prev b m = (e, m')"
  have wf: "wf_store (am_timeline m)" using ok by (simp add: manager_ok_def)
  have settle: "manager_ok m'" if "extends {} (am_timeline m) store"
    and "m' = emit (ResourceUpdateEvent (rb_resourceId b)) m2"
    and "m2 = m\<lparr>am_timeline := store\<rparr> \<or> (\<exists>p. m2 = emit (BindingReplacedEvent epoch seq p b) (m\<lparr>am_timeline := store\<rparr>))"
    for store m2
  proof -
    have "manager_ok (m\<lparr>am_timeline := store\<rparr>)" using timeline_ok [OF ok that(1)] by simp
    with that(3) have "manager_ok m2" by (auto intro: emit_silent_ok)
    then show ?thesis unfolding that(2) by (rule emit_silent_ok) simp_all
  qed
  show "manager_ok m'"
  proof (cases "if g = am_generation m then map_sum id snd (bindResources (am_timeline m) seq rs) else Inr (am_timeline m)")
    case (Inl x)
    with run ok show ?thesis by (simp add: resource_settled_def)
  next
    case (Inr store)
    then have "extends {} (am_timeline m) store"
    proof (cases "g = am_generation m")
      case True
      with Inr obtain r where "bindResources (am_timeline m) seq rs = Inr (r, store)"
        by (cases "bindResources (am_timeline m) seq rs") auto
      then show ?thesis by (rule bind_extends(1) [OF wf])
    qed (use Inr wf in \<open>simp add: extends_def\<close>)
    with run Inr settle show ?thesis by (auto simp: resource_settled_def Let_def split: option.splits if_splits)
  qed
qed

lemma publish_settings_ok: "manager_ok m \<Longrightarrow> manager_ok (publish_settings clock changes m)"
  unfolding publish_settings_def by (rule emit_state_ok, rule state_ok) (simp_all add: manager_ok_def state_safe_def)

lemma settings_event_ok: "manager_ok m \<Longrightarrow> manager_ok (settings_event pr clock ev m)"
proof -
  have "manager_ok m \<Longrightarrow> manager_ok (foldl (\<lambda>m changes. publish_settings clock changes m) m cs)" for cs m
    by (induction cs arbitrary: m) (simp_all add: publish_settings_ok)
  then show "manager_ok m \<Longrightarrow> ?thesis" by (simp add: settings_event_def Let_def)
qed

section \<open>Every manager that can be reached\<close>

text \<open>
  The code runs these to completion between two awaits, or awaits inside a loop over observations; the
  single observation is a step of its own, so that the loops may interleave with everything else.
\<close>

inductive manager_step :: "manager \<Rightarrow> manager \<Rightarrow> bool" where
  step_items: "consume_items pr clock (applyObservation acquired pr clock False) items m = (e, m') \<Longrightarrow> manager_step m m'"
| step_observation: "applyObservation acquired pr clock historical ob m = (e, m') \<Longrightarrow> manager_step m m'"
| step_ended: "manager_step m (stream_ended pr clock m)"
| step_replace: "replaceTimeline epoch m = (e, m') \<Longrightarrow> manager_step m m'"
| step_start_loading: "manager_step m (start_loading m)"
| step_finish_loading:
    "finish_loading (applyObservation acquired pr clock True) generation cursor result m = (e, m') \<Longrightarrow> manager_step m m'"
| step_start_refresh: "manager_step m (snd (start_refresh m))"
| step_finish_refresh: "manager_step m (finish_refresh pr clock revisions ri m)"
| step_settings: "manager_step m (settings_event pr clock ev m)"
| step_resource: "resource_settled generation epoch seq resources previous binding m = (e, m') \<Longrightarrow> manager_step m m'"
| step_response: "dispatch_response i rs refused m = (e, m') \<Longrightarrow> manager_step m m'"
| step_response_failed: "response_failed i x m = (e, m') \<Longrightarrow> manager_step m m'"
| step_close: "manager_step m (close_manager m)"

lemma manager_step_ok:
  assumes "manager_step m m'" "manager_ok m"
  shows "manager_ok m'"
  using assms
proof (induction rule: manager_step.induct)
  case (step_items pr clock acquired items m e m')
  show ?case by (rule keepsD [OF consume_items_ok [OF applyObservation_ok] step_items.prems step_items.hyps])
next
  case (step_observation acquired pr clock historical ob m e m')
  then show ?case using keepsD [OF applyObservation_ok] by blast
next
  case (step_ended m pr clock)
  then show ?case by (simp add: stream_ended_def consume_failed_ok)
next
  case (step_replace epoch m e m')
  obtain r m1 where "resetTimeline epoch m = (r, m1)" by force
  with step_replace resetTimeline_ok [OF step_replace.prems this] emit_rebuilt_ok [of m1] show ?case
    by (auto simp: replaceTimeline_def split: sum.splits)
next
  case (step_start_loading m)
  then show ?case by (simp add: start_loading_def split: option.split)
next
  case (step_finish_loading acquired pr clock generation cursor result m e m')
  show ?case by (rule keepsD [OF finish_loading_ok [OF applyObservation_ok] step_finish_loading.prems step_finish_loading.hyps])
next
  case (step_start_refresh m)
  then show ?case by (simp add: start_refresh_def)
next
  case (step_finish_refresh m pr clock revisions ri)
  then show ?case by (simp add: finish_refresh_def applyStateEvent_ok agent_event_safe_def)
next
  case (step_settings m pr clock ev)
  then show ?case by (rule settings_event_ok)
next
  case (step_resource generation epoch seq resources previous binding m e m')
  then show ?case using keepsD [OF resource_settled_ok] by blast
next
  case (step_response i rs refused m e m')
  then show ?case by (auto simp: dispatch_response_def split: sum.splits option.splits)
next
  case (step_response_failed i x m e m')
  then show ?case by (auto simp: response_failed_def)
next
  case (step_close m)
  then show ?case by (simp add: close_manager_def)
qed

lemma new_manager_ok:
  assumes "new_manager agentId providerId epoch createdAt ri caps rh ii rsi = Inr m"
  shows "manager_ok m"
proof (cases "new_store epoch")
  case (Inl e)
  with assms show ?thesis by (simp add: new_manager_def)
next
  case (Inr store)
  have "wf_store store" "ts_epoch store = epoch" "ts_rows store = []"
    using new_store_wf [OF Inr] Inr by (auto simp: new_store_def split: if_splits)
  with assms Inr show ?thesis
    by (auto simp: new_manager_def Let_def manager_ok_def cursor_within_def attention_within_def state_safe_def)
qed

inductive reached :: "manager \<Rightarrow> bool" where
  reached_new: "new_manager agentId providerId epoch createdAt ri caps rh ii rsi = Inr m \<Longrightarrow> reached m"
| reached_step: "reached m \<Longrightarrow> manager_step m m' \<Longrightarrow> reached m'"

lemma reached_ok: "reached m \<Longrightarrow> manager_ok m"
  by (induction rule: reached.induct) (auto intro: new_manager_ok manager_step_ok)



text \<open>C37: The attention of a session never points past its timeline. In every manager that can be reached
  the timeline is well formed, the attention cursor and the attention of the snapshot name its epoch and at
  most its newest row, and so does every published state for the cursor it was published with.\<close>
theorem attention_stays_within_timeline:
  assumes "reached m"
  shows "wf_store (am_timeline m) \<and> cursor_within (am_attentionCursor m) (am_timeline m)
     \<and> attention_within (am_state m) (store_cursor (am_timeline m))
     \<and> (\<forall>s c. AgentStateEvent s c \<in> set (am_emitted m) \<longrightarrow> attention_within s c)"
  using reached_ok [OF assms] by (force simp: manager_ok_def emitted_safe_def)

section \<open>History is presentation\<close>

definition presented :: "manager \<Rightarrow> manager \<Rightarrow> bool" where
  "presented m m' \<longleftrightarrow>
     am_state m' = (am_state m)\<lparr>st_lastUsage := st_lastUsage (am_state m')\<rparr>
     \<and> am_claimed m' = am_claimed m \<and> am_settings m' = am_settings m
     \<and> am_nativeStateRevision m' = am_nativeStateRevision m \<and> am_attentionTurnId m' = am_attentionTurnId m
     \<and> (\<exists>evs. am_emitted m' = am_emitted m @ evs
          \<and> (\<forall>ev \<in> set evs. \<exists>e p t r. ev = AgentStreamEvent e p t r (Some FromHistory)))"

lemma presented_refl [simp]: "presented m m"
  by (simp add: presented_def)

lemma presented_frame:
  assumes "am_state m' = am_state m" "am_claimed m' = am_claimed m" "am_settings m' = am_settings m"
    "am_nativeStateRevision m' = am_nativeStateRevision m" "am_attentionTurnId m' = am_attentionTurnId m"
    "am_emitted m' = am_emitted m"
  shows "presented m m'"
  using assms by (simp add: presented_def)

lemma presented_trans: "presented m m' \<Longrightarrow> presented m' m'' \<Longrightarrow> presented m m''"
proof -
  assume p: "presented m m'" and q: "presented m' m''"
  let ?history = "\<lambda>evs. \<forall>ev \<in> set evs. \<exists>e p t r. ev = AgentStreamEvent e p t r (Some FromHistory)"
  obtain evs where evs: "am_emitted m' = am_emitted m @ evs" "?history evs" using p unfolding presented_def by blast
  obtain evs' where evs': "am_emitted m'' = am_emitted m' @ evs'" "?history evs'" using q unfolding presented_def by blast
  have "am_emitted m'' = am_emitted m @ (evs @ evs')" "?history (evs @ evs')" using evs evs' by auto
  moreover have "am_state m' = (am_state m)\<lparr>st_lastUsage := st_lastUsage (am_state m')\<rparr>"
    and "am_state m'' = (am_state m')\<lparr>st_lastUsage := st_lastUsage (am_state m'')\<rparr>"
    using p q by (simp_all only: presented_def)
  then have "am_state m'' = (am_state m)\<lparr>st_lastUsage := st_lastUsage (am_state m'')\<rparr>"
    by (cases "am_state m"; cases "am_state m'"; cases "am_state m''") simp
  ultimately show ?thesis using p q unfolding presented_def by metis
qed

lemma presented_stream: "presented m m' \<Longrightarrow> presented m (emitStream e p t r (Some FromHistory) m')"
  by (erule presented_trans) (simp add: presented_def emitStream_def emit_def)

lemma presented_apply_timeline:
  assumes "ob_delivery ob = FromHistory" "apply_timeline acquired h ob i t m = (e, m')"
  shows "presented m m'"
proof -
  have frame: "presented m (remember EventDomain ob (m\<lparr>am_timeline := s\<rparr>))"
    "presented m ((remember EventDomain ob (m\<lparr>am_timeline := s\<rparr>))\<lparr>am_timeline := s'\<rparr>)"
    "presented m ((remember EventDomain ob (m\<lparr>am_timeline := s\<rparr>))\<lparr>am_timeline := s', am_attentionCursor := c\<rparr>)" for s s' c
    by (auto intro!: presented_frame simp: remember_def Let_def)
  from assms frame show ?thesis
    by (auto simp: apply_timeline_def publish_row_def Let_def intro!: presented_stream split: sum.splits append_result.splits if_splits)
qed

lemma presented_timeline:
  "ob_delivery ob = FromHistory \<Longrightarrow> timeline_observation acquired h ob i t m = (e, m') \<Longrightarrow> presented m m'"
  using presented_apply_timeline [of ob acquired h "redacted_item i" t m e m'] by (simp add: timeline_observation_def ok_def split: if_splits)

lemma accept_usage_presented: "acceptUsageObservation ob m = (b, m') \<Longrightarrow> presented m m'"
  by (rule presented_frame)
    (auto simp: acceptUsageObservation_def acceptNativeStateRevision_def remember_def Let_def
      split: if_splits option.splits)

lemma presented_history_event:
  assumes "ob_delivery ob = FromHistory" "history_event acquired h ob m = (e, m')"
  shows "presented m m'"
proof (cases "event_usage (ob_event ob)")
  case (Some u)
  obtain b m1 where m1: "acceptUsageObservation ob m = (b, m1)" by force
  have "presented m1 m'" using assms(2) Some m1 by (cases b) (auto simp: history_event_def presented_def)
  with accept_usage_presented [OF m1] show ?thesis by (rule presented_trans)
next
  case None
  have frame: "presented m (m\<lparr>am_historicalInteractions := x\<rparr>)" for x by (simp add: presented_def)
  show ?thesis
  proof (cases "ob_event ob")
    case (EvResolved i rs t)
    let ?m1 = "m\<lparr>am_historicalInteractions := jdelete (am_historicalInteractions m) i\<rparr>"
    have "m' = ?m1 \<or> (\<exists>it. timeline_observation acquired h ob it t ?m1 = (e, m'))"
      using assms(2) EvResolved by (auto simp: history_event_def event_usage_def Let_def split: option.splits if_splits)
    with frame presented_timeline [OF assms(1)] presented_trans show ?thesis by blast
  next
    case (EvRequested rq t)
    with assms(2) show ?thesis
      by (auto simp: history_event_def event_usage_def remember_def Let_def presented_def)
  qed (use assms(2) None frame in \<open>auto simp: history_event_def event_usage_def\<close>)
qed

text \<open>C7: A record of the past never acts on the present. Whatever a history observation says (a turn, an
  interaction, a runtime report), applying it leaves the session state as it is but for the usage of the
  session: no turn starts or ends, no interaction becomes pending or settled, no setting is confirmed, no
  attention is raised; all it publishes is marked as history.\<close>
theorem history_is_presentation:
  assumes "ob_delivery ob = FromHistory" "applyObservation acquired pr clock h ob m = (e, m')"
  shows "am_state m' = (am_state m)\<lparr>st_lastUsage := st_lastUsage (am_state m')\<rparr>
     \<and> am_claimed m' = am_claimed m \<and> am_settings m' = am_settings m
     \<and> am_nativeStateRevision m' = am_nativeStateRevision m \<and> am_attentionTurnId m' = am_attentionTurnId m
     \<and> (\<exists>evs. am_emitted m' = am_emitted m @ evs
          \<and> (\<forall>ev \<in> set evs. \<exists>e p t r. ev = AgentStreamEvent e p t r (Some FromHistory)))"
proof -
  have background: "presented m m'" if "history_background ob b t m = (e, m')" for b t
  proof -
    have "presented m (remember EventDomain ob (m\<lparr>am_timeline := updateBackground (am_timeline m) b\<rparr>))"
      by (rule presented_frame) (simp_all add: remember_def Let_def)
    with that show ?thesis by (auto simp: history_background_def Let_def intro: presented_stream split: sum.splits)
  qed
  have "m' = m \<or> history_event acquired h ob m = (e, m')
      \<or> (\<exists>i t. timeline_observation acquired h ob i t m = (e, m')) \<or> (\<exists>b t. history_background ob b t m = (e, m'))"
    using assms by (cases "ob_event ob") (auto simp: applyObservation_def ok_def split: if_splits)
  then have "presented m m'"
    using background presented_history_event [OF assms(1)] presented_timeline [OF assms(1)] by auto
  then show ?thesis by (simp add: presented_def)
qed


section \<open>Concrete managers\<close>

text \<open>A fresh manager that receives a question of the agent, live.\<close>

definition sample_manager :: manager where
  "sample_manager = projr (new_manager ''a'' ''p'' ''e1'' ''now'' sample_runtime sample_capabilities True False False)"

definition sample_asked :: observation where
  "sample_asked =
     \<lparr>ob_sourceKey = ''k1'', ob_occurredAt = 0, ob_nativeRevision = Some 1, ob_delivery = FromLive, ob_provider = ''p'',
      ob_event = EvRequested sample_question None, ob_resourceReferences = []\<rparr>"

definition sample_past :: observation where
  "sample_past = sample_asked\<lparr>ob_delivery := FromHistory\<rparr>"

definition sample_apply :: "observation \<Rightarrow> action" where
  "sample_apply ob = applyObservation (\<lambda>_ _. []) (\<lambda>_. ''{}'') ''now'' False ob"

lemma sample_manager_new:
  "new_manager ''a'' ''p'' ''e1'' ''now'' sample_runtime sample_capabilities True False False = Inr sample_manager"
  by (simp add: sample_manager_def new_manager_def new_store_def Let_def)

lemma sample_asked_run:
  "\<exists>m. sample_apply sample_asked sample_manager = (None, m) \<and> map rq_requestId (st_pendingInteractions (am_state m)) = [''q1'']"
proof -
  have seen: "am_seen sample_manager = []" "am_nativeStateVersions sample_manager = []"
    "st_pendingInteractions (am_state sample_manager) = []"
    by (simp_all add: sample_manager_def new_manager_def new_store_def Let_def)
  have fresh: "\<not> isDuplicate EventDomain sample_asked sample_manager"
    by (simp add: isDuplicate_def seen_revisions_def seen)
  have date: "to_iso_string 0 = Inr (iso_text 0)" by (simp add: to_iso_string_def valid_time_def)
  obtain m1 where m1: "acceptNativeStateRevision EventDomain sample_asked sample_manager = (True, m1)"
    "st_pendingInteractions (am_state m1) = []"
    by (simp add: acceptNativeStateRevision_def sample_asked_def seen)
  have "sample_apply sample_asked sample_manager
      = state_observation (\<lambda>_. ''{}'') ''now'' sample_asked (redacted_event m1 (EvRequested sample_question None)) m1"
    using fresh m1(1) by (simp add: sample_apply_def applyObservation_def live_event_def sample_asked_def event_usage_def)
  also have "\<dots> = (None, publish_state (\<lambda>_. ''{}'') ''now'' sample_asked
      (EvRequested (redactInteractionRequest sample_question) None) (iso_text 0) m1)"
    by (simp add: state_observation_def date redacted_event_def andThen_def doing_def complete_interaction_def ok_def
        sample_asked_def)
  finally show ?thesis using m1(2)
    by (simp add: publish_state_def publish_interaction_def emitStream_def emit_def remember_def Let_def applyStateEvent_def
        emit_state_def other_turn_started_def background_turn_ended_def release_claim_def current_background_def
        reduceSessionState_def withSessionInteractions_def upsert_request_def sample_question_def redactInteractionRequest_def
        event_turn_def ends_without_outcome_def set_attention_def index_by_def split: option.split)
qed

lemma sample_asked_applies: "fst (sample_apply sample_asked sample_manager) = None"
  using sample_asked_run by auto

lemma sample_asked_pending:
  "st_pendingInteractions (am_state (snd (sample_apply sample_asked sample_manager))) \<noteq> []"
  using sample_asked_run by auto

lemma observation_applied_once_witness:
  "sample_apply sample_asked (snd (sample_apply sample_asked sample_manager))
     = (None, snd (sample_apply sample_asked sample_manager))
   \<and> snd (sample_apply sample_asked sample_manager) \<noteq> sample_manager"
proof
  have "sample_apply sample_asked sample_manager = (None, snd (sample_apply sample_asked sample_manager))"
    using sample_asked_applies by (simp add: prod_eq_iff)
  then show "sample_apply sample_asked (snd (sample_apply sample_asked sample_manager))
     = (None, snd (sample_apply sample_asked sample_manager))"
    unfolding sample_apply_def by (rule observation_applied_once)
  have "st_pendingInteractions (am_state sample_manager) = []"
    by (simp add: sample_manager_def new_manager_def new_store_def Let_def)
  with sample_asked_pending show "snd (sample_apply sample_asked sample_manager) \<noteq> sample_manager" by auto
qed

lemma sample_reached: "reached (snd (sample_apply sample_asked sample_manager))"
proof (rule reached_step [OF reached_new [OF sample_manager_new]])
  show "manager_step sample_manager (snd (sample_apply sample_asked sample_manager))"
    unfolding sample_apply_def by (rule step_observation) (rule surjective_pairing)
qed


lemma attention_stays_within_timeline_witness:
  "wf_store (am_timeline (snd (sample_apply sample_asked sample_manager)))"
  using attention_stays_within_timeline [OF sample_reached] by blast

lemma history_is_presentation_witness:
  "st_pendingInteractions (am_state (snd (sample_apply sample_past sample_manager))) = []"
proof -
  let ?m = "snd (sample_apply sample_past sample_manager)"
  have "applyObservation (\<lambda>_ _. []) (\<lambda>_. ''{}'') ''now'' False sample_past sample_manager
      = (fst (sample_apply sample_past sample_manager), ?m)"
    by (simp add: sample_apply_def)
  from history_is_presentation [OF _ this]
  have "am_state ?m = (am_state sample_manager)\<lparr>st_lastUsage := st_lastUsage (am_state ?m)\<rparr>"
    by (simp add: sample_past_def)
  then have "st_pendingInteractions (am_state ?m) = st_pendingInteractions (am_state sample_manager)"
    by (metis session_state.select_convs(12) session_state.surjective session_state.update_convs(15))
  then show ?thesis by (simp add: sample_manager_def new_manager_def new_store_def Let_def)
qed

end
