(* ===== verification/Preview_Registry.thy ===== *)
theory Preview_Registry
  imports Js_Text
begin

text \<open>
  \<open>agent-remote-tunnel/src/node/registry.ts\<close>: the registrations of local web servers whose preview is
  open to browsers, kept in a file. Mutations run one after another; each is cut where it awaits the probe of
  the target or the write of the file. Reads and the expiry timer may run between the parts.

  \<^item> A registration that a mutation holds across an await is the object of the record map: \<open>pw_held\<close> follows
    it when the map loses it.
  \<^item> An \<open>AbortController\<close> is its flag: \<open>pw_controllers\<close> maps an identity to whether its signal is aborted.
  \<^item> \<open>pw_disk\<close> is the content of the file; \<open>pw_writes\<close> are the writes that wait, \<open>pw_writing\<close> is the one that
    runs with the content it took when it started. A write ends without touching the file, with the new
    content, or failing after the new content is in place (the sync of the directory).
  \<^item> \<open>canonicalizeLoopbackTarget\<close> (\<open>node/loopback.ts\<close>) is modelled over an argument \<open>parse_url\<close>, the URL
    parser of the platform.
\<close>

section \<open>Targets\<close>

record url =
  url_protocol :: string
  url_username :: string
  url_password :: string
  url_hostname :: string
  url_port :: "nat option"

definition target_scheme_char :: "char \<Rightarrow> bool" where
  "target_scheme_char c \<longleftrightarrow> is_ascii_letter c \<or> is_digit c \<or> c \<in> set ''+.-''"

definition has_scheme :: "string \<Rightarrow> bool" where
  "has_scheme s \<longleftrightarrow> s \<noteq> [] \<and> is_ascii_letter (hd s) \<and> take 3 (dropWhile target_scheme_char s) = ''://''"

definition unbracket :: "string \<Rightarrow> string" where
  "unbracket s =
     (let t = (if s \<noteq> [] \<and> hd s = CHR ''['' then drop 1 s else s)
      in if t \<noteq> [] \<and> last t = CHR '']'' then butlast t else t)"

definition default_port :: "string \<Rightarrow> nat" where
  "default_port protocol = (if protocol = ''https:'' then 443 else 80)"

definition origin_text :: "string \<Rightarrow> string \<Rightarrow> nat \<Rightarrow> string" where
  "origin_text protocol hostname port =
     protocol @ ''//'' @ hostname @ (if port = default_port protocol then [] else '':'' @ decimal port)"

definition loopback_origin :: "(string \<Rightarrow> url option) \<Rightarrow> string \<Rightarrow> (string \<times> nat) js_result" where
  "loopback_origin parse_url input =
     (case parse_url (if has_scheme input then input else ''http://'' @ input) of
        None \<Rightarrow> Inl (Thrown PlainError ''ERR_INVALID_URL'' ''Invalid URL'')
      | Some u \<Rightarrow>
          if url_protocol u \<noteq> ''http:'' \<and> url_protocol u \<noteq> ''https:''
          then throw_plain ''Preview target must use HTTP or HTTPS.''
          else if url_username u \<noteq> [] \<or> url_password u \<noteq> [] then throw_plain ''Preview target must not contain userinfo.''
          else
            let hostname = unbracket (ascii_lower (url_hostname u));
                port = (case url_port u of Some p \<Rightarrow> p | None \<Rightarrow> default_port (url_protocol u))
            in if hostname \<noteq> ''localhost'' \<and> hostname \<noteq> ''127.0.0.1'' \<and> hostname \<noteq> ''::1''
               then throw_plain ''Preview target must resolve to fixed loopback.''
               else if port < 1 \<or> 65535 < port then throw_plain ''Preview target has an invalid port.''
               else Inr (origin_text (url_protocol u) (if hostname = ''::1'' then ''[::1]'' else ''127.0.0.1'') port, port))"

definition canonicalizeLoopbackTarget :: "(string \<Rightarrow> url option) \<Rightarrow> nat list \<Rightarrow> string \<Rightarrow> string js_result" where
  "canonicalizeLoopbackTarget parse_url protected input =
     (case loopback_origin parse_url input of
        Inl e \<Rightarrow> Inl e
      | Inr (origin, port) \<Rightarrow>
          if port \<in> set protected then throw_plain ''Preview target uses a protected management port.'' else Inr origin)"

section \<open>Registrations and the file\<close>

datatype preview_status = PreviewActive | PreviewExpired | PreviewUnregistered

datatype path_mode = StripPath | PreservePath

record preview_source =
  ps_sessionId :: string
  ps_itemId :: string

record registration =
  pv_id :: string
  pv_target :: string
  pv_status :: preview_status
  pv_createdAt :: int
  pv_expiresAt :: int
  pv_revision :: int
  pv_pathMode :: path_mode
  pv_sources :: "preview_source list"

record stored_state =
  sv_version :: int
  sv_revision :: int
  sv_registrations :: "registration list"

definition source_ok :: "preview_source \<Rightarrow> bool" where
  "source_ok s \<longleftrightarrow> ps_sessionId s \<noteq> [] \<and> length (ps_sessionId s) \<le> 256 \<and> ps_itemId s \<noteq> [] \<and> length (ps_itemId s) \<le> 256"

text \<open>\<open>validState\<close> after its \<open>typeof\<close> tests, which the types of the model stand for.\<close>

definition valid_registration :: "(string \<Rightarrow> url option) \<Rightarrow> int \<Rightarrow> registration \<Rightarrow> bool" where
  "valid_registration parse_url revision r \<longleftrightarrow>
     16 \<le> length (pv_id r)
     \<and> is_safe_integer (pv_createdAt r) \<and> is_safe_integer (pv_expiresAt r) \<and> 0 \<le> pv_createdAt r \<and> pv_createdAt r \<le> pv_expiresAt r
     \<and> is_safe_integer (pv_revision r) \<and> 1 \<le> pv_revision r \<and> pv_revision r \<le> revision
     \<and> pv_sources r \<noteq> [] \<and> length (pv_sources r) \<le> 256 \<and> list_all source_ok (pv_sources r)
     \<and> canonicalizeLoopbackTarget parse_url [] (pv_target r) = Inr (pv_target r)"

definition validState :: "(string \<Rightarrow> url option) \<Rightarrow> stored_state \<Rightarrow> bool" where
  "validState parse_url s \<longleftrightarrow>
     sv_version s = 1 \<and> is_safe_integer (sv_revision s) \<and> 0 \<le> sv_revision s
     \<and> length (sv_registrations s) \<le> 384 \<and> distinct (map pv_id (sv_registrations s))
     \<and> list_all (valid_registration parse_url (sv_revision s)) (sv_registrations s)"

section \<open>The registry\<close>

record preview_options =
  po_ttlMs :: int
  po_maxRecords :: nat
  po_maxTombstones :: nat
  po_protectedPorts :: "nat list"
  po_probe :: bool

datatype preview_task =
    ProbeNew string path_mode preview_source
  | ProbeRenewal string
  | SaveNew string
  | SaveSource string registration
  | SaveRenewal string registration bool
  | SaveUnregistered string registration

datatype writer = ExpiryWriter | TaskWriter

datatype write_outcome = Written | NotWritten js_error | WrittenNotSynced js_error

record preview_snapshot =
  sn_revision :: int
  sn_registrations :: "registration list"

record preview_registry =
  pw_revision :: int
  pw_closed :: bool
  pw_records :: "(string, registration) jmap"
  pw_controllers :: "(string, bool) jmap"
  pw_task :: "preview_task option"
  pw_held :: "registration option"
  pw_writes :: "writer list"
  pw_writing :: "(writer \<times> stored_state) option"
  pw_disk :: "stored_state option"
  pw_notified :: "preview_snapshot list"
  pw_answers :: "(registration option) js_result list"

definition is_active :: "registration \<Rightarrow> bool" where
  "is_active r \<longleftrightarrow> pv_status r = PreviewActive"

definition active_count :: "preview_registry \<Rightarrow> nat" where
  "active_count g = length (filter is_active (jvalues (pw_records g)))"

definition currentSnapshot :: "preview_registry \<Rightarrow> preview_snapshot" where
  "currentSnapshot g =
     \<lparr>sn_revision = pw_revision g, sn_registrations = sort_key pv_createdAt (jvalues (pw_records g))\<rparr>"

definition notify_previews :: "preview_registry \<Rightarrow> preview_registry" where
  "notify_previews g = g\<lparr>pw_notified := pw_notified g @ [currentSnapshot g]\<rparr>"

definition state_of_registry :: "preview_registry \<Rightarrow> stored_state" where
  "state_of_registry g = \<lparr>sv_version = 1, sv_revision = pw_revision g, sv_registrations = jvalues (pw_records g)\<rparr>"

definition persist :: "writer \<Rightarrow> preview_registry \<Rightarrow> preview_registry" where
  "persist w g = g\<lparr>pw_writes := pw_writes g @ [w]\<rparr>"

definition abort_signal :: "string \<Rightarrow> preview_registry \<Rightarrow> preview_registry" where
  "abort_signal i g =
     (if jhas (pw_controllers g) i then g\<lparr>pw_controllers := jset (pw_controllers g) i True\<rparr> else g)"

definition drop_record :: "string \<Rightarrow> preview_registry \<Rightarrow> preview_registry" where
  "drop_record i g = g\<lparr>pw_records := jdelete (pw_records g) i, pw_controllers := jdelete (pw_controllers g) i\<rparr>"

text \<open>The oldest tombstones beyond the limit are forgotten.\<close>

definition tombstones :: "preview_registry \<Rightarrow> registration list" where
  "tombstones g = sort_key (\<lambda>r. - pv_revision r) (filter (\<lambda>r. \<not> is_active r) (jvalues (pw_records g)))"

definition prune :: "preview_options \<Rightarrow> preview_registry \<Rightarrow> preview_registry" where
  "prune opts g = foldl (\<lambda>g r. drop_record (pv_id r) g) g (drop (po_maxTombstones opts) (tombstones g))"

text \<open>The loop of \<open>expireDue\<close> over the values of the map.\<close>

definition expire_entry :: "int \<Rightarrow> registration \<Rightarrow> preview_registry \<Rightarrow> preview_registry" where
  "expire_entry now r g =
     (if is_active r \<and> pv_expiresAt r \<le> now then
        abort_signal (pv_id r)
          (g\<lparr>pw_revision := pw_revision g + 1,
             pw_records := jset (pw_records g) (pv_id r) (r\<lparr>pv_status := PreviewExpired, pv_revision := pw_revision g + 1\<rparr>)\<rparr>)
      else g)"

definition follow_held :: "preview_registry \<Rightarrow> preview_registry" where
  "follow_held g =
     (case pw_held g of
        None \<Rightarrow> g
      | Some r \<Rightarrow> g\<lparr>pw_held := Some (case jget (pw_records g) (pv_id r) of None \<Rightarrow> r | Some r' \<Rightarrow> r')\<rparr>)"

definition any_due :: "int \<Rightarrow> preview_registry \<Rightarrow> bool" where
  "any_due now g \<longleftrightarrow> list_ex (\<lambda>r. is_active r \<and> pv_expiresAt r \<le> now) (jvalues (pw_records g))"

definition expireDue :: "preview_options \<Rightarrow> int \<Rightarrow> preview_registry \<Rightarrow> preview_registry" where
  "expireDue opts now g =
     (if any_due now g
      then persist ExpiryWriter (notify_previews (prune opts (follow_held
             (foldl (\<lambda>g r. expire_entry now r g) g (jvalues (pw_records g))))))
      else g)"

section \<open>Mutations\<close>

text \<open>A mutation ends: its promise is settled and the next one may start.\<close>

definition answer_task :: "registration option js_result \<Rightarrow> preview_registry \<Rightarrow> preview_registry" where
  "answer_task a g = g\<lparr>pw_answers := pw_answers g @ [a], pw_task := None, pw_held := None\<rparr>"

definition refuse_task :: "string \<Rightarrow> preview_registry \<Rightarrow> preview_registry" where
  "refuse_task message = answer_task (throw_plain message)"

definition await_save :: "preview_task \<Rightarrow> registration \<Rightarrow> preview_registry \<Rightarrow> preview_registry" where
  "await_save t r g = persist TaskWriter (g\<lparr>pw_task := Some t, pw_held := Some r\<rparr>)"

definition registry_closed :: string where
  "registry_closed = ''Preview registry is closed.''"

definition same_preview :: "string \<Rightarrow> path_mode \<Rightarrow> registration \<Rightarrow> bool" where
  "same_preview target mode r \<longleftrightarrow> is_active r \<and> pv_target r = target \<and> pv_pathMode r = mode"

definition add_registration ::
    "preview_options \<Rightarrow> int \<Rightarrow> string \<Rightarrow> string \<Rightarrow> path_mode \<Rightarrow> preview_source \<Rightarrow> preview_registry \<Rightarrow> preview_registry" where
  "add_registration opts now fresh target mode source g =
     (let r = \<lparr>pv_id = fresh, pv_target = target, pv_status = PreviewActive, pv_createdAt = now,
               pv_expiresAt = now + po_ttlMs opts, pv_revision = pw_revision g + 1, pv_pathMode = mode, pv_sources = [source]\<rparr>
      in await_save (SaveNew fresh) r
           (g\<lparr>pw_revision := pw_revision g + 1, pw_records := jset (pw_records g) fresh r,
              pw_controllers := jset (pw_controllers g) fresh False\<rparr>))"

text \<open>A further source of a target that has a registration.\<close>

definition share_registration :: "preview_source \<Rightarrow> registration \<Rightarrow> preview_registry \<Rightarrow> preview_registry" where
  "share_registration source r g =
     (if source \<in> set (pv_sources r) then answer_task (Inr (Some r)) g
      else if 256 \<le> length (pv_sources r) then refuse_task ''Preview source capacity is exhausted.'' g
      else
        let r' = r\<lparr>pv_sources := pv_sources r @ [source], pv_revision := pw_revision g + 1\<rparr>
        in await_save (SaveSource (pv_id r) r) r'
             (g\<lparr>pw_revision := pw_revision g + 1, pw_records := jset (pw_records g) (pv_id r) r'\<rparr>))"

definition register_preview ::
    "(string \<Rightarrow> url option) \<Rightarrow> preview_options \<Rightarrow> int \<Rightarrow> string \<Rightarrow> string \<Rightarrow> path_mode option \<Rightarrow> preview_source
     \<Rightarrow> preview_registry \<Rightarrow> preview_registry" where
  "register_preview parse_url opts now fresh input mode_input source g0 =
     (if pw_closed g0 then refuse_task registry_closed g0
      else if \<not> source_ok source then refuse_task ''Preview source is invalid.'' g0
      else
        let g = expireDue opts now g0;
            mode = (case mode_input of None \<Rightarrow> StripPath | Some m \<Rightarrow> m)
        in (case canonicalizeLoopbackTarget parse_url (po_protectedPorts opts) input of
              Inl e \<Rightarrow> answer_task (Inl e) g
            | Inr target \<Rightarrow>
                (case find (same_preview target mode) (jvalues (pw_records g)) of
                   Some r \<Rightarrow> share_registration source r g
                 | None \<Rightarrow>
                     if po_maxRecords opts \<le> active_count g then refuse_task ''Preview registration capacity is exhausted.'' g
                     else if po_probe opts then g\<lparr>pw_task := Some (ProbeNew target mode source)\<rparr>
                     else add_registration opts now fresh target mode source g)))"

text \<open>The renewed object is changed in place: a record that was forgotten during the probe stays forgotten.\<close>

definition change_record :: "registration \<Rightarrow> preview_registry \<Rightarrow> preview_registry" where
  "change_record r g =
     (if jhas (pw_records g) (pv_id r) then g\<lparr>pw_records := jset (pw_records g) (pv_id r) r\<rparr> else g)"

definition save_renewal :: "preview_options \<Rightarrow> int \<Rightarrow> registration \<Rightarrow> preview_registry \<Rightarrow> preview_registry" where
  "save_renewal opts now r g =
     (let expired = (pv_status r = PreviewExpired);
          expiresAt = max (pv_expiresAt r) (now + po_ttlMs opts)
      in if \<not> expired \<and> expiresAt = pv_expiresAt r then answer_task (Inr (Some r)) g
         else
           let r' = r\<lparr>pv_status := PreviewActive, pv_expiresAt := expiresAt, pv_revision := pw_revision g + 1\<rparr>
           in await_save (SaveRenewal (pv_id r) r expired) r'
                (change_record r' (g\<lparr>pw_revision := pw_revision g + 1\<rparr>)))"

definition renew_preview ::
    "(string \<Rightarrow> url option) \<Rightarrow> preview_options \<Rightarrow> int \<Rightarrow> string \<Rightarrow> preview_registry \<Rightarrow> preview_registry" where
  "renew_preview parse_url opts now i g0 =
     (if pw_closed g0 then refuse_task registry_closed g0
      else
        let g = expireDue opts now g0
        in (case jget (pw_records g) i of
              None \<Rightarrow> refuse_task ''Preview is unavailable.'' g
            | Some r \<Rightarrow>
                if pv_status r = PreviewUnregistered then refuse_task ''Preview is unavailable.'' g
                else
                  (case canonicalizeLoopbackTarget parse_url (po_protectedPorts opts) (pv_target r) of
                     Inl e \<Rightarrow> answer_task (Inl e) g
                   | Inr _ \<Rightarrow>
                       if pv_status r = PreviewExpired then
                         if po_maxRecords opts \<le> active_count g then refuse_task ''Preview registration capacity is exhausted.'' g
                         else if po_probe opts then g\<lparr>pw_task := Some (ProbeRenewal i), pw_held := Some r\<rparr>
                         else save_renewal opts now r g
                       else save_renewal opts now r g)))"

definition unregister_preview :: "preview_options \<Rightarrow> int \<Rightarrow> string \<Rightarrow> preview_registry \<Rightarrow> preview_registry" where
  "unregister_preview opts now i g0 =
     (if pw_closed g0 then refuse_task registry_closed g0
      else
        let g = expireDue opts now g0
        in (case jget (pw_records g) i of
              None \<Rightarrow> answer_task (Inr None) g
            | Some r \<Rightarrow>
                if pv_status r = PreviewUnregistered then answer_task (Inr (Some r)) g
                else
                  let r' = r\<lparr>pv_status := PreviewUnregistered, pv_revision := pw_revision g + 1\<rparr>
                  in await_save (SaveUnregistered i r) r'
                       (prune opts (abort_signal i
                         (g\<lparr>pw_revision := pw_revision g + 1, pw_records := jset (pw_records g) i r'\<rparr>)))))"

text \<open>The probe of the target answers.\<close>

definition probe_answered ::
    "preview_options \<Rightarrow> int \<Rightarrow> string \<Rightarrow> js_error option \<Rightarrow> preview_registry \<Rightarrow> preview_registry" where
  "probe_answered opts now fresh failure g =
     (case (pw_task g, failure) of
        (Some (ProbeNew target mode source), Some e) \<Rightarrow> answer_task (Inl e) g
      | (Some (ProbeNew target mode source), None) \<Rightarrow> add_registration opts now fresh target mode source g
      | (Some (ProbeRenewal i), Some e) \<Rightarrow> answer_task (Inl e) g
      | (Some (ProbeRenewal i), None) \<Rightarrow> (case pw_held g of None \<Rightarrow> g | Some r \<Rightarrow> save_renewal opts now r g)
      | _ \<Rightarrow> g)"

section \<open>Writes\<close>

text \<open>A mutation whose write failed takes its change back.\<close>

definition roll_back :: "string \<Rightarrow> registration \<Rightarrow> preview_registry \<Rightarrow> preview_registry" where
  "roll_back i previous g =
     g\<lparr>pw_records := jset (pw_records g) i previous, pw_revision := pw_revision g - 1\<rparr>"

definition save_failed :: "js_error \<Rightarrow> preview_registry \<Rightarrow> preview_registry" where
  "save_failed e g =
     (case pw_task g of
        Some (SaveNew i) \<Rightarrow> answer_task (Inl e) ((drop_record i g)\<lparr>pw_revision := pw_revision g - 1\<rparr>)
      | Some (SaveSource i previous) \<Rightarrow> answer_task (Inl e) (roll_back i previous g)
      | Some (SaveRenewal i previous expired) \<Rightarrow> answer_task (Inl e) (roll_back i previous g)
      | Some (SaveUnregistered i previous) \<Rightarrow> answer_task (Inl e) (roll_back i previous g)
      | _ \<Rightarrow> g)"

definition save_done :: "preview_registry \<Rightarrow> preview_registry" where
  "save_done g =
     (case pw_task g of
        Some (SaveNew i) \<Rightarrow> answer_task (Inr (pw_held g)) (notify_previews g)
      | Some (SaveSource i previous) \<Rightarrow> answer_task (Inr (pw_held g)) (notify_previews g)
      | Some (SaveRenewal i previous expired) \<Rightarrow>
          answer_task (Inr (pw_held g))
            (notify_previews (if expired then g\<lparr>pw_controllers := jset (pw_controllers g) i False\<rparr> else g))
      | Some (SaveUnregistered i previous) \<Rightarrow> answer_task (Inr (pw_held g)) (notify_previews g)
      | _ \<Rightarrow> g)"

definition write_ended :: "writer \<Rightarrow> js_error option \<Rightarrow> preview_registry \<Rightarrow> preview_registry" where
  "write_ended w failure g =
     (case (w, failure) of
        (ExpiryWriter, None) \<Rightarrow> g
      | (ExpiryWriter, Some _) \<Rightarrow> g\<lparr>pw_closed := True\<rparr>
      | (TaskWriter, None) \<Rightarrow> save_done g
      | (TaskWriter, Some e) \<Rightarrow> save_failed e g)"

definition start_write :: "preview_registry \<Rightarrow> preview_registry" where
  "start_write g =
     (case (pw_writing g, pw_writes g) of
        (None, w # ws) \<Rightarrow>
          if pw_closed g then write_ended w (Some (Thrown PlainError [] registry_closed)) (g\<lparr>pw_writes := ws\<rparr>)
          else g\<lparr>pw_writes := ws, pw_writing := Some (w, state_of_registry g)\<rparr>
      | _ \<Rightarrow> g)"

definition finish_write :: "write_outcome \<Rightarrow> preview_registry \<Rightarrow> preview_registry" where
  "finish_write outcome g0 =
     (case pw_writing g0 of
        None \<Rightarrow> g0
      | Some (w, content) \<Rightarrow>
          let g = g0\<lparr>pw_writing := None\<rparr>
          in (case outcome of
                Written \<Rightarrow> write_ended w None (g\<lparr>pw_disk := Some content\<rparr>)
              | NotWritten e \<Rightarrow> write_ended w (Some e) g
              | WrittenNotSynced e \<Rightarrow> write_ended w (Some e) (g\<lparr>pw_disk := Some content\<rparr>)))"

section \<open>Reads, closing and loading\<close>

definition lookup_preview :: "preview_options \<Rightarrow> int \<Rightarrow> string \<Rightarrow> preview_registry \<Rightarrow> registration option \<times> preview_registry" where
  "lookup_preview opts now i g0 = (let g = expireDue opts now g0 in (jget (pw_records g) i, g))"

text \<open>\<open>signal\<close>: whether the signal it returns is aborted; an unknown identity has an aborted one.\<close>

definition signal_aborted :: "preview_options \<Rightarrow> int \<Rightarrow> string \<Rightarrow> preview_registry \<Rightarrow> bool \<times> preview_registry" where
  "signal_aborted opts now i g0 =
     (let g = expireDue opts now g0
      in ((case jget (pw_controllers g) i of None \<Rightarrow> True | Some aborted \<Rightarrow> aborted), g))"

definition snapshot_previews :: "preview_options \<Rightarrow> int \<Rightarrow> preview_registry \<Rightarrow> preview_snapshot \<times> preview_registry" where
  "snapshot_previews opts now g0 = (let g = expireDue opts now g0 in (currentSnapshot g, g))"

text \<open>The end of \<open>close\<close>, once the mutations and writes it waits for are done.\<close>

definition close_previews :: "preview_registry \<Rightarrow> preview_registry" where
  "close_previews g =
     (if pw_closed g then g
      else g\<lparr>pw_closed := True, pw_controllers := map (\<lambda>(i, _). (i, True)) (pw_controllers g)\<rparr>)"

definition create_registry ::
    "(string \<Rightarrow> url option) \<Rightarrow> preview_options \<Rightarrow> int \<Rightarrow> stored_state option \<Rightarrow> preview_registry js_result" where
  "create_registry parse_url opts now file =
     (if \<not> is_safe_integer (po_ttlMs opts) \<or> po_ttlMs opts \<le> 0 then throw_plain ''Preview TTL must be a positive integer.''
      else
        let empty = \<lparr>pw_revision = 0, pw_closed = False, pw_records = [], pw_controllers = [], pw_task = None, pw_held = None,
              pw_writes = [], pw_writing = None, pw_disk = file, pw_notified = [], pw_answers = []\<rparr>
        in (case file of
              None \<Rightarrow> Inr (expireDue opts now empty)
            | Some s \<Rightarrow>
                if \<not> validState parse_url s then throw_plain ''Preview registration state is invalid.''
                else Inr (expireDue opts now
                  (empty\<lparr>pw_revision := sv_revision s,
                     pw_records := map (\<lambda>r. (pv_id r, r)) (sv_registrations s),
                     pw_controllers := map (\<lambda>r. (pv_id r, False)) (filter is_active (sv_registrations s))\<rparr>))))"

section \<open>Events\<close>

datatype preview_event =
    RegisterPreview int string string "path_mode option" preview_source
  | RenewPreview int string
  | UnregisterPreview int string
  | ProbeAnswered int string "js_error option"
  | StartWrite
  | FinishWrite write_outcome
  | ExpiryTimer int
  | ReadPreviews int
  | ClosePreviews

text \<open>A mutation starts when the one before it has ended. Reads of any kind have the effect of the timer.\<close>

fun preview_step :: "(string \<Rightarrow> url option) \<Rightarrow> preview_options \<Rightarrow> preview_registry \<Rightarrow> preview_event \<Rightarrow> preview_registry" where
  "preview_step parse_url opts g (RegisterPreview now fresh input mode source) =
     (if pw_task g = None then register_preview parse_url opts now fresh input mode source g else g)"
| "preview_step parse_url opts g (RenewPreview now i) =
     (if pw_task g = None then renew_preview parse_url opts now i g else g)"
| "preview_step parse_url opts g (UnregisterPreview now i) =
     (if pw_task g = None then unregister_preview opts now i g else g)"
| "preview_step parse_url opts g (ProbeAnswered now fresh failure) = probe_answered opts now fresh failure g"
| "preview_step parse_url opts g StartWrite = start_write g"
| "preview_step parse_url opts g (FinishWrite outcome) = finish_write outcome g"
| "preview_step parse_url opts g (ExpiryTimer now) = expireDue opts now g"
| "preview_step parse_url opts g (ReadPreviews now) = snd (snapshot_previews opts now g)"
| "preview_step parse_url opts g ClosePreviews = close_previews g"

end
