(* ===== verification/Preview_Registry_Properties.thy ===== *)
theory Preview_Registry_Properties
  imports Preview_Registry
begin

text \<open>
  Invariants of the preview registry: every operation keeps the number of active registrations within the
  limit, every mutation that saves has exactly one write, and a preview whose unregistration was written stays shut.
\<close>

section \<open>Fields left alone\<close>

lemma kept_by_notify [simp]:
  "pw_revision (notify_previews g) = pw_revision g" "pw_closed (notify_previews g) = pw_closed g"
  "pw_records (notify_previews g) = pw_records g" "pw_controllers (notify_previews g) = pw_controllers g"
  "pw_task (notify_previews g) = pw_task g" "pw_held (notify_previews g) = pw_held g"
  "pw_writes (notify_previews g) = pw_writes g" "pw_writing (notify_previews g) = pw_writing g"
  "pw_disk (notify_previews g) = pw_disk g"
  by (simp_all add: notify_previews_def)

lemma kept_by_persist [simp]:
  "pw_revision (persist w g) = pw_revision g" "pw_closed (persist w g) = pw_closed g"
  "pw_records (persist w g) = pw_records g" "pw_controllers (persist w g) = pw_controllers g"
  "pw_task (persist w g) = pw_task g" "pw_held (persist w g) = pw_held g"
  "pw_writing (persist w g) = pw_writing g" "pw_disk (persist w g) = pw_disk g"
  by (simp_all add: persist_def)

lemma kept_by_answer [simp]:
  "pw_revision (answer_task a g) = pw_revision g" "pw_closed (answer_task a g) = pw_closed g"
  "pw_records (answer_task a g) = pw_records g" "pw_controllers (answer_task a g) = pw_controllers g"
  "pw_task (answer_task a g) = None" "pw_held (answer_task a g) = None"
  "pw_writes (answer_task a g) = pw_writes g" "pw_writing (answer_task a g) = pw_writing g"
  "pw_disk (answer_task a g) = pw_disk g"
  by (simp_all add: answer_task_def)

lemma kept_by_refuse [simp]: "refuse_task m g = answer_task (throw_plain m) g"
  by (simp add: refuse_task_def)

lemma kept_by_await [simp]:
  "pw_revision (await_save t r g) = pw_revision g" "pw_closed (await_save t r g) = pw_closed g"
  "pw_records (await_save t r g) = pw_records g" "pw_controllers (await_save t r g) = pw_controllers g"
  "pw_task (await_save t r g) = Some t" "pw_held (await_save t r g) = Some r"
  "pw_writing (await_save t r g) = pw_writing g" "pw_disk (await_save t r g) = pw_disk g"
  by (simp_all add: await_save_def)

lemma kept_by_abort [simp]:
  "pw_revision (abort_signal i g) = pw_revision g" "pw_closed (abort_signal i g) = pw_closed g"
  "pw_records (abort_signal i g) = pw_records g" "pw_task (abort_signal i g) = pw_task g"
  "pw_held (abort_signal i g) = pw_held g" "pw_writes (abort_signal i g) = pw_writes g" "pw_writing (abort_signal i g) = pw_writing g" "pw_disk (abort_signal i g) = pw_disk g"
  by (simp_all add: abort_signal_def)

lemma abort_signal_controllers: "jget (pw_controllers (abort_signal i g)) k \<noteq> Some False \<longleftrightarrow> k = i \<or> jget (pw_controllers g) k \<noteq> Some False"
  by (auto simp: abort_signal_def)

lemma kept_by_drop [simp]:
  "pw_revision (drop_record i g) = pw_revision g" "pw_closed (drop_record i g) = pw_closed g"
  "pw_task (drop_record i g) = pw_task g" "pw_held (drop_record i g) = pw_held g" "pw_writes (drop_record i g) = pw_writes g"
  "pw_writing (drop_record i g) = pw_writing g" "pw_disk (drop_record i g) = pw_disk g"
  "pw_records (drop_record i g) = jdelete (pw_records g) i" "pw_controllers (drop_record i g) = jdelete (pw_controllers g) i"
  by (simp_all add: drop_record_def)

lemma kept_by_change [simp]:
  "pw_revision (change_record r g) = pw_revision g" "pw_closed (change_record r g) = pw_closed g"
  "pw_controllers (change_record r g) = pw_controllers g" "pw_task (change_record r g) = pw_task g"
  "pw_held (change_record r g) = pw_held g" "pw_writes (change_record r g) = pw_writes g" "pw_writing (change_record r g) = pw_writing g" "pw_disk (change_record r g) = pw_disk g"
  by (simp_all add: change_record_def)

lemma kept_by_follow [simp]:
  "pw_revision (follow_held g) = pw_revision g" "pw_closed (follow_held g) = pw_closed g"
  "pw_records (follow_held g) = pw_records g" "pw_controllers (follow_held g) = pw_controllers g"
  "pw_task (follow_held g) = pw_task g" "pw_writes (follow_held g) = pw_writes g" "pw_writing (follow_held g) = pw_writing g" "pw_disk (follow_held g) = pw_disk g"
  by (simp_all add: follow_held_def split: option.split)

section \<open>Induction over the parts of an expiry\<close>

lemma prune_induct:
  assumes "P g" and "\<And>r g'. r \<in> set (tombstones g) \<Longrightarrow> P g' \<Longrightarrow> P (drop_record (pv_id r) g')"
  shows "P (prune opts g)"
proof -
  have "P (foldl (\<lambda>g r. drop_record (pv_id r) g) h rs)" if "set rs \<subseteq> set (tombstones g)" "P h" for rs h
    using that by (induction rs arbitrary: h) (auto intro: assms(2))
  from this [OF set_drop_subset assms(1)] show ?thesis by (simp add: prune_def)
qed

lemma expire_induct:
  assumes "P g" and "\<And>r g'. r \<in> set (jvalues (pw_records g)) \<Longrightarrow> P g' \<Longrightarrow> P (expire_entry now r g')"
  shows "P (foldl (\<lambda>g r. expire_entry now r g) g (jvalues (pw_records g)))"
proof -
  have "P (foldl (\<lambda>g r. expire_entry now r g) h rs)" if "set rs \<subseteq> set (jvalues (pw_records g))" "P h" for rs h
    using that by (induction rs arbitrary: h) (simp_all add: assms(2) del: set_map)
  with assms(1) show ?thesis by blast
qed

lemma expireDue_induct:
  assumes start: "P g"
    and expire: "\<And>r g'. r \<in> set (jvalues (pw_records g)) \<Longrightarrow> P g' \<Longrightarrow> P (expire_entry now r g')"
    and drop: "\<And>r g'. \<not> is_active r \<Longrightarrow> P g' \<Longrightarrow> P (drop_record (pv_id r) g')"
    and rest: "\<And>g'. P g' \<Longrightarrow> P (follow_held g')" "\<And>g'. P g' \<Longrightarrow> P (persist ExpiryWriter (notify_previews g'))"
  shows "P (expireDue opts now g)"
proof (cases "any_due now g")
  case True
  have "P (foldl (\<lambda>g r. expire_entry now r g) g (jvalues (pw_records g)))"
    by (rule expire_induct) (use start expire in auto)
  then have "P (follow_held (foldl (\<lambda>g r. expire_entry now r g) g (jvalues (pw_records g))))" by (rule rest)
  then have "P (prune opts (follow_held (foldl (\<lambda>g r. expire_entry now r g) g (jvalues (pw_records g)))))"
    by (rule prune_induct) (auto simp: tombstones_def intro: drop)
  with True rest(2) show ?thesis by (simp add: expireDue_def)
next
  case False
  with start show ?thesis by (simp add: expireDue_def)
qed

lemma expireDue_kept [simp]:
  "pw_task (expireDue opts now g) = pw_task g" "pw_closed (expireDue opts now g) = pw_closed g"
  "pw_writing (expireDue opts now g) = pw_writing g" "pw_disk (expireDue opts now g) = pw_disk g"
proof -
  have "pw_task (expireDue opts now g) = pw_task g \<and> pw_closed (expireDue opts now g) = pw_closed g
      \<and> pw_writing (expireDue opts now g) = pw_writing g \<and> pw_disk (expireDue opts now g) = pw_disk g"
    by (rule expireDue_induct) (auto simp: expire_entry_def)
  then show "pw_task (expireDue opts now g) = pw_task g" "pw_closed (expireDue opts now g) = pw_closed g"
    "pw_writing (expireDue opts now g) = pw_writing g" "pw_disk (expireDue opts now g) = pw_disk g" by auto
qed

section \<open>Records by identity\<close>

definition keyed :: "preview_registry \<Rightarrow> bool" where
  "keyed g \<longleftrightarrow> wf_jmap (pw_records g) \<and> (\<forall>k r. jget (pw_records g) k = Some r \<longrightarrow> pv_id r = k)"

definition active_ids :: "preview_registry \<Rightarrow> string set" where
  "active_ids g = {k. \<exists>r. jget (pw_records g) k = Some r \<and> is_active r}"

lemma finite_active [simp]: "finite (active_ids g)"
  by (rule finite_subset [OF _ finite_dom_map_of [of "pw_records g"]]) (auto simp: active_ids_def)

lemma active_count_card:
  assumes "keyed g"
  shows "active_count g = card (active_ids g)"
proof -
  have dist: "distinct (map fst (filter (is_active \<circ> snd) (pw_records g)))"
    using assms by (simp add: keyed_def wf_jmap_def distinct_map_filter)
  have ids: "active_ids g = set (map fst (filter (is_active \<circ> snd) (pw_records g)))"
    using assms by (force simp: active_ids_def keyed_def jget_mem dest: map_of_SomeD)
  have "active_count g = length (map fst (filter (is_active \<circ> snd) (pw_records g)))"
    by (simp add: active_count_def filter_map)
  also have "\<dots> = card (active_ids g)" unfolding ids by (rule distinct_card [OF dist, symmetric])
  finally show ?thesis .
qed

lemma record_in: "keyed g \<Longrightarrow> r \<in> set (jvalues (pw_records g)) \<Longrightarrow> jget (pw_records g) (pv_id r) = Some r"
  by (auto simp: keyed_def dest!: jget_mem)

lemma keyed_expireDue: "keyed g \<Longrightarrow> keyed (expireDue opts now g)"
  by (rule expireDue_induct) (auto simp: keyed_def expire_entry_def)

lemma active_expireDue: "active_ids (expireDue opts now g) \<subseteq> active_ids g"
  by (rule expireDue_induct) (auto simp: active_ids_def expire_entry_def is_active_def split: if_splits)

section \<open>The limit of active registrations\<close>

definition rolls_back_within :: "nat \<Rightarrow> string \<Rightarrow> registration \<Rightarrow> preview_registry \<Rightarrow> bool" where
  "rolls_back_within limit i previous g \<longleftrightarrow>
     pv_id previous = i \<and> (is_active previous \<longrightarrow> card (active_ids g - {i}) < limit)"

definition task_within :: "nat \<Rightarrow> preview_registry \<Rightarrow> bool" where
  "task_within limit g \<longleftrightarrow>
     (case pw_task g of
        Some (ProbeNew _ _ _) \<Rightarrow> card (active_ids g) < limit
      | Some (ProbeRenewal i) \<Rightarrow> card (active_ids g) < limit \<and> (\<exists>r. pw_held g = Some r \<and> pv_id r = i)
      | Some (SaveSource i previous) \<Rightarrow> rolls_back_within limit i previous g
      | Some (SaveRenewal i previous _) \<Rightarrow> rolls_back_within limit i previous g
      | Some (SaveUnregistered i previous) \<Rightarrow> rolls_back_within limit i previous g
      | _ \<Rightarrow> True)"

definition registry_ok :: "preview_options \<Rightarrow> preview_registry \<Rightarrow> bool" where
  "registry_ok opts g \<longleftrightarrow> keyed g \<and> card (active_ids g) \<le> po_maxRecords opts \<and> task_within (po_maxRecords opts) g"


text \<open>The limits only look at the records, the task and the identity of the held registration.\<close>

lemma registry_ok_same:
  assumes "registry_ok opts g" "pw_records g' = pw_records g" "pw_task g' = pw_task g"
    "map_option pv_id (pw_held g') = map_option pv_id (pw_held g)"
  shows "registry_ok opts g'"
proof -
  have "active_ids g' = active_ids g" using assms(2) by (simp add: active_ids_def)
  with assms show ?thesis
    by (auto simp: registry_ok_def keyed_def task_within_def rolls_back_within_def split: option.splits preview_task.splits)
qed

lemma task_within_fewer:
  assumes "task_within limit g" "active_ids g' \<subseteq> active_ids g" "pw_task g' = pw_task g"
    "map_option pv_id (pw_held g') = map_option pv_id (pw_held g)"
  shows "task_within limit g'"
proof -
  have less: "card (active_ids g') < limit" if "card (active_ids g) < limit"
    using card_mono [OF finite_active assms(2)] that by simp
  have "card (active_ids g' - {i}) \<le> card (active_ids g - {i})" for i
    by (rule card_mono) (use assms(2) in auto)
  then have other: "card (active_ids g' - {i}) < limit" if "card (active_ids g - {i}) < limit" for i
    using that by (meson le_less_trans)
  from assms(1,3,4) less other show ?thesis
    by (auto simp: task_within_def rolls_back_within_def split: option.splits preview_task.splits)
qed

lemma registry_ok_fewer:
  assumes "registry_ok opts g" "keyed g'" "active_ids g' \<subseteq> active_ids g" "pw_task g' = pw_task g"
    "map_option pv_id (pw_held g') = map_option pv_id (pw_held g)"
  shows "registry_ok opts g'"
  using assms task_within_fewer [OF _ assms(3-5)] card_mono [OF finite_active assms(3)] by (auto simp: registry_ok_def)

lemma held_expireDue:
  assumes "keyed g"
  shows "map_option pv_id (pw_held (expireDue opts now g)) = map_option pv_id (pw_held g)"
proof -
  have "keyed (expireDue opts now g) \<and> map_option pv_id (pw_held (expireDue opts now g)) = map_option pv_id (pw_held g)"
    by (rule expireDue_induct)
      (use assms in \<open>auto simp: keyed_def expire_entry_def follow_held_def split: option.splits\<close>)
  then show ?thesis ..
qed

lemma expireDue_ok: "registry_ok opts g \<Longrightarrow> registry_ok opts (expireDue opts now g)"
  by (rule registry_ok_fewer [OF _ keyed_expireDue active_expireDue]) (auto simp: registry_ok_def held_expireDue)

lemma prune_fewer: "keyed g \<Longrightarrow> keyed (prune opts g) \<and> active_ids (prune opts g) \<subseteq> active_ids g"
  by (rule prune_induct) (auto simp: keyed_def active_ids_def split: if_splits)

lemma prune_kept [simp]: "pw_task (prune opts g) = pw_task g" "pw_held (prune opts g) = pw_held g" "pw_revision (prune opts g) = pw_revision g"
    "pw_closed (prune opts g) = pw_closed g" "pw_writing (prune opts g) = pw_writing g" "pw_disk (prune opts g) = pw_disk g"
proof -
  have "pw_task (prune opts g) = pw_task g \<and> pw_held (prune opts g) = pw_held g \<and> pw_revision (prune opts g) = pw_revision g
     \<and> pw_closed (prune opts g) = pw_closed g \<and> pw_writing (prune opts g) = pw_writing g \<and> pw_disk (prune opts g) = pw_disk g"
    by (rule prune_induct) auto
  then show "pw_task (prune opts g) = pw_task g" "pw_held (prune opts g) = pw_held g" "pw_revision (prune opts g) = pw_revision g"
    "pw_closed (prune opts g) = pw_closed g" "pw_writing (prune opts g) = pw_writing g" "pw_disk (prune opts g) = pw_disk g" by auto
qed

lemma answered_ok: "keyed g \<Longrightarrow> card (active_ids g) \<le> po_maxRecords opts \<Longrightarrow> registry_ok opts (answer_task a g)"
  by (auto simp: registry_ok_def task_within_def keyed_def active_ids_def)

lemma keyed_set: "keyed g \<Longrightarrow> pv_id r = k \<Longrightarrow> keyed (g\<lparr>pw_records := jset (pw_records g) k r\<rparr>)"
  by (auto simp: keyed_def)

lemma active_set:
  "active_ids (g\<lparr>pw_records := jset (pw_records g) k r\<rparr>)
     = (if is_active r then insert k (active_ids g) else active_ids g - {k})"
  by (auto simp: active_ids_def)

text \<open>A registration saved in place of one that may come back.\<close>

lemma insert_within: "card (A - {i}) < n \<Longrightarrow> finite A \<Longrightarrow> card (insert i A) \<le> n"
  by (metis Suc_leI card_insert_disjoint Diff_iff finite_Diff insert_Diff_single insertI1)

lemma card_others: "card A < n \<Longrightarrow> finite A \<Longrightarrow> card (A - {i}) < n"
  by (meson card_mono Diff_subset le_less_trans)

lemma card_others_in: "i \<in> A \<Longrightarrow> card A \<le> n \<Longrightarrow> finite A \<Longrightarrow> card (A - {i}) < n"
  by (metis card_Diff1_less le_less_trans less_le_trans)


lemma await_ok:
  assumes "keyed g" "card (active_ids g) \<le> po_maxRecords opts"
    and "\<And>i previous. t = SaveSource i previous \<or> t = SaveUnregistered i previous \<or> (\<exists>e. t = SaveRenewal i previous e)
      \<Longrightarrow> rolls_back_within (po_maxRecords opts) i previous g"
    and "\<And>i. t \<noteq> ProbeRenewal i" "\<And>a b c. t \<noteq> ProbeNew a b c"
  shows "registry_ok opts (await_save t r g)"
proof -
  have "active_ids (await_save t r g) = active_ids g" by (simp add: active_ids_def)
  with assms show ?thesis
    by (cases t) (auto simp: registry_ok_def task_within_def rolls_back_within_def keyed_def)
qed

lemma add_registration_ok:
  assumes "keyed g" "card (active_ids g) < po_maxRecords opts"
  shows "registry_ok opts (add_registration opts now fresh target mode source g)"
  unfolding add_registration_def Let_def
proof (rule await_ok)
  let ?r = "\<lparr>pv_id = fresh, pv_target = target, pv_status = PreviewActive, pv_createdAt = now,
    pv_expiresAt = now + po_ttlMs opts, pv_revision = pw_revision g + 1, pv_pathMode = mode, pv_sources = [source]\<rparr>"
  let ?g = "g\<lparr>pw_revision := pw_revision g + 1, pw_records := jset (pw_records g) fresh ?r,
    pw_controllers := jset (pw_controllers g) fresh False\<rparr>"
  show "keyed ?g" using assms(1) by (auto simp: keyed_def)
  have "active_ids ?g = insert fresh (active_ids g)" by (auto simp: active_ids_def is_active_def)
  then show "card (active_ids ?g) \<le> po_maxRecords opts"
    using assms(2) card_insert_le_m1 [of "po_maxRecords opts" "active_ids g" fresh] by simp
qed simp_all

lemma change_keyed: "keyed g \<Longrightarrow> keyed (change_record r g)"
  by (auto simp: change_record_def keyed_def)

lemma active_change:
  "active_ids (change_record r g) \<subseteq> insert (pv_id r) (active_ids g)"
  "active_ids (change_record r g) - {pv_id r} = active_ids g - {pv_id r}"
  by (auto simp: change_record_def active_ids_def)

lemma save_renewal_ok:
  assumes "registry_ok opts g" and others: "card (active_ids g - {pv_id r}) < po_maxRecords opts"
  shows "registry_ok opts (save_renewal opts now r g)"
proof -
  let ?r = "r\<lparr>pv_status := PreviewActive, pv_expiresAt := max (pv_expiresAt r) (now + po_ttlMs opts), pv_revision := pw_revision g + 1\<rparr>"
  let ?g = "change_record ?r (g\<lparr>pw_revision := pw_revision g + 1\<rparr>)"
  have same: "active_ids (g\<lparr>pw_revision := pw_revision g + 1\<rparr>) = active_ids g" by (simp add: active_ids_def)
  have keyed: "keyed ?g" by (rule change_keyed) (use assms(1) in \<open>auto simp: registry_ok_def keyed_def\<close>)
  have rest: "active_ids ?g - {pv_id r} = active_ids g - {pv_id r}"
    using active_change(2) [of ?r "g\<lparr>pw_revision := pw_revision g + 1\<rparr>"] same by simp
  have "active_ids ?g \<subseteq> insert (pv_id r) (active_ids g)"
    using active_change(1) [of ?r "g\<lparr>pw_revision := pw_revision g + 1\<rparr>"] same by simp
  then have "card (active_ids ?g) \<le> card (insert (pv_id r) (active_ids g))" by (rule card_mono [rotated]) simp
  also have "\<dots> \<le> po_maxRecords opts" by (rule insert_within [OF others]) simp
  finally have count: "card (active_ids ?g) \<le> po_maxRecords opts" .
  have "registry_ok opts (await_save (SaveRenewal (pv_id r) r (pv_status r = PreviewExpired)) ?r ?g)"
    by (rule await_ok [OF keyed count]) (use rest others in \<open>auto simp: rolls_back_within_def\<close>)
  moreover have "registry_ok opts (answer_task (Inr (Some r)) g)"
    using assms(1) by (intro answered_ok) (auto simp: registry_ok_def)
  ultimately show ?thesis unfolding save_renewal_def Let_def by simp
qed

lemma found_active:
  assumes "keyed g" "find (same_preview target mode) (jvalues (pw_records g)) = Some r"
  shows "pv_id r \<in> active_ids g"
  using assms record_in [OF assms(1), of r] by (auto simp: find_Some_iff same_preview_def active_ids_def)

lemma refused_ok: "registry_ok opts g \<Longrightarrow> registry_ok opts (answer_task a g)"
  by (rule answered_ok) (auto simp: registry_ok_def)

lemma share_ok:
  assumes ok: "registry_ok opts g" and mem: "pv_id r \<in> active_ids g" and active: "is_active r"
  shows "registry_ok opts (share_registration source r g)"
proof -
  let ?r = "r\<lparr>pv_sources := pv_sources r @ [source], pv_revision := pw_revision g + 1\<rparr>"
  let ?g = "g\<lparr>pw_revision := pw_revision g + 1, pw_records := jset (pw_records g) (pv_id r) ?r\<rparr>"
  have keyed: "keyed g" and within: "card (active_ids g) \<le> po_maxRecords opts" using ok by (simp_all add: registry_ok_def)
  have ids: "active_ids ?g = active_ids g" using mem active by (auto simp: active_ids_def is_active_def)
  have "registry_ok opts (await_save (SaveSource (pv_id r) r) ?r ?g)"
  proof (rule await_ok)
    show "keyed ?g" using keyed by (auto simp: keyed_def)
    show "card (active_ids ?g) \<le> po_maxRecords opts" using ids within by simp
    show "rolls_back_within (po_maxRecords opts) i previous ?g" if "SaveSource (pv_id r) r = SaveSource i previous
        \<or> SaveSource (pv_id r) r = SaveUnregistered i previous \<or> (\<exists>e. SaveSource (pv_id r) r = SaveRenewal i previous e)" for i previous
      using that card_others_in [OF mem within] ids by (auto simp: rolls_back_within_def)
  qed simp_all
  with refused_ok [OF ok] show ?thesis by (simp add: share_registration_def Let_def)
qed

lemma registering_ok:
  assumes "registry_ok opts g0"
  shows "registry_ok opts (register_preview parse_url opts now fresh input mode source g0)"
proof -
  define g where "g = expireDue opts now g0"
  have ok: "registry_ok opts g" unfolding g_def by (rule expireDue_ok [OF assms])
  then have keyed: "keyed g" by (simp add: registry_ok_def)
  have probing: "registry_ok opts (g\<lparr>pw_task := Some (ProbeNew target m source)\<rparr>)"
    if "active_count g < po_maxRecords opts" for target m
    using ok that keyed by (auto simp: registry_ok_def task_within_def keyed_def active_ids_def active_count_card)
  have adding: "registry_ok opts (add_registration opts now fresh target m source g)"
    if "active_count g < po_maxRecords opts" for target m
    by (rule add_registration_ok [OF keyed]) (use that keyed in \<open>simp add: active_count_card\<close>)
  have sharing: "registry_ok opts (share_registration source r g)"
    if "find (same_preview target m) (jvalues (pw_records g)) = Some r" for target m r
    by (rule share_ok [OF ok found_active [OF keyed that]]) (use that in \<open>auto simp: find_Some_iff same_preview_def\<close>)
  show ?thesis unfolding register_preview_def Let_def g_def [symmetric]
    using refused_ok [OF ok] refused_ok [OF assms] sharing probing adding by (auto split: sum.split option.split)
qed

lemma renew_ok:
  assumes "registry_ok opts g0"
  shows "registry_ok opts (renew_preview parse_url opts now i g0)"
proof -
  define g where "g = expireDue opts now g0"
  have ok: "registry_ok opts g" unfolding g_def by (rule expireDue_ok [OF assms])
  then have keyed: "keyed g" by (simp add: registry_ok_def)
  show ?thesis
  proof (cases "\<exists>r. \<not> pw_closed g0 \<and> jget (pw_records g) i = Some r \<and> pv_status r \<noteq> PreviewUnregistered
      \<and> (\<exists>t. canonicalizeLoopbackTarget parse_url (po_protectedPorts opts) (pv_target r) = Inr t)
      \<and> (pv_status r = PreviewExpired \<longrightarrow> active_count g < po_maxRecords opts)")
    case False
    then show ?thesis using refused_ok [OF ok] refused_ok [OF assms]
      by (auto simp: renew_preview_def Let_def simp flip: g_def split: option.split sum.split)
  next
    case True
    then obtain r t where r: "\<not> pw_closed g0" "jget (pw_records g) i = Some r" "pv_status r \<noteq> PreviewUnregistered"
      "canonicalizeLoopbackTarget parse_url (po_protectedPorts opts) (pv_target r) = Inr t"
      "pv_status r = PreviewExpired \<longrightarrow> active_count g < po_maxRecords opts"
      by blast
    have id: "pv_id r = i" using keyed r(2) by (simp add: keyed_def)
    have room: "\<not> is_active r \<longrightarrow> card (active_ids g) < po_maxRecords opts"
      using r(3,5) keyed by (cases "pv_status r") (auto simp: is_active_def active_count_card)
    have "card (active_ids g - {pv_id r}) < po_maxRecords opts"
    proof (cases "is_active r")
      case True
      with r(2) id have "pv_id r \<in> active_ids g" by (simp add: active_ids_def)
      moreover from ok have "card (active_ids g) \<le> po_maxRecords opts" by (simp add: registry_ok_def)
      ultimately show ?thesis by (rule card_others_in) (rule finite_active)
    next
      case False
      with room show ?thesis by (intro card_others) simp_all
    qed
    then have saving: "registry_ok opts (save_renewal opts now r g)" by (rule save_renewal_ok [OF ok])
    have probing: "registry_ok opts (g\<lparr>pw_task := Some (ProbeRenewal i), pw_held := Some r\<rparr>)" if "pv_status r = PreviewExpired"
      using ok that room id by (auto simp: registry_ok_def task_within_def keyed_def active_ids_def is_active_def)
    show ?thesis using r saving probing by (auto simp: renew_preview_def Let_def simp flip: g_def)
  qed
qed


lemma unregister_ok:
  assumes "registry_ok opts g0"
  shows "registry_ok opts (unregister_preview opts now i g0)"
proof -
  define g where "g = expireDue opts now g0"
  have ok: "registry_ok opts g" unfolding g_def by (rule expireDue_ok [OF assms])
  then have keyed: "keyed g" and within: "card (active_ids g) \<le> po_maxRecords opts" by (simp_all add: registry_ok_def)
  have saving: "registry_ok opts (await_save (SaveUnregistered i r) r' (prune opts (abort_signal i
      (g\<lparr>pw_revision := v, pw_records := jset (pw_records g) i r'\<rparr>))))"
    if r: "jget (pw_records g) i = Some r" "r' = r\<lparr>pv_status := PreviewUnregistered, pv_revision := v\<rparr>" for r r' v
  proof -
    let ?h = "abort_signal i (g\<lparr>pw_revision := v, pw_records := jset (pw_records g) i r'\<rparr>)"
    have id: "pv_id r = i" using keyed r(1) by (simp add: keyed_def)
    have h: "keyed ?h" "active_ids ?h \<subseteq> active_ids g - {i}"
      using keyed id r(2) by (auto simp: keyed_def active_ids_def is_active_def)
    from prune_fewer [OF h(1), of opts] h(2)
    have p: "keyed (prune opts ?h)" "active_ids (prune opts ?h) \<subseteq> active_ids g - {i}" by auto
    show ?thesis
    proof (rule await_ok [OF p(1)])
      show "card (active_ids (prune opts ?h)) \<le> po_maxRecords opts"
        using p(2) within by (meson Diff_subset card_mono finite_active le_trans subset_trans)
      have "card (active_ids (prune opts ?h) - {i}) < po_maxRecords opts" if "is_active r"
      proof -
        have "i \<in> active_ids g" using r(1) that by (auto simp: active_ids_def)
        from card_others_in [OF this within finite_active] show ?thesis
          using card_mono [of "active_ids g - {i}" "active_ids (prune opts ?h) - {i}"] p(2) by fastforce
      qed
      then show "rolls_back_within (po_maxRecords opts) j previous (prune opts ?h)"
        if "SaveUnregistered i r = SaveSource j previous \<or> SaveUnregistered i r = SaveUnregistered j previous
          \<or> (\<exists>e. SaveUnregistered i r = SaveRenewal j previous e)" for j previous
        using that id by (auto simp: rolls_back_within_def)
    qed simp_all
  qed
  show ?thesis unfolding unregister_preview_def Let_def g_def [symmetric]
    using refused_ok [OF ok] refused_ok [OF assms] saving by (auto split: option.split)
qed

lemma probe_ok:
  assumes "registry_ok opts g"
  shows "registry_ok opts (probe_answered opts now fresh failure g)"
proof (cases "\<exists>t m s i. (pw_task g = Some (ProbeNew t m s) \<or> pw_task g = Some (ProbeRenewal i)) \<and> failure = None")
  case False
  with assms refused_ok [OF assms] show ?thesis
    by (auto simp: probe_answered_def split: option.split preview_task.split)
next
  case True
  then consider t m s where "pw_task g = Some (ProbeNew t m s)" "failure = None"
    | i where "pw_task g = Some (ProbeRenewal i)" "failure = None" by blast
  then show ?thesis
  proof cases
    case 1
    with assms have "keyed g" "card (active_ids g) < po_maxRecords opts" by (simp_all add: registry_ok_def task_within_def)
    with 1 show ?thesis by (simp add: probe_answered_def add_registration_ok)
  next
    case 2
    then obtain r where r: "pw_held g = Some r" "card (active_ids g) < po_maxRecords opts"
      using assms by (auto simp: registry_ok_def task_within_def)
    have "registry_ok opts (save_renewal opts now r g)"
      by (rule save_renewal_ok [OF assms card_others [OF r(2)]]) simp
    with 2 r show ?thesis by (simp add: probe_answered_def)
  qed
qed


lemma roll_back_ok:
  assumes "keyed g" "card (active_ids g) \<le> po_maxRecords opts" "rolls_back_within (po_maxRecords opts) i previous g"
  shows "registry_ok opts (answer_task a (roll_back i previous g))"
proof (rule answered_ok)
  show "keyed (roll_back i previous g)" using assms(1,3) by (auto simp: roll_back_def keyed_def rolls_back_within_def)
  have ids: "active_ids (roll_back i previous g) = (if is_active previous then insert i (active_ids g) else active_ids g - {i})"
    by (auto simp: roll_back_def active_ids_def)
  show "card (active_ids (roll_back i previous g)) \<le> po_maxRecords opts"
  proof (cases "is_active previous")
    case True
    with assms(3) have "card (active_ids g - {i}) < po_maxRecords opts" by (simp add: rolls_back_within_def)
    from insert_within [OF this finite_active] True ids show ?thesis by simp
  next
    case False
    have "card (active_ids g - {i}) \<le> card (active_ids g)" by (rule card_mono) auto
    with False ids assms(2) show ?thesis by simp
  qed
qed

lemma save_failed_ok:
  assumes "registry_ok opts g"
  shows "registry_ok opts (save_failed e g)"
proof -
  have ok: "keyed g" "card (active_ids g) \<le> po_maxRecords opts" "task_within (po_maxRecords opts) g"
    using assms by (simp_all add: registry_ok_def)
  have dropped: "registry_ok opts (answer_task a ((drop_record i g)\<lparr>pw_revision := v\<rparr>))" for i a v
  proof (rule answered_ok)
    show "keyed ((drop_record i g)\<lparr>pw_revision := v\<rparr>)" using ok(1) by (auto simp: keyed_def)
    have "active_ids ((drop_record i g)\<lparr>pw_revision := v\<rparr>) \<subseteq> active_ids g" by (auto simp: active_ids_def)
    from card_mono [OF finite_active this] ok(2)
    show "card (active_ids ((drop_record i g)\<lparr>pw_revision := v\<rparr>)) \<le> po_maxRecords opts" by simp
  qed
  have "registry_ok opts (answer_task (Inl e) (roll_back i previous g))"
    if "pw_task g = Some (SaveSource i previous) \<or> pw_task g = Some (SaveUnregistered i previous)
      \<or> pw_task g = Some (SaveRenewal i previous b)" for i previous b
    by (rule roll_back_ok [OF ok(1,2)]) (use that ok(3) in \<open>auto simp: task_within_def\<close>)
  with dropped assms show ?thesis by (auto simp: save_failed_def split: option.split preview_task.split)
qed

lemma save_done_ok:
  assumes "registry_ok opts g"
  shows "registry_ok opts (save_done g)"
proof -
  have "registry_ok opts (answer_task a (notify_previews (g\<lparr>pw_controllers := c\<rparr>)))" for a c
    by (rule answered_ok) (use assms in \<open>auto simp: registry_ok_def keyed_def active_ids_def\<close>)
  moreover have "registry_ok opts (answer_task a (notify_previews g))" for a
    by (rule answered_ok) (use assms in \<open>auto simp: registry_ok_def keyed_def active_ids_def\<close>)
  ultimately show ?thesis using assms by (auto simp: save_done_def split: option.split preview_task.split)
qed

lemma write_ended_ok: "registry_ok opts g \<Longrightarrow> registry_ok opts (write_ended w failure g)"
  using save_done_ok [of opts g] save_failed_ok [of opts g] registry_ok_same [of opts g "g\<lparr>pw_closed := True\<rparr>"]
  by (auto simp: write_ended_def split: writer.split option.split)

lemma start_write_ok:
  assumes "registry_ok opts g"
  shows "registry_ok opts (start_write g)"
proof -
  have "registry_ok opts (g\<lparr>pw_writes := ws\<rparr>)" "registry_ok opts (g\<lparr>pw_writes := ws, pw_writing := c\<rparr>)" for ws c
    by (rule registry_ok_same [OF assms]; simp)+
  with assms write_ended_ok show ?thesis by (auto simp: start_write_def split: option.split list.split)
qed

lemma finish_write_ok:
  assumes "registry_ok opts g"
  shows "registry_ok opts (finish_write outcome g)"
proof -
  have "registry_ok opts (g\<lparr>pw_writing := None\<rparr>)" "registry_ok opts (g\<lparr>pw_writing := None, pw_disk := d\<rparr>)" for d
    by (rule registry_ok_same [OF assms]; simp)+
  with assms write_ended_ok show ?thesis
    by (auto simp: finish_write_def Let_def split: option.split write_outcome.split)
qed

lemma preview_step_ok: "registry_ok opts g \<Longrightarrow> registry_ok opts (preview_step parse_url opts g ev)"
  by (cases ev)
    (auto simp: snapshot_previews_def Let_def close_previews_def
      intro: registering_ok renew_ok unregister_ok probe_ok start_write_ok finish_write_ok expireDue_ok
        registry_ok_same [of opts g])

interpretation preview_machine: machine "registry_ok opts" "preview_step parse_url opts" for parse_url opts
  by unfold_locales (rule preview_step_ok)

lemma create_registry_ok:
  assumes "create_registry parse_url opts now file = Inr g"
    and "\<And>s. file = Some s \<Longrightarrow> length (filter is_active (sv_registrations s)) \<le> po_maxRecords opts"
  shows "registry_ok opts g"
proof (cases "file")
  case None
  from None assms(1) show ?thesis
    by (auto simp: create_registry_def Let_def split: if_splits intro!: expireDue_ok)
      (simp add: registry_ok_def keyed_def active_ids_def task_within_def)
next
  case (Some s)
  define g0 where "g0 = \<lparr>pw_revision = sv_revision s, pw_closed = False, pw_records = map (\<lambda>r. (pv_id r, r)) (sv_registrations s),
    pw_controllers = map (\<lambda>r. (pv_id r, False)) (filter is_active (sv_registrations s)), pw_task = None, pw_held = None,
    pw_writes = [], pw_writing = None, pw_disk = file, pw_notified = [], pw_answers = []\<rparr>"
  have valid: "validState parse_url s" and g: "g = expireDue opts now g0"
    using assms(1) Some by (auto simp: create_registry_def Let_def g0_def split: if_splits)
  have keyed: "keyed g0" using valid
    by (auto simp: g0_def keyed_def wf_jmap_def validState_def comp_def dest!: map_of_SomeD)
  have "active_count g0 \<le> po_maxRecords opts"
    using assms(2) [OF Some] by (simp add: active_count_def g0_def comp_def)
  then have "registry_ok opts g0" using keyed by (simp add: registry_ok_def task_within_def active_count_card) (simp add: g0_def)
  then show ?thesis unfolding g by (rule expireDue_ok)
qed

section \<open>One write for each mutation that saves\<close>

definition saving :: "preview_registry \<Rightarrow> bool" where
  "saving g \<longleftrightarrow>
     (case pw_task g of
        None \<Rightarrow> False | Some (ProbeNew _ _ _) \<Rightarrow> False | Some (ProbeRenewal _) \<Rightarrow> False | _ \<Rightarrow> True)"

definition task_writes :: "preview_registry \<Rightarrow> nat" where
  "task_writes g =
     count_list (pw_writes g) TaskWriter + (case pw_writing g of Some (TaskWriter, _) \<Rightarrow> 1 | _ \<Rightarrow> 0)"

definition writes_ok :: "preview_registry \<Rightarrow> bool" where
  "writes_ok g \<longleftrightarrow> task_writes g = (if saving g then 1 else 0)"

lemma prune_writes [simp]: "pw_writes (prune opts g) = pw_writes g"
  by (rule prune_induct [where P = "\<lambda>h. pw_writes h = pw_writes g"]) auto

lemma expireDue_writes: "task_writes (expireDue opts now g) = task_writes g"
proof -
  have "pw_writes (foldl (\<lambda>g r. expire_entry now r g) g (jvalues (pw_records g))) = pw_writes g
      \<and> pw_writing (foldl (\<lambda>g r. expire_entry now r g) g (jvalues (pw_records g))) = pw_writing g"
    by (rule expire_induct) (auto simp: expire_entry_def)
  then show ?thesis by (simp add: expireDue_def task_writes_def persist_def)
qed

lemma expireDue_writes_ok [simp]: "writes_ok (expireDue opts now g) = writes_ok g"
  by (simp add: writes_ok_def expireDue_writes saving_def)

lemma answer_writes_ok: "task_writes g = 0 \<Longrightarrow> writes_ok (answer_task a g)"
  by (simp add: writes_ok_def saving_def task_writes_def)

lemma await_writes_ok:
  "task_writes g = 0 \<Longrightarrow> (\<And>a b c. t \<noteq> ProbeNew a b c) \<Longrightarrow> (\<And>i. t \<noteq> ProbeRenewal i) \<Longrightarrow> writes_ok (await_save t r g)"
  by (cases t) (auto simp: writes_ok_def saving_def task_writes_def await_save_def persist_def)

lemma task_writes_cong: "pw_writes g' = pw_writes g \<Longrightarrow> pw_writing g' = pw_writing g \<Longrightarrow> task_writes g' = task_writes g"
  by (simp add: task_writes_def)

lemma idle_writes: "writes_ok g \<Longrightarrow> \<not> saving g \<Longrightarrow> task_writes g = 0"
  by (simp add: writes_ok_def)

lemma add_registration_writes: "task_writes g = 0 \<Longrightarrow> writes_ok (add_registration opts now fresh target mode source g)"
  unfolding add_registration_def Let_def by (rule await_writes_ok) (simp_all add: task_writes_def)

lemma save_renewal_writes: "task_writes g = 0 \<Longrightarrow> writes_ok (save_renewal opts now r g)"
proof -
  assume none: "task_writes g = 0"
  have "task_writes (change_record r' (g\<lparr>pw_revision := v\<rparr>)) = 0" for r' v using none by (simp add: task_writes_def)
  then show ?thesis unfolding save_renewal_def Let_def by (auto intro!: await_writes_ok answer_writes_ok none)
qed

lemma share_writes: "task_writes g = 0 \<Longrightarrow> writes_ok (share_registration source r g)"
  unfolding share_registration_def Let_def
  by (auto intro!: await_writes_ok answer_writes_ok) (simp add: task_writes_def)

lemma mutation_writes_ok:
  assumes "writes_ok g" "pw_task g = None"
  shows "writes_ok (register_preview parse_url opts now fresh input mode source g)"
    "writes_ok (renew_preview parse_url opts now i g)" "writes_ok (unregister_preview opts now i g)"
proof -
  have none: "task_writes g = 0" "task_writes (expireDue opts now g) = 0"
    using assms by (simp_all add: idle_writes saving_def expireDue_writes)
  have probing: "writes_ok ((expireDue opts now g)\<lparr>pw_task := Some (ProbeNew t m s)\<rparr>)"
    "writes_ok ((expireDue opts now g)\<lparr>pw_task := Some (ProbeRenewal i), pw_held := h\<rparr>)" for t m s i h
    using none(2) by (simp_all add: writes_ok_def saving_def task_writes_def)
  note parts = probing none answer_writes_ok add_registration_writes save_renewal_writes share_writes
  show "writes_ok (register_preview parse_url opts now fresh input mode source g)"
    unfolding register_preview_def Let_def using parts by (auto split: sum.split option.split)
  show "writes_ok (renew_preview parse_url opts now i g)"
    unfolding renew_preview_def Let_def using parts by (auto split: sum.split option.split)
  have "writes_ok (await_save (SaveUnregistered i r) r' (prune opts (abort_signal i
      ((expireDue opts now g)\<lparr>pw_revision := v, pw_records := rs\<rparr>))))" for r r' v rs
    by (rule await_writes_ok) (use none(2) in \<open>simp_all add: task_writes_def\<close>)
  with parts show "writes_ok (unregister_preview opts now i g)"
    unfolding unregister_preview_def Let_def by (auto split: option.split)
qed

lemma probe_writes_ok:
  assumes "writes_ok g"
  shows "writes_ok (probe_answered opts now fresh failure g)"
proof -
  have none: "task_writes g = 0" if "pw_task g = Some (ProbeNew t m s) \<or> pw_task g = Some (ProbeRenewal i)" for t m s i
    using assms that by (intro idle_writes) (auto simp: saving_def)
  show ?thesis using assms none
    by (auto simp: probe_answered_def intro: answer_writes_ok add_registration_writes save_renewal_writes
        split: option.split preview_task.split)
qed

lemma write_ended_writes_ok:
  assumes "w = ExpiryWriter \<Longrightarrow> writes_ok g" "w = TaskWriter \<Longrightarrow> task_writes g = 0" "w = TaskWriter \<Longrightarrow> saving g"
  shows "writes_ok (write_ended w failure g)"
proof (cases w)
  case ExpiryWriter
  with assms(1) have "writes_ok (g\<lparr>pw_closed := True\<rparr>)" by (simp add: writes_ok_def saving_def task_writes_def)
  with ExpiryWriter assms(1) show ?thesis by (auto simp: write_ended_def split: option.split)
next
  case TaskWriter
  with assms(2,3) have "writes_ok (save_failed e g)" "writes_ok (save_done g)" for e
    by (auto simp: save_failed_def save_done_def saving_def roll_back_def task_writes_def intro!: answer_writes_ok
        split: option.splits preview_task.splits)
  with TaskWriter show ?thesis by (auto simp: write_ended_def split: option.split)
qed

lemma start_writes_ok:
  assumes "writes_ok g"
  shows "writes_ok (start_write g)"
proof (cases "pw_writing g = None \<and> pw_writes g \<noteq> []")
  case True
  then obtain w ws where ws: "pw_writing g = None" "pw_writes g = w # ws" by (auto simp: neq_Nil_conv)
  have "writes_ok (write_ended w (Some e) (g\<lparr>pw_writes := ws\<rparr>))" for e
    by (rule write_ended_writes_ok)
      (use assms ws in \<open>auto simp: writes_ok_def task_writes_def saving_def split: if_splits\<close>)
  moreover have "writes_ok (g\<lparr>pw_writes := ws, pw_writing := Some (w, c)\<rparr>)" for c
    using assms ws by (cases w) (auto simp: writes_ok_def task_writes_def saving_def)
  ultimately show ?thesis using ws by (simp add: start_write_def)
next
  case False
  with assms show ?thesis by (auto simp: start_write_def split: option.split list.split)
qed

lemma finish_writes_ok:
  assumes "writes_ok g"
  shows "writes_ok (finish_write outcome g)"
proof (cases "pw_writing g")
  case (Some wc)
  obtain w c where wc: "pw_writing g = Some (w, c)" using Some by (cases wc) auto
  have "writes_ok (write_ended w failure (g\<lparr>pw_writing := None\<rparr>))"
    "writes_ok (write_ended w failure (g\<lparr>pw_writing := None, pw_disk := d\<rparr>))" for failure d
    by (rule write_ended_writes_ok;
      use assms wc in \<open>auto simp: writes_ok_def task_writes_def saving_def split: if_splits\<close>)+
  with wc show ?thesis by (auto simp: finish_write_def Let_def split: write_outcome.split)
qed (use assms in \<open>simp add: finish_write_def\<close>)

lemma preview_step_writes_ok: "writes_ok g \<Longrightarrow> writes_ok (preview_step parse_url opts g ev)"
  by (cases ev)
    (auto simp: snapshot_previews_def Let_def close_previews_def mutation_writes_ok probe_writes_ok start_writes_ok finish_writes_ok,
      simp add: writes_ok_def task_writes_def saving_def)


section \<open>An unregistered preview stays closed\<close>

definition without :: "string \<Rightarrow> stored_state \<Rightarrow> bool" where
  "without i c \<longleftrightarrow> (\<forall>r \<in> set (sv_registrations c). pv_id r = i \<longrightarrow> pv_status r = PreviewUnregistered)"

definition shut :: "string \<Rightarrow> preview_registry \<Rightarrow> bool" where
  "shut i g \<longleftrightarrow> (\<forall>r. jget (pw_records g) i = Some r \<longrightarrow> pv_status r = PreviewUnregistered)
     \<and> jget (pw_controllers g) i \<noteq> Some False"

definition elsewhere :: "string \<Rightarrow> preview_registry \<Rightarrow> bool" where
  "elsewhere i g \<longleftrightarrow>
     (case pw_task g of
        Some (ProbeRenewal j) \<Rightarrow> j \<noteq> i | Some (SaveNew j) \<Rightarrow> j \<noteq> i | Some (SaveSource j _) \<Rightarrow> j \<noteq> i
      | Some (SaveRenewal j _ _) \<Rightarrow> j \<noteq> i | Some (SaveUnregistered j _) \<Rightarrow> j \<noteq> i | _ \<Rightarrow> True)"

definition shut_for_good :: "preview_options \<Rightarrow> string \<Rightarrow> preview_registry \<Rightarrow> bool" where
  "shut_for_good opts i g \<longleftrightarrow> registry_ok opts g \<and> shut i g \<and> elsewhere i g
     \<and> (\<forall>c. pw_disk g = Some c \<longrightarrow> without i c) \<and> (\<forall>w c. pw_writing g = Some (w, c) \<longrightarrow> without i c)"

lemma state_without: "keyed g \<Longrightarrow> shut i g \<Longrightarrow> without i (state_of_registry g)"
  by (auto simp: without_def state_of_registry_def shut_def keyed_def dest!: jget_mem)

lemma shut_expireDue:
  assumes "keyed g" "shut i g"
  shows "shut i (expireDue opts now g)"
proof (rule expireDue_induct [where P = "shut i"])
  fix r h
  assume "r \<in> set (jvalues (pw_records g))" and h: "shut i h"
  from record_in [OF assms(1) this(1)] assms(2) have "pv_id r = i \<Longrightarrow> pv_status r = PreviewUnregistered"
    by (auto simp: shut_def)
  with h show "shut i (expire_entry now r h)"
    by (auto simp: shut_def expire_entry_def is_active_def abort_signal_def)
next
  show "shut i g" by (rule assms(2))
qed (auto simp: shut_def)

lemma shut_prune: "shut i g \<Longrightarrow> shut i (prune opts g)"
  by (rule prune_induct) (auto simp: shut_def)

lemma shut_elsewhere:
  assumes "shut i g" "pv_id r \<noteq> i"
  shows "shut i (g\<lparr>pw_revision := v, pw_records := jset (pw_records g) (pv_id r) r\<rparr>)"
    "shut i (change_record r (g\<lparr>pw_revision := v\<rparr>))"
  using assms by (auto simp: shut_def change_record_def)

text \<open>What an operation may do: keep the preview shut, the file and the running write as they are.\<close>

definition keeps_shut :: "string \<Rightarrow> preview_registry \<Rightarrow> preview_registry \<Rightarrow> bool" where
  "keeps_shut i g g' \<longleftrightarrow> shut i g' \<and> elsewhere i g' \<and> pw_disk g' = pw_disk g \<and> pw_writing g' = pw_writing g"

lemma keeps_answer: "shut i g' \<Longrightarrow> pw_disk g' = pw_disk g \<Longrightarrow> pw_writing g' = pw_writing g \<Longrightarrow> keeps_shut i g (answer_task a g')"
  by (simp add: keeps_shut_def elsewhere_def shut_def)

lemma keeps_await:
  "shut i g' \<Longrightarrow> pw_disk g' = pw_disk g \<Longrightarrow> pw_writing g' = pw_writing g \<Longrightarrow> elsewhere i (g'\<lparr>pw_task := Some t\<rparr>)
    \<Longrightarrow> keeps_shut i g (await_save t r g')"
  by (simp add: keeps_shut_def elsewhere_def shut_def)

lemma keeps_add:
  "shut i g' \<Longrightarrow> pw_disk g' = pw_disk g \<Longrightarrow> pw_writing g' = pw_writing g \<Longrightarrow> fresh \<noteq> i
    \<Longrightarrow> keeps_shut i g (add_registration opts now fresh target mode source g')"
  unfolding add_registration_def Let_def by (rule keeps_await) (auto simp: shut_def elsewhere_def)

lemma keeps_renewal:
  "shut i g' \<Longrightarrow> pw_disk g' = pw_disk g \<Longrightarrow> pw_writing g' = pw_writing g \<Longrightarrow> pv_id r \<noteq> i
    \<Longrightarrow> keeps_shut i g (save_renewal opts now r g')"
  unfolding save_renewal_def Let_def
  by (auto intro!: keeps_await keeps_answer shut_elsewhere simp: elsewhere_def)

lemma keeps_share:
  "shut i g' \<Longrightarrow> pw_disk g' = pw_disk g \<Longrightarrow> pw_writing g' = pw_writing g \<Longrightarrow> pv_id r \<noteq> i
    \<Longrightarrow> keeps_shut i g (share_registration source r g')"
  unfolding share_registration_def Let_def
  by (auto intro!: keeps_await keeps_answer simp: elsewhere_def shut_def)

lemma find_in: "find P xs = Some r \<Longrightarrow> r \<in> set xs \<and> P r"
  by (auto simp: find_Some_iff)

lemma mutations_keep_shut:
  assumes keyed: "keyed g" and shut: "shut i g"
  shows "fresh \<noteq> i \<Longrightarrow> keeps_shut i g (register_preview parse_url opts now fresh input mode source g)"
    "keeps_shut i g (renew_preview parse_url opts now j g)" "keeps_shut i g (unregister_preview opts now j g)"
proof -
  define h where "h = expireDue opts now g"
  have h: "keyed h" "shut i h" "pw_disk h = pw_disk g" "pw_writing h = pw_writing g"
    using keyed_expireDue [OF keyed] shut_expireDue [OF keyed shut] by (simp_all add: h_def)
  have other: "pv_id r \<noteq> i" if "is_active r" "r \<in> set (jvalues (pw_records h))" for r
    using that h(1,2) record_in [OF h(1) that(2)] by (auto simp: shut_def is_active_def)
  have id: "jget (pw_records h) k = Some r \<Longrightarrow> pv_id r = k" for k r using h(1) by (simp add: keyed_def)
  have found: "pv_id r \<noteq> i" if "find (same_preview target m) (jvalues (pw_records h)) = Some r" for target m r
    using find_in [OF that] other by (simp add: same_preview_def)
  have open_id: "j \<noteq> i" if "jget (pw_records h) j = Some r" "pv_status r \<noteq> PreviewUnregistered" for r
    using that h(2) by (auto simp: shut_def)
  have probing: "keeps_shut i g (h\<lparr>pw_task := Some (ProbeNew t m s)\<rparr>)"
    "j \<noteq> i \<Longrightarrow> keeps_shut i g (h\<lparr>pw_task := Some (ProbeRenewal j), pw_held := r\<rparr>)" for t m s r
    using h(2-4) by (auto simp: keeps_shut_def elsewhere_def shut_def)
  note parts = keeps_answer [OF h(2-4)] keeps_answer [OF shut] keeps_add [OF h(2-4)] keeps_share [OF h(2-4) found]
    keeps_renewal [OF h(2-4)] probing open_id id
  show "fresh \<noteq> i \<Longrightarrow> keeps_shut i g (register_preview parse_url opts now fresh input mode source g)"
    unfolding register_preview_def Let_def h_def [symmetric] using parts by (auto split: sum.split option.split)
  show "keeps_shut i g (renew_preview parse_url opts now j g)"
    unfolding renew_preview_def Let_def h_def [symmetric] using parts by (auto split: sum.split option.split)
  have "keeps_shut i g (await_save (SaveUnregistered j r) r' (prune opts (abort_signal j
      (h\<lparr>pw_revision := v, pw_records := jset (pw_records h) j r'\<rparr>))))"
    if "j \<noteq> i" for r r' v
  proof (rule keeps_await [OF shut_prune])
    show "shut i (abort_signal j (h\<lparr>pw_revision := v, pw_records := jset (pw_records h) j r'\<rparr>))"
      using that h(2) by (auto simp: shut_def abort_signal_def)
  qed (use that h in \<open>auto simp: elsewhere_def\<close>)
  with parts show "keeps_shut i g (unregister_preview opts now j g)"
    unfolding unregister_preview_def Let_def h_def [symmetric] by (auto split: option.split)
qed

lemma probe_keeps_shut:
  assumes "registry_ok opts g" "shut i g" "elsewhere i g" "fresh \<noteq> i"
  shows "keeps_shut i g (probe_answered opts now fresh failure g)"
proof -
  have refl: "keeps_shut i g g" using assms by (simp add: keeps_shut_def)
  show ?thesis
    using assms refl
    by (auto simp: probe_answered_def registry_ok_def task_within_def elsewhere_def
        intro!: keeps_answer keeps_add keeps_renewal split: option.splits preview_task.splits)
qed


lemma write_ended_keeps_shut:
  assumes "shut i g" "elsewhere i g"
  shows "keeps_shut i g (write_ended w failure g)"
proof -
  have "keeps_shut i g (g\<lparr>pw_closed := b\<rparr>)" "keeps_shut i g g" for b
    using assms by (auto simp: keeps_shut_def shut_def elsewhere_def split: option.splits preview_task.splits)
  moreover have "keeps_shut i g (save_failed e g)" for e
    using assms calculation(2)
    by (auto simp: save_failed_def elsewhere_def roll_back_def intro!: keeps_answer split: option.splits preview_task.splits)
      (auto simp: shut_def)
  moreover have "keeps_shut i g (save_done g)"
    using assms calculation(2)
    by (auto simp: save_done_def elsewhere_def intro!: keeps_answer split: option.splits preview_task.splits)
      (auto simp: shut_def)
  ultimately show ?thesis by (auto simp: write_ended_def split: writer.split option.split)
qed

text \<open>The identities drawn for new registrations.\<close>

definition draws :: "preview_event \<Rightarrow> string \<Rightarrow> bool" where
  "draws ev i \<longleftrightarrow>
     (case ev of RegisterPreview _ fresh _ _ _ \<Rightarrow> fresh = i | ProbeAnswered _ fresh _ \<Rightarrow> fresh = i | _ \<Rightarrow> False)"

lemma finish_shut:
  assumes "shut i g" "elsewhere i g" "\<And>c. pw_disk g = Some c \<Longrightarrow> without i c" "\<And>w c. pw_writing g = Some (w, c) \<Longrightarrow> without i c"
  shows "shut i (finish_write outcome g) \<and> elsewhere i (finish_write outcome g)
    \<and> (\<forall>c. pw_disk (finish_write outcome g) = Some c \<longrightarrow> without i c) \<and> (\<forall>w c. pw_writing (finish_write outcome g) = Some (w, c) \<longrightarrow> without i c)"
proof (cases "pw_writing g")
  case None
  with assms show ?thesis by (simp add: finish_write_def)
next
  case (Some wc)
  obtain w c where wc: "pw_writing g = Some (w, c)" using Some by (cases wc) auto
  have c: "without i c" using assms(4) wc .
  have ended: "shut i (write_ended w failure h) \<and> elsewhere i (write_ended w failure h)
      \<and> (\<forall>c. pw_disk (write_ended w failure h) = Some c \<longrightarrow> without i c)
      \<and> (\<forall>w' c. pw_writing (write_ended w failure h) = Some (w', c) \<longrightarrow> without i c)"
    if "h = g\<lparr>pw_writing := None\<rparr> \<or> h = g\<lparr>pw_writing := None, pw_disk := Some c\<rparr>" for h failure
  proof -
    have "shut i h" "elsewhere i h" using that assms(1,2) by (auto simp: shut_def elsewhere_def)
    from write_ended_keeps_shut [OF this] that c assms(3) show ?thesis by (auto simp: keeps_shut_def)
  qed
  define h where "h = g\<lparr>pw_writing := None\<rparr>"
  define h' where "h' = g\<lparr>pw_writing := None, pw_disk := Some c\<rparr>"
  have run: "finish_write outcome g =
      (case outcome of Written \<Rightarrow> write_ended w None h' | NotWritten e \<Rightarrow> write_ended w (Some e) h
        | WrittenNotSynced e \<Rightarrow> write_ended w (Some e) h')"
    by (cases outcome) (simp_all add: finish_write_def wc Let_def h_def h'_def)
  show ?thesis unfolding run
    by (cases outcome) (simp_all only: write_outcome.case, (rule ended; simp add: h_def h'_def)+)
qed

lemma start_shut:
  assumes "keyed g" "shut i g" "elsewhere i g" "\<And>c. pw_disk g = Some c \<Longrightarrow> without i c" "\<And>w c. pw_writing g = Some (w, c) \<Longrightarrow> without i c"
  shows "shut i (start_write g) \<and> elsewhere i (start_write g)
    \<and> (\<forall>c. pw_disk (start_write g) = Some c \<longrightarrow> without i c) \<and> (\<forall>w c. pw_writing (start_write g) = Some (w, c) \<longrightarrow> without i c)"
proof (cases "pw_writing g = None \<and> pw_writes g \<noteq> []")
  case False
  with assms show ?thesis by (auto simp: start_write_def split: option.split list.split)
next
  case True
  then obtain w ws where ws: "pw_writing g = None" "pw_writes g = w # ws" by (auto simp: neq_Nil_conv)
  let ?h = "g\<lparr>pw_writes := ws\<rparr>"
  have h: "shut i ?h" "elsewhere i ?h" using assms(2,3) by (auto simp: shut_def elsewhere_def)
  have refused: "shut i (write_ended w failure ?h) \<and> elsewhere i (write_ended w failure ?h)
      \<and> (\<forall>c. pw_disk (write_ended w failure ?h) = Some c \<longrightarrow> without i c) \<and> pw_writing (write_ended w failure ?h) = None" for failure
    using write_ended_keeps_shut [OF h, of w failure] ws assms(4) by (simp add: keeps_shut_def)
  have "shut i (?h\<lparr>pw_writing := Some (w, state_of_registry g)\<rparr>) \<and> elsewhere i (?h\<lparr>pw_writing := Some (w, state_of_registry g)\<rparr>)"
    using assms(2,3) by (simp add: shut_def elsewhere_def)
  with refused state_without [OF assms(1,2)] ws assms(4) show ?thesis by (auto simp: start_write_def)
qed

lemma shut_step:
  assumes "shut_for_good opts i g" "\<not> draws ev i"
  shows "shut_for_good opts i (preview_step parse_url opts g ev)"
proof -
  have ok: "registry_ok opts g" and keyed: "keyed g" and shut: "shut i g" and elsewhere: "elsewhere i g"
    and disk: "\<And>c. pw_disk g = Some c \<Longrightarrow> without i c" and running: "\<And>w c. pw_writing g = Some (w, c) \<Longrightarrow> without i c"
    using assms(1) by (auto simp: shut_for_good_def registry_ok_def)
  have by_keeps: "shut_for_good opts i g'" if "keeps_shut i g g'" "registry_ok opts g'" for g'
    using that disk running by (auto simp: shut_for_good_def keeps_shut_def)
  have expired: "keeps_shut i g (expireDue opts now g)" for now
    using shut_expireDue [OF keyed shut] elsewhere by (simp add: keeps_shut_def elsewhere_def)
  have closed: "keeps_shut i g (close_previews g)"
    using shut elsewhere by (auto simp: keeps_shut_def close_previews_def shut_def elsewhere_def map_of_map)
  have same: "keeps_shut i g g" using shut elsewhere by (simp add: keeps_shut_def)
  have after: "registry_ok opts (preview_step parse_url opts g ev)" by (rule preview_step_ok [OF ok])
  have kept: "keeps_shut i g (preview_step parse_url opts g ev)" if "\<forall>outcome. ev \<noteq> StartWrite \<and> ev \<noteq> FinishWrite outcome"
    using assms(2) that mutations_keep_shut [OF keyed shut] probe_keeps_shut [OF ok shut elsewhere] expired closed same
    by (cases ev) (auto simp: draws_def snapshot_previews_def Let_def)
  show ?thesis
  proof (cases "\<forall>outcome. ev \<noteq> StartWrite \<and> ev \<noteq> FinishWrite outcome")
    case True
    from by_keeps [OF kept [OF True] after] show ?thesis .
  next
    case False
    with after start_shut [OF keyed shut elsewhere disk running] finish_shut [OF shut elsewhere disk running] show ?thesis
      by (auto simp: shut_for_good_def)
  qed
qed


text \<open>While an unregistration is being saved the preview is shut, also in what is being written.\<close>

definition unregistering_ok :: "preview_registry \<Rightarrow> bool" where
  "unregistering_ok g \<longleftrightarrow>
     (\<forall>i previous. pw_task g = Some (SaveUnregistered i previous) \<longrightarrow>
        shut i g \<and> (\<forall>c. pw_writing g = Some (TaskWriter, c) \<longrightarrow> without i c))"

lemma unregistering_idle: "(\<And>i p. pw_task g \<noteq> Some (SaveUnregistered i p)) \<Longrightarrow> unregistering_ok g"
  by (simp add: unregistering_ok_def)

lemma renewal_task: "pw_task (save_renewal opts now r g) \<noteq> Some (SaveUnregistered i p)"
  by (simp add: save_renewal_def Let_def)

lemma adding_task: "pw_task (add_registration opts now fresh t m s g) \<noteq> Some (SaveUnregistered i p)"
  by (simp add: add_registration_def Let_def)

lemma sharing_task: "pw_task (share_registration s r g) \<noteq> Some (SaveUnregistered i p)"
  by (simp add: share_registration_def Let_def)

lemma unregistering_expireDue: "keyed g \<Longrightarrow> unregistering_ok g \<Longrightarrow> unregistering_ok (expireDue opts now g)"
  by (simp add: unregistering_ok_def shut_expireDue)

lemma not_task_write: "task_writes g = 0 \<Longrightarrow> pw_writing g \<noteq> Some (TaskWriter, c)"
  by (auto simp: task_writes_def)

lemma unregister_unregistering:
  assumes "keyed g" "writes_ok g" "pw_task g = None"
  shows "unregistering_ok (unregister_preview opts now i g)"
proof -
  define h where "h = expireDue opts now g"
  have "task_writes g = 0" using assms(2,3) by (simp add: idle_writes saving_def)
  then have none: "pw_writing h \<noteq> Some (TaskWriter, c)" for c using not_task_write by (simp add: h_def)
  have "unregistering_ok (await_save (SaveUnregistered i r) r' (prune opts (abort_signal i
      (h\<lparr>pw_revision := v, pw_records := jset (pw_records h) i r'\<rparr>))))"
    if "r' = r\<lparr>pv_status := PreviewUnregistered, pv_revision := v\<rparr>" for r r' v
  proof -
    have "shut i (abort_signal i (h\<lparr>pw_revision := v, pw_records := jset (pw_records h) i r'\<rparr>))"
      using that by (auto simp: shut_def abort_signal_def)
    from shut_prune [OF this, of opts] none show ?thesis by (auto simp: unregistering_ok_def shut_def)
  qed
  then show ?thesis unfolding unregister_preview_def Let_def h_def [symmetric]
    by (auto intro: unregistering_idle split: option.split)
qed

lemma ended_task: "saving g \<Longrightarrow> pw_task (write_ended TaskWriter failure g) = None"
  by (auto simp: write_ended_def save_done_def save_failed_def saving_def split: option.splits preview_task.splits)

lemma write_ended_unregistering:
  assumes "unregistering_ok g" "w = TaskWriter \<longrightarrow> saving g"
  shows "unregistering_ok (write_ended w failure g)"
proof (cases w)
  case ExpiryWriter
  with assms(1) show ?thesis by (auto simp: write_ended_def unregistering_ok_def shut_def split: option.split)
next
  case TaskWriter
  with assms(2) show ?thesis by (intro unregistering_idle) (simp add: ended_task)
qed

lemma preview_step_unregistering:
  assumes "keyed g" "writes_ok g" "unregistering_ok g"
  shows "unregistering_ok (preview_step parse_url opts g ev)"
proof (cases ev)
  case (RegisterPreview now fresh input mode source)
  have "unregistering_ok (register_preview parse_url opts now fresh input mode source g)" if "pw_task g = None"
    by (rule unregistering_idle) (auto simp: register_preview_def Let_def that adding_task sharing_task split: sum.split option.split)
  with RegisterPreview assms(3) show ?thesis by simp
next
  case (RenewPreview now i)
  have "unregistering_ok (renew_preview parse_url opts now i g)" if "pw_task g = None"
    by (rule unregistering_idle) (auto simp: renew_preview_def Let_def that renewal_task split: sum.split option.split)
  with RenewPreview assms(3) show ?thesis by simp
next
  case (UnregisterPreview now i)
  with unregister_unregistering [OF assms(1,2)] assms(3) show ?thesis by simp
next
  case (ProbeAnswered now fresh failure)
  with assms(3) show ?thesis
    by (auto simp: probe_answered_def intro!: unregistering_idle dest: adding_task [THEN notE] renewal_task [THEN notE]
        split: option.splits preview_task.splits)
next
  case StartWrite
  show ?thesis
  proof (cases "pw_writing g = None \<and> pw_writes g \<noteq> []")
    case True
    then obtain w ws where ws: "pw_writing g = None" "pw_writes g = w # ws" by (auto simp: neq_Nil_conv)
    have saves: "w = TaskWriter \<longrightarrow> saving (g\<lparr>pw_writes := ws\<rparr>)"
      using assms(2) ws by (auto simp: writes_ok_def task_writes_def saving_def split: if_splits)
    have "unregistering_ok (g\<lparr>pw_writes := ws\<rparr>)" using assms(3) by (simp add: unregistering_ok_def shut_def)
    from write_ended_unregistering [OF this saves] have "unregistering_ok (write_ended w failure (g\<lparr>pw_writes := ws\<rparr>))" for failure .
    moreover have "unregistering_ok (g\<lparr>pw_writes := ws, pw_writing := Some (w, state_of_registry g)\<rparr>)"
      using assms(3) state_without [OF assms(1)] by (auto simp: unregistering_ok_def shut_def)
    ultimately show ?thesis using StartWrite ws by (simp add: start_write_def)
  next
    case False
    with StartWrite assms(3) show ?thesis by (auto simp: start_write_def split: option.split list.split)
  qed
next
  case (FinishWrite outcome)
  show ?thesis
  proof (cases "pw_writing g")
    case (Some wc)
    obtain w c where wc: "pw_writing g = Some (w, c)" using Some by (cases wc) auto
    have "unregistering_ok (write_ended w failure h)" if "h = g\<lparr>pw_writing := None\<rparr> \<or> h = g\<lparr>pw_writing := None, pw_disk := Some c\<rparr>" for h failure
      using that assms(2,3) wc
      by (intro write_ended_unregistering) (auto simp: unregistering_ok_def shut_def writes_ok_def task_writes_def saving_def split: if_splits)
    with FinishWrite wc show ?thesis by (cases outcome) (simp_all add: finish_write_def Let_def)
  qed (use FinishWrite assms(3) in \<open>simp add: finish_write_def\<close>)
next
  case (ExpiryTimer now)
  with unregistering_expireDue [OF assms(1,3)] show ?thesis by simp
next
  case (ReadPreviews now)
  with unregistering_expireDue [OF assms(1,3)] show ?thesis by (simp add: snapshot_previews_def Let_def)
next
  case ClosePreviews
  with assms(3) show ?thesis by (auto simp: close_previews_def unregistering_ok_def shut_def map_of_map)
qed

definition preview_ok :: "preview_options \<Rightarrow> preview_registry \<Rightarrow> bool" where
  "preview_ok opts g \<longleftrightarrow> registry_ok opts g \<and> writes_ok g \<and> unregistering_ok g"

interpretation preview_saves: machine "preview_ok opts" "preview_step parse_url opts" for parse_url opts
proof unfold_locales
  fix g ev
  assume "preview_ok opts g"
  moreover from this have "keyed g" by (simp add: preview_ok_def registry_ok_def)
  ultimately show "preview_ok opts (preview_step parse_url opts g ev)"
    by (simp add: preview_ok_def preview_step_ok preview_step_writes_ok preview_step_unregistering)
qed

lemma create_preview_ok:
  assumes "create_registry parse_url opts now file = Inr g"
    and "\<And>s. file = Some s \<Longrightarrow> length (filter is_active (sv_registrations s)) \<le> po_maxRecords opts"
  shows "preview_ok opts g"
proof -
  have "writes_ok g0" if "pw_writes g0 = []" "pw_writing g0 = None" "pw_task g0 = None" for g0
    using that by (simp add: writes_ok_def saving_def task_writes_def)
  then have "writes_ok g" "pw_task g = None"
    using assms(1) by (auto simp: create_registry_def Let_def split: option.splits if_splits)
  with create_registry_ok [OF assms] show ?thesis by (simp add: preview_ok_def unregistering_idle)
qed

end
