(* ===== verification/Preview_Registry_File.thy ===== *)
theory Preview_Registry_File
  imports Preview_Registry_Properties
begin

text \<open>
  The file of the preview registry, and what the registry guarantees: a bounded number of open previews, final
  revocation, and a file that is accepted again; with concrete runs, two of which show where the code
  falls short.
\<close>

section \<open>The file is accepted again\<close>

lemma canonical_unprotected:
  "canonicalizeLoopbackTarget parse_url protected input = Inr u \<Longrightarrow> canonicalizeLoopbackTarget parse_url [] input = Inr u"
  by (auto simp: canonicalizeLoopbackTarget_def split: sum.splits if_splits)

text \<open>The origin of a URL parses to itself: canonical targets are fixed points.\<close>

definition canonical_fixed :: "(string \<Rightarrow> url option) \<Rightarrow> bool" where
  "canonical_fixed parse_url \<longleftrightarrow>
     (\<forall>t u. canonicalizeLoopbackTarget parse_url [] t = Inr u \<longrightarrow> canonicalizeLoopbackTarget parse_url [] u = Inr u)"

definition past_ids :: "preview_registry \<Rightarrow> string set" where
  "past_ids g = {k. \<exists>r. jget (pw_records g) k = Some r \<and> \<not> is_active r}"

lemma finite_past [simp]: "finite (past_ids g)"
  by (rule finite_subset [OF _ finite_dom_map_of [of "pw_records g"]]) (auto simp: past_ids_def)

lemma dropped_records:
  "jget (pw_records (foldl (\<lambda>g r. drop_record (pv_id r) g) g rs)) k = (if k \<in> pv_id ` set rs then None else jget (pw_records g) k)"
  by (induction rs arbitrary: g) auto

lemma pruned_record: "jget (pw_records (prune opts g)) k = Some r \<Longrightarrow> jget (pw_records g) k = Some r"
  by (simp add: prune_def dropped_records split: if_splits)

lemma prune_past:
  assumes "keyed g"
  shows "card (past_ids (prune opts g)) \<le> po_maxTombstones opts"
proof -
  let ?n = "po_maxTombstones opts"
  have "past_ids (prune opts g) \<subseteq> pv_id ` set (take ?n (tombstones g))"
  proof
    fix k
    assume "k \<in> past_ids (prune opts g)"
    then obtain r where r: "jget (pw_records g) k = Some r" "\<not> is_active r" "k \<notin> pv_id ` set (drop ?n (tombstones g))"
      by (auto simp: past_ids_def prune_def dropped_records split: if_splits)
    have id: "pv_id r = k" using assms r(1) by (simp add: keyed_def)
    have "r \<in> set (tombstones g)" using r(1,2) by (force simp: tombstones_def dest: map_of_SomeD)
    then have "r \<in> set (take ?n (tombstones g)) \<union> set (drop ?n (tombstones g))" by (metis append_take_drop_id set_append)
    with r(3) id show "k \<in> pv_id ` set (take ?n (tombstones g))" by auto
  qed
  from card_mono [OF _ this] have "card (past_ids (prune opts g)) \<le> card (pv_id ` set (take ?n (tombstones g)))" by simp
  also have "\<dots> \<le> length (take ?n (tombstones g))" by (meson card_image_le card_length finite_set le_trans)
  also have "\<dots> \<le> ?n" by simp
  finally show ?thesis .
qed

lemma records_length:
  assumes "keyed g"
  shows "length (pw_records g) = card (active_ids g) + card (past_ids g)"
proof -
  have dom: "dom (map_of (pw_records g)) = active_ids g \<union> past_ids g" "active_ids g \<inter> past_ids g = {}"
    by (auto simp: active_ids_def past_ids_def)
  have "length (pw_records g) = card (fst ` set (pw_records g))"
    using assms distinct_card [of "jkeys (pw_records g)"] by (simp add: keyed_def wf_jmap_def)
  also have "\<dots> = card (active_ids g \<union> past_ids g)" using dom(1) by (simp add: dom_map_of_conv_image_fst)
  also have "\<dots> = card (active_ids g) + card (past_ids g)" by (rule card_Un_disjoint) (simp_all add: dom(2))
  finally show ?thesis .
qed

text \<open>A valid registration but for the size of its revision, which the revision of the registry bounds.\<close>

definition entry_valid :: "(string \<Rightarrow> url option) \<Rightarrow> int \<Rightarrow> registration \<Rightarrow> bool" where
  "entry_valid parse_url revision r \<longleftrightarrow>
     16 \<le> length (pv_id r)
     \<and> is_safe_integer (pv_createdAt r) \<and> is_safe_integer (pv_expiresAt r) \<and> 0 \<le> pv_createdAt r \<and> pv_createdAt r \<le> pv_expiresAt r
     \<and> 1 \<le> pv_revision r \<and> pv_revision r \<le> revision
     \<and> pv_sources r \<noteq> [] \<and> length (pv_sources r) \<le> 256 \<and> list_all source_ok (pv_sources r)
     \<and> canonicalizeLoopbackTarget parse_url [] (pv_target r) = Inr (pv_target r)"

lemma entry_valid_safe: "v \<le> max_safe_integer \<Longrightarrow> valid_registration p v r = entry_valid p v r"
  by (auto simp: valid_registration_def entry_valid_def is_safe_integer_def)

lemma entry_valid_later: "entry_valid p v r \<Longrightarrow> v \<le> w \<Longrightarrow> entry_valid p w r"
  by (simp add: entry_valid_def)

lemma entry_valid_Suc: "entry_valid p v r \<Longrightarrow> entry_valid p (v + 1) r"
  by (simp add: entry_valid_def)

abbreviation records_valid :: "(string \<Rightarrow> url option) \<Rightarrow> preview_registry \<Rightarrow> bool" where
  "records_valid parse_url g \<equiv> \<forall>k r. jget (pw_records g) k = Some r \<longrightarrow> entry_valid parse_url (pw_revision g) r"

definition task_valid :: "(string \<Rightarrow> url option) \<Rightarrow> preview_registry \<Rightarrow> bool" where
  "task_valid parse_url g \<longleftrightarrow>
     (case pw_task g of
        Some (ProbeNew target _ source) \<Rightarrow> canonicalizeLoopbackTarget parse_url [] target = Inr target \<and> source_ok source
      | Some (ProbeRenewal _) \<Rightarrow> \<forall>r. pw_held g = Some r \<longrightarrow> entry_valid parse_url (pw_revision g) r
      | _ \<Rightarrow> True)"

text \<open>What is kept as long as no write fails.\<close>

definition storable :: "(string \<Rightarrow> url option) \<Rightarrow> preview_options \<Rightarrow> preview_registry \<Rightarrow> bool" where
  "storable parse_url opts g \<longleftrightarrow>
     registry_ok opts g \<and> \<not> pw_closed g \<and> 0 \<le> pw_revision g \<and> records_valid parse_url g \<and> task_valid parse_url g
     \<and> card (past_ids g) \<le> po_maxTombstones opts"

lemma storable_valid:
  assumes "storable parse_url opts g" "pw_revision g \<le> max_safe_integer" "po_maxRecords opts + po_maxTombstones opts \<le> 384"
  shows "validState parse_url (state_of_registry g)"
proof -
  have keyed: "keyed g" using assms(1) by (simp add: storable_def registry_ok_def)
  have "length (pw_records g) \<le> 384"
    using assms records_length [OF keyed] by (simp add: storable_def registry_ok_def)
  moreover have "distinct (map pv_id (jvalues (pw_records g)))"
  proof -
    have "map pv_id (jvalues (pw_records g)) = jkeys (pw_records g)"
      using keyed by (auto simp: keyed_def dest: jget_mem)
    then show ?thesis using keyed by (simp only: keyed_def wf_jmap_def)
  qed
  moreover have "list_all (valid_registration parse_url (pw_revision g)) (jvalues (pw_records g))"
    using assms(1,2) keyed by (auto simp: storable_def entry_valid_safe list_all_iff keyed_def dest: jget_mem)
  ultimately show ?thesis
    using assms by (simp add: validState_def state_of_registry_def is_safe_integer_def storable_def)
qed


definition timely :: "preview_options \<Rightarrow> int \<Rightarrow> bool" where
  "timely opts now \<longleftrightarrow> 0 \<le> now \<and> now + po_ttlMs opts \<le> max_safe_integer"

text \<open>Events of a run without failing writes, with clock readings and identities as the platform gives them.\<close>

definition calm :: "preview_options \<Rightarrow> preview_event \<Rightarrow> bool" where
  "calm opts ev \<longleftrightarrow>
     (case ev of
        RegisterPreview now fresh _ _ _ \<Rightarrow> timely opts now \<and> 16 \<le> length fresh
      | RenewPreview now _ \<Rightarrow> timely opts now
      | ProbeAnswered now fresh _ \<Rightarrow> timely opts now \<and> 16 \<le> length fresh
      | FinishWrite outcome \<Rightarrow> outcome = Written
      | ClosePreviews \<Rightarrow> False
      | _ \<Rightarrow> True)"

definition held_valid :: "(string \<Rightarrow> url option) \<Rightarrow> preview_registry \<Rightarrow> bool" where
  "held_valid p g \<longleftrightarrow> (\<forall>i r. pw_task g = Some (ProbeRenewal i) \<longrightarrow> pw_held g = Some r \<longrightarrow> entry_valid p (pw_revision g) r)"

lemma past_expireDue:
  assumes "keyed g" "card (past_ids g) \<le> po_maxTombstones opts"
  shows "card (past_ids (expireDue opts now g)) \<le> po_maxTombstones opts"
proof (cases "any_due now g")
  case True
  let ?h = "follow_held (foldl (\<lambda>g r. expire_entry now r g) g (jvalues (pw_records g)))"
  have "keyed (foldl (\<lambda>g r. expire_entry now r g) g (jvalues (pw_records g)))"
    by (rule expire_induct) (use assms(1) in \<open>auto simp: keyed_def expire_entry_def\<close>)
  then have "keyed ?h" by (simp add: keyed_def)
  from prune_past [OF this, of opts] True show ?thesis by (simp add: expireDue_def past_ids_def)
qed (use assms(2) in \<open>simp add: expireDue_def\<close>)

lemma valid_expireDue:
  assumes "keyed g" "records_valid p g" "held_valid p g" "0 \<le> pw_revision g"
  shows "records_valid p (expireDue opts now g) \<and> held_valid p (expireDue opts now g) \<and> pw_revision g \<le> pw_revision (expireDue opts now g)"
proof (rule expireDue_induct [where P = "\<lambda>h. records_valid p h \<and> held_valid p h \<and> pw_revision g \<le> pw_revision h"])
  show "records_valid p g \<and> held_valid p g \<and> pw_revision g \<le> pw_revision g" using assms(2,3) by simp
next
  fix r h
  assume r: "r \<in> set (jvalues (pw_records g))" and h: "records_valid p h \<and> held_valid p h \<and> pw_revision g \<le> pw_revision h"
  from record_in [OF assms(1) r] assms(2) have "entry_valid p (pw_revision g) r" by blast
  then have new: "entry_valid p (pw_revision h + 1) (r\<lparr>pv_status := PreviewExpired, pv_revision := pw_revision h + 1\<rparr>)"
    using h assms(4) by (simp add: entry_valid_def)
  show "records_valid p (expire_entry now r h) \<and> held_valid p (expire_entry now r h) \<and> pw_revision g \<le> pw_revision (expire_entry now r h)"
    using h new by (auto simp: expire_entry_def held_valid_def intro: entry_valid_Suc)
next
  fix h
  assume h: "records_valid p h \<and> held_valid p h \<and> pw_revision g \<le> pw_revision h"
  then show "records_valid p (follow_held h) \<and> held_valid p (follow_held h) \<and> pw_revision g \<le> pw_revision (follow_held h)"
    by (auto simp: follow_held_def held_valid_def split: option.splits)
qed (auto simp: held_valid_def)

lemma storable_expireDue:
  assumes "storable p opts g"
  shows "storable p opts (expireDue opts now g)"
proof -
  have g: "keyed g" "records_valid p g" "held_valid p g" "0 \<le> pw_revision g"
    using assms by (auto simp: storable_def registry_ok_def task_valid_def held_valid_def split: option.splits preview_task.splits)
  from valid_expireDue [OF g, of opts now] have v: "records_valid p (expireDue opts now g)" "held_valid p (expireDue opts now g)"
    "pw_revision g \<le> pw_revision (expireDue opts now g)" by auto
  have "task_valid p (expireDue opts now g)"
    using assms v(2) by (auto simp: storable_def task_valid_def held_valid_def split: option.splits preview_task.splits)
  then show ?thesis using assms v g(4) past_expireDue [OF g(1)] expireDue_ok
    by (auto simp: storable_def intro: order.trans)
qed

text \<open>A result with the same or one more record, whose records are valid.\<close>

lemma storable_answer: "storable p opts g \<Longrightarrow> storable p opts (answer_task a g)"
  using refused_ok [of opts g a] by (auto simp: storable_def task_valid_def past_ids_def)

definition plain_task :: "preview_task \<Rightarrow> bool" where
  "plain_task t \<longleftrightarrow> (\<forall>a b c. t \<noteq> ProbeNew a b c) \<and> (\<forall>i. t \<noteq> ProbeRenewal i)"

lemma plain_tasks [simp]: "plain_task (SaveNew i)" "plain_task (SaveSource i r)" "plain_task (SaveRenewal i r b)" "plain_task (SaveUnregistered i r)"
  by (simp_all add: plain_task_def)

lemma storable_await:
  assumes "registry_ok opts (await_save t r g)" "plain_task t" "\<not> pw_closed g" "0 \<le> pw_revision g" "records_valid p g"
    "card (past_ids g) \<le> po_maxTombstones opts"
  shows "storable p opts (await_save t r g)"
  using assms by (cases t) (auto simp: storable_def task_valid_def past_ids_def plain_task_def)

lemma past_set_active: "is_active r \<Longrightarrow> past_ids (g\<lparr>pw_revision := v, pw_records := jset (pw_records g) k r\<rparr>) \<subseteq> past_ids g"
  by (auto simp: past_ids_def)

lemma storable_add:
  assumes g: "storable p opts g" and room: "card (active_ids g) < po_maxRecords opts"
    and valid: "canonicalizeLoopbackTarget p [] target = Inr target" "source_ok source" "timely opts now" "16 \<le> length fresh" "0 < po_ttlMs opts"
  shows "storable p opts (add_registration opts now fresh target mode source g)"
proof -
  have "registry_ok opts (add_registration opts now fresh target mode source g)"
    using g room by (intro add_registration_ok) (simp_all add: storable_def registry_ok_def)
  then show ?thesis unfolding add_registration_def Let_def
  proof (rule storable_await)
    let ?r = "\<lparr>pv_id = fresh, pv_target = target, pv_status = PreviewActive, pv_createdAt = now, pv_expiresAt = now + po_ttlMs opts,
      pv_revision = pw_revision g + 1, pv_pathMode = mode, pv_sources = [source]\<rparr>"
    let ?g = "g\<lparr>pw_revision := pw_revision g + 1, pw_records := jset (pw_records g) fresh ?r, pw_controllers := jset (pw_controllers g) fresh False\<rparr>"
    have "past_ids ?g \<subseteq> past_ids g" by (auto simp: past_ids_def is_active_def)
    from card_mono [OF finite_past this] g show "card (past_ids ?g) \<le> po_maxTombstones opts" by (simp add: storable_def)
    have "entry_valid p (pw_revision g + 1) ?r"
      using valid g by (simp add: entry_valid_def timely_def is_safe_integer_def storable_def)
    then show "records_valid p ?g" using g by (auto simp: storable_def intro: entry_valid_Suc)
  qed (use g in \<open>auto simp: storable_def\<close>)
qed

lemma past_change: "is_active r \<Longrightarrow> past_ids (change_record r (g\<lparr>pw_revision := v\<rparr>)) \<subseteq> past_ids g"
  by (auto simp: past_ids_def change_record_def)

lemma storable_renewal:
  assumes g: "storable p opts g" and room: "card (active_ids g - {pv_id r}) < po_maxRecords opts"
    and valid: "entry_valid p (pw_revision g) r" "timely opts now" "0 < po_ttlMs opts"
  shows "storable p opts (save_renewal opts now r g)"
proof -
  let ?r = "r\<lparr>pv_status := PreviewActive, pv_expiresAt := max (pv_expiresAt r) (now + po_ttlMs opts), pv_revision := pw_revision g + 1\<rparr>"
  let ?g = "change_record ?r (g\<lparr>pw_revision := pw_revision g + 1\<rparr>)"
  have r: "entry_valid p (pw_revision g + 1) ?r"
    using valid g by (auto simp: entry_valid_def timely_def is_safe_integer_def storable_def max_def)
  have ok: "registry_ok opts (save_renewal opts now r g)"
    by (rule save_renewal_ok) (use g room in \<open>simp_all add: storable_def\<close>)
  show ?thesis
  proof (cases "pv_status r \<noteq> PreviewExpired \<and> max (pv_expiresAt r) (now + po_ttlMs opts) = pv_expiresAt r")
    case True
    then show ?thesis using storable_answer [OF g] by (simp add: save_renewal_def Let_def)
  next
    case False
    then have run: "save_renewal opts now r g = await_save (SaveRenewal (pv_id r) r (pv_status r = PreviewExpired)) ?r ?g"
      by (auto simp: save_renewal_def Let_def)
    show ?thesis unfolding run
    proof (rule storable_await)
      show "registry_ok opts (await_save (SaveRenewal (pv_id r) r (pv_status r = PreviewExpired)) ?r ?g)" using ok run by simp
      from card_mono [OF finite_past past_change [where r = ?r and g = g and v = "pw_revision g + 1"]] g
      show "card (past_ids ?g) \<le> po_maxTombstones opts" by (fastforce simp: storable_def is_active_def)
      show "records_valid p ?g" using g r by (auto simp: storable_def change_record_def intro: entry_valid_Suc split: if_splits)
    qed (use g in \<open>auto simp: storable_def\<close>)
  qed
qed


lemma storable_share:
  assumes g: "storable p opts g" and r: "jget (pw_records g) (pv_id r) = Some r" "is_active r" and source: "source_ok source"
  shows "storable p opts (share_registration source r g)"
proof (cases "source \<in> set (pv_sources r) \<or> 256 \<le> length (pv_sources r)")
  case True
  with storable_answer [OF g] show ?thesis by (auto simp: share_registration_def)
next
  case False
  let ?r = "r\<lparr>pv_sources := pv_sources r @ [source], pv_revision := pw_revision g + 1\<rparr>"
  let ?g = "g\<lparr>pw_revision := pw_revision g + 1, pw_records := jset (pw_records g) (pv_id r) ?r\<rparr>"
  from False have run: "share_registration source r g = await_save (SaveSource (pv_id r) r) ?r ?g"
    by (simp add: share_registration_def Let_def)
  have "entry_valid p (pw_revision g) r" using g r(1) by (auto simp: storable_def)
  then have new: "entry_valid p (pw_revision g + 1) ?r" using False source g by (simp add: entry_valid_def storable_def)
  show ?thesis unfolding run
  proof (rule storable_await)
    have "registry_ok opts (share_registration source r g)"
      by (rule share_ok) (use g r in \<open>auto simp: storable_def active_ids_def\<close>)
    then show "registry_ok opts (await_save (SaveSource (pv_id r) r) ?r ?g)" by (simp add: run)
    have "past_ids ?g \<subseteq> past_ids g" by (rule past_set_active) (use r(2) in \<open>simp add: is_active_def\<close>)
    from card_mono [OF finite_past this] g show "card (past_ids ?g) \<le> po_maxTombstones opts" by (simp add: storable_def)
    show "records_valid p ?g" using g new by (auto simp: storable_def intro: entry_valid_Suc)
  qed (use g in \<open>auto simp: storable_def\<close>)
qed

lemma storable_register:
  assumes g0: "storable p opts g0" and fixed: "canonical_fixed p" and ttl: "0 < po_ttlMs opts"
    and calm: "timely opts now" "16 \<le> length fresh"
  shows "storable p opts (register_preview p opts now fresh input mode source g0)"
proof -
  define g where "g = expireDue opts now g0"
  have g: "storable p opts g" unfolding g_def by (rule storable_expireDue [OF g0])
  then have keyed: "keyed g" by (simp add: storable_def registry_ok_def)
  show ?thesis
  proof (cases "pw_closed g0 \<or> \<not> source_ok source")
    case True
    with storable_answer [OF g0] show ?thesis by (auto simp: register_preview_def)
  next
    case False
    have target: "canonicalizeLoopbackTarget p [] t = Inr t" if "canonicalizeLoopbackTarget p ps input = Inr t" for ps t
      using fixed canonical_unprotected [OF that] by (auto simp: canonical_fixed_def)
    have probing: "storable p opts (g\<lparr>pw_task := Some (ProbeNew t m source)\<rparr>)"
      if "active_count g < po_maxRecords opts" "canonicalizeLoopbackTarget p [] t = Inr t" for t m
      using g that False keyed
      by (auto simp: storable_def registry_ok_def task_within_def task_valid_def keyed_def active_ids_def past_ids_def active_count_card)
    have sharing: "storable p opts (share_registration source r g)"
      if "find (same_preview t m) (jvalues (pw_records g)) = Some r" for t m r
      using find_in [OF that] record_in [OF keyed] False
      by (intro storable_share [OF g]) (simp_all add: same_preview_def del: set_map)
    have adding: "storable p opts (add_registration opts now fresh t m source g)"
      if "active_count g < po_maxRecords opts" "canonicalizeLoopbackTarget p [] t = Inr t" for t m
      by (rule storable_add [OF g]) (use that keyed False calm ttl in \<open>simp_all add: active_count_card\<close>)
    show ?thesis unfolding register_preview_def Let_def g_def [symmetric]
      using False storable_answer [OF g] storable_answer [OF g0] probing sharing adding target
      by (auto split: sum.split option.split)
  qed
qed

lemma storable_renew:
  assumes g0: "storable p opts g0" and ttl: "0 < po_ttlMs opts" and calm: "timely opts now"
  shows "storable p opts (renew_preview p opts now i g0)"
proof -
  define g where "g = expireDue opts now g0"
  have g: "storable p opts g" unfolding g_def by (rule storable_expireDue [OF g0])
  then have keyed: "keyed g" and within: "card (active_ids g) \<le> po_maxRecords opts" by (simp_all add: storable_def registry_ok_def)
  have saving: "storable p opts (save_renewal opts now r g)"
    if "jget (pw_records g) i = Some r" "pv_status r = PreviewExpired \<longrightarrow> active_count g < po_maxRecords opts"
      "pv_status r \<noteq> PreviewUnregistered" for r
  proof (rule storable_renewal [OF g _ _ calm ttl])
    have id: "pv_id r = i" using keyed that(1) by (simp add: keyed_def)
    show "entry_valid p (pw_revision g) r" using g that(1) by (auto simp: storable_def)
    show "card (active_ids g - {pv_id r}) < po_maxRecords opts"
    proof (cases "is_active r")
      case True
      with that(1) id have "pv_id r \<in> active_ids g" by (simp add: active_ids_def)
      from card_others_in [OF this within finite_active] show ?thesis .
    next
      case False
      with that(2,3) keyed have "card (active_ids g) < po_maxRecords opts"
        by (cases "pv_status r") (auto simp: is_active_def active_count_card)
      from card_others [OF this finite_active] show ?thesis .
    qed
  qed
  have probing: "storable p opts (g\<lparr>pw_task := Some (ProbeRenewal i), pw_held := Some r\<rparr>)"
    if "jget (pw_records g) i = Some r" "active_count g < po_maxRecords opts" for r
    using g that keyed
    by (auto simp: storable_def registry_ok_def task_within_def task_valid_def keyed_def active_ids_def past_ids_def active_count_card)
  show ?thesis unfolding renew_preview_def Let_def g_def [symmetric]
    using storable_answer [OF g] storable_answer [OF g0] saving probing by (auto split: sum.split option.split)
qed

lemma storable_unregister:
  assumes g0: "storable p opts g0"
  shows "storable p opts (unregister_preview opts now i g0)"
proof -
  define g where "g = expireDue opts now g0"
  have g: "storable p opts g" unfolding g_def by (rule storable_expireDue [OF g0])
  then have keyed: "keyed g" by (simp add: storable_def registry_ok_def)
  have ok: "registry_ok opts (unregister_preview opts now i g0)"
    by (rule unregister_ok) (use g0 in \<open>simp add: storable_def\<close>)
  show ?thesis
  proof (cases "\<exists>r. \<not> pw_closed g0 \<and> jget (pw_records g) i = Some r \<and> pv_status r \<noteq> PreviewUnregistered")
    case False
    with storable_answer [OF g] storable_answer [OF g0] show ?thesis
      by (auto simp: unregister_preview_def Let_def simp flip: g_def split: option.split)
  next
    case True
    then obtain r where r: "\<not> pw_closed g0" "jget (pw_records g) i = Some r" "pv_status r \<noteq> PreviewUnregistered" by blast
    let ?r = "r\<lparr>pv_status := PreviewUnregistered, pv_revision := pw_revision g + 1\<rparr>"
    let ?h = "abort_signal i (g\<lparr>pw_revision := pw_revision g + 1, pw_records := jset (pw_records g) i ?r\<rparr>)"
    have run: "unregister_preview opts now i g0 = await_save (SaveUnregistered i r) ?r (prune opts ?h)"
      using r by (simp add: unregister_preview_def Let_def flip: g_def)
    have "pv_id r = i" using keyed r(2) by (simp add: keyed_def)
    then have h: "keyed ?h" using keyed by (auto simp: keyed_def)
    have "entry_valid p (pw_revision g) r" using g r(2) by (auto simp: storable_def)
    then have "entry_valid p (pw_revision g + 1) ?r" using g by (simp add: entry_valid_def storable_def)
    then have "records_valid p ?h" using g by (auto simp: storable_def intro: entry_valid_Suc)
    then have valid: "records_valid p (prune opts ?h)" using pruned_record [of opts ?h] unfolding prune_kept by blast
    show ?thesis unfolding run
      by (rule storable_await) (use ok run valid prune_past [OF h] g in \<open>auto simp: storable_def\<close>)
  qed
qed

lemma storable_probe:
  assumes g: "storable p opts g" and ttl: "0 < po_ttlMs opts" and calm: "timely opts now" "16 \<le> length fresh"
  shows "storable p opts (probe_answered opts now fresh failure g)"
proof -
  have adding: "storable p opts (add_registration opts now fresh t m s g)" if "pw_task g = Some (ProbeNew t m s)" for t m s
    by (rule storable_add [OF g]) (use g that ttl calm in \<open>simp_all add: storable_def registry_ok_def task_within_def task_valid_def\<close>)
  have renewing: "storable p opts (save_renewal opts now r g)" if "pw_task g = Some (ProbeRenewal i)" "pw_held g = Some r" for i r
    by (rule storable_renewal [OF g card_others]) (use g that ttl calm in \<open>simp_all add: storable_def registry_ok_def task_within_def task_valid_def\<close>)
  show ?thesis using g adding renewing storable_answer [OF g]
    by (auto simp: probe_answered_def split: option.split preview_task.split)
qed


lemma storable_same:
  assumes "storable p opts g" "pw_records g' = pw_records g" "pw_task g' = pw_task g" "pw_held g' = pw_held g"
    "pw_closed g' = pw_closed g" "pw_revision g' = pw_revision g"
  shows "storable p opts g'"
proof -
  have "registry_ok opts g'" by (rule registry_ok_same [of opts g]) (use assms in \<open>simp_all add: storable_def\<close>)
  moreover have "task_valid p g' = task_valid p g" unfolding task_valid_def assms(3,4,6) ..
  moreover have "past_ids g' = past_ids g" by (simp add: past_ids_def assms(2))
  ultimately show ?thesis using assms by (simp add: storable_def)
qed

lemma storable_write_ended: "storable p opts g \<Longrightarrow> storable p opts (write_ended w None g)"
proof -
  assume g: "storable p opts g"
  have "storable p opts (notify_previews g)" "storable p opts (notify_previews (g\<lparr>pw_controllers := c\<rparr>))" for c
    by (rule storable_same [OF g]; simp)+
  with g storable_answer show ?thesis
    by (auto simp: write_ended_def save_done_def split: writer.split option.split preview_task.split)
qed

lemma storable_fields:
  assumes "storable p opts g"
  shows "storable p opts (g\<lparr>pw_writes := ws\<rparr>)" "storable p opts (g\<lparr>pw_writes := ws, pw_writing := c\<rparr>)"
    "storable p opts (g\<lparr>pw_writing := c, pw_disk := d\<rparr>)"
  by (rule storable_same [OF assms]; simp)+

definition stored_valid :: "(string \<Rightarrow> url option) \<Rightarrow> preview_registry \<Rightarrow> bool" where
  "stored_valid p g \<longleftrightarrow> (\<forall>s. pw_disk g = Some s \<longrightarrow> validState p s) \<and> (\<forall>w c. pw_writing g = Some (w, c) \<longrightarrow> validState p c)"

lemma kept_disk_answer: "stored_valid p (answer_task a g) = stored_valid p g"
  by (simp add: stored_valid_def)

lemma mutation_disk:
  "pw_disk (register_preview p opts now fresh input mode source g) = pw_disk g"
  "pw_writing (register_preview p opts now fresh input mode source g) = pw_writing g"
  "pw_disk (renew_preview p opts now i g) = pw_disk g" "pw_writing (renew_preview p opts now i g) = pw_writing g"
  "pw_disk (unregister_preview opts now i g) = pw_disk g" "pw_writing (unregister_preview opts now i g) = pw_writing g"
  "pw_disk (probe_answered opts now fresh failure g) = pw_disk g" "pw_writing (probe_answered opts now fresh failure g) = pw_writing g"
  by (simp_all add: register_preview_def renew_preview_def unregister_preview_def probe_answered_def share_registration_def
      add_registration_def save_renewal_def Let_def split: sum.split option.split preview_task.split)

lemma storable_step:
  assumes g: "storable p opts g" and stored: "stored_valid p g" and fixed: "canonical_fixed p" and ttl: "0 < po_ttlMs opts"
    and calm: "calm opts ev" and limit: "pw_revision g \<le> max_safe_integer" "po_maxRecords opts + po_maxTombstones opts \<le> 384"
  shows "storable p opts (preview_step p opts g ev) \<and> stored_valid p (preview_step p opts g ev)"
proof (cases ev)
  case (RegisterPreview now fresh input mode source)
  with storable_register [OF g fixed ttl] g stored calm show ?thesis by (simp add: calm_def stored_valid_def mutation_disk)
next
  case (RenewPreview now i)
  with storable_renew [OF g ttl] g stored calm show ?thesis by (simp add: calm_def stored_valid_def mutation_disk)
next
  case (UnregisterPreview now i)
  with storable_unregister [OF g] g stored show ?thesis by (simp add: stored_valid_def mutation_disk)
next
  case (ProbeAnswered now fresh failure)
  with storable_probe [OF g ttl] stored calm show ?thesis by (simp add: calm_def stored_valid_def mutation_disk)
next
  case StartWrite
  have valid: "validState p (state_of_registry g)" by (rule storable_valid [OF g limit])
  have "\<not> pw_closed g" using g by (simp add: storable_def)
  with StartWrite g stored valid storable_fields(2) [OF g] show ?thesis
    by (auto simp: start_write_def stored_valid_def split: option.split list.split)
next
  case (FinishWrite outcome)
  with calm have "outcome = Written" by (simp add: calm_def)
  with FinishWrite g stored storable_write_ended [OF storable_fields(3) [OF g]] show ?thesis
    by (auto simp: finish_write_def Let_def stored_valid_def write_ended_def save_done_def
        split: option.split writer.split preview_task.split)
next
  case (ExpiryTimer now)
  with storable_expireDue [OF g] stored show ?thesis by (simp add: stored_valid_def)
next
  case (ReadPreviews now)
  with storable_expireDue [OF g] stored show ?thesis by (simp add: snapshot_previews_def Let_def stored_valid_def)
next
  case ClosePreviews
  with calm show ?thesis by (simp add: calm_def)
qed

lemma storable_run:
  assumes "storable p opts g" "stored_valid p g" "canonical_fixed p" "0 < po_ttlMs opts" "po_maxRecords opts + po_maxTombstones opts \<le> 384"
    and "run_ok (\<lambda>g ev. calm opts ev \<and> pw_revision g \<le> max_safe_integer) (preview_step p opts) g events"
  shows "storable p opts (foldl (preview_step p opts) g events) \<and> stored_valid p (foldl (preview_step p opts) g events)"
  using assms(1,2,6)
proof (induction events arbitrary: g)
  case (Cons ev events)
  have "storable p opts (preview_step p opts g ev) \<and> stored_valid p (preview_step p opts g ev)"
    using storable_step [OF Cons.prems(1,2) assms(3,4) _ _ assms(5), of ev] Cons.prems(3) by simp
  with Cons show ?case by simp
qed simp

lemma storable_create:
  assumes create: "create_registry p opts now file = Inr g"
    and loaded: "\<And>s. file = Some s \<Longrightarrow> length (filter is_active (sv_registrations s)) \<le> po_maxRecords opts
      \<and> length (filter (\<lambda>r. \<not> is_active r) (sv_registrations s)) \<le> po_maxTombstones opts"
  shows "storable p opts g \<and> stored_valid p g"
proof (cases "file")
  case None
  define g0 :: preview_registry where "g0 = \<lparr>pw_revision = 0, pw_closed = False, pw_records = [], pw_controllers = [], pw_task = None, pw_held = None,
    pw_writes = [], pw_writing = None, pw_disk = None, pw_notified = [], pw_answers = []\<rparr>"
  have "storable p opts g0"
    by (simp add: g0_def storable_def registry_ok_def keyed_def active_ids_def past_ids_def task_within_def task_valid_def)
  moreover have "g = expireDue opts now g0" using create None by (auto simp: create_registry_def Let_def g0_def split: if_splits)
  ultimately show ?thesis using storable_expireDue by (simp add: stored_valid_def g0_def)
next
  case (Some s)
  define g0 where "g0 = \<lparr>pw_revision = sv_revision s, pw_closed = False, pw_records = map (\<lambda>r. (pv_id r, r)) (sv_registrations s),
    pw_controllers = map (\<lambda>r. (pv_id r, False)) (filter is_active (sv_registrations s)), pw_task = None, pw_held = None,
    pw_writes = [], pw_writing = None, pw_disk = file, pw_notified = [], pw_answers = []\<rparr>"
  have valid: "validState p s" and g: "g = expireDue opts now g0"
    using create Some by (auto simp: create_registry_def Let_def g0_def split: if_splits)
  have keyed: "keyed g0" using valid
    by (auto simp: g0_def keyed_def wf_jmap_def validState_def comp_def dest!: map_of_SomeD)
  have active: "card (active_ids g0) \<le> po_maxRecords opts"
    using loaded [OF Some] active_count_card [OF keyed] by (simp add: active_count_def g0_def comp_def)
  have "length (pw_records g0) = length (filter is_active (sv_registrations s)) + length (filter (\<lambda>r. \<not> is_active r) (sv_registrations s))"
    by (simp add: g0_def sum_length_filter_compl)
  then have "card (past_ids g0) \<le> po_maxTombstones opts"
    using records_length [OF keyed] active_count_card [OF keyed] loaded [OF Some] by (simp add: active_count_def g0_def comp_def)
  moreover have "records_valid p g0"
    using valid by (auto simp: g0_def validState_def list_all_iff entry_valid_def valid_registration_def dest!: map_of_SomeD)
  moreover have "0 \<le> pw_revision g0" using valid by (simp add: g0_def validState_def)
  ultimately have "storable p opts g0"
    using keyed active by (simp add: storable_def registry_ok_def task_within_def task_valid_def) (simp add: g0_def)
  moreover have "stored_valid p g0" using valid Some by (simp add: stored_valid_def g0_def)
  ultimately show ?thesis unfolding g using storable_expireDue by (simp add: stored_valid_def)
qed

section \<open>Guarantees\<close>

text \<open>C38: The number of open previews is bounded. Starting from an empty file, or one with at most
  \<open>maxRecords\<close> active registrations, at most \<open>maxRecords\<close> registrations are active after any sequence of
  registrations, renewals, removals, probes, expiries and writes that succeed or fail, including those that
  take a change back.\<close>
theorem previews_within_limit:
  assumes "create_registry parse_url opts now file = Inr g"
    and "\<And>s. file = Some s \<Longrightarrow> length (filter is_active (sv_registrations s)) \<le> po_maxRecords opts"
  shows "active_count (foldl (preview_step parse_url opts) g events) \<le> po_maxRecords opts"
  using preview_machine.run_inv [OF create_registry_ok [OF assms]]
  by (simp add: registry_ok_def active_count_card)


text \<open>C39: Revoking a preview is final. Once the write of an unregistration has succeeded, and whatever
  happens afterwards (renewals of the same identity, new registrations, expiries, failing writes that are taken
  back, closing), its signal is aborted, it is never active again, and no content of the file brings it back
  when the registry is created again. Hypothesis: no later registration draws the same random identity.\<close>
theorem unregistered_preview_stays_closed:
  assumes "create_registry parse_url opts now file = Inr g0"
    and "\<And>s. file = Some s \<Longrightarrow> length (filter is_active (sv_registrations s)) \<le> po_maxRecords opts"
    and "g = foldl (preview_step parse_url opts) g0 before"
    and "pw_task g = Some (SaveUnregistered i previous)" "pw_writing g = Some (TaskWriter, content)"
    and "list_all (\<lambda>ev. \<not> draws ev i) later"
    and "g' = foldl (preview_step parse_url opts) (finish_write Written g) later"
  shows "fst (signal_aborted opts time i g')
     \<and> (\<forall>r. fst (lookup_preview opts time i g') = Some r \<longrightarrow> pv_status r = PreviewUnregistered)
     \<and> (\<forall>s. pw_disk g' = Some s \<longrightarrow> (\<forall>r \<in> set (sv_registrations s). pv_id r = i \<longrightarrow> pv_status r = PreviewUnregistered))"
proof -
  have ok: "preview_ok opts g" unfolding assms(3) by (rule preview_saves.run_inv [OF create_preview_ok [OF assms(1,2)]])
  then have shut: "shut i g" and content: "without i content"
    using assms(4,5) by (auto simp: preview_ok_def unregistering_ok_def)
  define h where "h = finish_write Written g"
  have run: "h = save_done (g\<lparr>pw_writing := None, pw_disk := Some content\<rparr>)"
    by (simp add: h_def finish_write_def assms(5) Let_def write_ended_def)
  have fields: "pw_disk h = Some content" "pw_writing h = None" "pw_task h = None" "pw_records h = pw_records g" "pw_controllers h = pw_controllers g"
    unfolding run by (simp_all add: save_done_def assms(4))
  have "shut_for_good opts i h"
    using shut content fields finish_write_ok [of opts g Written] ok
    by (auto simp: shut_for_good_def shut_def elsewhere_def preview_ok_def simp flip: h_def)
  then have "shut_for_good opts i g'" unfolding assms(7) h_def [symmetric]
    using assms(6) by (induction later arbitrary: h) (auto intro: shut_step)
  then have good: "keyed g'" "shut i g'" "\<And>c. pw_disk g' = Some c \<Longrightarrow> without i c"
    by (auto simp: shut_for_good_def registry_ok_def)
  from shut_expireDue [OF good(1,2), of opts time] good(3) show ?thesis
    by (auto simp: signal_aborted_def lookup_preview_def Let_def shut_def without_def split: option.split)
qed




section \<open>Concrete registries\<close>

definition sample_url :: "nat \<Rightarrow> url" where
  "sample_url port = \<lparr>url_protocol = ''http:'', url_username = [], url_password = [], url_hostname = ''127.0.0.1'', url_port = Some port\<rparr>"

definition sample_parse :: "string \<Rightarrow> url option" where
  "sample_parse s =
     (if s = ''http://127.0.0.1:8'' then Some (sample_url 8)
      else if s = ''http://127.0.0.1:9'' then Some (sample_url 9) else None)"

definition sample_previews :: preview_options where
  "sample_previews = \<lparr>po_ttlMs = 10, po_maxRecords = 2, po_maxTombstones = 1, po_protectedPorts = [], po_probe = False\<rparr>"

definition sample_registry :: preview_registry where
  "sample_registry = \<lparr>pw_revision = 0, pw_closed = False, pw_records = [], pw_controllers = [], pw_task = None, pw_held = None,
     pw_writes = [], pw_writing = None, pw_disk = None, pw_notified = [], pw_answers = []\<rparr>"

abbreviation preview_run :: "preview_event list \<Rightarrow> preview_registry" where
  "preview_run \<equiv> foldl (preview_step sample_parse sample_previews) sample_registry"

definition first_id :: string where
  "first_id = ''aaaaaaaaaaaaaaaa''"

definition second_id :: string where
  "second_id = ''bbbbbbbbbbbbbbbb''"

lemma sample_ids [simp]: "first_id \<noteq> second_id" "second_id \<noteq> first_id" "length first_id = 16" "length second_id = 16"
  by (simp_all add: first_id_def second_id_def)

definition sample_origin :: "preview_source" where
  "sample_origin = \<lparr>ps_sessionId = ''s'', ps_itemId = ''i''\<rparr>"

definition sample_first :: preview_event where
  "sample_first = RegisterPreview 0 first_id ''http://127.0.0.1:8'' None sample_origin"

definition sample_second :: preview_event where
  "sample_second = RegisterPreview 5 second_id ''http://127.0.0.1:9'' None sample_origin"

lemma preview_created: "create_registry sample_parse sample_previews 0 None = Inr sample_registry"
  by (simp add: create_registry_def sample_previews_def sample_registry_def expireDue_def any_due_def is_safe_integer_def max_safe_integer_def)

text \<open>The sample URL parser has two URLs, each the canonical form of its target.\<close>

lemma sample_scheme: "has_scheme (''http://'' @ s)"
  by (simp add: has_scheme_def target_scheme_char_def is_ascii_letter_def is_digit_def)

lemma sample_hostname: "unbracket (ascii_lower ''127.0.0.1'') = ''127.0.0.1''"
  by (simp add: unbracket_def ascii_lower_def lower_char_def)

lemma sample_digits: "decimal 8 = ''8''" "decimal 9 = ''9''"
  by code_simp+

lemma sample_loopback:
  "loopback_origin sample_parse t =
     (if (if has_scheme t then t else ''http://'' @ t) = ''http://127.0.0.1:8'' then Inr (''http://127.0.0.1:8'', 8)
      else if (if has_scheme t then t else ''http://'' @ t) = ''http://127.0.0.1:9'' then Inr (''http://127.0.0.1:9'', 9)
      else Inl (Thrown PlainError ''ERR_INVALID_URL'' ''Invalid URL''))"
  by (simp add: loopback_origin_def sample_parse_def sample_url_def sample_hostname origin_text_def default_port_def sample_digits)

lemma sample_targets [simp]:
  "canonicalizeLoopbackTarget sample_parse [] ''http://127.0.0.1:8'' = Inr ''http://127.0.0.1:8''"
  "canonicalizeLoopbackTarget sample_parse [] ''http://127.0.0.1:9'' = Inr ''http://127.0.0.1:9''"
  using sample_scheme [of "''127.0.0.1:8''"] sample_scheme [of "''127.0.0.1:9''"]
  by (simp_all add: canonicalizeLoopbackTarget_def sample_loopback)

lemma sample_fixed: "canonical_fixed sample_parse"
proof -
  have two: "u = ''http://127.0.0.1:8'' \<or> u = ''http://127.0.0.1:9''" if "canonicalizeLoopbackTarget sample_parse [] t = Inr u" for t u
  proof -
    define s where "s = (if has_scheme t then t else ''http://'' @ t)"
    from that show ?thesis unfolding canonicalizeLoopbackTarget_def sample_loopback s_def [symmetric]
      by (cases "s = ''http://127.0.0.1:8''"; cases "s = ''http://127.0.0.1:9''") simp_all
  qed
  show ?thesis unfolding canonical_fixed_def
  proof (intro allI impI)
    fix t u
    assume "canonicalizeLoopbackTarget sample_parse [] t = Inr u"
    from two [OF this] show "canonicalizeLoopbackTarget sample_parse [] u = Inr u"
      by (elim disjE) (simp_all only: sample_targets)
  qed
qed

lemma sample_source [simp]: "source_ok sample_origin"
  by (simp add: source_ok_def sample_origin_def)

lemmas preview_eval =
  sample_first_def sample_second_def sample_previews_def sample_registry_def register_preview_def renew_preview_def
  unregister_preview_def share_registration_def add_registration_def save_renewal_def expireDue_def any_due_def is_active_def
  active_count_def await_save_def persist_def start_write_def finish_write_def write_ended_def save_done_def save_failed_def
  answer_task_def state_of_registry_def drop_record_def roll_back_def expire_entry_def abort_signal_def prune_def tombstones_def
  follow_held_def notify_previews_def change_record_def Let_def

lemma sample_saved:
  "pw_disk (preview_run [sample_first, StartWrite, FinishWrite Written]) = Some \<lparr>sv_version = 1, sv_revision = 1,
     sv_registrations = [\<lparr>pv_id = first_id, pv_target = ''http://127.0.0.1:8'', pv_status = PreviewActive, pv_createdAt = 0,
       pv_expiresAt = 10, pv_revision = 1, pv_pathMode = StripPath, pv_sources = [sample_origin]\<rparr>]\<rparr>"
  by (simp add: preview_eval)


lemma previews_within_limit_witness:
  "active_count (preview_run [sample_first, StartWrite, FinishWrite Written]) \<le> 2"
  using previews_within_limit [OF preview_created, of "[sample_first, StartWrite, FinishWrite Written]"]
  by (simp add: sample_previews_def)


definition unregistering :: "preview_event list" where
  "unregistering = [sample_first, StartWrite, FinishWrite Written, UnregisterPreview 6 first_id, StartWrite]"

lemma unregistering_saves:
  "\<exists>previous content. pw_task (preview_run unregistering) = Some (SaveUnregistered first_id previous)
     \<and> pw_writing (preview_run unregistering) = Some (TaskWriter, content)"
  by (simp add: unregistering_def preview_eval)

lemma unregistered_preview_stays_closed_witness:
  "fst (signal_aborted sample_previews 7 first_id (foldl (preview_step sample_parse sample_previews)
     (finish_write Written (preview_run unregistering)) [RenewPreview 7 first_id, sample_second]))"
proof -
  obtain previous content where saves: "pw_task (preview_run unregistering) = Some (SaveUnregistered first_id previous)"
    "pw_writing (preview_run unregistering) = Some (TaskWriter, content)" using unregistering_saves by blast
  have "list_all (\<lambda>ev. \<not> draws ev first_id) [RenewPreview 7 first_id, sample_second]"
    by (simp add: draws_def sample_second_def)
  from unregistered_preview_stays_closed [OF preview_created _ refl saves this refl, of 7] show ?thesis by simp
qed

text \<open>A save that fails after a concurrent expiry takes the revision of the expiry back: the file written next
  holds a registration newer than the file and is refused when the registry is created again.\<close>

definition first_entry :: registration where
  "first_entry = \<lparr>pv_id = first_id, pv_target = ''http://127.0.0.1:8'', pv_status = PreviewActive, pv_createdAt = 0,
     pv_expiresAt = 10, pv_revision = 1, pv_pathMode = StripPath, pv_sources = [sample_origin]\<rparr>"

definition second_entry :: registration where
  "second_entry = \<lparr>pv_id = second_id, pv_target = ''http://127.0.0.1:9'', pv_status = PreviewActive, pv_createdAt = 5,
     pv_expiresAt = 15, pv_revision = 2, pv_pathMode = StripPath, pv_sources = [sample_origin]\<rparr>"

definition failing_save :: "preview_event list" where
  "failing_save = [sample_second, StartWrite, ExpiryTimer 10, FinishWrite (NotWritten (Thrown PlainError [] [])), StartWrite,
     FinishWrite Written]"

lemma first_saved:
  "\<exists>n a. preview_run [sample_first, StartWrite, FinishWrite Written]
     = \<lparr>pw_revision = 1, pw_closed = False, pw_records = [(first_id, first_entry)], pw_controllers = [(first_id, False)], pw_task = None,
        pw_held = None, pw_writes = [], pw_writing = None, pw_disk = Some \<lparr>sv_version = 1, sv_revision = 1, sv_registrations = [first_entry]\<rparr>,
        pw_notified = n, pw_answers = a\<rparr>"
  by (simp add: preview_eval first_entry_def)

lemma second_saving:
  "\<exists>n. foldl (preview_step sample_parse sample_previews)
       \<lparr>pw_revision = 1, pw_closed = False, pw_records = [(first_id, first_entry)], pw_controllers = [(first_id, False)], pw_task = None,
        pw_held = None, pw_writes = [], pw_writing = None, pw_disk = d, pw_notified = n0, pw_answers = a\<rparr>
       [sample_second, StartWrite, ExpiryTimer 10]
     = \<lparr>pw_revision = 3, pw_closed = False,
        pw_records = [(first_id, first_entry\<lparr>pv_status := PreviewExpired, pv_revision := 3\<rparr>), (second_id, second_entry)],
        pw_controllers = [(first_id, True), (second_id, False)], pw_task = Some (SaveNew second_id), pw_held = Some second_entry,
        pw_writes = [ExpiryWriter], pw_writing = Some (TaskWriter, \<lparr>sv_version = 1, sv_revision = 2, sv_registrations = [first_entry, second_entry]\<rparr>),
        pw_disk = d, pw_notified = n, pw_answers = a\<rparr>"
  by (simp add: preview_eval first_entry_def second_entry_def same_preview_def)

lemma second_lost:
  "pw_disk (foldl (preview_step sample_parse sample_previews)
       \<lparr>pw_revision = 3, pw_closed = False,
        pw_records = [(first_id, first_entry\<lparr>pv_status := PreviewExpired, pv_revision := 3\<rparr>), (second_id, second_entry)],
        pw_controllers = [(first_id, True), (second_id, False)], pw_task = Some (SaveNew second_id), pw_held = Some second_entry,
        pw_writes = [ExpiryWriter], pw_writing = Some (TaskWriter, c), pw_disk = d, pw_notified = n, pw_answers = a\<rparr>
       [FinishWrite (NotWritten (Thrown PlainError [] [])), StartWrite, FinishWrite Written])
     = Some \<lparr>sv_version = 1, sv_revision = 2, sv_registrations = [first_entry\<lparr>pv_status := PreviewExpired, pv_revision := 3\<rparr>]\<rparr>"
  by (simp add: preview_eval)

lemma failed_save_spoils_the_file:
  "\<exists>s. pw_disk (preview_run ([sample_first, StartWrite, FinishWrite Written] @ failing_save)) = Some s \<and> \<not> validState sample_parse s"
proof -
  obtain n a where first: "preview_run [sample_first, StartWrite, FinishWrite Written]
     = \<lparr>pw_revision = 1, pw_closed = False, pw_records = [(first_id, first_entry)], pw_controllers = [(first_id, False)], pw_task = None,
        pw_held = None, pw_writes = [], pw_writing = None, pw_disk = Some \<lparr>sv_version = 1, sv_revision = 1, sv_registrations = [first_entry]\<rparr>,
        pw_notified = n, pw_answers = a\<rparr>"
    using first_saved by blast
  have split: "failing_save = [sample_second, StartWrite, ExpiryTimer 10]
      @ [FinishWrite (NotWritten (Thrown PlainError [] [])), StartWrite, FinishWrite Written]"
    by (simp add: failing_save_def)
  have "pw_disk (preview_run ([sample_first, StartWrite, FinishWrite Written] @ failing_save))
      = Some \<lparr>sv_version = 1, sv_revision = 2, sv_registrations = [first_entry\<lparr>pv_status := PreviewExpired, pv_revision := 3\<rparr>]\<rparr>"
    unfolding foldl_append split first using second_saving second_lost by metis
  then show ?thesis by (simp add: validState_def valid_registration_def)
qed

text \<open>A renewal that is saved after the renewed registration has expired again leaves an expired
  preview with a live signal.\<close>

definition late_renewal :: "preview_event list" where
  "late_renewal = [sample_first, StartWrite, FinishWrite Written, RenewPreview 20 first_id, StartWrite, FinishWrite Written,
     StartWrite, ExpiryTimer 40, FinishWrite Written]"

lemma late_renewal_keeps_signal:
  "map_option pv_status (fst (lookup_preview sample_previews 40 first_id (preview_run late_renewal))) = Some PreviewExpired
   \<and> \<not> fst (signal_aborted sample_previews 40 first_id (preview_run late_renewal))"
  by (simp add: late_renewal_def preview_eval lookup_preview_def signal_aborted_def)

end
