(* ===== verification/Spec2Isabelle.thy ===== *)
theory Spec2Isabelle
  imports Timeline_Properties Replica_Interactions Operation_Cache_Properties
    Session_Control_Properties Session_Bindings_Properties Setting_Changes_Properties
    Tunnel_Flow_Properties Tunnel_Peer_Properties Http_Admission Session_Context_Properties Message_Outbox_Properties
    Agent_Manager_Properties Preview_Registry_File
begin

text \<open>
  A model of the session core of agent-remote-control: what happens between a native coding agent on a
  developer's machine and the browsers that follow it. All paths are below \<open>src/packages/\<close>.

  \<^bold>\<open>The program.\<close> A provider adapter observes a native session and hands its records to the relay
  (\<open>agent-remote-relay\<close>). One agent manager per session stores timeline records in a canonical store,
  reduces the others to a session snapshot, and publishes both. Pages of history are projections of the
  store. A browser (\<open>agent-remote-web\<close>) keeps a replica: it starts from a page, follows live messages,
  recovers from gaps with further pages, and settles the messages it has sent by their echoes. Requests of
  clients run through an operation cache that makes them safe to repeat, under grants of the session
  control registry and bindings of native to public sessions; accepted setting changes are followed until the
  runtime confirms them. Previews of local web servers travel through a multiplexed tunnel
  (\<open>agent-remote-tunnel\<close>) with per-stream credits, a bounded send queue and an admission limit.

  \<^bold>\<open>Theories and code.\<close>
  \<^item> \<open>Prelude\<close>, \<open>Js_Text\<close>, \<open>Json_Text\<close>, \<open>Json_Parse\<close>: what the code uses of JavaScript: errors as values
    (\<open>js_error + 'a\<close>), maps in insertion order, arrays, text, dates, \<open>JSON.stringify\<close> and \<open>JSON.parse\<close>; the
    locales \<open>machine\<close> (a step function that keeps an invariant), \<open>simulation\<close> and \<open>replay_log\<close>, each
    interpreted on the components below.
  \<^item> \<open>Background\<close>, \<open>Interactions\<close>, \<open>Timeline_Types\<close>, \<open>Session_State\<close>: the data of \<open>agent-remote-protocol\<close> with
    \<open>mergeBackgroundActivity\<close>, \<open>updateUsageSnapshot\<close>, validation and redaction of interactions
    (\<open>agent-provider-sdk/src/interactions.ts\<close>) and \<open>reduceSessionState\<close>. \<open>Session_Properties\<close> shows that an
    accepted response was offered, that redaction leaves no secret and changes no verdict.
  \<^item> \<open>Timeline_Store\<close> (\<open>timeline-store.ts\<close>), \<open>Timeline_Projector\<close> (\<open>timeline-projector.ts\<close>), \<open>Replica\<close>
    (\<open>replica/reducer.ts\<close>): rows, entries, pages and the replica. The lemmas: the store's invariant, exactly-once
    storage, the partition of the rows by the projection. \<open>Convergence\<close> relates the projection of all rows to
    the replica that folds one live message at a time (interpretation \<open>live\<close> of \<open>simulation\<close>);
    \<open>Timeline_Properties\<close> concludes that a replica equals the relay's projection, also after a gap.
    \<open>Replica_Interactions\<close>: the replica's copies of the pending interactions agree.
  \<^item> \<open>Agent_Manager\<close>, \<open>Agent_Manager_Properties\<close> (\<open>agent-manager.ts\<close>): how observations become rows, state and
    events. An \<open>action\<close> returns the exception and the manager with what was done until then; the relation
    \<open>manager_step\<close> has every operation as a step and single observations as steps of their own, so that the
    loops over observations may interleave with everything else.
  \<^item> \<open>Operation_Intent\<close>, \<open>Operation_Cache\<close>, \<open>_Invariant\<close>, \<open>_System\<close>, \<open>_Properties\<close> (\<open>operation-cache.ts\<close>): the
    canonical text of an intent, every operation of the cache, and the event system of requests and
    suspended runs. At most one dispatch, replay from the receipt, exact accounting within the limits.
  \<^item> \<open>Session_Control\<close> (\<open>session-control.ts\<close>), \<open>Session_Bindings\<close> (\<open>session-bindings.ts\<close>), \<open>Setting_Changes\<close>
    (\<open>session-setting-changes.ts\<close>) with their \<open>_Properties\<close>: grants, identities and setting intents.
  \<^item> \<open>Session_Context\<close> (\<open>session-context.ts\<close>): excerpts and reference notes in message text;
    \<open>Message_Outbox\<close> (\<open>replica/message-outbox.ts\<close>, \<open>replica/store.ts\<close>): sent messages and their echoes.
  \<^item> \<open>Tunnel_Frames\<close>, \<open>Tunnel_Codec\<close> (\<open>codec.ts\<close>), \<open>Tunnel_Outbound\<close> (\<open>outbound.ts\<close>), \<open>Tunnel_Flow\<close> and
    \<open>Tunnel_Peer\<close> (\<open>peer.ts\<close>), \<open>Http_Admission\<close> (\<open>http-admission.ts\<close>): frames, send queue, credit windows and
    bodies, streams, admission.
  \<^item> \<open>Preview_Registry\<close>, \<open>_Properties\<close>, \<open>_File\<close> (\<open>agent-remote-tunnel/src/node/registry.ts\<close>): the registrations of local web servers
    that may be reached through the tunnel, with the write queue of their file.


  \<^bold>\<open>How code becomes definitions.\<close> A class or closure with state is a record, a method a function on it
  that returns the record updated; an interface is a record, a union a datatype. An exception is \<open>Inl\<close>. An
  asynchronous method is cut where it awaits: each part up to the next await is one definition, and the step
  function or relation of the component allows every order of the parts. Timers, sockets, clocks and
  outcomes of provider calls are inputs of the steps. Random identifiers are fresh numbers or arguments.
  Events handed to listeners are appended to a list of the state. Numbers are integers where the code checks
  \<open>Number.isSafeInteger\<close> or counts; the bound is checked where the code checks it. Strings hold code points
  below 256.

  \<^bold>\<open>Bounds and fuel.\<close> All functions are total. The parser of \<open>Json_Parse\<close> and the scanner of excerpts
  recurse on the remaining text; the loops of the send queue run on the list of pending frames. No theorem
  is conditional on fuel.

  \<^bold>\<open>Arguments of the model\<close> (code outside the components, or of the platform): the digest of the operation
  cache and of echoes, the text of a runtime report (\<open>print_runtime\<close>), the bindings that resource ingestion
  starts for an item (\<open>acquired\<close>), clocks, the socket, the provider's handlers. The URL parser of
  the platform (\<open>parse_url\<close>).

  \<^bold>\<open>Not modelled.\<close> Of the agent manager: sending messages, commands, skills and uploads, and the ingestion of
  resources (I/O around a provider). The codecs of protocol messages other than tunnel frames (schemas of a
  validation library). The HTTP and WebSocket transports of relay and host, the hosted gateway, broker and
  its stores, the host process and its supervisors (process and network I/O around the components above).
  The provider adapters (they translate the formats of third-party programs). The React user interface,
  the lab, the debugger, platform services and the Cloudflare worker (rendering and glue).
\<close>

end
